(* ===== verification/Prelude.thy ===== *)
theory Prelude
  imports Main "HOL-Library.Finite_Map" "HOL-Library.List_Lexorder" "HOL-Library.Char_ord"
    "HOL-Library.Monad_Syntax"
begin

text \<open>
  Shared vocabulary of the QuorumKV development: the Go types every package uses (bytes, strings,
  64-bit unsigned integers), the wrap-around arithmetic on them, and the generic facts on lists,
  finite maps and majorities that the component theories rely on.

  \<^item> A Go \<open>byte\<close> is an Isabelle \<open>char\<close> (both have 256 values), so \<open>[]byte\<close> and \<open>string\<close> are both
    \<open>char list\<close>. Go compares strings and \<open>bytes.Compare\<close> compares byte slices lexicographically
    by byte value, which is the order that \<open>List_Lexorder\<close> and \<open>Char_ord\<close> put on \<open>char list\<close>.
  \<^item> A Go \<open>uint64\<close> is a \<open>nat\<close> below \<open>W64 = 2 ^ 64\<close>; every addition and subtraction of the source that
    can leave the range is written with \<open>add64\<close> and \<open>sub64\<close>, which wrap as Go does.
  \<^item> A Go run-time panic (an index or a slice bound out of range, an explicit \<open>panic\<close>) is the
    value \<open>None\<close> of an \<open>option\<close>; the code after it does not run.
\<close>

section \<open>Bytes, strings and machine integers\<close>

type_synonym byte = char
type_synonym bytes = "char list"
type_synonym u8 = nat
type_synonym u32 = nat
type_synonym u64 = nat

text \<open>
  Unsigned 64-bit addition and subtraction, with Go's wrap-around. The modulus has a name of its
  own, so that arithmetic decision procedures treat it as an opaque bound.
\<close>

definition W64 :: nat where
  "W64 = 2 ^ 64"

definition add64 :: "u64 \<Rightarrow> u64 \<Rightarrow> u64" where
  "add64 a b = (a + b) mod W64"

definition sub64 :: "u64 \<Rightarrow> u64 \<Rightarrow> u64" where
  "sub64 a b = (a + W64 - b) mod W64"

named_theorems u64_defs \<open>unfold the wrap-around arithmetic for evaluation\<close>
lemmas [u64_defs] = add64_def sub64_def W64_def

lemma W64_pos [simp]: "0 < W64"
  by (simp add: W64_def)

lemma one_less_W64 [simp]: "Suc 0 < W64"
  unfolding W64_def One_nat_def [symmetric] by (rule one_less_power) simp_all

lemma small_less_W64: "n \<le> 1000 \<Longrightarrow> n < W64"
  unfolding W64_def by (rule le_less_trans [of n 1000]) simp_all

lemma add64_small [simp]: "a + b < W64 \<Longrightarrow> add64 a b = a + b"
  by (simp add: add64_def)

lemma sub64_small [simp]: "b \<le> a \<Longrightarrow> a < W64 \<Longrightarrow> sub64 a b = a - b"
proof -
  assume "b \<le> a" "a < W64"
  then have "a + W64 - b = (a - b) + W64" and "a - b < W64" by auto
  then show ?thesis unfolding sub64_def by (simp only: mod_add_self2 mod_less)
qed

lemma add64_bound [simp]: "add64 a b < W64"
  by (simp add: add64_def)

lemma sub64_bound [simp]: "sub64 a b < W64"
  by (simp add: sub64_def)

lemma add64_wraps: "add64 (W64 - 1) 1 = 0"
  by (simp add: add64_def)

section \<open>Lists\<close>

text \<open>Go's \<open>xs[i]\<close> and \<open>xs[:k]\<close>, \<open>xs[k:]\<close>: \<open>None\<close> is the bounds panic.\<close>

definition index_at :: "'a list \<Rightarrow> nat \<Rightarrow> 'a option" where
  "index_at xs i = (if i < length xs then Some (xs ! i) else None)"

definition slice_to :: "'a list \<Rightarrow> nat \<Rightarrow> 'a list option" where
  "slice_to xs k = (if k \<le> length xs then Some (take k xs) else None)"

definition slice_from :: "'a list \<Rightarrow> nat \<Rightarrow> 'a list option" where
  "slice_from xs k = (if k \<le> length xs then Some (drop k xs) else None)"

lemma index_at_Some [simp]: "i < length xs \<Longrightarrow> index_at xs i = Some (xs ! i)"
  by (simp add: index_at_def)

lemma slice_to_Some [simp]: "k \<le> length xs \<Longrightarrow> slice_to xs k = Some (take k xs)"
  by (simp add: slice_to_def)

lemma slice_from_Some [simp]: "k \<le> length xs \<Longrightarrow> slice_from xs k = Some (drop k xs)"
  by (simp add: slice_from_def)

lemma index_at_eq_Some: "index_at xs i = Some x \<longleftrightarrow> i < length xs \<and> xs ! i = x"
  by (auto simp: index_at_def)

text \<open>
  \<open>sort.Search(n, f)\<close>: the binary search for the least index at which a monotone predicate holds,
  with the loop of the library; on a monotone predicate it is that least index, or \<open>n\<close>.
\<close>

function search_between :: "(nat \<Rightarrow> bool) \<Rightarrow> nat \<Rightarrow> nat \<Rightarrow> nat" where
  "search_between f i j =
    (if i < j then
       let h = (i + j) div 2 in
       if \<not> f h then search_between f (h + 1) j else search_between f i h
     else i)"
  by pat_completeness auto
termination
  by (relation "measure (\<lambda>(f, i, j). j - i)") auto

declare search_between.simps [simp del]

definition sort_search :: "nat \<Rightarrow> (nat \<Rightarrow> bool) \<Rightarrow> nat" where
  "sort_search n f = search_between f 0 n"

lemma search_between_spec:
  assumes "\<And>a b. a \<le> b \<Longrightarrow> b < n \<Longrightarrow> f a \<Longrightarrow> f b" and "i \<le> j" and "j \<le> n"
    and "\<And>a. a < i \<Longrightarrow> \<not> f a" and "\<And>a. j \<le> a \<Longrightarrow> a < n \<Longrightarrow> f a"
  shows "search_between f i j \<le> n \<and> (\<forall>a < search_between f i j. \<not> f a)
    \<and> (\<forall>a. search_between f i j \<le> a \<and> a < n \<longrightarrow> f a)"
  using assms
proof (induction f i j rule: search_between.induct)
  case (1 f i j)
  let ?h = "(i + j) div 2"
  show ?case
  proof (cases "i < j")
    case False
    then have "search_between f i j = i" "i = j" using "1.prems"(2) by (simp_all add: search_between.simps)
    then show ?thesis using "1.prems"(3-5) by simp
  next
    case True
    then have h: "i \<le> ?h" "?h < j" by auto
    show ?thesis
    proof (cases "f ?h")
      case fh: True
      have "search_between f i j = search_between f i ?h"
        using True fh by (subst search_between.simps) simp
      moreover have "search_between f i ?h \<le> n \<and> (\<forall>a < search_between f i ?h. \<not> f a)
          \<and> (\<forall>a. search_between f i ?h \<le> a \<and> a < n \<longrightarrow> f a)"
      proof (rule "1.IH"(2) [OF True refl])
        show "f b" if "a \<le> b" "b < n" "f a" for a b using "1.prems"(1) that by blast
        show "f a" if "?h \<le> a" "a < n" for a using "1.prems"(1) [OF that fh] .
        show "\<not> f a" if "a < i" for a using "1.prems"(4) that by blast
      qed (use fh h "1.prems"(3) in auto)
      ultimately show ?thesis by simp
    next
      case nfh: False
      have "search_between f i j = search_between f (?h + 1) j"
        using True nfh by (subst search_between.simps) simp
      moreover have "search_between f (?h + 1) j \<le> n \<and> (\<forall>a < search_between f (?h + 1) j. \<not> f a)
          \<and> (\<forall>a. search_between f (?h + 1) j \<le> a \<and> a < n \<longrightarrow> f a)"
      proof (rule "1.IH"(1) [OF True refl nfh])
        show "f b" if "a \<le> b" "b < n" "f a" for a b using "1.prems"(1) that by blast
        show "\<not> f a" if "a < ?h + 1" for a
          using "1.prems"(1) [of a ?h] that nfh h "1.prems"(3) by linarith
        show "f a" if "j \<le> a" "a < n" for a using "1.prems"(5) that by blast
      qed (use h "1.prems"(3) in auto)
      ultimately show ?thesis by simp
    qed
  qed
qed

lemma sort_search_take:
  assumes "\<And>a b. a \<le> b \<Longrightarrow> b < length xs \<Longrightarrow> P (xs ! a) \<Longrightarrow> P (xs ! b)"
  shows "take (sort_search (length xs) (\<lambda>i. P (xs ! i))) xs = takeWhile (\<lambda>x. \<not> P x) xs"
proof -
  let ?k = "sort_search (length xs) (\<lambda>i. P (xs ! i))"
  have "?k \<le> length xs \<and> (\<forall>a < ?k. \<not> P (xs ! a)) \<and> (\<forall>a. ?k \<le> a \<and> a < length xs \<longrightarrow> P (xs ! a))"
    unfolding sort_search_def
  proof (rule search_between_spec)
    show "P (xs ! b)" if "a \<le> b" "b < length xs" "P (xs ! a)" for a b using assms that by blast
  qed simp_all
  then have k: "?k \<le> length xs" "\<And>a. a < ?k \<Longrightarrow> \<not> P (xs ! a)" "\<And>a. ?k \<le> a \<Longrightarrow> a < length xs \<Longrightarrow> P (xs ! a)"
    by blast+
  have 1: "\<not> P x" if x: "x \<in> set (take ?k xs)" for x
  proof -
    obtain a where "a < length (take ?k xs)" "x = take ?k xs ! a" using x by (metis in_set_conv_nth)
    then show ?thesis using k(2) [of a] by simp
  qed
  have 2: "takeWhile (\<lambda>x. \<not> P x) (drop ?k xs) = []"
  proof (cases "drop ?k xs")
    case (Cons y ys)
    then have "?k < length xs" by (metis drop_all list.distinct(1) not_le)
    then have "P y" using k(3) [of ?k] Cons by (metis Cons_nth_drop_Suc list.inject order.refl)
    then show ?thesis using Cons by simp
  qed simp
  have "takeWhile (\<lambda>x. \<not> P x) (take ?k xs @ drop ?k xs) = take ?k xs"
    using takeWhile_append2 [of "take ?k xs" "\<lambda>x. \<not> P x" "drop ?k xs", OF 1]
    unfolding 2 append_Nil2 .
  then show ?thesis unfolding append_take_drop_id by (rule sym)
qed

section \<open>Finite maps\<close>

text \<open>Go's \<open>m[k]\<close> on a missing key yields the zero value of the element type.\<close>

definition lookup_default :: "'v \<Rightarrow> ('k \<rightharpoonup> 'v) \<Rightarrow> 'k \<Rightarrow> 'v" where
  "lookup_default z m k = (case m k of None \<Rightarrow> z | Some v \<Rightarrow> v)"

lemma lookup_default_simps [simp]:
  "lookup_default z Map.empty k = z"
  "lookup_default z (m(k \<mapsto> v)) k = v"
  "k \<noteq> j \<Longrightarrow> lookup_default z (m(j \<mapsto> v)) k = lookup_default z m k"
  "lookup_default z (m(k := None)) k = z"
  "k \<noteq> j \<Longrightarrow> lookup_default z (m(j := None)) k = lookup_default z m k"
  by (simp_all add: lookup_default_def)

section \<open>Majorities\<close>

text \<open>
  Two sets of members that each hold more than half of a finite cluster have a common member.
  This is the only counting argument that the safety proofs use.
\<close>

lemma majorities_meet:
  assumes "finite M" and "A \<subseteq> M" and "B \<subseteq> M"
    and "card M < 2 * card A" and "card M < 2 * card B"
  shows "\<exists>x. x \<in> A \<and> x \<in> B"
proof (rule ccontr)
  assume "\<not> ?thesis"
  then have "A \<inter> B = {}" by blast
  moreover have "finite A" "finite B" using assms finite_subset by auto
  ultimately have "card (A \<union> B) = card A + card B" by (simp add: card_Un_disjoint)
  moreover have "card (A \<union> B) \<le> card M" using assms by (simp add: card_mono)
  ultimately show False using assms(4,5) by linarith
qed

end
