(* ===== verification/Raft_Types.thy ===== *)
theory Raft_Types
  imports Prelude
begin

text \<open>
  The vocabulary of the Raft core (\<open>src/internal/raft/raft.go\<close>): roles, log entries, the events
  that a runtime feeds to the core and the actions that the core asks the runtime to perform.
  Structs are records, the closed interfaces \<open>Event\<close> and \<open>Action\<close> are datatypes whose
  constructors are the Go types that implement them.
\<close>

section \<open>Roles and log entries\<close>

type_synonym NodeID = string
type_synonym SessionID = bytes
type_synonym ProposalID = u64
type_synonym ReadID = u64

datatype Role = Follower | PreCandidate | Candidate | Leader

text \<open>
  \<open>EntryType\<close> is a \<open>uint8\<close> with five named values; \<open>EntryOther\<close> stands for the remaining ones,
  which reach the \<open>default\<close> branches of the code.
\<close>

datatype EntryType =
  EntryNoOp | EntryOpenSession | EntryCloseSession | EntrySet | EntryDelete | EntryOther u8

record LogEntry =
  le_Index :: u64
  le_Term :: u64
  le_Type :: EntryType
  le_SessionID :: SessionID
  le_Sequence :: u64
  le_Key :: string
  le_Value :: bytes

text \<open>The zero \<open>SessionID\<close> of a struct literal that leaves the field out: sixteen zero bytes.\<close>

definition zeroSessionID :: SessionID where
  "zeroSessionID = replicate 16 (char_of (0::nat))"

section \<open>Events\<close>

record ProposeSession =
  ps_ProposalID :: ProposalID
  ps_Type :: EntryType
  ps_SessionID :: SessionID

record ProposeSet =
  pset_ProposalID :: ProposalID
  pset_SessionID :: SessionID
  pset_Sequence :: u64
  pset_Key :: string
  pset_Value :: bytes

record ProposeDelete =
  pdel_ProposalID :: ProposalID
  pdel_SessionID :: SessionID
  pdel_Sequence :: u64
  pdel_Key :: string

record PreVoteRequest =
  pvq_From :: NodeID
  pvq_Term :: u64
  pvq_LastLogIndex :: u64
  pvq_LastLogTerm :: u64

record PreVoteResponse =
  pvr_From :: NodeID
  pvr_Term :: u64
  pvr_CurrentTerm :: u64
  pvr_Granted :: bool

record VoteRequest =
  vq_From :: NodeID
  vq_Term :: u64
  vq_LastLogIndex :: u64
  vq_LastLogTerm :: u64

record VoteResponse =
  vr_From :: NodeID
  vr_Term :: u64
  vr_Granted :: bool

record AppendEntries =
  ae_From :: NodeID
  ae_Term :: u64
  ae_RequestID :: u64
  ae_PrevLogIndex :: u64
  ae_PrevLogTerm :: u64
  ae_Entries :: "LogEntry list"
  ae_LeaderCommit :: u64
  ae_ReadID :: ReadID

record AppendEntriesResponse =
  aer_From :: NodeID
  aer_Term :: u64
  aer_RequestID :: u64
  aer_Success :: bool
  aer_MatchIndex :: u64
  aer_ConflictTerm :: u64
  aer_ConflictIndex :: u64
  aer_ReadID :: ReadID

record InstallSnapshot =
  is_From :: NodeID
  is_Term :: u64
  is_RequestID :: u64
  is_SnapshotIndex :: u64
  is_SnapshotTerm :: u64
  is_Length :: u64
  is_Checksum :: u32
  is_Offset :: u64
  is_Data :: bytes
  is_Done :: bool
  is_Success :: bool
  is_NextOffset :: u64

record InstallSnapshotResponse =
  isr_From :: NodeID
  isr_Term :: u64
  isr_RequestID :: u64
  isr_SnapshotIndex :: u64
  isr_Success :: bool
  isr_NextOffset :: u64
  isr_Done :: bool

datatype Event =
  ElectionTimeout
| HeartbeatTimeout
| CheckQuorumTimeout
| HardStatePersisted u64
| LogEntriesPersisted u64
| CommitIndexPersisted u64
| SnapshotPersisted u64
| RecoverCommitted
| SnapshotCompacted u64 u64
| EvProposeSession ProposeSession
| EvProposeSet ProposeSet
| EvProposeDelete ProposeDelete
| ConfirmRead ReadID
| EvPreVoteRequest PreVoteRequest
| EvPreVoteResponse PreVoteResponse
| EvVoteRequest VoteRequest
| EvVoteResponse VoteResponse
| EvAppendEntries AppendEntries
| EvAppendEntriesResponse AppendEntriesResponse
| AppendEntriesFailed NodeID u64
| EvInstallSnapshot InstallSnapshot
| EvInstallSnapshotResponse InstallSnapshotResponse

section \<open>Actions\<close>

datatype Action =
  PersistHardState u64 u64 NodeID \<comment> \<open>persistence id, Term, vote\<close>
| PersistLogEntries u64 u64 "LogEntry list" \<comment> \<open>persistence id, first index to truncate or 0, entries\<close>
| PersistCommitIndex u64 u64 \<comment> \<open>persistence id, commit index\<close>
| PersistSnapshot u64 u64 u64 bool \<comment> \<open>persistence id, index, Term, retain the suffix\<close>
| SendPreVoteRequest NodeID PreVoteRequest
| SendPreVoteResponse NodeID PreVoteResponse
| SendVoteRequest NodeID VoteRequest
| SendVoteResponse NodeID VoteResponse
| SendAppendEntries NodeID AppendEntries
| SendAppendEntriesResponse NodeID AppendEntriesResponse
| SendInstallSnapshot NodeID u64 u64 u64 u64 u64 \<comment> \<open>to, Term, request, index, Term, offset\<close>
| SendInstallSnapshotResponse NodeID InstallSnapshotResponse
| RestoreSnapshot u64 u64
| ResetElectionTimer
| ResetHeartbeatTimer
| ResetCheckQuorumTimer
| BecameLeader u64
| LostLeadership u64
| ApplyEntry LogEntry
| BecameReadReady u64
| ProposalAccepted ProposalID u64
| ProposalRejected ProposalID NodeID
| ReadConfirmed ReadID u64
| ReadRejected ReadID NodeID

end
