(* ===== verification/Snapshot_State.thy ===== *)
theory Snapshot_State
  imports Prelude
begin

text \<open>
  The point-in-time image of the replicated state and its checks
  (\<open>src/internal/snapshot/snapshot.go\<close>): the \<open>State\<close>, \<open>Session\<close>, \<open>Identity\<close> and
  \<open>Compatibility\<close> structs, \<open>validateState\<close>, \<open>matchesWAL\<close>, \<open>equalIdentity\<close> and the choice that
  \<open>LoadNewest\<close> makes among the candidates.
\<close>

section \<open>Data\<close>

record Identity =
  id_ClusterID :: string
  id_NodeID :: string
  id_MemberIDs :: "string list"

record Session =
  ses_ID :: bytes
  ses_Closed :: bool
  ses_LastSequence :: u64
  ses_LastResult :: u8
  ses_LastDeleteExisted :: bool

record SnapState =
  st_Identity :: Identity
  st_IncludedIndex :: u64
  st_IncludedTerm :: u64
  st_Values :: "(string, bytes) fmap"
  st_Sessions :: "Session list"

record Compatibility =
  co_Identity :: Identity
  co_CommitIndex :: u64
  co_LogStartIndex :: u64
  co_LogTerms :: "u64 list"
  co_SnapshotIndex :: u64
  co_SnapshotTerm :: u64

section \<open>Blank strings\<close>

text \<open>
  \<open>strings.TrimSpace(s) == ""\<close>: every rune of the UTF-8 string is Unicode white space. The
  function reads the byte codes from the left; the multi-byte runes are U+0085, U+00A0, U+1680,
  U+2000 to U+200A, U+2028, U+2029, U+202F, U+205F and U+3000.
\<close>

definition space3 :: "nat \<Rightarrow> nat \<Rightarrow> nat \<Rightarrow> bool" where
  "space3 a b c \<longleftrightarrow>
     (a = 225 \<and> b = 154 \<and> c = 128) \<or>
     (a = 226 \<and> b = 128 \<and> ((128 \<le> c \<and> c \<le> 138) \<or> c = 168 \<or> c = 169 \<or> c = 175)) \<or>
     (a = 226 \<and> b = 129 \<and> c = 159) \<or>
     (a = 227 \<and> b = 128 \<and> c = 128)"

fun blank_codes :: "nat list \<Rightarrow> bool" where
  "blank_codes [] = True"
| "blank_codes (a # xs) =
     (if 9 \<le> a \<and> a \<le> 13 \<or> a = 32 then blank_codes xs
      else case xs of
        [] \<Rightarrow> False
      | b # ys \<Rightarrow>
          (if a = 194 \<and> (b = 133 \<or> b = 160) then blank_codes ys
           else (case ys of [] \<Rightarrow> False | c # zs \<Rightarrow> space3 a b c \<and> blank_codes zs)))"

definition blank :: "string \<Rightarrow> bool" where
  "blank s = blank_codes (map of_char s)"

lemma blank_Nil [simp]: "blank []"
  by (simp add: blank_def)

section \<open>Validation\<close>

datatype validation_error =
  MissingIdentity | MemberCount nat | EmptyMember | MembersUnsorted | NodeNotMember
| IndexTermMismatch | DuplicateSession bytes

text \<open>The loop over \<open>MemberIDs\<close>: the previous member and whether the local Node was seen.\<close>

fun validateMembers :: "string \<Rightarrow> string option \<Rightarrow> bool \<Rightarrow> string list \<Rightarrow> validation_error + bool" where
  "validateMembers node prev seen [] = Inr seen"
| "validateMembers node prev seen (x # xs) =
     (if blank x then Inl EmptyMember
      else if (case prev of None \<Rightarrow> False | Some p \<Rightarrow> p \<ge> x) then Inl MembersUnsorted
      else validateMembers node (Some x) (seen \<or> x = node) xs)"

fun validateSessions :: "bytes list \<Rightarrow> Session list \<Rightarrow> validation_error + unit" where
  "validateSessions seen [] = Inr ()"
| "validateSessions seen (s # ss) =
     (if ses_ID s \<in> set seen then Inl (DuplicateSession (ses_ID s))
      else validateSessions (ses_ID s # seen) ss)"

definition validateState :: "SnapState \<Rightarrow> validation_error + unit" where
  "validateState st =
     (let ident = st_Identity st in
      if blank (id_ClusterID ident) \<or> blank (id_NodeID ident) then Inl MissingIdentity
      else if length (id_MemberIDs ident) \<noteq> 3 then Inl (MemberCount (length (id_MemberIDs ident)))
      else case validateMembers (id_NodeID ident) None False (id_MemberIDs ident) of
        Inl e \<Rightarrow> Inl e
      | Inr nodeIsMember \<Rightarrow>
          if \<not> nodeIsMember then Inl NodeNotMember
          else if (st_IncludedIndex st = 0) \<noteq> (st_IncludedTerm st = 0) then Inl IndexTermMismatch
          else validateSessions [] (st_Sessions st))"

definition matchesWAL :: "SnapState \<Rightarrow> Compatibility \<Rightarrow> bool" where
  "matchesWAL st co =
     (if st_IncludedIndex st > co_CommitIndex co then False
      else if st_IncludedIndex st = 0 then st_IncludedTerm st = 0
      else if st_IncludedIndex st = co_SnapshotIndex co then st_IncludedTerm st = co_SnapshotTerm co
      else
        let start = (if co_LogStartIndex co = 0 then 1 else co_LogStartIndex co) in
        if st_IncludedIndex st < start then False
        else
          let offset = sub64 (st_IncludedIndex st) start in
          if offset \<ge> length (co_LogTerms co) then False
          else co_LogTerms co ! offset = st_IncludedTerm st)"

definition equalIdentity :: "Identity \<Rightarrow> Identity \<Rightarrow> bool" where
  "equalIdentity l r =
     (if id_ClusterID l \<noteq> id_ClusterID r \<or> id_NodeID l \<noteq> id_NodeID r
         \<or> length (id_MemberIDs l) \<noteq> length (id_MemberIDs r) then False
      else list_all (\<lambda>i. id_MemberIDs l ! i = id_MemberIDs r ! i) [0..<length (id_MemberIDs l)])"

section \<open>Lemmas\<close>

lemma equalIdentity_iff: "equalIdentity l r \<longleftrightarrow> l = r"
proof
  assume "equalIdentity l r"
  then have "id_ClusterID l = id_ClusterID r" "id_NodeID l = id_NodeID r"
    "id_MemberIDs l = id_MemberIDs r"
    by (auto simp: equalIdentity_def list_all_iff split: if_splits intro: nth_equalityI)
  then show "l = r" by simp
qed (simp add: equalIdentity_def list_all_iff)

lemma validateMembers_Inr:
  "validateMembers node prev seen xs = Inr b \<Longrightarrow>
     sorted_wrt (<) xs \<and> (\<forall>p. prev = Some p \<longrightarrow> (\<forall>x\<in>set xs. p < x))
     \<and> (\<forall>x\<in>set xs. \<not> blank x) \<and> (b \<longleftrightarrow> seen \<or> node \<in> set xs)"
proof (induction node prev seen xs rule: validateMembers.induct)
  case (2 node prev seen x xs)
  from "2.prems" have ok: "\<not> blank x" "\<forall>p. prev = Some p \<longrightarrow> p < x"
    and rec: "validateMembers node (Some x) (seen \<or> x = node) xs = Inr b"
    by (auto split: if_splits option.splits)
  have "\<not> (case prev of None \<Rightarrow> False | Some p \<Rightarrow> x \<le> p)"
    using ok(2) by (cases prev) auto
  from "2.IH"[OF ok(1) this rec] have IH: "sorted_wrt (<) xs" "\<forall>y\<in>set xs. x < y"
    "\<forall>y\<in>set xs. \<not> blank y" "b \<longleftrightarrow> (seen \<or> x = node) \<or> node \<in> set xs"
    by auto
  show ?case using IH ok by (auto dest: less_trans)
qed auto

lemma validateSessions_Inr:
  "validateSessions seen ss = Inr () \<longleftrightarrow>
     distinct (map ses_ID ss) \<and> (\<forall>s\<in>set ss. ses_ID s \<notin> set seen)"
  by (induction seen ss rule: validateSessions.induct) (auto simp: image_iff)

end
