(* ===== verification/Session_Machine.thy ===== *)
theory Session_Machine
  imports Raft_Types Snapshot_State
begin

text \<open>
  The replicated state machine of a Node: Client Sessions with their deduplication records and the
  key-value map. Sources: \<open>src/internal/node/session.go\<close> (\<open>sessionMachine\<close>, \<open>apply\<close>,
  \<open>evaluateMutation\<close>, \<open>get\<close>), \<open>src/internal/node/snapshot.go\<close> (\<open>snapshot\<close>, \<open>restore\<close>).
\<close>

section \<open>Data\<close>

datatype sessionFailure =
  sessionSucceeded | sessionLimitReached | sessionUnknown | sessionClosed | sessionAlreadyExists
| sessionStaleSequence | sessionOutOfOrderSequence

record proposalResult =
  pr_sessionID :: SessionID
  pr_failure :: sessionFailure
  pr_sequence :: u64
  pr_wantSequence :: u64
  pr_leaderID :: NodeID
  pr_rejected :: bool
  pr_existed :: bool

datatype sessionState = sessionActive | sessionPermanentlyClosed

record sessionRecord =
  sr_state :: sessionState
  sr_lastSequence :: u64
  sr_lastMutationResult :: sessionFailure
  sr_lastDeleteExisted :: bool

record sessionMachine =
  sm_limit :: int
  sm_active :: int
  sm_sessions :: "(SessionID, sessionRecord) fmap"
  sm_values :: "(string, bytes) fmap"

text \<open>The zero value of \<open>proposalResult\<close> with the given session and sequence.\<close>

definition zeroResult :: "SessionID \<Rightarrow> u64 \<Rightarrow> proposalResult" where
  "zeroResult sid seq = \<lparr>pr_sessionID = sid, pr_failure = sessionSucceeded, pr_sequence = seq,
     pr_wantSequence = 0, pr_leaderID = [], pr_rejected = False, pr_existed = False\<rparr>"

section \<open>Operations\<close>

definition newSessionMachine :: "int \<Rightarrow> sessionMachine" where
  "newSessionMachine limit =
     \<lparr>sm_limit = limit, sm_active = 0, sm_sessions = fmempty, sm_values = fmempty\<rparr>"

definition evaluateMutation :: "sessionMachine \<Rightarrow> SessionID \<Rightarrow> u64 \<Rightarrow> proposalResult \<times> bool" where
  "evaluateMutation m sid seq =
     (let result = zeroResult sid seq in
      case fmlookup (sm_sessions m) sid of
        None \<Rightarrow> (result\<lparr>pr_failure := sessionUnknown\<rparr>, False)
      | Some record \<Rightarrow>
          if sr_state record = sessionPermanentlyClosed then
            (result\<lparr>pr_failure := sessionClosed\<rparr>, False)
          else if seq = sr_lastSequence record \<and> seq \<noteq> 0 then
            (result\<lparr>pr_failure := sr_lastMutationResult record,
                    pr_existed := sr_lastDeleteExisted record\<rparr>, False)
          else if seq < sr_lastSequence record then
            (result\<lparr>pr_failure := sessionStaleSequence,
                    pr_wantSequence := sr_lastSequence record\<rparr>, False)
          else if seq \<noteq> add64 (sr_lastSequence record) 1 then
            (result\<lparr>pr_failure := sessionOutOfOrderSequence,
                    pr_wantSequence := add64 (sr_lastSequence record) 1\<rparr>, False)
          else (result, True))"

text \<open>
  The zero \<open>sessionRecord\<close>: what \<open>m.sessions[id]\<close> reads for a missing key. \<open>apply\<close> only reads it
  for sessions that exist.
\<close>

definition zeroRecord :: sessionRecord where
  "zeroRecord = \<lparr>sr_state = sessionActive, sr_lastSequence = 0,
     sr_lastMutationResult = sessionSucceeded, sr_lastDeleteExisted = False\<rparr>"

definition apply_openSession :: "sessionMachine \<Rightarrow> LogEntry \<Rightarrow> proposalResult \<times> sessionMachine" where
  "apply_openSession m e =
     (let result = zeroResult (le_SessionID e) 0 in
      if fmlookup (sm_sessions m) (le_SessionID e) \<noteq> None then
        (result\<lparr>pr_failure := sessionAlreadyExists\<rparr>, m)
      else if sm_active m \<ge> sm_limit m then (result\<lparr>pr_failure := sessionLimitReached\<rparr>, m)
      else (result, m\<lparr>sm_sessions := fmupd (le_SessionID e) zeroRecord (sm_sessions m),
                      sm_active := sm_active m + 1\<rparr>))"

definition apply_closeSession :: "sessionMachine \<Rightarrow> LogEntry \<Rightarrow> proposalResult \<times> sessionMachine" where
  "apply_closeSession m e =
     (let result = zeroResult (le_SessionID e) 0 in
      case fmlookup (sm_sessions m) (le_SessionID e) of
        None \<Rightarrow> (result\<lparr>pr_failure := sessionUnknown\<rparr>, m)
      | Some record \<Rightarrow>
          if sr_state record = sessionPermanentlyClosed then
            (result\<lparr>pr_failure := sessionClosed\<rparr>, m)
          else
            (result, m\<lparr>sm_sessions :=
                fmupd (le_SessionID e) (record\<lparr>sr_state := sessionPermanentlyClosed\<rparr>) (sm_sessions m),
              sm_active := sm_active m - 1\<rparr>))"

definition apply_set :: "sessionMachine \<Rightarrow> LogEntry \<Rightarrow> proposalResult \<times> sessionMachine" where
  "apply_set m e =
     (let (result, apply) = evaluateMutation m (le_SessionID e) (le_Sequence e) in
      if \<not> apply then (result, m)
      else
        let record = (case fmlookup (sm_sessions m) (le_SessionID e) of
                        None \<Rightarrow> zeroRecord | Some r \<Rightarrow> r);
            record' = record\<lparr>sr_lastSequence := le_Sequence e,
                             sr_lastMutationResult := pr_failure result,
                             sr_lastDeleteExisted := False\<rparr>
        in (result, m\<lparr>sm_values := fmupd (le_Key e) (le_Value e) (sm_values m),
                      sm_sessions := fmupd (le_SessionID e) record' (sm_sessions m)\<rparr>))"

definition apply_delete :: "sessionMachine \<Rightarrow> LogEntry \<Rightarrow> proposalResult \<times> sessionMachine" where
  "apply_delete m e =
     (let (result, apply) = evaluateMutation m (le_SessionID e) (le_Sequence e) in
      if \<not> apply then (result, m)
      else
        let record = (case fmlookup (sm_sessions m) (le_SessionID e) of
                        None \<Rightarrow> zeroRecord | Some r \<Rightarrow> r);
            existed = (fmlookup (sm_values m) (le_Key e) \<noteq> None);
            result' = result\<lparr>pr_existed := existed\<rparr>;
            record' = record\<lparr>sr_lastSequence := le_Sequence e,
                             sr_lastMutationResult := pr_failure result',
                             sr_lastDeleteExisted := existed\<rparr>
        in (result', m\<lparr>sm_values := fmdrop (le_Key e) (sm_values m),
                       sm_sessions := fmupd (le_SessionID e) record' (sm_sessions m)\<rparr>))"

text \<open>\<open>None\<close> is the panic on an unsupported entry type.\<close>

definition apply_entry :: "sessionMachine \<Rightarrow> LogEntry \<Rightarrow> (proposalResult \<times> sessionMachine) option" where
  "apply_entry m e =
     (case le_Type e of
        EntryNoOp \<Rightarrow> Some (zeroResult (le_SessionID e) 0, m)
      | EntryOpenSession \<Rightarrow> Some (apply_openSession m e)
      | EntryCloseSession \<Rightarrow> Some (apply_closeSession m e)
      | EntrySet \<Rightarrow> Some (apply_set m e)
      | EntryDelete \<Rightarrow> Some (apply_delete m e)
      | EntryOther _ \<Rightarrow> None)"

definition get_value :: "sessionMachine \<Rightarrow> string \<Rightarrow> bytes \<times> bool" where
  "get_value m key =
     (case fmlookup (sm_values m) key of None \<Rightarrow> ([], False) | Some v \<Rightarrow> (v, True))"

text \<open>Applying a run of committed entries, as the runtime does; a panic stops it.\<close>

fun apply_all :: "sessionMachine \<Rightarrow> LogEntry list \<Rightarrow> sessionMachine option" where
  "apply_all m [] = Some m"
| "apply_all m (e # es) = (case apply_entry m e of None \<Rightarrow> None | Some (_, m') \<Rightarrow> apply_all m' es)"

section \<open>Snapshot and restore\<close>

fun failure_code :: "sessionFailure \<Rightarrow> u8" where
  "failure_code sessionSucceeded = 0"
| "failure_code sessionLimitReached = 1"
| "failure_code sessionUnknown = 2"
| "failure_code sessionClosed = 3"
| "failure_code sessionAlreadyExists = 4"
| "failure_code sessionStaleSequence = 5"
| "failure_code sessionOutOfOrderSequence = 6"

definition failure_of_code :: "u8 \<Rightarrow> sessionFailure option" where
  "failure_of_code c =
     (if c = 0 then Some sessionSucceeded else if c = 1 then Some sessionLimitReached
      else if c = 2 then Some sessionUnknown else if c = 3 then Some sessionClosed
      else if c = 4 then Some sessionAlreadyExists else if c = 5 then Some sessionStaleSequence
      else if c = 6 then Some sessionOutOfOrderSequence else None)"

definition saved_session :: "SessionID \<Rightarrow> sessionRecord \<Rightarrow> Session" where
  "saved_session sid r = \<lparr>ses_ID = sid, ses_Closed = (sr_state r = sessionPermanentlyClosed),
     ses_LastSequence = sr_lastSequence r, ses_LastResult = failure_code (sr_lastMutationResult r),
     ses_LastDeleteExisted = sr_lastDeleteExisted r\<rparr>"

text \<open>
  The source collects the records in map order and sorts them by identity; the identities are
  distinct, so the sorted slice is the list of the records in increasing order of identity.
\<close>

definition snapshot :: "sessionMachine \<Rightarrow> Identity \<Rightarrow> u64 \<Rightarrow> u64 \<Rightarrow> SnapState" where
  "snapshot m ident includedIndex includedTerm =
     \<lparr>st_Identity = ident, st_IncludedIndex = includedIndex, st_IncludedTerm = includedTerm,
      st_Values = sm_values m,
      st_Sessions = map (\<lambda>sid. saved_session sid (the (fmlookup (sm_sessions m) sid)))
                        (sorted_list_of_fset (fmdom (sm_sessions m)))\<rparr>"

datatype restore_error = UnknownResult SessionID u8 | TooManyActive int int

fun restore_sessions ::
  "Session list \<Rightarrow> int \<Rightarrow> (SessionID, sessionRecord) fmap
    \<Rightarrow> restore_error + (int \<times> (SessionID, sessionRecord) fmap)" where
  "restore_sessions [] active ss = Inr (active, ss)"
| "restore_sessions (saved # rest) active ss =
     (case failure_of_code (ses_LastResult saved) of
        None \<Rightarrow> Inl (UnknownResult (ses_ID saved) (ses_LastResult saved))
      | Some f \<Rightarrow>
          let record = \<lparr>sr_state = (if ses_Closed saved then sessionPermanentlyClosed else sessionActive),
                        sr_lastSequence = ses_LastSequence saved, sr_lastMutationResult = f,
                        sr_lastDeleteExisted = ses_LastDeleteExisted saved\<rparr>
          in restore_sessions rest (if ses_Closed saved then active else active + 1)
               (fmupd (ses_ID saved) record ss))"

text \<open>On an error the caller stops the Node, so the half-restored machine is not observed.\<close>

definition restore :: "sessionMachine \<Rightarrow> SnapState option \<Rightarrow> restore_error + sessionMachine" where
  "restore m state =
     (case state of
        None \<Rightarrow> Inr m
      | Some st \<Rightarrow>
          (case restore_sessions (st_Sessions st) 0 fmempty of
             Inl err \<Rightarrow> Inl err
           | Inr (active, ss) \<Rightarrow>
               if active > sm_limit m then Inl (TooManyActive active (sm_limit m))
               else Inr (m\<lparr>sm_active := active, sm_sessions := ss, sm_values := st_Values st\<rparr>)))"

section \<open>Invariant and observations\<close>

definition active_sessions :: "sessionMachine \<Rightarrow> SessionID set" where
  "active_sessions m =
     {sid. \<exists>r. fmlookup (sm_sessions m) sid = Some r \<and> sr_state r = sessionActive}"

definition session_inv :: "sessionMachine \<Rightarrow> bool" where
  "session_inv m \<longleftrightarrow>
     sm_active m = int (card (active_sessions m)) \<and> sm_active m \<le> sm_limit m \<and>
     (\<forall>sid r. fmlookup (sm_sessions m) sid = Some r \<longrightarrow>
        sr_lastMutationResult r = sessionSucceeded \<and> sr_lastSequence r < W64)"

text \<open>A mutation that the machine accepts.\<close>

definition takes_effect :: "sessionMachine \<Rightarrow> LogEntry \<Rightarrow> bool" where
  "takes_effect m e \<longleftrightarrow> (le_Type e = EntrySet \<or> le_Type e = EntryDelete) \<and>
     snd (evaluateMutation m (le_SessionID e) (le_Sequence e))"

text \<open>
  The entries of a run that changed the machine from \<open>m\<close> to \<open>m'\<close> as mutations do, in the order in which
  they did: a \<open>SET\<close> or \<open>DELETE\<close> that changed anything, and any entry that changed a value.
\<close>

definition changed :: "sessionMachine \<Rightarrow> LogEntry \<Rightarrow> sessionMachine \<Rightarrow> bool" where
  "changed m e m' \<longleftrightarrow> (le_Type e = EntrySet \<or> le_Type e = EntryDelete) \<and> m' \<noteq> m \<or> sm_values m' \<noteq> sm_values m"

fun effects :: "sessionMachine \<Rightarrow> LogEntry list \<Rightarrow> LogEntry list" where
  "effects m [] = []"
| "effects m (e # es) =
     (case apply_entry m e of
        None \<Rightarrow> []
      | Some (_, m') \<Rightarrow> (if changed m e m' then [e] else []) @ effects m' es)"

definition mutation_id :: "LogEntry \<Rightarrow> SessionID \<times> u64" where
  "mutation_id e = (le_SessionID e, le_Sequence e)"

text \<open>What a mutation asks for.\<close>

definition apply_write :: "LogEntry \<Rightarrow> (string, bytes) fmap \<Rightarrow> (string, bytes) fmap" where
  "apply_write e values = (if le_Type e = EntrySet then fmupd (le_Key e) (le_Value e) values else fmdrop (le_Key e) values)"

definition last_sequence :: "sessionMachine \<Rightarrow> SessionID \<Rightarrow> u64" where
  "last_sequence m sid =
     (case fmlookup (sm_sessions m) sid of None \<Rightarrow> 0 | Some r \<Rightarrow> sr_lastSequence r)"

definition sequences_bounded :: "sessionMachine \<Rightarrow> bool" where
  "sequences_bounded m \<longleftrightarrow> (\<forall>sid. last_sequence m sid < W64)"

text \<open>A closed session is never reopened and never mutates again.\<close>

definition session_closed :: "sessionMachine \<Rightarrow> SessionID \<Rightarrow> bool" where
  "session_closed m sid \<longleftrightarrow>
     (\<exists>r. fmlookup (sm_sessions m) sid = Some r \<and> sr_state r = sessionPermanentlyClosed)"

section \<open>A concrete machine for the witnesses\<close>

definition demo_sid :: SessionID where
  "demo_sid = replicate 16 CHR ''s''"

definition demo_entry :: "EntryType \<Rightarrow> u64 \<Rightarrow> LogEntry" where
  "demo_entry t q = \<lparr>le_Index = 1, le_Term = 1, le_Type = t, le_SessionID = demo_sid,
     le_Sequence = q, le_Key = ''k'', le_Value = ''v''\<rparr>"

definition demo_machine :: sessionMachine where
  "demo_machine = \<lparr>sm_limit = 2, sm_active = 1, sm_sessions = fmupd demo_sid zeroRecord fmempty,
     sm_values = fmempty\<rparr>"

section \<open>Lemmas\<close>

lemma sessionState_neq [simp]: "s \<noteq> sessionPermanentlyClosed \<longleftrightarrow> s = sessionActive"
  by (cases s) auto

lemma finite_active_sessions [simp]: "finite (active_sessions m)"
proof (rule finite_subset)
  show "active_sessions m \<subseteq> fset (fmdom (sm_sessions m))"
    by (auto simp: active_sessions_def fmlookup_dom_iff)
qed simp

lemmas apply_defs = apply_entry_def apply_openSession_def apply_closeSession_def apply_set_def
  apply_delete_def Let_def

lemma evaluateMutation_iff:
  "snd (evaluateMutation m sid seq) \<longleftrightarrow>
     (\<exists>r. fmlookup (sm_sessions m) sid = Some r \<and> sr_state r = sessionActive \<and>
          seq = add64 (sr_lastSequence r) 1 \<and> (seq = sr_lastSequence r \<longrightarrow> seq = 0) \<and>
          \<not> seq < sr_lastSequence r)"
  by (auto simp: evaluateMutation_def Let_def split: option.splits)

lemma evaluateMutation_result:
  "snd (evaluateMutation m sid seq) \<Longrightarrow> evaluateMutation m sid seq = (zeroResult sid seq, True)"
  by (auto simp: evaluateMutation_def Let_def split: option.splits if_splits)

lemma add64_Suc_not_same: "a < W64 \<Longrightarrow> add64 a 1 \<noteq> a"
proof (cases "a + 1 < W64")
  case False
  assume "a < W64"
  with False have "a + 1 = W64" by linarith
  then have "add64 a 1 = 0" by (simp add: add64_def)
  moreover have "a \<noteq> 0" using \<open>a + 1 = W64\<close> one_less_W64 by (metis One_nat_def add_0 nat_neq_iff)
  ultimately show ?thesis by simp
qed simp

text \<open>What one applied entry changes: the four kinds of step of the machine.\<close>

lemma apply_entry_cases [consumes 1, case_names unchanged opened closed mutated]:
  assumes ap: "apply_entry m e = Some (r, m')"
  obtains
    "m' = m" "\<not> takes_effect m e"
  | "le_Type e = EntryOpenSession" "fmlookup (sm_sessions m) (le_SessionID e) = None"
    "sm_active m < sm_limit m"
    "m' = m\<lparr>sm_sessions := fmupd (le_SessionID e) zeroRecord (sm_sessions m),
            sm_active := sm_active m + 1\<rparr>"
  | rec where "le_Type e = EntryCloseSession"
    "fmlookup (sm_sessions m) (le_SessionID e) = Some rec" "sr_state rec = sessionActive"
    "m' = m\<lparr>sm_sessions := fmupd (le_SessionID e) (rec\<lparr>sr_state := sessionPermanentlyClosed\<rparr>)
                             (sm_sessions m),
            sm_active := sm_active m - 1\<rparr>"
  | rec v d where "takes_effect m e"
    "fmlookup (sm_sessions m) (le_SessionID e) = Some rec" "sr_state rec = sessionActive"
    "le_Sequence e = add64 (sr_lastSequence rec) 1" "sr_lastSequence rec \<le> le_Sequence e"
    "r = (zeroResult (le_SessionID e) (le_Sequence e))\<lparr>pr_existed := d\<rparr>"
    "m' = m\<lparr>sm_values := v,
            sm_sessions := fmupd (le_SessionID e)
              (rec\<lparr>sr_lastSequence := le_Sequence e, sr_lastMutationResult := sessionSucceeded,
                   sr_lastDeleteExisted := d\<rparr>) (sm_sessions m)\<rparr>"
proof (cases "takes_effect m e")
  case True
  then obtain rec where rec: "fmlookup (sm_sessions m) (le_SessionID e) = Some rec"
    "sr_state rec = sessionActive" "le_Sequence e = add64 (sr_lastSequence rec) 1"
    "sr_lastSequence rec \<le> le_Sequence e"
    by (auto simp: takes_effect_def evaluateMutation_iff)
  from True have ev: "evaluateMutation m (le_SessionID e) (le_Sequence e) =
      (zeroResult (le_SessionID e) (le_Sequence e), True)"
    by (simp add: takes_effect_def evaluateMutation_result)
  from True consider "le_Type e = EntrySet" | "le_Type e = EntryDelete"
    by (auto simp: takes_effect_def)
  then show thesis
  proof cases
    case 1
    show thesis
      by (rule that(4)[of rec False "fmupd (le_Key e) (le_Value e) (sm_values m)", OF True rec])
         (use 1 ap ev rec(1) in \<open>auto simp: apply_defs zeroResult_def\<close>)
  next
    case 2
    show thesis
      by (rule that(4)[of rec "fmlookup (sm_values m) (le_Key e) \<noteq> None"
            "fmdrop (le_Key e) (sm_values m)", OF True rec])
         (use 2 ap ev rec(1) in \<open>auto simp: apply_defs zeroResult_def\<close>)
  qed
next
  case False
  show thesis
  proof (cases "m' = m")
    case True
    then show thesis using False by (rule that(1))
  next
    case changed: False
    then consider "le_Type e = EntryOpenSession" | "le_Type e = EntryCloseSession"
      using ap False
      by (cases "le_Type e") (auto simp: apply_defs takes_effect_def split: prod.splits if_splits)
    then show thesis
    proof cases
      case 1
      then show thesis using ap changed
        by (intro that(2)) (auto simp: apply_defs split: if_splits)
    next
      case 2
      then obtain rec where "fmlookup (sm_sessions m) (le_SessionID e) = Some rec"
        "sr_state rec = sessionActive"
        using ap changed by (auto simp: apply_defs split: option.splits if_splits)
      with 2 show thesis using ap by (intro that(3)[of rec]) (auto simp: apply_defs)
    qed
  qed
qed

lemma active_sessions_upd:
  "active_sessions (m\<lparr>sm_sessions := fmupd sid r (sm_sessions m)\<rparr>) =
     (if sr_state r = sessionActive then insert sid (active_sessions m)
      else active_sessions m - {sid})"
  by (auto simp: active_sessions_def)

lemma active_sessions_frame [simp]:
  "active_sessions (m\<lparr>sm_values := v\<rparr>) = active_sessions m"
  "active_sessions (m\<lparr>sm_active := a\<rparr>) = active_sessions m"
  by (simp_all add: active_sessions_def)

lemma apply_entry_inv:
  assumes inv: "session_inv m" and ap: "apply_entry m e = Some (r, m')"
  shows "session_inv m'"
  using ap
proof (cases rule: apply_entry_cases)
  case unchanged
  then show ?thesis using inv by simp
next
  case opened
  then have "le_SessionID e \<notin> active_sessions m" by (simp add: active_sessions_def)
  then show ?thesis using inv opened
    by (auto simp: session_inv_def active_sessions_upd zeroRecord_def)
next
  case (closed rec)
  then have "le_SessionID e \<in> active_sessions m" by (simp add: active_sessions_def)
  then have "int (card (active_sessions m - {le_SessionID e})) = int (card (active_sessions m)) - 1"
    using card_gt_0_iff[of "active_sessions m"] by (auto simp: of_nat_diff)
  then show ?thesis using inv closed
    by (auto simp: session_inv_def active_sessions_upd simp del: card_Diff_insert card_Diff_singleton)
next
  case (mutated rec v d)
  then have "insert (le_SessionID e) (active_sessions m) = active_sessions m"
    by (auto simp: active_sessions_def)
  moreover have "active_sessions m' = insert (le_SessionID e) (active_sessions m)"
    using mutated by (auto simp: active_sessions_def)
  ultimately show ?thesis using inv mutated
    by (auto simp: session_inv_def)
qed

lemma apply_all_inv: "session_inv m \<Longrightarrow> apply_all m es = Some m' \<Longrightarrow> session_inv m'"
  by (induction es arbitrary: m)
     (auto split: option.splits prod.splits dest: apply_entry_inv)

lemma newSessionMachine_inv: "0 \<le> limit \<Longrightarrow> session_inv (newSessionMachine limit)"
  by (simp add: session_inv_def newSessionMachine_def active_sessions_def)

lemma apply_entry_limit [simp]: "apply_entry m e = Some (r, m') \<Longrightarrow> sm_limit m' = sm_limit m"
  by (erule apply_entry_cases) auto

lemma apply_all_append:
  "apply_all m (xs @ ys) = (case apply_all m xs of None \<Rightarrow> None | Some m' \<Rightarrow> apply_all m' ys)"
  by (induction xs arbitrary: m) (auto split: option.splits prod.splits)

lemma add64_succ: "a < W64 \<Longrightarrow> a \<le> add64 a 1 \<Longrightarrow> add64 a 1 = a + 1"
proof (cases "a + 1 < W64")
  case False
  assume "a < W64" "a \<le> add64 a 1"
  with False have "a + 1 = W64" by linarith
  then have "add64 a 1 = 0" by (simp add: add64_def)
  with \<open>a \<le> add64 a 1\<close> add64_Suc_not_same[OF \<open>a < W64\<close>] show ?thesis by simp
qed simp

text \<open>One entry advances the sequence of its own session by one when it takes effect.\<close>

lemma apply_entry_last_sequence:
  assumes "sequences_bounded m" and "apply_entry m e = Some (r, m')"
  shows "last_sequence m' sid =
      (if takes_effect m e \<and> sid = le_SessionID e then Suc (last_sequence m sid)
       else last_sequence m sid)"
    and "takes_effect m e \<Longrightarrow> le_Sequence e = Suc (last_sequence m (le_SessionID e))"
    and "sequences_bounded m'"
proof -
  have main: "last_sequence m' sid =
      (if takes_effect m e \<and> sid = le_SessionID e then Suc (last_sequence m sid)
       else last_sequence m sid)
    \<and> (takes_effect m e \<longrightarrow> le_Sequence e = Suc (last_sequence m (le_SessionID e)) \<and> le_Sequence e < W64)"
    for sid
    using assms(2)
  proof (cases rule: apply_entry_cases)
    case (mutated rec v d)
    then have "sr_lastSequence rec < W64"
      using assms(1) by (auto simp: sequences_bounded_def last_sequence_def dest: spec[of _ "le_SessionID e"])
    with mutated have "le_Sequence e = sr_lastSequence rec + 1" using add64_succ by metis
    moreover have "le_Sequence e < W64" using mutated(4) by simp
    ultimately show ?thesis using mutated by (auto simp: last_sequence_def)
  qed (auto simp: last_sequence_def zeroRecord_def takes_effect_def)
  show "last_sequence m' sid =
      (if takes_effect m e \<and> sid = le_SessionID e then Suc (last_sequence m sid)
       else last_sequence m sid)"
    and "takes_effect m e \<Longrightarrow> le_Sequence e = Suc (last_sequence m (le_SessionID e))"
    using main by auto
  show "sequences_bounded m'"
    using main assms(1) unfolding sequences_bounded_def by (metis)
qed

lemma changed_iff:
  assumes "sequences_bounded m" "apply_entry m e = Some (r, m')"
  shows "changed m e m' \<longleftrightarrow> takes_effect m e"
  using assms(2)
proof (cases rule: apply_entry_cases)
  case (mutated rec v d)
  have "last_sequence m' (le_SessionID e) \<noteq> last_sequence m (le_SessionID e)"
    using apply_entry_last_sequence(1) [OF assms, of "le_SessionID e"] mutated(1) by simp
  then have "m' \<noteq> m" by auto
  then show ?thesis using mutated(1) by (auto simp: changed_def takes_effect_def)
qed (auto simp: changed_def takes_effect_def)

lemma takes_effect_writes:
  "apply_entry m e = Some (r, m') \<Longrightarrow> takes_effect m e \<Longrightarrow> sm_values m' = apply_write e (sm_values m)"
  by (auto simp: takes_effect_def apply_write_def apply_defs evaluateMutation_result)

lemma effects_sequence:
  assumes "sequences_bounded m"
  shows "map snd (filter (\<lambda>p. fst p = sid) (map mutation_id (effects m es))) =
     [Suc (last_sequence m sid)..<
      Suc (last_sequence m sid) + length (filter (\<lambda>p. fst p = sid) (map mutation_id (effects m es)))]"
  using assms
proof (induction es arbitrary: m)
  case (Cons e es)
  show ?case
  proof (cases "apply_entry m e")
    case (Some p)
    obtain r m' where p: "p = (r, m')" by (cases p)
    note step = apply_entry_last_sequence[OF Cons.prems Some[unfolded p]]
    define ids where "ids m es = filter (\<lambda>p. fst p = sid) (map mutation_id (effects m es))" for m es
    have "ids m (e # es) = (if takes_effect m e \<and> sid = le_SessionID e then [(sid, le_Sequence e)] else []) @ ids m' es"
      using Some p changed_iff[OF Cons.prems Some[unfolded p]] by (simp add: ids_def mutation_id_def)
    then show ?thesis
      using Cons.IH[OF step(3)] step(1)[of sid] step(2) unfolding ids_def[symmetric] by (auto simp: upt_conv_Cons)
  qed simp
qed simp

lemma effects_write:
  assumes "sequences_bounded m" "apply_all m es = Some m'"
  shows "sm_values m' = fold apply_write (effects m es) (sm_values m)"
  using assms
proof (induction es arbitrary: m)
  case (Cons e es)
  obtain r m1 where e: "apply_entry m e = Some (r, m1)" "apply_all m1 es = Some m'"
    using Cons.prems(2) by (auto split: option.splits)
  have "sm_values m1 = (if changed m e m1 then apply_write e (sm_values m) else sm_values m)"
    using takes_effect_writes[OF e(1)] changed_iff[OF Cons.prems(1) e(1)] by (auto simp: changed_def)
  then show ?case using Cons.IH[OF apply_entry_last_sequence(3)[OF Cons.prems(1) e(1)] e(2)] e(1) by simp
qed simp

lemma sequences_bounded_new: "sequences_bounded (newSessionMachine limit)"
  by (simp add: sequences_bounded_def last_sequence_def newSessionMachine_def)

lemma distinct_by_fst:
  "(\<And>a. distinct (map snd (filter (\<lambda>p. fst p = a) xs))) \<Longrightarrow> distinct xs"
proof (induction xs)
  case (Cons x xs)
  have "distinct (map snd (filter (\<lambda>p. fst p = a) xs))" for a
    using Cons.prems[of a] by (cases "fst x = a") auto
  moreover have "x \<notin> set xs"
    using Cons.prems[of "fst x"] by (force simp: image_iff)
  ultimately show ?case using Cons.IH by simp
qed simp

lemma apply_entry_other_session:
  assumes "apply_entry m e = Some (r, m')" and "le_SessionID e \<noteq> sid"
  shows "fmlookup (sm_sessions m') sid = fmlookup (sm_sessions m) sid"
  using assms(1) by (cases rule: apply_entry_cases) (use assms(2) in auto)

lemma apply_all_other_sessions:
  assumes "apply_all m es = Some m'" and "\<forall>x\<in>set es. le_SessionID x \<noteq> sid"
  shows "fmlookup (sm_sessions m') sid = fmlookup (sm_sessions m) sid"
  using assms
proof (induction es arbitrary: m)
  case (Cons e es)
  then obtain r m1 where m1: "apply_entry m e = Some (r, m1)" "apply_all m1 es = Some m'"
    by (auto split: option.splits)
  then show ?case
    using Cons.IH[OF m1(2)] Cons.prems(2) apply_entry_other_session[OF m1(1)] by simp
qed simp

lemma apply_entry_closed:
  assumes "apply_entry m e = Some (r, m')" and "session_closed m sid"
  shows "session_closed m' sid \<and> fmlookup (sm_sessions m') sid = fmlookup (sm_sessions m) sid"
  using assms(1)
  by (cases rule: apply_entry_cases)
     (use assms(2) in \<open>auto simp: session_closed_def\<close>)

lemma apply_all_closed:
  assumes "apply_all m es = Some m'" and "session_closed m sid"
  shows "session_closed m' sid \<and> fmlookup (sm_sessions m') sid = fmlookup (sm_sessions m) sid"
  using assms
proof (induction es arbitrary: m)
  case (Cons e es)
  then obtain r m1 where m1: "apply_entry m e = Some (r, m1)" "apply_all m1 es = Some m'"
    by (auto split: option.splits)
  then show ?case
    using Cons.IH[OF m1(2)] apply_entry_closed[OF m1(1) Cons.prems(2)] by simp
qed simp

subsection \<open>Snapshot and restore\<close>

lemma failure_of_code_roundtrip [simp]: "failure_of_code (failure_code f) = Some f"
  by (cases f) (simp_all add: failure_of_code_def)

lemma restore_sessions_step:
  "restore_sessions (saved_session x r # rest) a acc =
     restore_sessions rest (if sr_state r = sessionActive then a + 1 else a) (fmupd x r acc)"
proof -
  have "\<lparr>sr_state = (if sr_state r = sessionPermanentlyClosed then sessionPermanentlyClosed
                    else sessionActive),
      sr_lastSequence = sr_lastSequence r, sr_lastMutationResult = sr_lastMutationResult r,
      sr_lastDeleteExisted = sr_lastDeleteExisted r\<rparr> = r"
    by (cases r) auto
  moreover have "sr_state r = sessionPermanentlyClosed \<longleftrightarrow> sr_state r \<noteq> sessionActive"
    by (cases "sr_state r") auto
  ultimately show ?thesis by (simp add: Let_def saved_session_def)
qed

lemma restore_sessions_saved:
  assumes "distinct xs" and "\<forall>x\<in>set xs. fmlookup ss x \<noteq> None"
  shows "restore_sessions (map (\<lambda>sid. saved_session sid (the (fmlookup ss sid))) xs) a acc =
    Inr (a + int (card {x \<in> set xs. sr_state (the (fmlookup ss x)) = sessionActive}),
         acc ++\<^sub>f fmfilter (\<lambda>x. x \<in> set xs) ss)"
  using assms
proof (induction xs arbitrary: a acc)
  case Nil
  then show ?case by (simp add: fmap_ext)
next
  case (Cons x xs)
  then obtain r where r: "fmlookup ss x = Some r" by auto
  have split: "{y \<in> set (x # xs). sr_state (the (fmlookup ss y)) = sessionActive} =
      (if sr_state r = sessionActive then {x} else {}) \<union>
      {y \<in> set xs. sr_state (the (fmlookup ss y)) = sessionActive}"
    using r by auto
  have card: "int (card {y \<in> set (x # xs). sr_state (the (fmlookup ss y)) = sessionActive}) =
      (if sr_state r = sessionActive then 1 else 0) +
      int (card {y \<in> set xs. sr_state (the (fmlookup ss y)) = sessionActive})"
    using Cons.prems(1) unfolding split by auto
  have maps: "fmupd x r acc ++\<^sub>f fmfilter (\<lambda>y. y \<in> set xs) ss =
      acc ++\<^sub>f fmfilter (\<lambda>y. y \<in> set (x # xs)) ss"
    using r Cons.prems(1) by (intro fmap_ext) (auto simp: fmlookup_dom_iff)
  show ?case
    using Cons.IH Cons.prems r card maps
    by (simp add: restore_sessions_step del: restore_sessions.simps(2))
qed

lemma fmfilter_dom: "fmfilter (\<lambda>x. x \<in> fset (fmdom ss)) ss = ss"
  by (intro fmap_ext) (auto simp: fmlookup_dom_iff)

lemma restore_sessions_snapshot:
  "restore_sessions (st_Sessions (snapshot m ident i t)) 0 fmempty =
     Inr (int (card (active_sessions m)), sm_sessions m)"
proof -
  let ?xs = "sorted_list_of_fset (fmdom (sm_sessions m))"
  have set: "set ?xs = fset (fmdom (sm_sessions m))"
    by (simp add: sorted_list_of_fset.rep_eq)
  have active: "{x \<in> set ?xs. sr_state (the (fmlookup (sm_sessions m) x)) = sessionActive}
      = active_sessions m"
    unfolding set by (auto simp: active_sessions_def fmlookup_dom_iff)
  have "\<forall>x\<in>set ?xs. fmlookup (sm_sessions m) x \<noteq> None"
    unfolding set by (auto simp: fmlookup_dom_iff)
  from restore_sessions_saved[OF _ this, of 0 fmempty] show ?thesis
    unfolding active by (simp add: snapshot_def set fmfilter_dom sorted_list_of_fset.rep_eq)
qed

lemma restore_snapshot:
  assumes "session_inv m"
  shows "restore (newSessionMachine (sm_limit m)) (Some (snapshot m ident i t)) = Inr m"
  using assms restore_sessions_snapshot[of m ident i t]
  by (simp add: restore_def session_inv_def newSessionMachine_def snapshot_def)

lemma apply_all_limit: "apply_all m es = Some m' \<Longrightarrow> sm_limit m' = sm_limit m"
  by (induction es arbitrary: m) (auto split: option.splits prod.splits)

subsection \<open>The concrete machine\<close>

lemma apply_entry_total:
  "(\<And>c. le_Type e \<noteq> EntryOther c) \<Longrightarrow> \<exists>r m'. apply_entry m e = Some (r, m')"
  by (cases "le_Type e") (auto simp: apply_entry_def intro: prod.exhaust)

lemma demo_machine_open:
  "apply_all (newSessionMachine 2) [demo_entry EntryOpenSession 0] = Some demo_machine"
  by (simp add: apply_defs newSessionMachine_def demo_entry_def demo_machine_def)

lemma demo_set_takes_effect: "takes_effect demo_machine (demo_entry EntrySet 1)"
  by (simp add: takes_effect_def evaluateMutation_iff demo_machine_def demo_entry_def zeroRecord_def)

lemma demo_bounded: "sequences_bounded demo_machine"
  by (simp add: sequences_bounded_def last_sequence_def demo_machine_def zeroRecord_def)

section \<open>Properties\<close>

text \<open>
  C21: at-most-once effects. In every run of committed entries from an empty machine, no two entries
  with the same session and sequence change the machine, and the mutations of one session that change
  it have exactly the sequences 1, 2, 3, ... in order, whatever duplicates, stale or skipped sequences
  the log holds. The values after the run are those that these mutations, each once and in this order,
  write into an empty map.
\<close>

theorem mutations_at_most_once:
  "distinct (map mutation_id (effects (newSessionMachine limit) es)) \<and>
   map snd (filter (\<lambda>p. fst p = sid) (map mutation_id (effects (newSessionMachine limit) es))) =
     [1..<Suc (length (filter (\<lambda>p. fst p = sid) (map mutation_id (effects (newSessionMachine limit) es))))] \<and>
   (case apply_all (newSessionMachine limit) es of
      None \<Rightarrow> True
    | Some m \<Rightarrow> sm_values m = fold apply_write (effects (newSessionMachine limit) es) fmempty)"
proof -
  let ?ids = "map mutation_id (effects (newSessionMachine limit) es)"
  note seq = effects_sequence[OF sequences_bounded_new, of _ limit es]
  have "last_sequence (newSessionMachine limit) s = 0" for s
    by (simp add: last_sequence_def newSessionMachine_def)
  then have ids: "map snd (filter (\<lambda>p. fst p = s) ?ids) = [1..<Suc (length (filter (\<lambda>p. fst p = s) ?ids))]" for s
    using seq[of s] by simp
  then have "distinct ?ids" using distinct_by_fst distinct_upt by metis
  moreover have "sm_values (newSessionMachine limit) = fmempty" by (simp add: newSessionMachine_def)
  then have "case apply_all (newSessionMachine limit) es of None \<Rightarrow> True
    | Some m \<Rightarrow> sm_values m = fold apply_write (effects (newSessionMachine limit) es) fmempty"
    using effects_write[OF sequences_bounded_new, of limit es] by (auto split: option.split)
  ultimately show ?thesis using ids by blast
qed

text \<open>
  C22: a retry returns the cached result. After a mutation took effect, a later \<open>SET\<close> or \<open>DELETE\<close>
  entry with the same session and sequence leaves the machine unchanged and returns the very
  result of the first, however many entries of other sessions were applied in between.
\<close>

theorem retry_returns_cached_result:
  assumes "sequences_bounded m" and "takes_effect m e" and "apply_entry m e = Some (r, m1)"
    and "apply_all m1 es = Some m2" and "\<forall>x\<in>set es. le_SessionID x \<noteq> le_SessionID e"
    and "le_Type e' = EntrySet \<or> le_Type e' = EntryDelete"
    and "le_SessionID e' = le_SessionID e" and "le_Sequence e' = le_Sequence e"
  shows "apply_entry m2 e' = Some (r, m2)"
  using assms(3)
proof (cases rule: apply_entry_cases)
  case (mutated rec v d)
  have "le_Sequence e \<noteq> 0" using apply_entry_last_sequence(2)[OF assms(1,3,2)] by simp
  moreover have "fmlookup (sm_sessions m2) (le_SessionID e) =
     Some (rec\<lparr>sr_lastSequence := le_Sequence e, sr_lastMutationResult := sessionSucceeded,
               sr_lastDeleteExisted := d\<rparr>)"
    using apply_all_other_sessions[OF assms(4,5)] mutated by simp
  ultimately have "evaluateMutation m2 (le_SessionID e') (le_Sequence e') = (r, False)"
    using mutated assms(7,8) by (simp add: evaluateMutation_def Let_def zeroResult_def)
  then show ?thesis using assms(6) by (auto simp: apply_defs)
qed (use assms(2) in \<open>auto simp: takes_effect_def\<close>)

theorem retry_returns_cached_result_witness:
  "\<exists>r m1. apply_entry demo_machine (demo_entry EntrySet 1) = Some (r, m1) \<and>
     apply_entry m1 (demo_entry EntryDelete 1) = Some (r, m1)"
proof -
  obtain r m1 where ap: "apply_entry demo_machine (demo_entry EntrySet 1) = Some (r, m1)"
    using apply_entry_total[of "demo_entry EntrySet 1" demo_machine] by (auto simp: demo_entry_def)
  have "apply_entry m1 (demo_entry EntryDelete 1) = Some (r, m1)"
    using retry_returns_cached_result[OF demo_bounded demo_set_takes_effect ap, of "[]" m1]
    by (simp add: demo_entry_def)
  with ap show ?thesis by blast
qed

text \<open>
  C23: the session accounting invariant. After any run of entries the \<open>active\<close> counter is the
  number of open sessions, it does not exceed the configured limit, every cached result is a
  success and every sequence fits 64 bits.
\<close>

theorem apply_all_keeps_session_inv:
  assumes "0 \<le> limit" and "apply_all (newSessionMachine limit) es = Some m"
  shows "session_inv m"
  using newSessionMachine_inv[OF assms(1)] assms(2) by (rule apply_all_inv)

theorem apply_all_keeps_session_inv_witness: "session_inv demo_machine"
  by (rule apply_all_keeps_session_inv[OF _ demo_machine_open]) simp

text \<open>
  C24: closing is final. Once a session is closed, no later entry of that session changes the
  machine: reopening is refused as already existing, closing and mutating as closed.
\<close>

theorem closed_session_is_final:
  assumes "session_closed m sid" and "apply_all m es = Some m'"
    and "le_SessionID e = sid" and "apply_entry m' e = Some (r, m'')"
    and "le_Type e \<noteq> EntryNoOp"
  shows "m'' = m' \<and> pr_failure r =
     (if le_Type e = EntryOpenSession then sessionAlreadyExists else sessionClosed)"
proof -
  have "session_closed m' sid" using apply_all_closed[OF assms(2,1)] by simp
  then show ?thesis using assms(3-5)
    by (cases "le_Type e") (auto simp: session_closed_def apply_defs evaluateMutation_def)
qed

theorem closed_session_is_final_witness:
  "\<exists>m r. apply_all (newSessionMachine 2) [demo_entry EntryOpenSession 0, demo_entry EntryCloseSession 0]
     = Some m \<and> apply_entry m (demo_entry EntrySet 1) = Some (r, m) \<and> pr_failure r = sessionClosed"
proof -
  obtain m where m: "apply_all demo_machine [demo_entry EntryCloseSession 0] = Some m"
    "session_closed m demo_sid"
    by (simp add: apply_defs demo_entry_def demo_machine_def zeroRecord_def session_closed_def)
  obtain r m' where ap: "apply_entry m (demo_entry EntrySet 1) = Some (r, m')"
    using apply_entry_total[of "demo_entry EntrySet 1" m] by (auto simp: demo_entry_def)
  have fin: "m' = m" "pr_failure r = sessionClosed"
    using closed_session_is_final[OF m(2) _ _ ap, of "[]"] by (simp_all add: demo_entry_def)
  have "apply_all (newSessionMachine 2)
      ([demo_entry EntryOpenSession 0] @ [demo_entry EntryCloseSession 0]) = Some m"
    unfolding apply_all_append demo_machine_open option.case using m(1) .
  then show ?thesis using ap fin unfolding append_Cons append_Nil by blast
qed

text \<open>
  C25: restoring a Snapshot taken from a machine gives that machine back.
\<close>

theorem restore_snapshot_roundtrip:
  assumes "session_inv m"
  shows "restore (newSessionMachine (sm_limit m)) (Some (snapshot m ident i t)) = Inr m"
  using assms by (rule restore_snapshot)

theorem restore_snapshot_roundtrip_witness:
  "restore (newSessionMachine 2) (Some (snapshot demo_machine \<lparr>id_ClusterID = ''c'', id_NodeID = ''a'',
      id_MemberIDs = [''a'', ''b'', ''c'']\<rparr> 1 1)) = Inr demo_machine"
  using restore_snapshot_roundtrip[OF apply_all_inv[OF newSessionMachine_inv demo_machine_open]]
  by (simp add: demo_machine_def)

text \<open>
  C26: compaction loses nothing. Restoring the Snapshot of a committed prefix and applying the
  suffix gives the same machine (or the same panic) as applying the whole log from the start.
\<close>

theorem snapshot_then_suffix:
  assumes "0 \<le> limit" and "apply_all (newSessionMachine limit) prefix = Some m"
  shows "\<exists>m'. restore (newSessionMachine limit) (Some (snapshot m ident i t)) = Inr m' \<and>
     apply_all m' suffix = apply_all (newSessionMachine limit) (prefix @ suffix)"
proof -
  have "session_inv m"
    using apply_all_inv[OF newSessionMachine_inv[OF assms(1)] assms(2)] .
  moreover have "sm_limit m = limit"
    using apply_all_limit[OF assms(2)] by (simp add: newSessionMachine_def)
  ultimately show ?thesis
    using restore_snapshot by (auto simp: apply_all_append assms(2))
qed

theorem snapshot_then_suffix_witness:
  "\<exists>m'. restore (newSessionMachine 2) (Some (snapshot demo_machine \<lparr>id_ClusterID = ''c'',
       id_NodeID = ''a'', id_MemberIDs = [''a'', ''b'', ''c'']\<rparr> 1 1)) = Inr m' \<and>
     apply_all m' [demo_entry EntrySet 1] =
       apply_all (newSessionMachine 2) [demo_entry EntryOpenSession 0, demo_entry EntrySet 1]"
  using snapshot_then_suffix[OF _ demo_machine_open, of _ 1 1 "[demo_entry EntrySet 1]"] by simp

end
