(* ===== verification/Raft_Node.thy ===== *)
theory Raft_Node
  imports Raft_Types
begin

text \<open>
  The deterministic Raft core, \<open>src/internal/raft/raft.go\<close>: the state of a \<open>Node\<close>, its helpers and
  one definition per event handler, put together by \<open>Step\<close>.

  A method that mutates the node returns the new node; one that also returns actions returns the
  pair. A method that may panic (an index or a slice bound out of range) is option-valued.
  Maps that the code only reads by key are \<open>\<rightharpoonup>\<close>, with Go's zero value for a missing key;
  \<open>map[NodeID]struct{}\<close> is a set and its \<open>len\<close> the cardinality; \<open>pendingReads\<close>, which the code
  ranges over in sorted order, is an \<open>fmap\<close>.
\<close>

section \<open>State\<close>

definition maxAppendEntriesBytes :: nat where
  "maxAppendEntriesBytes = 2 ^ 20 + 4 * 2 ^ 10"

record HardState =
  hs_Term :: u64
  hs_VotedFor :: NodeID

record RecoveredState =
  rs_HardState :: HardState
  rs_Log :: "LogEntry list"
  rs_CommitIndex :: u64
  rs_SnapshotIndex :: u64
  rs_SnapshotTerm :: u64

record pendingHardStatePersistence =
  phs_term :: u64
  phs_votedFor :: NodeID
  phs_after :: "Action list"

datatype logPersistencePurpose = persistLeaderEntry | persistFollowerAppend

record pendingLogPersistence =
  pl_purpose :: logPersistencePurpose
  pl_term :: u64
  pl_leader :: NodeID
  pl_requestID :: u64
  pl_truncateFrom :: u64
  pl_lastIndex :: u64
  pl_leaderCommit :: u64
  pl_readID :: ReadID

record pendingCommitPersistence =
  pc_commitIndex :: u64
  pc_after :: "Action list"

record pendingSnapshotPersistence =
  psn_request :: InstallSnapshot
  psn_retainSuffix :: bool

record pendingRead =
  prd_acknowledgements :: "NodeID set"
  prd_commitIndex :: u64
  prd_confirmed :: bool

record pendingAppend =
  pa_requestID :: u64
  pa_leaderCommit :: u64

record Node =
  n_id :: NodeID
  n_peers :: "NodeID list"
  n_role :: Role
  n_term :: u64
  n_votedFor :: NodeID
  n_leaderID :: NodeID
  n_lastLogIndex :: u64
  n_lastLogTerm :: u64
  n_durableLogIndex :: u64
  n_logBaseIndex :: u64
  n_logBaseTerm :: u64
  n_log :: "LogEntry list"
  n_commitIndex :: u64
  n_lastApplied :: u64
  n_readReady :: bool
  n_votes :: "NodeID set"
  n_preVotes :: "NodeID set"
  n_activePeers :: "NodeID set"
  n_matchIndex :: "NodeID \<rightharpoonup> u64"
  n_nextIndex :: "NodeID \<rightharpoonup> u64"
  n_appendInFlight :: "NodeID \<rightharpoonup> pendingAppend"
  n_snapshotInFlight :: "NodeID \<rightharpoonup> u64"
  n_nextRequestID :: u64
  n_pendingReads :: "(ReadID, pendingRead) fmap"
  n_recentLeaderContact :: bool
  n_durableTerm :: u64
  n_durableVotedFor :: NodeID
  n_nextHardStatePersistence :: u64
  n_pendingHardState :: "u64 \<rightharpoonup> pendingHardStatePersistence"
  n_nextLogPersistence :: u64
  n_pendingLog :: "u64 \<rightharpoonup> pendingLogPersistence"
  n_durableCommitIndex :: u64
  n_nextCommitPersistence :: u64
  n_pendingCommit :: "u64 \<rightharpoonup> pendingCommitPersistence"
  n_nextSnapshotPersistence :: u64
  n_pendingSnapshot :: "u64 \<rightharpoonup> pendingSnapshotPersistence"

text \<open>The pair that an event handler produces; \<open>None\<close> is a panic.\<close>

type_synonym outcome = "Node \<times> Action list"
type_synonym 'a mayPanic = "'a option"

definition zeroAppend :: pendingAppend where
  "zeroAppend = \<lparr>pa_requestID = 0, pa_leaderCommit = 0\<rparr>"

section \<open>Construction\<close>

text \<open>
  The first part of \<open>NewNodeFromRecoveredState\<close>: a recovered log that still starts at index 1 is
  cut at the Snapshot boundary.
\<close>

definition trimRecovered :: "RecoveredState \<Rightarrow> RecoveredState" where
  "trimRecovered r =
    (if rs_SnapshotIndex r > 0 \<and> rs_Log r \<noteq> [] \<and> le_Index (hd (rs_Log r)) = 1
        \<and> rs_SnapshotIndex r \<le> length (rs_Log r)
     then r\<lparr>rs_SnapshotTerm := (if rs_SnapshotTerm r = 0
                                 then le_Term (rs_Log r ! (rs_SnapshotIndex r - 1))
                                 else rs_SnapshotTerm r),
            rs_Log := drop (rs_SnapshotIndex r) (rs_Log r)\<rparr>
     else r)"

definition NewNodeFromRecoveredState :: "NodeID \<Rightarrow> NodeID list \<Rightarrow> RecoveredState \<Rightarrow> Node" where
  "NewNodeFromRecoveredState i ps recovered =
    (let r = trimRecovered recovered;
         snapIndex = rs_SnapshotIndex r;
         snapTerm = rs_SnapshotTerm r;
         hardState = rs_HardState r;
         lastIndex = (if rs_Log r = [] then snapIndex else le_Index (last (rs_Log r)));
         lastTerm = (if rs_Log r = [] then snapTerm else le_Term (last (rs_Log r)))
     in \<lparr>n_id = i, n_peers = sort ps, n_role = Follower,
         n_term = hs_Term hardState, n_votedFor = hs_VotedFor hardState, n_leaderID = [],
         n_lastLogIndex = lastIndex, n_lastLogTerm = lastTerm, n_durableLogIndex = lastIndex,
         n_logBaseIndex = snapIndex, n_logBaseTerm = snapTerm, n_log = rs_Log r,
         n_commitIndex = rs_CommitIndex r, n_lastApplied = snapIndex, n_readReady = False,
         n_votes = {}, n_preVotes = {}, n_activePeers = {},
         n_matchIndex = Map.empty, n_nextIndex = Map.empty,
         n_appendInFlight = Map.empty, n_snapshotInFlight = Map.empty, n_nextRequestID = 0,
         n_pendingReads = fmempty, n_recentLeaderContact = False,
         n_durableTerm = hs_Term hardState, n_durableVotedFor = hs_VotedFor hardState,
         n_nextHardStatePersistence = 0, n_pendingHardState = Map.empty,
         n_nextLogPersistence = 0, n_pendingLog = Map.empty,
         n_durableCommitIndex = rs_CommitIndex r,
         n_nextCommitPersistence = 0, n_pendingCommit = Map.empty,
         n_nextSnapshotPersistence = 0, n_pendingSnapshot = Map.empty\<rparr>)"

definition NewNodeWithLog :: "NodeID \<Rightarrow> NodeID list \<Rightarrow> HardState \<Rightarrow> LogEntry list \<Rightarrow> Node" where
  "NewNodeWithLog i ps hardState entries =
    NewNodeFromRecoveredState i ps
      \<lparr>rs_HardState = hardState, rs_Log = entries, rs_CommitIndex = 0,
       rs_SnapshotIndex = 0, rs_SnapshotTerm = 0\<rparr>"

definition NewNodeWithHardState :: "NodeID \<Rightarrow> NodeID list \<Rightarrow> HardState \<Rightarrow> Node" where
  "NewNodeWithHardState i ps hardState = NewNodeWithLog i ps hardState []"

definition NewNode :: "NodeID \<Rightarrow> NodeID list \<Rightarrow> Node" where
  "NewNode i ps = NewNodeWithHardState i ps \<lparr>hs_Term = 0, hs_VotedFor = []\<rparr>"

section \<open>Log and read helpers\<close>

definition quorum :: "Node \<Rightarrow> nat" where
  "quorum n = (length (n_peers n) + 1) div 2 + 1"

definition logIsAtLeastAsUpToDate :: "u64 \<Rightarrow> u64 \<Rightarrow> u64 \<Rightarrow> u64 \<Rightarrow> bool" where
  "logIsAtLeastAsUpToDate candidateTerm candidateIndex localTerm localIndex \<longleftrightarrow>
    candidateTerm > localTerm \<or> (candidateTerm = localTerm \<and> candidateIndex \<ge> localIndex)"

definition candidateLogIsUpToDate :: "Node \<Rightarrow> u64 \<Rightarrow> u64 \<Rightarrow> bool" where
  "candidateLogIsUpToDate n t index =
    logIsAtLeastAsUpToDate t index (n_lastLogTerm n) (n_lastLogIndex n)"

definition voteIsDurable :: "Node \<Rightarrow> NodeID \<Rightarrow> bool" where
  "voteIsDurable n candidate \<longleftrightarrow> n_durableTerm n = n_term n \<and> n_durableVotedFor n = candidate"

definition termAt :: "Node \<Rightarrow> u64 \<Rightarrow> u64 mayPanic" where
  "termAt n index =
    (if index = n_logBaseIndex n then Some (n_logBaseTerm n)
     else if index \<le> n_logBaseIndex n \<or> index > n_lastLogIndex n then Some 0
     else map_option le_Term (index_at (n_log n) (index - n_logBaseIndex n - 1)))"

text \<open>The fields that \<open>State\<close> reports to the runtime.\<close>

record NodeState =
  s_ID :: NodeID
  s_Role :: Role
  s_Term :: u64
  s_VotedFor :: NodeID
  s_LeaderID :: NodeID
  s_LastLogIndex :: u64
  s_LastLogTerm :: u64
  s_CommitIndex :: u64
  s_LastApplied :: u64
  s_LastAppliedTerm :: u64
  s_SnapshotIndex :: u64
  s_ReadReady :: bool

definition node_State :: "Node \<Rightarrow> NodeState mayPanic" where
  "node_State n = do {
     lastAppliedTerm \<leftarrow> (if n_lastApplied n > 0 then termAt n (n_lastApplied n) else Some 0);
     Some \<lparr>s_ID = n_id n, s_Role = n_role n, s_Term = n_term n, s_VotedFor = n_votedFor n,
           s_LeaderID = n_leaderID n, s_LastLogIndex = n_lastLogIndex n,
           s_LastLogTerm = n_lastLogTerm n, s_CommitIndex = n_commitIndex n,
           s_LastApplied = n_lastApplied n, s_LastAppliedTerm = lastAppliedTerm,
           s_SnapshotIndex = n_logBaseIndex n, s_ReadReady = n_readReady n\<rparr>
   }"

text \<open>\<open>index == 0 && term == 0 || ...\<close>: the second disjunct is evaluated only when the first fails.\<close>

definition matches :: "Node \<Rightarrow> u64 \<Rightarrow> u64 \<Rightarrow> bool mayPanic" where
  "matches n index t =
    (if index = 0 \<and> t = 0 then Some True
     else if index \<le> n_lastLogIndex n then map_option (\<lambda>t'. t' = t) (termAt n index)
     else Some False)"

definition appendEntries :: "Node \<Rightarrow> LogEntry list \<Rightarrow> Node mayPanic" where
  "appendEntries n entries =
    (let log = n_log n @ entries in
     if log = [] then None
     else Some (n\<lparr>n_log := log, n_lastLogIndex := le_Index (last log),
                  n_lastLogTerm := le_Term (last log)\<rparr>))"

definition truncateLog :: "Node \<Rightarrow> u64 \<Rightarrow> Node mayPanic" where
  "truncateLog n firstIndex = do {
     log \<leftarrow> slice_to (n_log n) (sub64 (sub64 firstIndex (n_logBaseIndex n)) 1);
     let n = n\<lparr>n_log := log, n_lastLogIndex := sub64 firstIndex 1\<rparr>;
     t \<leftarrow> termAt n (n_lastLogIndex n);
     Some (n\<lparr>n_lastLogTerm := t, n_durableLogIndex := min (n_durableLogIndex n) (n_lastLogIndex n)\<rparr>)
   }"

definition compactLog :: "Node \<Rightarrow> u64 \<Rightarrow> u64 \<Rightarrow> Node mayPanic" where
  "compactLog n index t =
    (if index \<le> n_logBaseIndex n \<or> index > n_lastApplied n then Some n
     else do {
       t' \<leftarrow> termAt n index;
       if t' \<noteq> t then Some n
       else do {
         log \<leftarrow> slice_from (n_log n) (index - n_logBaseIndex n);
         Some (n\<lparr>n_log := log, n_logBaseIndex := index, n_logBaseTerm := t\<rparr>)
       }
     })"

text \<open>
  The loop of \<open>entriesBatch\<close> over the entries from \<open>first\<close> on: \<open>taken\<close> says that \<open>end >= first\<close>
  already holds. The result is the number of entries of the batch. The loop panics when it runs
  past the end of the log before it reaches \<open>last\<close> or the byte limit.
\<close>

definition entryBytes :: "LogEntry \<Rightarrow> nat" where
  "entryBytes e = 64 + length (le_Key e) + length (le_Value e)"

fun batchLength :: "LogEntry list \<Rightarrow> nat \<Rightarrow> bool \<Rightarrow> nat" where
  "batchLength [] used taken = 0"
| "batchLength (e # es) used taken =
    (if used + entryBytes e > maxAppendEntriesBytes \<and> taken then 0
     else Suc (batchLength es (used + entryBytes e) True))"

definition entriesBatch :: "Node \<Rightarrow> u64 \<Rightarrow> u64 \<Rightarrow> LogEntry list mayPanic" where
  "entriesBatch n first lst =
    (if first = 0 \<or> first > lst \<or> lst > n_lastLogIndex n then Some []
     else if first \<le> n_logBaseIndex n then Some []
     else
       let candidates = take (lst + 1 - first) (drop (first - n_logBaseIndex n - 1) (n_log n));
           k = batchLength candidates 0 False
       in if k = length candidates \<and> k < lst + 1 - first then None
          else Some (take k candidates))"

fun conflictFirst :: "Node \<Rightarrow> u64 \<Rightarrow> u64 \<Rightarrow> u64 mayPanic" where
  "conflictFirst n t 0 = Some 0"
| "conflictFirst n t (Suc k) =
    (if Suc k > add64 (n_logBaseIndex n) 1 then do {
       t' \<leftarrow> termAt n k;
       if t' = t then conflictFirst n t k else Some (Suc k)
     } else Some (Suc k))"

definition conflictHint :: "Node \<Rightarrow> u64 \<Rightarrow> (u64 \<times> u64) mayPanic" where
  "conflictHint n index =
    (if index = 0 \<or> index > n_lastLogIndex n then Some (0, add64 (n_lastLogIndex n) 1)
     else do {
       t \<leftarrow> termAt n index;
       first \<leftarrow> conflictFirst n t index;
       Some (t, first)
     })"

text \<open>The downward loop of \<open>nextIndexFromConflict\<close>: the last index whose Term is the hinted one.\<close>

fun lastIndexOfTerm :: "Node \<Rightarrow> u64 \<Rightarrow> u64 \<Rightarrow> u64 option mayPanic" where
  "lastIndexOfTerm n t 0 = Some None"
| "lastIndexOfTerm n t (Suc k) = do {
     t' \<leftarrow> termAt n (Suc k);
     if t' = t then Some (Some (Suc k)) else lastIndexOfTerm n t k
   }"

definition nextIndexFromConflict :: "Node \<Rightarrow> AppendEntriesResponse \<Rightarrow> u64 mayPanic" where
  "nextIndexFromConflict n response = do {
     found \<leftarrow> (if aer_ConflictTerm response \<noteq> 0
              then lastIndexOfTerm n (aer_ConflictTerm response) (n_lastLogIndex n)
              else Some None);
     let next = (case found of Some index \<Rightarrow> add64 index 1 | None \<Rightarrow> aer_ConflictIndex response);
     let next = (if next = 0 then 1 else next);
     Some (min next (add64 (n_lastLogIndex n) 1))
   }"

definition pendingReadFor :: "Node \<Rightarrow> NodeID \<Rightarrow> ReadID" where
  "pendingReadFor n peer =
    (let readIDs = filter (\<lambda>i. case fmlookup (n_pendingReads n) i of
                                 None \<Rightarrow> False
                               | Some read \<Rightarrow> peer \<notin> prd_acknowledgements read)
                     (sorted_list_of_fset (fmdom (n_pendingReads n)))
     in if readIDs = [] then 0 else hd readIDs)"

text \<open>
  \<open>entriesToAppend\<close>: the entries still to append, the first index to truncate (0 for none) and the
  success flag; \<open>offset\<close> counts the entries already matched.
\<close>

fun entriesToAppendFrom ::
    "Node \<Rightarrow> u64 \<Rightarrow> u64 \<Rightarrow> LogEntry list \<Rightarrow> (LogEntry list \<times> u64 \<times> bool) mayPanic" where
  "entriesToAppendFrom n prevIndex offset [] = Some ([], 0, True)"
| "entriesToAppendFrom n prevIndex offset (entry # rest) =
    (if le_Index entry \<noteq> add64 (add64 prevIndex offset) 1 then Some ([], 0, False)
     else if le_Index entry \<le> n_lastLogIndex n then do {
       t \<leftarrow> termAt n (le_Index entry);
       if t \<noteq> le_Term entry then
         (if le_Index entry \<le> n_commitIndex n then Some ([], 0, False)
          else Some (entry # rest, le_Index entry, True))
       else entriesToAppendFrom n prevIndex (offset + 1) rest
     }
     else if le_Index entry \<noteq> add64 (n_lastLogIndex n) 1 then Some ([], 0, False)
     else Some (entry # rest, 0, True))"

definition entriesToAppend ::
    "Node \<Rightarrow> u64 \<Rightarrow> LogEntry list \<Rightarrow> (LogEntry list \<times> u64 \<times> bool) mayPanic" where
  "entriesToAppend n prevIndex entries = entriesToAppendFrom n prevIndex 0 entries"

section \<open>Commit, application and reads\<close>

definition completeRead :: "Node \<times> Action list \<Rightarrow> ReadID \<Rightarrow> outcome" where
  "completeRead = (\<lambda>(n, actions) readID.
    case fmlookup (n_pendingReads n) readID of
      None \<Rightarrow> (n, actions)
    | Some read \<Rightarrow>
        if \<not> prd_confirmed read \<or> n_lastApplied n < prd_commitIndex read then (n, actions)
        else (n\<lparr>n_pendingReads := fmdrop readID (n_pendingReads n)\<rparr>,
              actions @ [ReadConfirmed readID (prd_commitIndex read)]))"

definition completeReads :: "Node \<Rightarrow> outcome" where
  "completeReads n = foldl completeRead (n, []) (sorted_list_of_fset (fmdom (n_pendingReads n)))"

text \<open>One round of the loop of \<open>applyThrough\<close>, and the loop, which runs \<open>index - lastApplied\<close> times.\<close>

definition applyNext :: "Node \<Rightarrow> outcome mayPanic" where
  "applyNext n = do {
     let n = n\<lparr>n_lastApplied := add64 (n_lastApplied n) 1\<rparr>;
     entry \<leftarrow> index_at (n_log n) (sub64 (sub64 (n_lastApplied n) (n_logBaseIndex n)) 1);
     if n_role n = Leader \<and> \<not> n_readReady n \<and> le_Type entry = EntryNoOp \<and> le_Term entry = n_term n
     then Some (n\<lparr>n_readReady := True\<rparr>, [ApplyEntry entry, BecameReadReady (n_term n)])
     else Some (n, [ApplyEntry entry])
   }"

primrec applyLoop :: "nat \<Rightarrow> Node \<Rightarrow> outcome mayPanic" where
  "applyLoop 0 n = Some (n, [])"
| "applyLoop (Suc k) n = do {
     (n, first) \<leftarrow> applyNext n;
     (n, rest) \<leftarrow> applyLoop k n;
     Some (n, first @ rest)
   }"

definition applyThrough :: "Node \<Rightarrow> u64 \<Rightarrow> outcome mayPanic" where
  "applyThrough n index =
    (if index \<le> n_lastApplied n then Some (completeReads n)
     else do {
       (n, actions) \<leftarrow> applyLoop (index - n_lastApplied n) n;
       let (n, reads) = completeReads n;
       Some (n, actions @ reads)
     })"

definition replicatedCount :: "Node \<Rightarrow> u64 \<Rightarrow> nat" where
  "replicatedCount n index =
    1 + length (filter (\<lambda>peer. lookup_default 0 (n_matchIndex n) peer \<ge> index) (n_peers n))"

text \<open>The downward loop of \<open>advanceLeaderCommit\<close> from \<open>index\<close>; \<open>Some None\<close> says that no index commits.\<close>

fun commitCandidate :: "Node \<Rightarrow> u64 \<Rightarrow> u64 option mayPanic" where
  "commitCandidate n 0 = Some None"
| "commitCandidate n (Suc k) =
    (if Suc k > n_commitIndex n then do {
       t \<leftarrow> termAt n (Suc k);
       if t = n_term n \<and> replicatedCount n (Suc k) \<ge> quorum n then Some (Some (Suc k))
       else commitCandidate n k
     } else Some None)"

definition advanceLeaderCommit :: "Node \<Rightarrow> (Node \<times> bool) mayPanic" where
  "advanceLeaderCommit n = do {
     found \<leftarrow> commitCandidate n (n_lastLogIndex n);
     case found of
       Some index \<Rightarrow> Some (n\<lparr>n_commitIndex := index\<rparr>, True)
     | None \<Rightarrow> Some (n, False)
   }"

section \<open>Persistence requests and responses\<close>

definition persistHardState :: "Node \<Rightarrow> Action list \<Rightarrow> outcome" where
  "persistHardState n after =
    (let i = add64 (n_nextHardStatePersistence n) 1 in
     (n\<lparr>n_nextHardStatePersistence := i,
        n_pendingHardState := (n_pendingHardState n)
          (i \<mapsto> \<lparr>phs_term = n_term n, phs_votedFor = n_votedFor n, phs_after = after\<rparr>)\<rparr>,
      [PersistHardState i (n_term n) (n_votedFor n)]))"

definition persistLog :: "Node \<Rightarrow> LogEntry list \<Rightarrow> pendingLogPersistence \<Rightarrow> outcome" where
  "persistLog n entries pending =
    (let i = add64 (n_nextLogPersistence n) 1 in
     (n\<lparr>n_nextLogPersistence := i, n_pendingLog := (n_pendingLog n)(i \<mapsto> pending)\<rparr>,
      [PersistLogEntries i (pl_truncateFrom pending) entries]))"

definition persistCommit :: "Node \<Rightarrow> Action list \<Rightarrow> outcome" where
  "persistCommit n after =
    (let i = add64 (n_nextCommitPersistence n) 1 in
     (n\<lparr>n_nextCommitPersistence := i,
        n_pendingCommit := (n_pendingCommit n)
          (i \<mapsto> \<lparr>pc_commitIndex = n_commitIndex n, pc_after = after\<rparr>)\<rparr>,
      [PersistCommitIndex i (n_commitIndex n)]))"

definition persistSnapshot :: "Node \<Rightarrow> InstallSnapshot \<Rightarrow> bool \<Rightarrow> outcome" where
  "persistSnapshot n request retainSuffix =
    (let i = add64 (n_nextSnapshotPersistence n) 1 in
     (n\<lparr>n_nextSnapshotPersistence := i,
        n_pendingSnapshot := (n_pendingSnapshot n)
          (i \<mapsto> \<lparr>psn_request = request, psn_retainSuffix = retainSuffix\<rparr>)\<rparr>,
      [PersistSnapshot i (is_SnapshotIndex request) (is_SnapshotTerm request) retainSuffix]))"

definition voteResponse :: "Node \<Rightarrow> NodeID \<Rightarrow> bool \<Rightarrow> Action list" where
  "voteResponse n to granted =
    [SendVoteResponse to \<lparr>vr_From = n_id n, vr_Term = n_term n, vr_Granted = granted\<rparr>]"

definition appendEntriesResponse ::
    "Node \<Rightarrow> NodeID \<Rightarrow> u64 \<Rightarrow> bool \<Rightarrow> u64 \<Rightarrow> u64 \<Rightarrow> u64 \<Rightarrow> ReadID \<Rightarrow> Action list" where
  "appendEntriesResponse n to requestID success matchIndex conflictTerm conflictIndex readID =
    [SendAppendEntriesResponse to
       \<lparr>aer_From = n_id n, aer_Term = n_term n, aer_RequestID = requestID, aer_Success = success,
        aer_MatchIndex = matchIndex, aer_ConflictTerm = conflictTerm,
        aer_ConflictIndex = conflictIndex, aer_ReadID = readID\<rparr>]"

definition snapshotResponse :: "Node \<Rightarrow> InstallSnapshot \<Rightarrow> bool \<Rightarrow> u64 \<Rightarrow> bool \<Rightarrow> Action list" where
  "snapshotResponse n request success nextOffset isDone =
    [SendInstallSnapshotResponse (is_From request)
       \<lparr>isr_From = n_id n, isr_Term = n_term n, isr_RequestID = is_RequestID request,
        isr_SnapshotIndex = is_SnapshotIndex request, isr_Success = success,
        isr_NextOffset = nextOffset, isr_Done = isDone\<rparr>]"

definition becomeFollower :: "Node \<Rightarrow> u64 \<Rightarrow> NodeID \<Rightarrow> Node" where
  "becomeFollower n t leader =
    n\<lparr>n_votedFor := (if t > n_term n then [] else n_votedFor n),
      n_role := Follower, n_term := t, n_leaderID := leader,
      n_recentLeaderContact := (leader \<noteq> []),
      n_votes := {}, n_preVotes := {}, n_activePeers := {},
      n_matchIndex := Map.empty, n_nextIndex := Map.empty,
      n_appendInFlight := Map.empty, n_snapshotInFlight := Map.empty,
      n_pendingReads := fmempty, n_readReady := False\<rparr>"

definition advanceFollowerCommit :: "Node \<Rightarrow> u64 \<Rightarrow> Action list \<Rightarrow> outcome mayPanic" where
  "advanceFollowerCommit n leaderCommit after =
    (let target = min leaderCommit (n_lastLogIndex n) in
     if target > n_commitIndex n
     then Some (persistCommit (n\<lparr>n_commitIndex := target\<rparr>) after)
     else do {
       (n, actions) \<leftarrow> applyThrough n (n_durableCommitIndex n);
       Some (n, actions @ after)
     })"

section \<open>Elections\<close>

definition startElection :: "Node \<Rightarrow> outcome" where
  "startElection n =
    (let n = n\<lparr>n_role := Candidate, n_term := add64 (n_term n) 1, n_votedFor := n_id n,
               n_leaderID := [], n_readReady := False, n_votes := {n_id n}\<rparr>;
         after = ResetElectionTimer # map (\<lambda>peer. SendVoteRequest peer
           \<lparr>vq_From = n_id n, vq_Term = n_term n, vq_LastLogIndex = n_lastLogIndex n,
            vq_LastLogTerm = n_lastLogTerm n\<rparr>) (n_peers n)
     in persistHardState n after)"

definition startPreVote :: "Node \<Rightarrow> outcome" where
  "startPreVote n =
    (if n_role n = Leader then (n, [])
     else
       let n = n\<lparr>n_recentLeaderContact := False, n_leaderID := [], n_role := PreCandidate,
                 n_preVotes := {n_id n}\<rparr>;
           t = add64 (n_term n) 1;
           actions = ResetElectionTimer # map (\<lambda>peer. SendPreVoteRequest peer
             \<lparr>pvq_From = n_id n, pvq_Term = t, pvq_LastLogIndex = n_lastLogIndex n,
              pvq_LastLogTerm = n_lastLogTerm n\<rparr>) (n_peers n)
       in if quorum n = 1 then (let (n, more) = startElection n in (n, actions @ more))
          else (n, actions))"

definition handlePreVoteRequest :: "Node \<Rightarrow> PreVoteRequest \<Rightarrow> outcome" where
  "handlePreVoteRequest n request =
    (let grant = (pvq_Term request \<ge> add64 (n_term n) 1 \<and> \<not> n_recentLeaderContact n
                  \<and> candidateLogIsUpToDate n (pvq_LastLogTerm request) (pvq_LastLogIndex request))
     in (n, [SendPreVoteResponse (pvq_From request)
               \<lparr>pvr_From = n_id n, pvr_Term = pvq_Term request, pvr_CurrentTerm = n_term n,
                pvr_Granted = grant\<rparr>]))"

definition handlePreVoteResponse :: "Node \<Rightarrow> PreVoteResponse \<Rightarrow> outcome" where
  "handlePreVoteResponse n response =
    (if pvr_CurrentTerm response > n_term n
     then persistHardState (becomeFollower n (pvr_CurrentTerm response) []) []
     else if n_role n \<noteq> PreCandidate \<or> pvr_Term response \<noteq> add64 (n_term n) 1 \<or> \<not> pvr_Granted response
     then (n, [])
     else
       let n = n\<lparr>n_preVotes := insert (pvr_From response) (n_preVotes n)\<rparr> in
       if card (n_preVotes n) < quorum n then (n, []) else startElection n)"

definition handleVoteRequest :: "Node \<Rightarrow> VoteRequest \<Rightarrow> outcome" where
  "handleVoteRequest n request =
    (if vq_Term request < n_term n then (n, voteResponse n (vq_From request) False)
     else
       let termChanged = (vq_Term request > n_term n);
           n = (if termChanged then becomeFollower n (vq_Term request) [] else n);
           canVote = (n_votedFor n = [] \<or> n_votedFor n = vq_From request);
           grant = (canVote \<and> candidateLogIsUpToDate n (vq_LastLogTerm request) (vq_LastLogIndex request));
           n = (if grant then n\<lparr>n_votedFor := vq_From request\<rparr> else n);
           response = voteResponse n (vq_From request) grant
       in if termChanged \<or> (grant \<and> \<not> voteIsDurable n (vq_From request))
          then persistHardState n response
          else (n, response))"

text \<open>The entry literals of the code, which leave the fields they do not name zero.\<close>

definition noOpEntry :: "u64 \<Rightarrow> u64 \<Rightarrow> LogEntry" where
  "noOpEntry index t = \<lparr>le_Index = index, le_Term = t, le_Type = EntryNoOp,
     le_SessionID = zeroSessionID, le_Sequence = 0, le_Key = [], le_Value = []\<rparr>"

definition leaderPending :: "Node \<Rightarrow> LogEntry \<Rightarrow> pendingLogPersistence" where
  "leaderPending n entry = \<lparr>pl_purpose = persistLeaderEntry, pl_term = n_term n, pl_leader = [],
     pl_requestID = 0, pl_truncateFrom = 0, pl_lastIndex = le_Index entry, pl_leaderCommit = 0,
     pl_readID = 0\<rparr>"

definition becomeLeader :: "Node \<Rightarrow> Node" where
  "becomeLeader n =
    n\<lparr>n_role := Leader, n_leaderID := n_id n, n_activePeers := {}, n_matchIndex := Map.empty,
      n_nextIndex := Map.empty, n_appendInFlight := Map.empty, n_snapshotInFlight := Map.empty,
      n_readReady := False\<rparr>"

definition handleVoteResponse :: "Node \<Rightarrow> VoteResponse \<Rightarrow> outcome mayPanic" where
  "handleVoteResponse n response =
    (if vr_Term response > n_term n
     then Some (persistHardState (becomeFollower n (vr_Term response) []) [])
     else if n_role n \<noteq> Candidate \<or> vr_Term response \<noteq> n_term n \<or> \<not> vr_Granted response
     then Some (n, [])
     else
       let n = n\<lparr>n_votes := insert (vr_From response) (n_votes n)\<rparr> in
       if card (n_votes n) < quorum n then Some (n, [])
       else do {
         let n = becomeLeader n;
         let entry = noOpEntry (add64 (n_lastLogIndex n) 1) (n_term n);
         n \<leftarrow> appendEntries n [entry];
         let n = n\<lparr>n_nextIndex := (\<lambda>peer. if peer \<in> set (n_peers n)
                                          then Some (add64 (n_lastLogIndex n) 1) else None)\<rparr>;
         let (n, persist) = persistLog n [entry] (leaderPending n entry);
         Some (n, [BecameLeader (n_term n), ResetHeartbeatTimer, ResetCheckQuorumTimer] @ persist)
       })"

section \<open>Proposals\<close>

text \<open>The common tail of the three proposal handlers.\<close>

definition proposeEntry :: "Node \<Rightarrow> ProposalID \<Rightarrow> LogEntry \<Rightarrow> outcome mayPanic" where
  "proposeEntry n proposalID entry = do {
     n \<leftarrow> appendEntries n [entry];
     let (n, persist) = persistLog n [entry] (leaderPending n entry);
     Some (n, ProposalAccepted proposalID (le_Index entry) # persist)
   }"

definition proposeSession :: "Node \<Rightarrow> ProposeSession \<Rightarrow> outcome mayPanic" where
  "proposeSession n proposal =
    (if n_role n \<noteq> Leader then Some (n, [ProposalRejected (ps_ProposalID proposal) (n_leaderID n)])
     else if ps_Type proposal \<noteq> EntryOpenSession \<and> ps_Type proposal \<noteq> EntryCloseSession
     then Some (n, [])
     else proposeEntry n (ps_ProposalID proposal)
       \<lparr>le_Index = add64 (n_lastLogIndex n) 1, le_Term = n_term n, le_Type = ps_Type proposal,
        le_SessionID = ps_SessionID proposal, le_Sequence = 0, le_Key = [], le_Value = []\<rparr>)"

definition proposeSet :: "Node \<Rightarrow> ProposeSet \<Rightarrow> outcome mayPanic" where
  "proposeSet n proposal =
    (if n_role n \<noteq> Leader then Some (n, [ProposalRejected (pset_ProposalID proposal) (n_leaderID n)])
     else proposeEntry n (pset_ProposalID proposal)
       \<lparr>le_Index = add64 (n_lastLogIndex n) 1, le_Term = n_term n, le_Type = EntrySet,
        le_SessionID = pset_SessionID proposal, le_Sequence = pset_Sequence proposal,
        le_Key = pset_Key proposal, le_Value = pset_Value proposal\<rparr>)"

definition proposeDelete :: "Node \<Rightarrow> ProposeDelete \<Rightarrow> outcome mayPanic" where
  "proposeDelete n proposal =
    (if n_role n \<noteq> Leader then Some (n, [ProposalRejected (pdel_ProposalID proposal) (n_leaderID n)])
     else proposeEntry n (pdel_ProposalID proposal)
       \<lparr>le_Index = add64 (n_lastLogIndex n) 1, le_Term = n_term n, le_Type = EntryDelete,
        le_SessionID = pdel_SessionID proposal, le_Sequence = pdel_Sequence proposal,
        le_Key = pdel_Key proposal, le_Value = []\<rparr>)"

section \<open>Replication\<close>

definition sendAppendEntriesTo :: "Node \<Rightarrow> NodeID \<Rightarrow> ReadID \<Rightarrow> outcome mayPanic" where
  "sendAppendEntriesTo n peer readID =
    (if pa_requestID (lookup_default zeroAppend (n_appendInFlight n) peer) \<noteq> 0 then Some (n, [])
     else
       let durableLastIndex = min (n_durableLogIndex n) (n_lastLogIndex n);
           nextIndex = lookup_default 0 (n_nextIndex n) peer;
           nextIndex = (if nextIndex = 0 \<or> nextIndex > add64 durableLastIndex 1
                        then add64 durableLastIndex 1 else nextIndex)
       in if nextIndex \<le> n_logBaseIndex n then
            (if lookup_default 0 (n_snapshotInFlight n) peer \<noteq> 0 then Some (n, [])
             else
               let requestID = add64 (n_nextRequestID n) 1 in
               Some (n\<lparr>n_nextRequestID := requestID,
                       n_snapshotInFlight := (n_snapshotInFlight n)(peer \<mapsto> requestID)\<rparr>,
                     [SendInstallSnapshot peer (n_term n) requestID (n_logBaseIndex n)
                        (n_logBaseTerm n) 0]))
          else do {
            let prevIndex = sub64 nextIndex 1;
            let requestID = add64 (n_nextRequestID n) 1;
            prevTerm \<leftarrow> termAt n prevIndex;
            entries \<leftarrow> entriesBatch n nextIndex durableLastIndex;
            let request = \<lparr>ae_From = n_id n, ae_Term = n_term n, ae_RequestID = requestID,
                           ae_PrevLogIndex = prevIndex, ae_PrevLogTerm = prevTerm,
                           ae_Entries = entries, ae_LeaderCommit = n_commitIndex n,
                           ae_ReadID = readID\<rparr>;
            Some (n\<lparr>n_nextRequestID := requestID,
                    n_appendInFlight := (n_appendInFlight n)
                      (peer \<mapsto> \<lparr>pa_requestID = requestID, pa_leaderCommit = n_commitIndex n\<rparr>)\<rparr>,
                  [SendAppendEntries peer request])
          })"

fun sendAppendEntriesAll :: "Node \<Rightarrow> ReadID \<Rightarrow> NodeID list \<Rightarrow> outcome mayPanic" where
  "sendAppendEntriesAll n readID [] = Some (n, [])"
| "sendAppendEntriesAll n readID (peer # peers) = do {
     let peerReadID = (if readID = 0 then pendingReadFor n peer else readID);
     (n, first) \<leftarrow> sendAppendEntriesTo n peer peerReadID;
     (n, rest) \<leftarrow> sendAppendEntriesAll n readID peers;
     Some (n, first @ rest)
   }"

definition sendAppendEntries :: "Node \<Rightarrow> ReadID \<Rightarrow> outcome mayPanic" where
  "sendAppendEntries n readID = sendAppendEntriesAll n readID (n_peers n)"

definition confirmRead :: "Node \<Rightarrow> ReadID \<Rightarrow> outcome mayPanic" where
  "confirmRead n readID =
    (if n_role n \<noteq> Leader then Some (n, [ReadRejected readID (n_leaderID n)])
     else if \<not> n_readReady n then Some (n, [ReadRejected readID []])
     else sendAppendEntries
       (n\<lparr>n_pendingReads := fmupd readID
            \<lparr>prd_acknowledgements = {n_id n}, prd_commitIndex = 0, prd_confirmed = False\<rparr>
            (n_pendingReads n)\<rparr>) readID)"

definition heartbeatRound :: "Node \<Rightarrow> outcome mayPanic" where
  "heartbeatRound n =
    (if n_role n \<noteq> Leader then Some (n, [])
     else do {
       (n, sends) \<leftarrow> sendAppendEntries (n\<lparr>n_appendInFlight := Map.empty\<rparr>) 0;
       Some (n, ResetHeartbeatTimer # sends)
     })"

text \<open>
  The part that \<open>handleAppendEntries\<close> and \<open>handleInstallSnapshot\<close> share: a request of the current
  or a later Term comes from the Leader of that Term.
\<close>

definition acceptLeader :: "Node \<Rightarrow> u64 \<Rightarrow> NodeID \<Rightarrow> Node" where
  "acceptLeader n t from =
    (let n = (if t > n_term n then becomeFollower n t from
              else n\<lparr>n_role := Follower, n_leaderID := from, n_readReady := False\<rparr>)
     in n\<lparr>n_recentLeaderContact := True\<rparr>)"

definition persistIf :: "bool \<Rightarrow> outcome \<Rightarrow> outcome" where
  "persistIf termChanged = (\<lambda>(n, after). if termChanged then persistHardState n after else (n, after))"

definition rejectAppend :: "Node \<Rightarrow> AppendEntries \<Rightarrow> u64 \<Rightarrow> outcome mayPanic" where
  "rejectAppend n request index = do {
     (conflictTerm, conflictIndex) \<leftarrow> conflictHint n index;
     Some (n, ResetElectionTimer #
       appendEntriesResponse n (ae_From request) (ae_RequestID request) False (n_lastLogIndex n)
         conflictTerm conflictIndex (ae_ReadID request))
   }"

definition acceptAppend :: "Node \<Rightarrow> AppendEntries \<Rightarrow> LogEntry list \<Rightarrow> u64 \<Rightarrow> outcome mayPanic" where
  "acceptAppend n request newEntries truncateFrom =
    (if newEntries \<noteq> [] then do {
       n \<leftarrow> (if truncateFrom \<noteq> 0 then truncateLog n truncateFrom else Some n);
       n \<leftarrow> appendEntries n newEntries;
       let (n, persist) = persistLog n newEntries
         \<lparr>pl_purpose = persistFollowerAppend, pl_term = ae_Term request, pl_leader = ae_From request,
          pl_requestID = ae_RequestID request, pl_truncateFrom = truncateFrom,
          pl_lastIndex = n_lastLogIndex n, pl_leaderCommit = ae_LeaderCommit request,
          pl_readID = ae_ReadID request\<rparr>;
       Some (n, ResetElectionTimer # persist)
     }
     else if n_lastLogIndex n > n_durableLogIndex n then Some (n, [ResetElectionTimer])
     else do {
       (n, actions) \<leftarrow> advanceFollowerCommit n (ae_LeaderCommit request)
         (appendEntriesResponse n (ae_From request) (ae_RequestID request) True (n_lastLogIndex n)
            0 0 (ae_ReadID request));
       Some (n, ResetElectionTimer # actions)
     })"

definition handleAppendEntries :: "Node \<Rightarrow> AppendEntries \<Rightarrow> outcome mayPanic" where
  "handleAppendEntries n request =
    (if ae_Term request < n_term n
     then Some (n, appendEntriesResponse n (ae_From request) (ae_RequestID request) False
                     (n_lastLogIndex n) 0 0 (ae_ReadID request))
     else do {
       let termChanged = (ae_Term request > n_term n);
       let n = acceptLeader n (ae_Term request) (ae_From request);
       matching \<leftarrow> matches n (ae_PrevLogIndex request) (ae_PrevLogTerm request);
       if \<not> matching
       then map_option (persistIf termChanged) (rejectAppend n request (ae_PrevLogIndex request))
       else do {
         (newEntries, truncateFrom, ok) \<leftarrow>
           entriesToAppend n (ae_PrevLogIndex request) (ae_Entries request);
         map_option (persistIf termChanged)
           (if \<not> ok then rejectAppend n request (add64 (ae_PrevLogIndex request) 1)
            else acceptAppend n request newEntries truncateFrom)
       }
     })"

definition acknowledgeRead :: "Node \<Rightarrow> AppendEntriesResponse \<Rightarrow> outcome" where
  "acknowledgeRead n response =
    (let readID = aer_ReadID response in
     case fmlookup (n_pendingReads n) readID of
       None \<Rightarrow> (n, [])
     | Some read \<Rightarrow>
         if readID = 0 \<or> prd_confirmed read then (n, [])
         else
           let read = read\<lparr>prd_acknowledgements :=
                             insert (aer_From response) (prd_acknowledgements read)\<rparr>
           in if card (prd_acknowledgements read) < quorum n
              then (n\<lparr>n_pendingReads := fmupd readID read (n_pendingReads n)\<rparr>, [])
              else completeReads (n\<lparr>n_pendingReads := fmupd readID
                     (read\<lparr>prd_confirmed := True, prd_commitIndex := n_commitIndex n\<rparr>)
                     (n_pendingReads n)\<rparr>))"

text \<open>The update of the progress maps by a response that the Leader accepts.\<close>

definition recordProgress :: "Node \<Rightarrow> AppendEntriesResponse \<Rightarrow> Node mayPanic" where
  "recordProgress n response =
    (let from = aer_From response;
         n = n\<lparr>n_appendInFlight := (n_appendInFlight n)(from := None),
               n_activePeers := insert from (n_activePeers n)\<rparr>
     in if aer_Success response then
          let n = (if aer_MatchIndex response > lookup_default 0 (n_matchIndex n) from
                   then n\<lparr>n_matchIndex := (n_matchIndex n)(from \<mapsto> aer_MatchIndex response)\<rparr>
                   else n)
          in Some (n\<lparr>n_nextIndex := (n_nextIndex n)
                       (from \<mapsto> add64 (lookup_default 0 (n_matchIndex n) from) 1)\<rparr>)
        else do {
          next \<leftarrow> nextIndexFromConflict n response;
          Some (n\<lparr>n_nextIndex := (n_nextIndex n)(from \<mapsto> next)\<rparr>)
        })"

definition handleAppendEntriesResponse :: "Node \<Rightarrow> AppendEntriesResponse \<Rightarrow> outcome mayPanic" where
  "handleAppendEntriesResponse n response =
    (if aer_Term response > n_term n
     then Some (persistHardState (becomeFollower n (aer_Term response) []) [])
     else if n_role n \<noteq> Leader \<or> aer_Term response \<noteq> n_term n then Some (n, [])
     else
       let from = aer_From response;
           pending = lookup_default zeroAppend (n_appendInFlight n) from
       in if pa_requestID pending \<noteq> 0 \<and> aer_RequestID response \<noteq> 0
             \<and> aer_RequestID response \<noteq> pa_requestID pending
          then Some (n, [])
          else do {
            n \<leftarrow> recordProgress n response;
            (n, advanced) \<leftarrow> advanceLeaderCommit n;
            (n, actions) \<leftarrow>
              (if advanced then do {
                 (n, sends) \<leftarrow> sendAppendEntries n 0;
                 Some (persistCommit n sends)
               }
               else
                 let readID = pendingReadFor n from;
                     durableLastIndex = min (n_durableLogIndex n) (n_lastLogIndex n)
                 in if \<not> aer_Success response \<or> lookup_default 0 (n_nextIndex n) from \<le> durableLastIndex
                       \<or> readID \<noteq> 0 \<or> pa_leaderCommit pending < n_commitIndex n
                    then sendAppendEntriesTo n from readID
                    else Some (n, []));
            let (n, reads) = acknowledgeRead n response;
            Some (n, actions @ reads)
          })"

definition handleAppendEntriesFailed :: "Node \<Rightarrow> NodeID \<Rightarrow> u64 \<Rightarrow> Node" where
  "handleAppendEntriesFailed n to requestID =
    (let n = (if pa_requestID (lookup_default zeroAppend (n_appendInFlight n) to) = requestID
              then n\<lparr>n_appendInFlight := (n_appendInFlight n)(to := None)\<rparr> else n)
     in if lookup_default 0 (n_snapshotInFlight n) to = requestID
        then n\<lparr>n_snapshotInFlight := (n_snapshotInFlight n)(to := None)\<rparr> else n)"

section \<open>Snapshots\<close>

definition handleInstallSnapshot :: "Node \<Rightarrow> InstallSnapshot \<Rightarrow> outcome mayPanic" where
  "handleInstallSnapshot n request =
    (if is_Term request < n_term n
     then Some (n, snapshotResponse n request False (is_Offset request) False)
     else do {
       let termChanged = (is_Term request > n_term n);
       let n = acceptLeader n (is_Term request) (is_From request);
       if is_Success request \<and> is_Done request \<and> is_SnapshotIndex request > n_logBaseIndex n
       then do {
         retainSuffix \<leftarrow>
           (if is_SnapshotIndex request \<le> n_lastLogIndex n
            then map_option (\<lambda>t. t = is_SnapshotTerm request) (termAt n (is_SnapshotIndex request))
            else Some False);
         let (n, persist) = persistSnapshot n request retainSuffix;
         Some (persistIf termChanged (n, ResetElectionTimer # persist))
       }
       else
         let alreadyInstalled = (is_Success request \<and> is_Done request
                                 \<and> is_SnapshotIndex request \<le> n_logBaseIndex n)
         in Some (persistIf termChanged (n, ResetElectionTimer #
              snapshotResponse n request (is_Success request) (is_NextOffset request) alreadyInstalled))
     })"

definition snapshotPersisted :: "Node \<Rightarrow> u64 \<Rightarrow> outcome" where
  "snapshotPersisted n persistenceID =
    (case n_pendingSnapshot n persistenceID of
       None \<Rightarrow> (n, [])
     | Some pending \<Rightarrow>
         let n = n\<lparr>n_pendingSnapshot := (n_pendingSnapshot n)(persistenceID := None)\<rparr>;
             request = psn_request pending;
             index = is_SnapshotIndex request;
             n = (if psn_retainSuffix pending
                  then n\<lparr>n_log := dropWhile (\<lambda>e. le_Index e \<le> index) (n_log n)\<rparr>
                  else n\<lparr>n_log := [], n_lastLogIndex := index,
                         n_lastLogTerm := is_SnapshotTerm request, n_durableLogIndex := index\<rparr>);
             n = n\<lparr>n_logBaseIndex := index, n_logBaseTerm := is_SnapshotTerm request,
                   n_commitIndex := max (n_commitIndex n) index,
                   n_durableCommitIndex := max (n_durableCommitIndex n) index,
                   n_lastApplied := index\<rparr>;
             n = (if n_log n \<noteq> []
                  then n\<lparr>n_lastLogIndex := le_Index (last (n_log n)),
                         n_lastLogTerm := le_Term (last (n_log n)),
                         n_durableLogIndex := le_Index (last (n_log n))\<rparr>
                  else n)
         in (n, RestoreSnapshot index (is_SnapshotTerm request)
                # snapshotResponse n request (is_Success request) (is_NextOffset request) True))"

definition handleInstallSnapshotResponse :: "Node \<Rightarrow> InstallSnapshotResponse \<Rightarrow> outcome mayPanic" where
  "handleInstallSnapshotResponse n response =
    (let from = isr_From response in
     if isr_Term response > n_term n
     then Some (persistHardState (becomeFollower n (isr_Term response) []) [])
     else if n_role n \<noteq> Leader \<or> isr_Term response \<noteq> n_term n
             \<or> lookup_default 0 (n_snapshotInFlight n) from \<noteq> isr_RequestID response
     then Some (n, [])
     else if \<not> isr_Success response
     then Some (n\<lparr>n_snapshotInFlight := (n_snapshotInFlight n)(from := None)\<rparr>, [])
     else if \<not> isr_Done response
     then Some (n, [SendInstallSnapshot from (n_term n) (isr_RequestID response) (n_logBaseIndex n)
                      (n_logBaseTerm n) (isr_NextOffset response)])
     else
       let n = n\<lparr>n_snapshotInFlight := (n_snapshotInFlight n)(from := None),
                 n_matchIndex := (n_matchIndex n)
                   (from \<mapsto> max (lookup_default 0 (n_matchIndex n) from) (isr_SnapshotIndex response)),
                 n_nextIndex := (n_nextIndex n)(from \<mapsto> add64 (isr_SnapshotIndex response) 1)\<rparr>
       in sendAppendEntriesTo n from (pendingReadFor n from))"

section \<open>Completions of persistence requests and timers\<close>

definition hardStatePersisted :: "Node \<Rightarrow> u64 \<Rightarrow> outcome" where
  "hardStatePersisted n persistenceID =
    (case n_pendingHardState n persistenceID of
       None \<Rightarrow> (n, [])
     | Some pending \<Rightarrow>
         let n = n\<lparr>n_pendingHardState := (n_pendingHardState n)(persistenceID := None),
                   n_durableTerm := phs_term pending, n_durableVotedFor := phs_votedFor pending\<rparr>
         in if phs_term pending \<noteq> n_term n \<or> phs_votedFor pending \<noteq> n_votedFor n then (n, [])
            else (n, phs_after pending))"

definition logEntriesPersisted :: "Node \<Rightarrow> u64 \<Rightarrow> outcome mayPanic" where
  "logEntriesPersisted n persistenceID =
    (case n_pendingLog n persistenceID of
       None \<Rightarrow> Some (n, [])
     | Some pending \<Rightarrow>
         let n = n\<lparr>n_pendingLog := (n_pendingLog n)(persistenceID := None),
                   n_durableLogIndex := max (n_durableLogIndex n) (pl_lastIndex pending)\<rparr>
         in case pl_purpose pending of
              persistLeaderEntry \<Rightarrow>
                if n_role n \<noteq> Leader \<or> n_term n \<noteq> pl_term pending
                   \<or> n_lastLogIndex n < pl_lastIndex pending
                then Some (n, [])
                else sendAppendEntries n 0
            | persistFollowerAppend \<Rightarrow>
                if n_term n \<noteq> pl_term pending \<or> n_role n \<noteq> Follower
                   \<or> n_leaderID n \<noteq> pl_leader pending
                then Some (n, [])
                else advanceFollowerCommit n (pl_leaderCommit pending)
                  (appendEntriesResponse n (pl_leader pending) (pl_requestID pending) True
                     (pl_lastIndex pending) 0 0 (pl_readID pending)))"

definition commitIndexPersisted :: "Node \<Rightarrow> u64 \<Rightarrow> outcome mayPanic" where
  "commitIndexPersisted n persistenceID =
    (case n_pendingCommit n persistenceID of
       None \<Rightarrow> Some (n, [])
     | Some pending \<Rightarrow> do {
         let n = n\<lparr>n_pendingCommit := (n_pendingCommit n)(persistenceID := None),
                   n_durableCommitIndex := max (n_durableCommitIndex n) (pc_commitIndex pending)\<rparr>;
         (n, actions) \<leftarrow> applyThrough n (pc_commitIndex pending);
         Some (n, actions @ pc_after pending)
       })"

definition checkQuorum :: "Node \<Rightarrow> outcome" where
  "checkQuorum n =
    (if n_role n \<noteq> Leader then (n, [])
     else if card (n_activePeers n) + 1 < quorum n
     then (becomeFollower n (n_term n) [], [ResetElectionTimer, LostLeadership (n_term n)])
     else (n\<lparr>n_activePeers := {}\<rparr>, [ResetCheckQuorumTimer]))"

section \<open>Step\<close>

fun Step :: "Node \<Rightarrow> Event \<Rightarrow> outcome mayPanic" where
  "Step n ElectionTimeout = Some (startPreVote n)"
| "Step n HeartbeatTimeout = heartbeatRound n"
| "Step n CheckQuorumTimeout = Some (checkQuorum n)"
| "Step n (HardStatePersisted i) = Some (hardStatePersisted n i)"
| "Step n (LogEntriesPersisted i) = logEntriesPersisted n i"
| "Step n (CommitIndexPersisted i) = commitIndexPersisted n i"
| "Step n (SnapshotPersisted i) = Some (snapshotPersisted n i)"
| "Step n RecoverCommitted = applyThrough n (n_durableCommitIndex n)"
| "Step n (SnapshotCompacted index t) = map_option (\<lambda>n. (n, [])) (compactLog n index t)"
| "Step n (EvProposeSession p) = proposeSession n p"
| "Step n (EvProposeSet p) = proposeSet n p"
| "Step n (EvProposeDelete p) = proposeDelete n p"
| "Step n (ConfirmRead i) = confirmRead n i"
| "Step n (EvPreVoteRequest m) = Some (handlePreVoteRequest n m)"
| "Step n (EvPreVoteResponse m) = Some (handlePreVoteResponse n m)"
| "Step n (EvVoteRequest m) = Some (handleVoteRequest n m)"
| "Step n (EvVoteResponse m) = handleVoteResponse n m"
| "Step n (EvAppendEntries m) = handleAppendEntries n m"
| "Step n (EvAppendEntriesResponse m) = handleAppendEntriesResponse n m"
| "Step n (AppendEntriesFailed to i) = Some (handleAppendEntriesFailed n to i, [])"
| "Step n (EvInstallSnapshot m) = handleInstallSnapshot n m"
| "Step n (EvInstallSnapshotResponse m) = handleInstallSnapshotResponse n m"

end
