(* ===== verification/Raft_Wf.thy ===== *)
theory Raft_Wf
  imports Raft_Node
begin

text \<open>
  Well-formed Raft nodes. \<open>node_wf\<close> is the invariant that the index arithmetic of
  \<open>src/internal/raft/raft.go\<close> relies on: the log is contiguous above its base, the cached last index
  and Term are those of its last entry, and
  base <= applied <= durable commit <= commit <= last index.
  On a well-formed node every helper returns (no index or slice bound panics) and equals a simple
  total function; the lemmas here give those functions and then show that \<open>Step\<close> returns and keeps
  the invariant for every event whose payload is in range (\<open>event_ok\<close>).
\<close>

section \<open>The invariant\<close>

definition contiguous :: "u64 \<Rightarrow> LogEntry list \<Rightarrow> bool" where
  "contiguous b es \<longleftrightarrow> (\<forall>i < length es. le_Index (es ! i) = b + i + 1)"

definition log_wf :: "Node \<Rightarrow> bool" where
  "log_wf n \<longleftrightarrow> contiguous (n_logBaseIndex n) (n_log n)
     \<and> n_lastLogIndex n = n_logBaseIndex n + length (n_log n)
     \<and> n_lastLogTerm n = (if n_log n = [] then n_logBaseTerm n else le_Term (last (n_log n)))
     \<and> n_lastLogIndex n + 1 < W64"

definition commit_wf :: "Node \<Rightarrow> bool" where
  "commit_wf n \<longleftrightarrow> n_logBaseIndex n \<le> n_lastApplied n \<and> n_lastApplied n \<le> n_durableCommitIndex n
     \<and> n_durableCommitIndex n \<le> n_commitIndex n \<and> n_commitIndex n \<le> n_lastLogIndex n
     \<and> (\<forall>i p. n_pendingCommit n i = Some p \<longrightarrow> pc_commitIndex p \<le> n_commitIndex n)"

definition node_wf :: "Node \<Rightarrow> bool" where
  "node_wf n \<longleftrightarrow> log_wf n \<and> commit_wf n"

definition term_at :: "Node \<Rightarrow> u64 \<Rightarrow> u64" where
  "term_at n i =
    (if i = n_logBaseIndex n then n_logBaseTerm n
     else if n_logBaseIndex n < i \<and> i \<le> n_lastLogIndex n
          then le_Term (n_log n ! (i - n_logBaseIndex n - 1)) else 0)"

lemma contiguous_Nil [simp]: "contiguous b []"
  by (simp add: contiguous_def)

lemma contiguous_Cons [simp]:
  "contiguous b (e # es) \<longleftrightarrow> le_Index e = b + 1 \<and> contiguous (b + 1) es"
  by (auto simp: contiguous_def less_Suc_eq_0_disj)

lemma contiguous_append [simp]:
  "contiguous b (xs @ ys) \<longleftrightarrow> contiguous b xs \<and> contiguous (b + length xs) ys"
  by (induction xs arbitrary: b) auto

lemma contiguous_take [simp]: "contiguous b es \<Longrightarrow> contiguous b (take k es)"
  by (auto simp: contiguous_def)

lemma contiguous_drop: "contiguous b es \<Longrightarrow> k \<le> length es \<Longrightarrow> contiguous (b + k) (drop k es)"
  by (auto simp: contiguous_def)

lemma contiguous_nth: "contiguous b es \<Longrightarrow> i < length es \<Longrightarrow> le_Index (es ! i) = b + i + 1"
  by (simp add: contiguous_def)

lemma contiguous_last: "contiguous b es \<Longrightarrow> es \<noteq> [] \<Longrightarrow> le_Index (last es) = b + length es"
  by (cases es rule: rev_cases) auto

lemma termAt_total: "log_wf n \<Longrightarrow> termAt n i = Some (term_at n i)"
  by (auto simp: termAt_def term_at_def log_wf_def)

lemma term_at_beyond: "n_lastLogIndex n < i \<Longrightarrow> log_wf n \<Longrightarrow> term_at n i = 0"
  by (auto simp: term_at_def log_wf_def)

lemma term_at_last: "log_wf n \<Longrightarrow> term_at n (n_lastLogIndex n) = n_lastLogTerm n"
  by (auto simp: term_at_def log_wf_def last_conv_nth)

lemma matches_total:
  "log_wf n \<Longrightarrow> matches n i t
     = Some (i = 0 \<and> t = 0 \<or> i \<le> n_lastLogIndex n \<and> term_at n i = t)"
  by (auto simp: matches_def termAt_total)

lemma batchLength_le: "batchLength es used taken \<le> length es"
  by (induction es used taken rule: batchLength.induct) auto

definition batch_of :: "Node \<Rightarrow> u64 \<Rightarrow> u64 \<Rightarrow> LogEntry list" where
  "batch_of n first lst =
    (if first = 0 \<or> first > lst \<or> lst > n_lastLogIndex n \<or> first \<le> n_logBaseIndex n then []
     else let candidates = take (lst + 1 - first) (drop (first - n_logBaseIndex n - 1) (n_log n))
          in take (batchLength candidates 0 False) candidates)"

lemma entriesBatch_total: "log_wf n \<Longrightarrow> entriesBatch n first lst = Some (batch_of n first lst)"
  by (auto simp: entriesBatch_def batch_of_def log_wf_def Let_def)


lemma conflictFirst_total:
  assumes "log_wf n" and "n_logBaseIndex n < i"
  shows "\<exists>j. conflictFirst n t i = Some j \<and> n_logBaseIndex n < j \<and> j \<le> i
           \<and> (\<forall>k. j \<le> k \<and> k < i \<longrightarrow> term_at n k = t)
           \<and> (n_logBaseIndex n + 1 < j \<longrightarrow> term_at n (j - 1) \<noteq> t)"
  using assms(2)
proof (induction i)
  case (Suc i)
  have W: "add64 (n_logBaseIndex n) 1 = n_logBaseIndex n + 1"
    using assms(1) by (auto simp: log_wf_def)
  show ?case
  proof (cases "n_logBaseIndex n < i \<and> term_at n i = t")
    case False
    then have "conflictFirst n t (Suc i) = Some (Suc i)" using assms(1) W by (auto simp: termAt_total)
    then show ?thesis using False Suc.prems by auto
  next
    case True
    then obtain j where j: "conflictFirst n t i = Some j" "n_logBaseIndex n < j" "j \<le> i"
      "\<forall>k. j \<le> k \<and> k < i \<longrightarrow> term_at n k = t"
      "n_logBaseIndex n + 1 < j \<longrightarrow> term_at n (j - 1) \<noteq> t" using Suc.IH by blast
    have "conflictFirst n t (Suc i) = Some j" using assms True j(1) W by (simp add: termAt_total)
    moreover have "\<forall>k. j \<le> k \<and> k < Suc i \<longrightarrow> term_at n k = t"
      using j(4) True by (auto simp: less_Suc_eq)
    ultimately show ?thesis using j True by auto
  qed
qed simp

lemma conflictFirst_below: "log_wf n \<Longrightarrow> i \<le> n_logBaseIndex n \<Longrightarrow> conflictFirst n t i = Some i"
  by (cases i) (auto simp: log_wf_def)


lemma conflictHint_total:
  assumes "log_wf n"
  shows "\<exists>h. conflictHint n i = Some h"
proof -
  obtain j where "conflictFirst n (term_at n i) i = Some j"
    using conflictFirst_total [OF assms, of i] conflictFirst_below [OF assms, of i]
    by (meson not_le)
  then show ?thesis using assms by (simp add: conflictHint_def termAt_total)
qed

lemma lastIndexOfTerm_total:
  assumes "log_wf n"
  shows "\<exists>r. lastIndexOfTerm n t i = Some r
           \<and> (case r of None \<Rightarrow> (\<forall>k. 0 < k \<and> k \<le> i \<longrightarrow> term_at n k \<noteq> t)
                | Some j \<Rightarrow> 0 < j \<and> j \<le> i \<and> term_at n j = t \<and> (\<forall>k. j < k \<and> k \<le> i \<longrightarrow> term_at n k \<noteq> t))"
proof (induction i)
  case (Suc i)
  then obtain r where r: "lastIndexOfTerm n t i = Some r"
    "case r of None \<Rightarrow> (\<forall>k. 0 < k \<and> k \<le> i \<longrightarrow> term_at n k \<noteq> t)
       | Some j \<Rightarrow> 0 < j \<and> j \<le> i \<and> term_at n j = t \<and> (\<forall>k. j < k \<and> k \<le> i \<longrightarrow> term_at n k \<noteq> t)" by blast
  show ?case
  proof (cases "term_at n (Suc i) = t")
    case True
    then show ?thesis using assms by (intro exI [of _ "Some (Suc i)"]) (simp add: termAt_total)
  next
    case False
    then show ?thesis using assms r
      by (intro exI [of _ r]) (auto simp: termAt_total le_Suc_eq split: option.splits)
  qed
qed auto

lemma nextIndexFromConflict_total:
  assumes "log_wf n"
  shows "\<exists>k. nextIndexFromConflict n response = Some k \<and> 0 < k \<and> k \<le> n_lastLogIndex n + 1"
proof -
  obtain r where r: "lastIndexOfTerm n (aer_ConflictTerm response) (n_lastLogIndex n) = Some r"
    using lastIndexOfTerm_total [OF assms] by blast
  have "add64 (n_lastLogIndex n) 1 = n_lastLogIndex n + 1" using assms by (simp add: log_wf_def)
  then show ?thesis using r by (auto simp: nextIndexFromConflict_def Let_def)
qed

fun pick_new :: "Node \<Rightarrow> LogEntry list \<Rightarrow> LogEntry list \<times> u64 \<times> bool" where
  "pick_new n [] = ([], 0, True)"
| "pick_new n (e # es) =
    (if le_Index e \<le> n_lastLogIndex n then
       if term_at n (le_Index e) = le_Term e then pick_new n es
       else if le_Index e \<le> n_commitIndex n then ([], 0, False)
       else (e # es, le_Index e, True)
     else (e # es, 0, True))"

lemma entriesToAppendFrom_total:
  assumes "log_wf n" and "contiguous (prev + off) es" and "prev + off + length es < W64"
    and "prev + off \<le> n_lastLogIndex n"
  shows "entriesToAppendFrom n prev off es = Some (pick_new n es)"
  using assms(2-)
proof (induction es arbitrary: off)
  case (Cons e es)
  have "add64 (add64 prev off) 1 = prev + off + 1" "add64 (n_lastLogIndex n) 1 = n_lastLogIndex n + 1"
    using Cons.prems assms(1) by (auto simp: log_wf_def)
  then show ?case using Cons assms(1) by (auto simp: termAt_total)
qed simp

lemma log_wf_frame [simp]:
  "log_wf (n\<lparr>n_id := x_id\<rparr>) = log_wf n"
  "log_wf (n\<lparr>n_peers := x_peers\<rparr>) = log_wf n"
  "log_wf (n\<lparr>n_role := x_role\<rparr>) = log_wf n"
  "log_wf (n\<lparr>n_term := x_term\<rparr>) = log_wf n"
  "log_wf (n\<lparr>n_votedFor := x_votedFor\<rparr>) = log_wf n"
  "log_wf (n\<lparr>n_leaderID := x_leaderID\<rparr>) = log_wf n"
  "log_wf (n\<lparr>n_durableLogIndex := x_durableLogIndex\<rparr>) = log_wf n"
  "log_wf (n\<lparr>n_commitIndex := x_commitIndex\<rparr>) = log_wf n"
  "log_wf (n\<lparr>n_lastApplied := x_lastApplied\<rparr>) = log_wf n"
  "log_wf (n\<lparr>n_readReady := x_readReady\<rparr>) = log_wf n"
  "log_wf (n\<lparr>n_votes := x_votes\<rparr>) = log_wf n"
  "log_wf (n\<lparr>n_preVotes := x_preVotes\<rparr>) = log_wf n"
  "log_wf (n\<lparr>n_activePeers := x_activePeers\<rparr>) = log_wf n"
  "log_wf (n\<lparr>n_matchIndex := x_matchIndex\<rparr>) = log_wf n"
  "log_wf (n\<lparr>n_nextIndex := x_nextIndex\<rparr>) = log_wf n"
  "log_wf (n\<lparr>n_appendInFlight := x_appendInFlight\<rparr>) = log_wf n"
  "log_wf (n\<lparr>n_snapshotInFlight := x_snapshotInFlight\<rparr>) = log_wf n"
  "log_wf (n\<lparr>n_nextRequestID := x_nextRequestID\<rparr>) = log_wf n"
  "log_wf (n\<lparr>n_pendingReads := x_pendingReads\<rparr>) = log_wf n"
  "log_wf (n\<lparr>n_recentLeaderContact := x_recentLeaderContact\<rparr>) = log_wf n"
  "log_wf (n\<lparr>n_durableTerm := x_durableTerm\<rparr>) = log_wf n"
  "log_wf (n\<lparr>n_durableVotedFor := x_durableVotedFor\<rparr>) = log_wf n"
  "log_wf (n\<lparr>n_nextHardStatePersistence := x_nextHardStatePersistence\<rparr>) = log_wf n"
  "log_wf (n\<lparr>n_pendingHardState := x_pendingHardState\<rparr>) = log_wf n"
  "log_wf (n\<lparr>n_nextLogPersistence := x_nextLogPersistence\<rparr>) = log_wf n"
  "log_wf (n\<lparr>n_pendingLog := x_pendingLog\<rparr>) = log_wf n"
  "log_wf (n\<lparr>n_durableCommitIndex := x_durableCommitIndex\<rparr>) = log_wf n"
  "log_wf (n\<lparr>n_nextCommitPersistence := x_nextCommitPersistence\<rparr>) = log_wf n"
  "log_wf (n\<lparr>n_pendingCommit := x_pendingCommit\<rparr>) = log_wf n"
  "log_wf (n\<lparr>n_nextSnapshotPersistence := x_nextSnapshotPersistence\<rparr>) = log_wf n"
  "log_wf (n\<lparr>n_pendingSnapshot := x_pendingSnapshot\<rparr>) = log_wf n"
  by (simp_all add: log_wf_def)

lemma commit_wf_frame [simp]:
  "commit_wf (n\<lparr>n_id := x_id\<rparr>) = commit_wf n"
  "commit_wf (n\<lparr>n_peers := x_peers\<rparr>) = commit_wf n"
  "commit_wf (n\<lparr>n_role := x_role\<rparr>) = commit_wf n"
  "commit_wf (n\<lparr>n_term := x_term\<rparr>) = commit_wf n"
  "commit_wf (n\<lparr>n_votedFor := x_votedFor\<rparr>) = commit_wf n"
  "commit_wf (n\<lparr>n_leaderID := x_leaderID\<rparr>) = commit_wf n"
  "commit_wf (n\<lparr>n_lastLogTerm := x_lastLogTerm\<rparr>) = commit_wf n"
  "commit_wf (n\<lparr>n_durableLogIndex := x_durableLogIndex\<rparr>) = commit_wf n"
  "commit_wf (n\<lparr>n_logBaseTerm := x_logBaseTerm\<rparr>) = commit_wf n"
  "commit_wf (n\<lparr>n_log := x_log\<rparr>) = commit_wf n"
  "commit_wf (n\<lparr>n_readReady := x_readReady\<rparr>) = commit_wf n"
  "commit_wf (n\<lparr>n_votes := x_votes\<rparr>) = commit_wf n"
  "commit_wf (n\<lparr>n_preVotes := x_preVotes\<rparr>) = commit_wf n"
  "commit_wf (n\<lparr>n_activePeers := x_activePeers\<rparr>) = commit_wf n"
  "commit_wf (n\<lparr>n_matchIndex := x_matchIndex\<rparr>) = commit_wf n"
  "commit_wf (n\<lparr>n_nextIndex := x_nextIndex\<rparr>) = commit_wf n"
  "commit_wf (n\<lparr>n_appendInFlight := x_appendInFlight\<rparr>) = commit_wf n"
  "commit_wf (n\<lparr>n_snapshotInFlight := x_snapshotInFlight\<rparr>) = commit_wf n"
  "commit_wf (n\<lparr>n_nextRequestID := x_nextRequestID\<rparr>) = commit_wf n"
  "commit_wf (n\<lparr>n_pendingReads := x_pendingReads\<rparr>) = commit_wf n"
  "commit_wf (n\<lparr>n_recentLeaderContact := x_recentLeaderContact\<rparr>) = commit_wf n"
  "commit_wf (n\<lparr>n_durableTerm := x_durableTerm\<rparr>) = commit_wf n"
  "commit_wf (n\<lparr>n_durableVotedFor := x_durableVotedFor\<rparr>) = commit_wf n"
  "commit_wf (n\<lparr>n_nextHardStatePersistence := x_nextHardStatePersistence\<rparr>) = commit_wf n"
  "commit_wf (n\<lparr>n_pendingHardState := x_pendingHardState\<rparr>) = commit_wf n"
  "commit_wf (n\<lparr>n_nextLogPersistence := x_nextLogPersistence\<rparr>) = commit_wf n"
  "commit_wf (n\<lparr>n_pendingLog := x_pendingLog\<rparr>) = commit_wf n"
  "commit_wf (n\<lparr>n_nextCommitPersistence := x_nextCommitPersistence\<rparr>) = commit_wf n"
  "commit_wf (n\<lparr>n_nextSnapshotPersistence := x_nextSnapshotPersistence\<rparr>) = commit_wf n"
  "commit_wf (n\<lparr>n_pendingSnapshot := x_pendingSnapshot\<rparr>) = commit_wf n"
  by (simp_all add: commit_wf_def)

lemma term_at_frame [simp]:
  "term_at (n\<lparr>n_id := x_id\<rparr>) = term_at n"
  "term_at (n\<lparr>n_peers := x_peers\<rparr>) = term_at n"
  "term_at (n\<lparr>n_role := x_role\<rparr>) = term_at n"
  "term_at (n\<lparr>n_term := x_term\<rparr>) = term_at n"
  "term_at (n\<lparr>n_votedFor := x_votedFor\<rparr>) = term_at n"
  "term_at (n\<lparr>n_leaderID := x_leaderID\<rparr>) = term_at n"
  "term_at (n\<lparr>n_lastLogTerm := x_lastLogTerm\<rparr>) = term_at n"
  "term_at (n\<lparr>n_durableLogIndex := x_durableLogIndex\<rparr>) = term_at n"
  "term_at (n\<lparr>n_commitIndex := x_commitIndex\<rparr>) = term_at n"
  "term_at (n\<lparr>n_lastApplied := x_lastApplied\<rparr>) = term_at n"
  "term_at (n\<lparr>n_readReady := x_readReady\<rparr>) = term_at n"
  "term_at (n\<lparr>n_votes := x_votes\<rparr>) = term_at n"
  "term_at (n\<lparr>n_preVotes := x_preVotes\<rparr>) = term_at n"
  "term_at (n\<lparr>n_activePeers := x_activePeers\<rparr>) = term_at n"
  "term_at (n\<lparr>n_matchIndex := x_matchIndex\<rparr>) = term_at n"
  "term_at (n\<lparr>n_nextIndex := x_nextIndex\<rparr>) = term_at n"
  "term_at (n\<lparr>n_appendInFlight := x_appendInFlight\<rparr>) = term_at n"
  "term_at (n\<lparr>n_snapshotInFlight := x_snapshotInFlight\<rparr>) = term_at n"
  "term_at (n\<lparr>n_nextRequestID := x_nextRequestID\<rparr>) = term_at n"
  "term_at (n\<lparr>n_pendingReads := x_pendingReads\<rparr>) = term_at n"
  "term_at (n\<lparr>n_recentLeaderContact := x_recentLeaderContact\<rparr>) = term_at n"
  "term_at (n\<lparr>n_durableTerm := x_durableTerm\<rparr>) = term_at n"
  "term_at (n\<lparr>n_durableVotedFor := x_durableVotedFor\<rparr>) = term_at n"
  "term_at (n\<lparr>n_nextHardStatePersistence := x_nextHardStatePersistence\<rparr>) = term_at n"
  "term_at (n\<lparr>n_pendingHardState := x_pendingHardState\<rparr>) = term_at n"
  "term_at (n\<lparr>n_nextLogPersistence := x_nextLogPersistence\<rparr>) = term_at n"
  "term_at (n\<lparr>n_pendingLog := x_pendingLog\<rparr>) = term_at n"
  "term_at (n\<lparr>n_durableCommitIndex := x_durableCommitIndex\<rparr>) = term_at n"
  "term_at (n\<lparr>n_nextCommitPersistence := x_nextCommitPersistence\<rparr>) = term_at n"
  "term_at (n\<lparr>n_pendingCommit := x_pendingCommit\<rparr>) = term_at n"
  "term_at (n\<lparr>n_nextSnapshotPersistence := x_nextSnapshotPersistence\<rparr>) = term_at n"
  "term_at (n\<lparr>n_pendingSnapshot := x_pendingSnapshot\<rparr>) = term_at n"
  by (simp_all add: term_at_def fun_eq_iff)

lemma quorum_frame [simp]:
  "quorum (n\<lparr>n_id := x_id\<rparr>) = quorum n"
  "quorum (n\<lparr>n_role := x_role\<rparr>) = quorum n"
  "quorum (n\<lparr>n_term := x_term\<rparr>) = quorum n"
  "quorum (n\<lparr>n_votedFor := x_votedFor\<rparr>) = quorum n"
  "quorum (n\<lparr>n_leaderID := x_leaderID\<rparr>) = quorum n"
  "quorum (n\<lparr>n_lastLogIndex := x_lastLogIndex\<rparr>) = quorum n"
  "quorum (n\<lparr>n_lastLogTerm := x_lastLogTerm\<rparr>) = quorum n"
  "quorum (n\<lparr>n_durableLogIndex := x_durableLogIndex\<rparr>) = quorum n"
  "quorum (n\<lparr>n_logBaseIndex := x_logBaseIndex\<rparr>) = quorum n"
  "quorum (n\<lparr>n_logBaseTerm := x_logBaseTerm\<rparr>) = quorum n"
  "quorum (n\<lparr>n_log := x_log\<rparr>) = quorum n"
  "quorum (n\<lparr>n_commitIndex := x_commitIndex\<rparr>) = quorum n"
  "quorum (n\<lparr>n_lastApplied := x_lastApplied\<rparr>) = quorum n"
  "quorum (n\<lparr>n_readReady := x_readReady\<rparr>) = quorum n"
  "quorum (n\<lparr>n_votes := x_votes\<rparr>) = quorum n"
  "quorum (n\<lparr>n_preVotes := x_preVotes\<rparr>) = quorum n"
  "quorum (n\<lparr>n_activePeers := x_activePeers\<rparr>) = quorum n"
  "quorum (n\<lparr>n_matchIndex := x_matchIndex\<rparr>) = quorum n"
  "quorum (n\<lparr>n_nextIndex := x_nextIndex\<rparr>) = quorum n"
  "quorum (n\<lparr>n_appendInFlight := x_appendInFlight\<rparr>) = quorum n"
  "quorum (n\<lparr>n_snapshotInFlight := x_snapshotInFlight\<rparr>) = quorum n"
  "quorum (n\<lparr>n_nextRequestID := x_nextRequestID\<rparr>) = quorum n"
  "quorum (n\<lparr>n_pendingReads := x_pendingReads\<rparr>) = quorum n"
  "quorum (n\<lparr>n_recentLeaderContact := x_recentLeaderContact\<rparr>) = quorum n"
  "quorum (n\<lparr>n_durableTerm := x_durableTerm\<rparr>) = quorum n"
  "quorum (n\<lparr>n_durableVotedFor := x_durableVotedFor\<rparr>) = quorum n"
  "quorum (n\<lparr>n_nextHardStatePersistence := x_nextHardStatePersistence\<rparr>) = quorum n"
  "quorum (n\<lparr>n_pendingHardState := x_pendingHardState\<rparr>) = quorum n"
  "quorum (n\<lparr>n_nextLogPersistence := x_nextLogPersistence\<rparr>) = quorum n"
  "quorum (n\<lparr>n_pendingLog := x_pendingLog\<rparr>) = quorum n"
  "quorum (n\<lparr>n_durableCommitIndex := x_durableCommitIndex\<rparr>) = quorum n"
  "quorum (n\<lparr>n_nextCommitPersistence := x_nextCommitPersistence\<rparr>) = quorum n"
  "quorum (n\<lparr>n_pendingCommit := x_pendingCommit\<rparr>) = quorum n"
  "quorum (n\<lparr>n_nextSnapshotPersistence := x_nextSnapshotPersistence\<rparr>) = quorum n"
  "quorum (n\<lparr>n_pendingSnapshot := x_pendingSnapshot\<rparr>) = quorum n"
  by (simp_all add: quorum_def)


text \<open>The entries that a list of actions applies, in order.\<close>

fun applied :: "Action list \<Rightarrow> LogEntry list" where
  "applied [] = []"
| "applied (ApplyEntry e # as) = e # applied as"
| "applied (_ # as) = applied as"

lemma applied_append [simp]: "applied (as @ bs) = applied as @ applied bs"
  by (induction as rule: applied.induct) auto

lemma applyNext_total:
  assumes "log_wf n" and "n_logBaseIndex n \<le> n_lastApplied n" and "n_lastApplied n < n_lastLogIndex n"
  shows "\<exists>rr acts. applyNext n = Some (n\<lparr>n_lastApplied := n_lastApplied n + 1, n_readReady := rr\<rparr>, acts)
    \<and> applied acts = [n_log n ! (n_lastApplied n - n_logBaseIndex n)]
    \<and> set acts \<subseteq> range ApplyEntry \<union> {BecameReadReady (n_term n)}
    \<and> (n_role n \<noteq> Leader \<longrightarrow> rr = n_readReady n)"
proof -
  let ?i = "n_lastApplied n - n_logBaseIndex n"
  have "add64 (n_lastApplied n) 1 = n_lastApplied n + 1"
    and "sub64 (sub64 (n_lastApplied n + 1) (n_logBaseIndex n)) 1 = ?i"
    and "?i < length (n_log n)"
    using assms by (auto simp: log_wf_def)
  then have *: "applyNext n =
    (let e = n_log n ! ?i; n' = n\<lparr>n_lastApplied := n_lastApplied n + 1\<rparr> in
      if n_role n = Leader \<and> \<not> n_readReady n \<and> le_Type e = EntryNoOp \<and> le_Term e = n_term n
      then Some (n'\<lparr>n_readReady := True\<rparr>, [ApplyEntry e, BecameReadReady (n_term n)])
      else Some (n', [ApplyEntry e]))"
    by (simp add: applyNext_def Let_def)
  show ?thesis
  proof (cases "n_role n = Leader \<and> \<not> n_readReady n \<and> le_Type (n_log n ! ?i) = EntryNoOp
      \<and> le_Term (n_log n ! ?i) = n_term n")
    case True
    then show ?thesis unfolding * by (intro exI [of _ True]) (simp add: Let_def)
  next
    case False
    have "n\<lparr>n_lastApplied := n_lastApplied n + 1\<rparr>
      = n\<lparr>n_lastApplied := n_lastApplied n + 1, n_readReady := n_readReady n\<rparr>" by simp
    then show ?thesis using False unfolding * by (intro exI [of _ "n_readReady n"]) (auto simp: Let_def)
  qed
qed

lemma applyLoop_total:
  assumes "log_wf n" and "n_logBaseIndex n \<le> n_lastApplied n" and "n_lastApplied n + k \<le> n_lastLogIndex n"
  shows "\<exists>rr acts. applyLoop k n = Some (n\<lparr>n_lastApplied := n_lastApplied n + k, n_readReady := rr\<rparr>, acts)
    \<and> applied acts = take k (drop (n_lastApplied n - n_logBaseIndex n) (n_log n))
    \<and> set acts \<subseteq> range ApplyEntry \<union> {BecameReadReady (n_term n)}
    \<and> (n_role n \<noteq> Leader \<longrightarrow> rr = n_readReady n)"
  using assms
proof (induction k arbitrary: n)
  case 0
  then show ?case by (intro exI [of _ "n_readReady n"] exI [of _ "[]"]) simp
next
  case (Suc k)
  obtain r1 a1 where 1: "applyNext n = Some (n\<lparr>n_lastApplied := n_lastApplied n + 1, n_readReady := r1\<rparr>, a1)"
      "applied a1 = [n_log n ! (n_lastApplied n - n_logBaseIndex n)]"
      "set a1 \<subseteq> range ApplyEntry \<union> {BecameReadReady (n_term n)}" "n_role n \<noteq> Leader \<longrightarrow> r1 = n_readReady n"
    using applyNext_total [of n] Suc.prems by auto
  let ?n = "n\<lparr>n_lastApplied := n_lastApplied n + 1, n_readReady := r1\<rparr>"
  obtain r2 a2 where 2: "applyLoop k ?n = Some (?n\<lparr>n_lastApplied := n_lastApplied ?n + k, n_readReady := r2\<rparr>, a2)"
      "applied a2 = take k (drop (n_lastApplied n + 1 - n_logBaseIndex n) (n_log n))"
      "set a2 \<subseteq> range ApplyEntry \<union> {BecameReadReady (n_term n)}" "n_role n \<noteq> Leader \<longrightarrow> r2 = r1"
    using Suc.IH [of ?n] Suc.prems by auto
  have "n_lastApplied n - n_logBaseIndex n < length (n_log n)"
    using Suc.prems by (auto simp: log_wf_def)
  then have "applied (a1 @ a2) = take (Suc k) (drop (n_lastApplied n - n_logBaseIndex n) (n_log n))"
    using 1(2) 2(2) Suc.prems(2) by (simp add: Suc_diff_le Cons_nth_drop_Suc [symmetric])
  then show ?case using 1 2
    by (intro exI [of _ r2] exI [of _ "a1 @ a2"]) auto
qed

definition readable :: "Node \<Rightarrow> pendingRead \<Rightarrow> bool" where
  "readable n read \<longleftrightarrow> prd_confirmed read \<and> prd_commitIndex read \<le> n_lastApplied n"


definition is_readable :: "Node \<Rightarrow> ReadID \<Rightarrow> bool" where
  "is_readable n i \<longleftrightarrow> (case fmlookup (n_pendingReads n) i of None \<Rightarrow> False | Some read \<Rightarrow> readable n read)"

definition confirm_action :: "Node \<Rightarrow> ReadID \<Rightarrow> Action" where
  "confirm_action n i = ReadConfirmed i (prd_commitIndex (the (fmlookup (n_pendingReads n) i)))"

lemma completeRead_foldl:
  assumes "distinct ids"
  shows "foldl completeRead (n, acts) ids =
    (n\<lparr>n_pendingReads := fmfilter (\<lambda>i. \<not> (i \<in> set ids \<and> is_readable n i)) (n_pendingReads n)\<rparr>,
     acts @ map (confirm_action n) (filter (is_readable n) ids))"
  using assms
proof (induction ids arbitrary: n acts)
  case Nil
  have "fmfilter (\<lambda>_. True) (n_pendingReads n) = n_pendingReads n" by (intro fmap_ext) simp
  then show ?case by simp
next
  case (Cons i ids)
  show ?case
  proof (cases "is_readable n i")
    case False
    then have "completeRead (n, acts) i = (n, acts)"
      by (auto simp: completeRead_def is_readable_def readable_def split: option.splits)
    moreover have "fmfilter (\<lambda>j. \<not> (j \<in> set (i # ids) \<and> is_readable n j)) (n_pendingReads n)
        = fmfilter (\<lambda>j. \<not> (j \<in> set ids \<and> is_readable n j)) (n_pendingReads n)"
      using False by (intro fmap_ext) auto
    ultimately show ?thesis using Cons.IH [of n acts] Cons.prems False
      by (simp only: foldl_Cons filter.simps if_False distinct.simps)
  next
    case True
    let ?n = "n\<lparr>n_pendingReads := fmdrop i (n_pendingReads n)\<rparr>"
    have 1: "completeRead (n, acts) i = (?n, acts @ [confirm_action n i])"
      using True by (auto simp: completeRead_def is_readable_def readable_def confirm_action_def
        split: option.splits)
    have 2: "is_readable ?n j = is_readable n j" "confirm_action ?n j = confirm_action n j" if "j \<noteq> i" for j
      using that by (simp_all add: is_readable_def confirm_action_def readable_def split: option.split)
    have 3: "filter (is_readable ?n) ids = filter (is_readable n) ids"
      using Cons.prems by (intro filter_cong refl 2) auto
    have 4: "map (confirm_action ?n) (filter (is_readable n) ids) = map (confirm_action n) (filter (is_readable n) ids)"
      using Cons.prems by (intro map_cong refl 2) auto
    have 5: "fmfilter (\<lambda>j. \<not> (j \<in> set ids \<and> is_readable ?n j)) (n_pendingReads ?n)
        = fmfilter (\<lambda>j. \<not> (j \<in> set (i # ids) \<and> is_readable n j)) (n_pendingReads n)"
      using True 2 by (intro fmap_ext) auto
    have "foldl completeRead (n, acts) (i # ids) = foldl completeRead (?n, acts @ [confirm_action n i]) ids"
      by (simp only: foldl_Cons 1)
    also have "\<dots> = (?n\<lparr>n_pendingReads := fmfilter (\<lambda>j. \<not> (j \<in> set ids \<and> is_readable ?n j)) (n_pendingReads ?n)\<rparr>,
        (acts @ [confirm_action n i]) @ map (confirm_action ?n) (filter (is_readable ?n) ids))"
      using Cons.prems by (intro Cons.IH) simp
    finally show ?thesis using True unfolding 3 4 5 by simp
  qed
qed

lemma completeReads_eq:
  "completeReads n =
    (n\<lparr>n_pendingReads := fmfilter (\<lambda>i. \<not> is_readable n i) (n_pendingReads n)\<rparr>,
     map (confirm_action n) (filter (is_readable n) (sorted_list_of_fset (fmdom (n_pendingReads n)))))"
proof -
  have "fmfilter (\<lambda>i. \<not> (i |\<in>| fmdom (n_pendingReads n) \<and> is_readable n i)) (n_pendingReads n)
     = fmfilter (\<lambda>i. \<not> is_readable n i) (n_pendingReads n)"
    by (intro fmap_ext) (auto simp: is_readable_def)
  then show ?thesis unfolding completeReads_def 
    by (subst completeRead_foldl) (simp_all add: sorted_list_of_fset.rep_eq)
qed

lemma applied_confirm [simp]: "applied (map (confirm_action n) ids) = []"
  by (induction ids) (auto simp: confirm_action_def)

lemma applyThrough_total:
  assumes "log_wf n" and "n_logBaseIndex n \<le> n_lastApplied n" and "index \<le> n_lastLogIndex n"
  shows "\<exists>rr R acts. applyThrough n index =
      Some (n\<lparr>n_lastApplied := max (n_lastApplied n) index, n_readReady := rr, n_pendingReads := R\<rparr>, acts)
    \<and> applied acts = take (index - n_lastApplied n) (drop (n_lastApplied n - n_logBaseIndex n) (n_log n))
    \<and> set acts \<subseteq> range ApplyEntry \<union> {BecameReadReady (n_term n)} \<union> {ReadConfirmed i c | i c. True}
    \<and> (n_role n \<noteq> Leader \<longrightarrow> rr = n_readReady n)"
proof (cases "index \<le> n_lastApplied n")
  case True
  then have "applyThrough n index = Some (n\<lparr>n_lastApplied := max (n_lastApplied n) index,
     n_readReady := n_readReady n,
     n_pendingReads := fmfilter (\<lambda>i. \<not> is_readable n i) (n_pendingReads n)\<rparr>,
     map (confirm_action n) (filter (is_readable n) (sorted_list_of_fset (fmdom (n_pendingReads n)))))"
    by (simp add: applyThrough_def completeReads_eq max_def)
  then show ?thesis using True by (force simp: confirm_action_def)
next
  case False
  then obtain rr acts where *: "applyLoop (index - n_lastApplied n) n = Some (n\<lparr>n_lastApplied := index, n_readReady := rr\<rparr>, acts)"
    "applied acts = take (index - n_lastApplied n) (drop (n_lastApplied n - n_logBaseIndex n) (n_log n))"
    "set acts \<subseteq> range ApplyEntry \<union> {BecameReadReady (n_term n)}" "n_role n \<noteq> Leader \<longrightarrow> rr = n_readReady n"
    using applyLoop_total [of n "index - n_lastApplied n"] assms by auto
  let ?n = "n\<lparr>n_lastApplied := index, n_readReady := rr\<rparr>"
  let ?reads = "map (confirm_action ?n) (filter (is_readable ?n) (sorted_list_of_fset (fmdom (n_pendingReads n))))"
  have max: "max (n_lastApplied n) index = index" using False by simp
  have reads: "set ?reads \<subseteq> {ReadConfirmed i c | i c. True}" by (auto simp: confirm_action_def)
  show ?thesis
  proof (intro exI conjI)
    show "applyThrough n index = Some (n\<lparr>n_lastApplied := max (n_lastApplied n) index, n_readReady := rr,
        n_pendingReads := fmfilter (\<lambda>i. \<not> is_readable ?n i) (n_pendingReads ?n)\<rparr>, acts @ ?reads)"
      using False *(1) unfolding max by (simp add: applyThrough_def completeReads_eq)
    show "applied (acts @ ?reads) = take (index - n_lastApplied n) (drop (n_lastApplied n - n_logBaseIndex n) (n_log n))"
      using *(2) by simp
    show "set (acts @ ?reads) \<subseteq> range ApplyEntry \<union> {BecameReadReady (n_term n)} \<union> {ReadConfirmed i c | i c. True}"
      using *(3) reads by auto
    show "n_role n \<noteq> Leader \<longrightarrow> rr = n_readReady n" by (rule *(4))
  qed
qed


section \<open>Requests that a Leader sends\<close>

definition next_for :: "Node \<Rightarrow> NodeID \<Rightarrow> u64" where
  "next_for n peer =
    (let d = min (n_durableLogIndex n) (n_lastLogIndex n); nx = lookup_default 0 (n_nextIndex n) peer
     in if nx = 0 \<or> nx > d + 1 then d + 1 else nx)"

definition request_for :: "Node \<Rightarrow> NodeID \<Rightarrow> ReadID \<Rightarrow> AppendEntries" where
  "request_for n peer readID =
    \<lparr>ae_From = n_id n, ae_Term = n_term n, ae_RequestID = add64 (n_nextRequestID n) 1,
     ae_PrevLogIndex = next_for n peer - 1, ae_PrevLogTerm = term_at n (next_for n peer - 1),
     ae_Entries = batch_of n (next_for n peer) (min (n_durableLogIndex n) (n_lastLogIndex n)),
     ae_LeaderCommit = n_commitIndex n, ae_ReadID = readID\<rparr>"

lemma next_for_bounds: "0 < next_for n peer" "next_for n peer \<le> min (n_durableLogIndex n) (n_lastLogIndex n) + 1"
  by (auto simp: next_for_def Let_def)

lemma sendAppendEntriesTo_eq:
  assumes "log_wf n"
  shows "sendAppendEntriesTo n peer readID =
    (let requestID = add64 (n_nextRequestID n) 1 in
     if pa_requestID (lookup_default zeroAppend (n_appendInFlight n) peer) \<noteq> 0 then Some (n, [])
     else if next_for n peer \<le> n_logBaseIndex n then
       (if lookup_default 0 (n_snapshotInFlight n) peer \<noteq> 0 then Some (n, [])
        else Some (n\<lparr>n_nextRequestID := requestID,
                     n_snapshotInFlight := (n_snapshotInFlight n)(peer \<mapsto> requestID)\<rparr>,
                   [SendInstallSnapshot peer (n_term n) requestID (n_logBaseIndex n) (n_logBaseTerm n) 0]))
     else Some (n\<lparr>n_nextRequestID := requestID,
                  n_appendInFlight := (n_appendInFlight n)
                    (peer \<mapsto> \<lparr>pa_requestID = requestID, pa_leaderCommit = n_commitIndex n\<rparr>)\<rparr>,
                [SendAppendEntries peer (request_for n peer readID)]))"
proof -
  let ?d = "min (n_durableLogIndex n) (n_lastLogIndex n)"
  have W: "?d + 1 < W64" using assms by (auto simp: log_wf_def)
  then have add: "add64 ?d 1 = ?d + 1" by (rule add64_small)
  have nx: "(if lookup_default 0 (n_nextIndex n) peer = 0 \<or> lookup_default 0 (n_nextIndex n) peer > add64 ?d 1
      then add64 ?d 1 else lookup_default 0 (n_nextIndex n) peer) = next_for n peer"
    unfolding add next_for_def Let_def ..
  have "sub64 (next_for n peer) 1 = next_for n peer - 1"
    using next_for_bounds [of n peer] W by (intro sub64_small) linarith+
  then show ?thesis
    using assms unfolding sendAppendEntriesTo_def Let_def nx
    by (simp add: termAt_total entriesBatch_total request_for_def)
qed

text \<open>What a Leader can send: a request built by \<open>request_for\<close> for one of its peers, or a Snapshot.\<close>

definition replication_send :: "Node \<Rightarrow> Action \<Rightarrow> bool" where
  "replication_send n a \<longleftrightarrow>
    (\<exists>peer requestID readID. n_logBaseIndex n < next_for n peer
       \<and> a = SendAppendEntries peer ((request_for n peer readID)\<lparr>ae_RequestID := requestID\<rparr>))
    \<or> (\<exists>peer requestID. a = SendInstallSnapshot peer (n_term n) requestID (n_logBaseIndex n) (n_logBaseTerm n) 0)"

lemma sendAppendEntriesTo_total:
  assumes "log_wf n"
  shows "\<exists>r a s acts. sendAppendEntriesTo n peer readID
      = Some (n\<lparr>n_nextRequestID := r, n_appendInFlight := a, n_snapshotInFlight := s\<rparr>, acts)
    \<and> (\<forall>x \<in> set acts. replication_send n x)"
proof -
  let ?r = "add64 (n_nextRequestID n) 1"
  let ?f = "\<lambda>r a s. n\<lparr>n_nextRequestID := r, n_appendInFlight := a, n_snapshotInFlight := s\<rparr>"
  have req: "(request_for n peer readID)\<lparr>ae_RequestID := ?r\<rparr> = request_for n peer readID"
    by (simp add: request_for_def)
  note eq = sendAppendEntriesTo_eq [OF assms, of peer readID, unfolded Let_def]
  let ?busy = "pa_requestID (lookup_default zeroAppend (n_appendInFlight n) peer) \<noteq> 0"
  let ?snap = "lookup_default 0 (n_snapshotInFlight n) peer \<noteq> 0"
  consider "?busy \<or> next_for n peer \<le> n_logBaseIndex n \<and> ?snap"
    | "\<not> ?busy" "next_for n peer \<le> n_logBaseIndex n" "\<not> ?snap"
    | "\<not> ?busy" "n_logBaseIndex n < next_for n peer" by linarith
  then show ?thesis
  proof cases
    case 1
    then have "sendAppendEntriesTo n peer readID
      = Some (?f (n_nextRequestID n) (n_appendInFlight n) (n_snapshotInFlight n), [])"
      unfolding eq by auto
    then show ?thesis by fastforce
  next
    case 2
    then have "sendAppendEntriesTo n peer readID
      = Some (?f ?r (n_appendInFlight n) ((n_snapshotInFlight n)(peer \<mapsto> ?r)),
        [SendInstallSnapshot peer (n_term n) ?r (n_logBaseIndex n) (n_logBaseTerm n) 0])"
      unfolding eq by simp
    then show ?thesis unfolding replication_send_def by fastforce
  next
    case 3
    then have "sendAppendEntriesTo n peer readID
      = Some (?f ?r ((n_appendInFlight n)(peer \<mapsto> \<lparr>pa_requestID = ?r, pa_leaderCommit = n_commitIndex n\<rparr>))
          (n_snapshotInFlight n), [SendAppendEntries peer (request_for n peer readID)])"
      unfolding eq by simp
    moreover have "replication_send n (SendAppendEntries peer (request_for n peer readID))"
      unfolding replication_send_def using req 3(2) by metis
    ultimately show ?thesis by fastforce
  qed
qed

lemma node_wf_log [dest]: "node_wf n \<Longrightarrow> log_wf n"
  by (simp add: node_wf_def)

lemma node_wf_frame [simp]:
  "node_wf (n\<lparr>n_id := x_id\<rparr>) = node_wf n"
  "node_wf (n\<lparr>n_peers := x_peers\<rparr>) = node_wf n"
  "node_wf (n\<lparr>n_role := x_role\<rparr>) = node_wf n"
  "node_wf (n\<lparr>n_term := x_term\<rparr>) = node_wf n"
  "node_wf (n\<lparr>n_votedFor := x_votedFor\<rparr>) = node_wf n"
  "node_wf (n\<lparr>n_leaderID := x_leaderID\<rparr>) = node_wf n"
  "node_wf (n\<lparr>n_durableLogIndex := x_durableLogIndex\<rparr>) = node_wf n"
  "node_wf (n\<lparr>n_readReady := x_readReady\<rparr>) = node_wf n"
  "node_wf (n\<lparr>n_votes := x_votes\<rparr>) = node_wf n"
  "node_wf (n\<lparr>n_preVotes := x_preVotes\<rparr>) = node_wf n"
  "node_wf (n\<lparr>n_activePeers := x_activePeers\<rparr>) = node_wf n"
  "node_wf (n\<lparr>n_matchIndex := x_matchIndex\<rparr>) = node_wf n"
  "node_wf (n\<lparr>n_nextIndex := x_nextIndex\<rparr>) = node_wf n"
  "node_wf (n\<lparr>n_appendInFlight := x_appendInFlight\<rparr>) = node_wf n"
  "node_wf (n\<lparr>n_snapshotInFlight := x_snapshotInFlight\<rparr>) = node_wf n"
  "node_wf (n\<lparr>n_nextRequestID := x_nextRequestID\<rparr>) = node_wf n"
  "node_wf (n\<lparr>n_pendingReads := x_pendingReads\<rparr>) = node_wf n"
  "node_wf (n\<lparr>n_recentLeaderContact := x_recentLeaderContact\<rparr>) = node_wf n"
  "node_wf (n\<lparr>n_durableTerm := x_durableTerm\<rparr>) = node_wf n"
  "node_wf (n\<lparr>n_durableVotedFor := x_durableVotedFor\<rparr>) = node_wf n"
  "node_wf (n\<lparr>n_nextHardStatePersistence := x_nextHardStatePersistence\<rparr>) = node_wf n"
  "node_wf (n\<lparr>n_pendingHardState := x_pendingHardState\<rparr>) = node_wf n"
  "node_wf (n\<lparr>n_nextLogPersistence := x_nextLogPersistence\<rparr>) = node_wf n"
  "node_wf (n\<lparr>n_pendingLog := x_pendingLog\<rparr>) = node_wf n"
  "node_wf (n\<lparr>n_nextCommitPersistence := x_nextCommitPersistence\<rparr>) = node_wf n"
  "node_wf (n\<lparr>n_nextSnapshotPersistence := x_nextSnapshotPersistence\<rparr>) = node_wf n"
  "node_wf (n\<lparr>n_pendingSnapshot := x_pendingSnapshot\<rparr>) = node_wf n"
  by (simp_all add: node_wf_def)

lemma termAt_wf [simp]: "node_wf n \<Longrightarrow> termAt n i = Some (term_at n i)"
  by (rule termAt_total) auto

lemma next_for_frame [simp]:
  "next_for (n\<lparr>n_nextRequestID := r, n_appendInFlight := a, n_snapshotInFlight := s\<rparr>) = next_for n"
  by (simp add: next_for_def fun_eq_iff)

lemma replication_send_frame [simp]:
  "replication_send (n\<lparr>n_nextRequestID := r, n_appendInFlight := a, n_snapshotInFlight := s\<rparr>) = replication_send n"
  by (simp add: replication_send_def fun_eq_iff request_for_def batch_of_def)

lemma sendAppendEntriesAll_total:
  "log_wf n \<Longrightarrow> \<exists>r a s acts. sendAppendEntriesAll n readID peers
      = Some (n\<lparr>n_nextRequestID := r, n_appendInFlight := a, n_snapshotInFlight := s\<rparr>, acts)
    \<and> (\<forall>x \<in> set acts. replication_send n x)"
proof (induction peers arbitrary: n)
  case Nil
  have "n = n\<lparr>n_nextRequestID := n_nextRequestID n, n_appendInFlight := n_appendInFlight n,
    n_snapshotInFlight := n_snapshotInFlight n\<rparr>" by simp
  then show ?case by (metis empty_iff empty_set sendAppendEntriesAll.simps(1))
next
  case (Cons peer peers)
  let ?f = "\<lambda>n r a s. n\<lparr>n_nextRequestID := r, n_appendInFlight := a, n_snapshotInFlight := s\<rparr>"
  let ?read = "if readID = 0 then pendingReadFor n peer else readID"
  obtain r a s acts where 1: "sendAppendEntriesTo n peer ?read = Some (?f n r a s, acts)"
    "\<forall>x \<in> set acts. replication_send n x"
    using sendAppendEntriesTo_total [OF Cons.prems] by blast
  obtain r' a' s' acts' where 2: "sendAppendEntriesAll (?f n r a s) readID peers = Some (?f (?f n r a s) r' a' s', acts')"
    "\<forall>x \<in> set acts'. replication_send n x"
    using Cons.IH [of "?f n r a s"] Cons.prems by auto
  have "sendAppendEntriesAll n readID (peer # peers) = Some (?f n r' a' s', acts @ acts')"
    using 1(1) 2(1) by simp
  then show ?case using 1(2) 2(2) by fastforce
qed

lemma sendAppendEntries_total:
  "log_wf n \<Longrightarrow> \<exists>r a s acts. sendAppendEntries n readID
      = Some (n\<lparr>n_nextRequestID := r, n_appendInFlight := a, n_snapshotInFlight := s\<rparr>, acts)
    \<and> (\<forall>x \<in> set acts. replication_send n x)"
  unfolding sendAppendEntries_def by (rule sendAppendEntriesAll_total)

definition settles :: "outcome mayPanic \<Rightarrow> bool" where
  "settles r \<longleftrightarrow> (\<exists>n acts. r = Some (n, acts) \<and> node_wf n)"

lemma settlesI: "r = Some (n, acts) \<Longrightarrow> node_wf n \<Longrightarrow> settles r"
  by (auto simp: settles_def)

lemma settles_Some [simp]: "settles (Some p) \<longleftrightarrow> node_wf (fst p)"
  by (cases p) (auto simp: settles_def)

lemma settles_None [simp]: "\<not> settles None"
  by (simp add: settles_def)

lemma settles_bindI:
  assumes "settles r" and "\<And>n acts. r = Some (n, acts) \<Longrightarrow> node_wf n \<Longrightarrow> settles (f (n, acts))"
  shows "settles (Option.bind r f)"
  using assms by (auto simp: settles_def)

lemmas wf_defs = node_wf_def log_wf_def commit_wf_def

lemma node_wf_persist [simp]:
  "node_wf (fst (persistHardState n acts)) = node_wf n"
  "node_wf (fst (persistLog n es p)) = node_wf n"
  "node_wf (fst (persistSnapshot n req b)) = node_wf n"
  "node_wf (fst (persistIf b (n, acts))) = node_wf n"
  "node_wf (becomeFollower n t l) = node_wf n"
  "node_wf (acceptLeader n t l) = node_wf n"
  "node_wf (becomeLeader n) = node_wf n"
  by (simp_all add: persistHardState_def persistLog_def persistSnapshot_def persistIf_def
    becomeFollower_def acceptLeader_def becomeLeader_def Let_def)

lemma persistCommit_wf: "node_wf n \<Longrightarrow> node_wf (fst (persistCommit n acts))"
  by (auto simp: persistCommit_def wf_defs Let_def)

lemma startElection_wf [simp]: "node_wf (fst (startElection n)) = node_wf n"
  by (simp add: startElection_def Let_def)

lemma startPreVote_wf: "node_wf n \<Longrightarrow> node_wf (fst (startPreVote n))"
  by (simp add: startPreVote_def Let_def case_prod_beta)

lemma handlePreVoteResponse_wf: "node_wf n \<Longrightarrow> node_wf (fst (handlePreVoteResponse n m))"
  by (simp add: handlePreVoteResponse_def Let_def)

lemma handleVoteRequest_wf: "node_wf n \<Longrightarrow> node_wf (fst (handleVoteRequest n m))"
  by (simp add: handleVoteRequest_def Let_def)

lemma checkQuorum_wf: "node_wf n \<Longrightarrow> node_wf (fst (checkQuorum n))"
  by (simp add: checkQuorum_def Let_def)

lemma hardStatePersisted_wf: "node_wf n \<Longrightarrow> node_wf (fst (hardStatePersisted n i))"
  by (simp add: hardStatePersisted_def Let_def split: option.split)

lemma handleAppendEntriesFailed_wf: "node_wf n \<Longrightarrow> node_wf (handleAppendEntriesFailed n to i)"
  by (simp add: handleAppendEntriesFailed_def Let_def)

lemma sendAppendEntriesTo_settles: "node_wf n \<Longrightarrow> settles (sendAppendEntriesTo n peer i)"
  using sendAppendEntriesTo_total [of n peer i] by (auto simp: node_wf_def)

lemma sendAppendEntries_settles: "node_wf n \<Longrightarrow> settles (sendAppendEntries n i)"
  using sendAppendEntries_total [of n i] by (auto simp: node_wf_def)

lemma heartbeatRound_settles: "node_wf n \<Longrightarrow> settles (heartbeatRound n)"
  using sendAppendEntries_total [of "n\<lparr>n_appendInFlight := Map.empty\<rparr>" 0]
  by (auto simp: heartbeatRound_def node_wf_def)

lemma confirmRead_settles: "node_wf n \<Longrightarrow> settles (confirmRead n i)"
  by (auto simp: confirmRead_def intro!: sendAppendEntries_settles)

lemma applyThrough_settles:
  assumes "node_wf n" and "index \<le> n_durableCommitIndex n"
  shows "settles (applyThrough n index)"
proof -
  obtain rr R acts where "applyThrough n index =
      Some (n\<lparr>n_lastApplied := max (n_lastApplied n) index, n_readReady := rr, n_pendingReads := R\<rparr>, acts)"
    using applyThrough_total [of n index] assms by (auto simp: wf_defs)
  then show ?thesis using assms by (auto simp: wf_defs)
qed

lemma node_wf_raise_commit:
  assumes "node_wf n" and "n_commitIndex n \<le> c" and "c \<le> n_lastLogIndex n"
  shows "node_wf (n\<lparr>n_commitIndex := c\<rparr>)"
proof -
  have "pc_commitIndex p \<le> c" if "n_pendingCommit n i = Some p" for i p
    using assms that by (force simp: wf_defs)
  then show ?thesis using assms by (simp add: wf_defs)
qed

lemma advanceFollowerCommit_settles:
  assumes "node_wf n"
  shows "settles (advanceFollowerCommit n c acts)"
proof (cases "n_commitIndex n < min c (n_lastLogIndex n)")
  case True
  then have "node_wf (n\<lparr>n_commitIndex := min c (n_lastLogIndex n)\<rparr>)"
    using assms by (intro node_wf_raise_commit) auto
  then show ?thesis using True by (simp add: advanceFollowerCommit_def persistCommit_wf)
next
  case False
  then show ?thesis using applyThrough_settles [OF assms order.refl]
    by (auto simp: advanceFollowerCommit_def Let_def settles_def)
qed

lemma commitIndexPersisted_settles:
  assumes "node_wf n"
  shows "settles (commitIndexPersisted n i)"
proof (cases "n_pendingCommit n i")
  case (Some p)
  let ?n = "n\<lparr>n_pendingCommit := (n_pendingCommit n)(i := None),
     n_durableCommitIndex := max (n_durableCommitIndex n) (pc_commitIndex p)\<rparr>"
  have "node_wf ?n" using assms Some by (auto simp: wf_defs max_def)
  then have "settles (applyThrough ?n (pc_commitIndex p))" by (rule applyThrough_settles) simp
  then show ?thesis using Some by (auto simp: commitIndexPersisted_def Let_def settles_def)
qed (simp add: commitIndexPersisted_def assms)

lemma logEntriesPersisted_settles:
  assumes "node_wf n"
  shows "settles (logEntriesPersisted n i)"
proof (cases "n_pendingLog n i")
  case (Some p)
  let ?n = "n\<lparr>n_pendingLog := (n_pendingLog n)(i := None),
     n_durableLogIndex := max (n_durableLogIndex n) (pl_lastIndex p)\<rparr>"
  have "node_wf ?n" using assms Some by (auto simp: wf_defs)
  then show ?thesis using Some sendAppendEntries_settles [of ?n 0] advanceFollowerCommit_settles [of ?n]
    by (simp add: logEntriesPersisted_def Let_def split: logPersistencePurpose.split)
qed (simp add: logEntriesPersisted_def assms)


lemma appendEntries_wf:
  assumes "node_wf n" and "contiguous (n_lastLogIndex n) es" and "es \<noteq> []"
    and "n_lastLogIndex n + length es + 1 < W64"
  shows "\<exists>n'. appendEntries n es = Some n' \<and> node_wf n' \<and> n' = n\<lparr>n_log := n_log n @ es,
    n_lastLogIndex := n_lastLogIndex n + length es, n_lastLogTerm := le_Term (last es)\<rparr>"
proof -
  have "le_Index (last es) = n_lastLogIndex n + length es"
    using assms contiguous_last by blast
  moreover have "last (n_log n @ es) = last es" using assms(3) by simp
  ultimately have *: "appendEntries n es = Some (n\<lparr>n_log := n_log n @ es,
    n_lastLogIndex := n_lastLogIndex n + length es, n_lastLogTerm := le_Term (last es)\<rparr>)"
    using assms(3) by (simp add: appendEntries_def Let_def)
  have "pc_commitIndex p \<le> n_commitIndex n" if "n_pendingCommit n i = Some p" for i p
    using assms(1) that by (auto simp: wf_defs)
  then show ?thesis using assms unfolding * by (auto simp: wf_defs)
qed

lemma handleVoteResponse_settles:
  assumes "node_wf n" and "n_lastLogIndex n + 2 < W64"
  shows "settles (handleVoteResponse n m)"
proof -
  let ?n = "becomeLeader (n\<lparr>n_votes := insert (vr_From m) (n_votes n)\<rparr>)"
  let ?e = "noOpEntry (add64 (n_lastLogIndex ?n) 1) (n_term ?n)"
  have "n_lastLogIndex ?n = n_lastLogIndex n" by (simp add: becomeLeader_def)
  then obtain n' where "appendEntries ?n [?e] = Some n'" "node_wf n'"
    using appendEntries_wf [of ?n "[?e]"] assms by (auto simp: noOpEntry_def)
  then show ?thesis using assms(1)
    by (simp add: handleVoteResponse_def Let_def case_prod_beta)
qed

lemma proposeEntry_settles:
  assumes "node_wf n" and "n_lastLogIndex n + 2 < W64" and "le_Index e = add64 (n_lastLogIndex n) 1"
  shows "settles (proposeEntry n i e)"
proof -
  obtain n' where "appendEntries n [e] = Some n'" "node_wf n'"
    using appendEntries_wf [of n "[e]"] assms by auto
  then show ?thesis by (simp add: proposeEntry_def case_prod_beta)
qed

lemma propose_settles:
  assumes "node_wf n" and "n_lastLogIndex n + 2 < W64"
  shows "settles (proposeSession n ps)" "settles (proposeSet n pset)" "settles (proposeDelete n pd)"
  using assms by (simp_all add: proposeSession_def proposeSet_def proposeDelete_def proposeEntry_settles)

lemma compactLog_wf:
  assumes "node_wf n"
  shows "\<exists>n'. compactLog n index t = Some n' \<and> node_wf n'"
proof (cases "index \<le> n_logBaseIndex n \<or> n_lastApplied n < index \<or> term_at n index \<noteq> t")
  case True
  then show ?thesis using assms by (auto simp: compactLog_def termAt_total [OF node_wf_log [OF assms]])
next
  case False
  let ?k = "index - n_logBaseIndex n"
  have k: "?k \<le> length (n_log n)" using False assms by (auto simp: wf_defs)
  have *: "compactLog n index t = Some (n\<lparr>n_log := drop ?k (n_log n), n_logBaseIndex := index, n_logBaseTerm := t\<rparr>)"
    using False k assms by (simp add: compactLog_def termAt_total node_wf_log)
  have "contiguous index (drop ?k (n_log n))"
    using contiguous_drop [OF _ k, of "n_logBaseIndex n"] assms False by (simp add: wf_defs)
  moreover have "t = n_lastLogTerm n" if "drop ?k (n_log n) = []"
  proof -
    have "index = n_lastLogIndex n" using that k False assms by (auto simp: wf_defs)
    then show ?thesis using False term_at_last [of n] assms by (auto simp: node_wf_def)
  qed
  ultimately show ?thesis using False assms k unfolding * by (auto simp: wf_defs last_drop)
qed


lemma truncateLog_wf:
  assumes "node_wf n" and "n_commitIndex n < first" and "first \<le> n_lastLogIndex n"
  shows "\<exists>n'. truncateLog n first = Some n' \<and> node_wf n'
    \<and> n' = n\<lparr>n_log := take (first - n_logBaseIndex n - 1) (n_log n), n_lastLogIndex := first - 1,
             n_lastLogTerm := term_at n (first - 1),
             n_durableLogIndex := min (n_durableLogIndex n) (first - 1)\<rparr>"
proof -
  let ?k = "first - n_logBaseIndex n - 1"
  let ?m = "n\<lparr>n_log := take ?k (n_log n), n_lastLogIndex := first - 1\<rparr>"
  have base: "n_logBaseIndex n < first" and k: "?k \<le> length (n_log n)" and W: "first < W64"
    using assms by (auto simp: wf_defs)
  have sub: "sub64 (sub64 first (n_logBaseIndex n)) 1 = ?k" "sub64 first 1 = first - 1"
    using base W by auto
  have trm: "termAt ?m (first - 1) = Some (term_at n (first - 1))"
    using base k assms(1,3) by (auto simp: termAt_def term_at_def wf_defs)
  have *: "truncateLog n first = Some (n\<lparr>n_log := take ?k (n_log n), n_lastLogIndex := first - 1,
             n_lastLogTerm := term_at n (first - 1),
             n_durableLogIndex := min (n_durableLogIndex n) (first - 1)\<rparr>)"
    using k trm unfolding truncateLog_def sub by simp
  have "term_at n (first - 1) = (if take ?k (n_log n) = [] then n_logBaseTerm n else le_Term (last (take ?k (n_log n))))"
    using base k assms(1,3) by (auto simp: term_at_def last_conv_nth wf_defs min_def)
  moreover have "pc_commitIndex p \<le> n_commitIndex n" if "n_pendingCommit n i = Some p" for i p
    using assms(1) that by (auto simp: wf_defs)
  ultimately show ?thesis unfolding * using assms base k by (auto simp: wf_defs)
qed

lemma pick_new_spec:
  assumes "pick_new n es = (new, tr, ok)" and "contiguous b es" and "b \<le> n_lastLogIndex n"
  shows "(ok \<and> new = [] \<and> tr = 0) \<or> (\<not> ok \<and> new = [] \<and> tr = 0)
    \<or> (ok \<and> new \<noteq> [] \<and> contiguous (le_Index (hd new) - 1) new \<and> le_Index (hd new) \<noteq> 0
         \<and> le_Index (hd new) + length new = b + length es + 1
         \<and> (tr = 0 \<and> le_Index (hd new) = n_lastLogIndex n + 1
            \<or> tr = le_Index (hd new) \<and> n_commitIndex n < tr \<and> tr \<le> n_lastLogIndex n))"
  using assms by (induction es arbitrary: b) (auto split: if_splits)

lemma rejectAppend_settles:
  assumes "node_wf n"
  shows "settles (rejectAppend n m i)"
proof -
  obtain h where "conflictHint n i = Some h"
    using conflictHint_total [OF node_wf_log [OF assms]] by blast
  then show ?thesis using assms by (simp add: rejectAppend_def case_prod_beta)
qed

lemma acceptAppend_settles:
  assumes "node_wf n" and "pick_new n (ae_Entries m) = (new, tr, True)"
    and "contiguous (ae_PrevLogIndex m) (ae_Entries m)" and "ae_PrevLogIndex m \<le> n_lastLogIndex n"
    and "ae_PrevLogIndex m + length (ae_Entries m) + 1 < W64"
  shows "settles (acceptAppend n m new tr)"
proof (cases "new = []")
  case True
  then show ?thesis using assms(1) advanceFollowerCommit_settles [OF assms(1)]
    by (auto simp: acceptAppend_def intro!: settles_bindI)
next
  case False
  note spec = pick_new_spec [OF assms(2-4)] False
  let ?r = "if tr \<noteq> 0 then truncateLog n tr else Some n"
  obtain n1 where n1: "?r = Some n1" "node_wf n1" "n_lastLogIndex n1 = le_Index (hd new) - 1"
  proof (cases "tr = 0")
    case True
    then show ?thesis using that [of n] spec assms(1) by auto
  next
    case False
    then show ?thesis using that truncateLog_wf [OF assms(1), of tr] spec by auto
  qed
  then obtain n2 where "appendEntries n1 new = Some n2" "node_wf n2"
    using appendEntries_wf [of n1 new] spec assms(5) by auto
  then show ?thesis using False n1(1) by (simp add: acceptAppend_def case_prod_beta)
qed

lemma settles_persistIf [simp]: "settles (map_option (persistIf b) r) = settles r"
  by (cases r) (simp_all add: persistIf_def case_prod_beta)

lemma handleAppendEntries_settles:
  assumes "node_wf n" and "contiguous (ae_PrevLogIndex m) (ae_Entries m)"
    and "ae_PrevLogIndex m + length (ae_Entries m) + 1 < W64"
  shows "settles (handleAppendEntries n m)"
proof (cases "ae_Term m < n_term n")
  case True
  then show ?thesis using assms by (simp add: handleAppendEntries_def)
next
  case False
  let ?n = "acceptLeader n (ae_Term m) (ae_From m)"
  have wf: "node_wf ?n" using assms(1) by simp
  then have log: "log_wf ?n" by (rule node_wf_log)
  show ?thesis
  proof (cases "ae_PrevLogIndex m = 0 \<and> ae_PrevLogTerm m = 0
      \<or> ae_PrevLogIndex m \<le> n_lastLogIndex ?n \<and> term_at ?n (ae_PrevLogIndex m) = ae_PrevLogTerm m")
    case True
    then have prev: "ae_PrevLogIndex m \<le> n_lastLogIndex ?n" by auto
    obtain new tr ok where pick: "pick_new ?n (ae_Entries m) = (new, tr, ok)" by (cases "pick_new ?n (ae_Entries m)")
    have "entriesToAppend ?n (ae_PrevLogIndex m) (ae_Entries m) = Some (new, tr, ok)"
      using entriesToAppendFrom_total [OF log, of "ae_PrevLogIndex m" 0] assms(2,3) prev pick
      by (simp add: entriesToAppend_def)
    then show ?thesis using False True wf
      acceptAppend_settles [OF wf, of m new tr] pick assms(2,3) prev rejectAppend_settles [OF wf]
      by (cases ok) (simp_all add: handleAppendEntries_def Let_def matches_total [OF log])
  next
    case mismatch: False
    then show ?thesis using False rejectAppend_settles [OF wf]
      by (simp add: handleAppendEntries_def Let_def matches_total [OF log])
  qed
qed

lemma recordProgress_total:
  assumes "node_wf n"
  shows "\<exists>n'. recordProgress n m = Some n' \<and> node_wf n'"
proof -
  let ?n = "n\<lparr>n_appendInFlight := (n_appendInFlight n)(aer_From m := None),
    n_activePeers := insert (aer_From m) (n_activePeers n)\<rparr>"
  have "node_wf ?n" using assms by simp
  then have "log_wf ?n" by (rule node_wf_log)
  then obtain k where "nextIndexFromConflict ?n m = Some k"
    using nextIndexFromConflict_total by blast
  then show ?thesis using assms by (simp add: recordProgress_def Let_def)
qed

lemma commitCandidate_total:
  assumes "log_wf n"
  shows "\<exists>r. commitCandidate n i = Some r \<and> (\<forall>c. r = Some c \<longrightarrow> n_commitIndex n < c \<and> c \<le> i
     \<and> term_at n c = n_term n \<and> quorum n \<le> replicatedCount n c)"
  using assms by (induction i) (auto simp: termAt_total)

lemma advanceLeaderCommit_total:
  assumes "node_wf n"
  shows "\<exists>n' b. advanceLeaderCommit n = Some (n', b) \<and> node_wf n'"
proof -
  obtain r where r: "commitCandidate n (n_lastLogIndex n) = Some r"
    "\<forall>c. r = Some c \<longrightarrow> n_commitIndex n < c \<and> c \<le> n_lastLogIndex n"
    using commitCandidate_total [OF node_wf_log [OF assms]] by blast
  show ?thesis
  proof (cases r)
    case None
    then have "advanceLeaderCommit n = Some (n, False)" using r by (simp add: advanceLeaderCommit_def)
    then show ?thesis using assms by blast
  next
    case (Some c)
    then have "node_wf (n\<lparr>n_commitIndex := c\<rparr>)"
      using r assms by (intro node_wf_raise_commit) auto
    moreover have "advanceLeaderCommit n = Some (n\<lparr>n_commitIndex := c\<rparr>, True)"
      using r Some by (simp add: advanceLeaderCommit_def)
    ultimately show ?thesis by blast
  qed
qed

lemma completeReads_wf [simp]: "node_wf (fst (completeReads n)) = node_wf n"
  by (simp add: completeReads_eq)

lemma acknowledgeRead_wf [simp]: "node_wf (fst (acknowledgeRead n m)) = node_wf n"
  by (simp add: acknowledgeRead_def Let_def split: option.split)

lemma handleAppendEntriesResponse_settles:
  assumes "node_wf n"
  shows "settles (handleAppendEntriesResponse n m)"
proof -
  obtain n1 where 1: "recordProgress n m = Some n1" "node_wf n1"
    using recordProgress_total [OF assms] by blast
  obtain n2 b where 2: "advanceLeaderCommit n1 = Some (n2, b)" "node_wf n2"
    using advanceLeaderCommit_total [OF 1(2)] by blast
  show ?thesis
    unfolding handleAppendEntriesResponse_def Let_def using assms 1 2
    by (auto simp: case_prod_beta sendAppendEntriesTo_settles sendAppendEntries_settles persistCommit_wf
      intro!: settles_bindI)
qed

lemma handleInstallSnapshot_settles:
  assumes "node_wf n"
  shows "settles (handleInstallSnapshot n m)"
  using assms by (simp add: handleInstallSnapshot_def Let_def case_prod_beta persistIf_def)

lemma handleInstallSnapshotResponse_settles:
  "node_wf n \<Longrightarrow> settles (handleInstallSnapshotResponse n m)"
  by (simp add: handleInstallSnapshotResponse_def Let_def sendAppendEntriesTo_settles)

text \<open>
  A Snapshot that completes must still fit the log: with a retained suffix it is a prefix of the
  log, and without one it covers everything committed.
\<close>

definition snapshot_fits :: "Node \<Rightarrow> pendingSnapshotPersistence \<Rightarrow> bool" where
  "snapshot_fits n p \<longleftrightarrow>
    (let index = is_SnapshotIndex (psn_request p) in
     index + 1 < W64 \<and>
     (if psn_retainSuffix p
      then n_logBaseIndex n \<le> index \<and> index \<le> n_lastLogIndex n
         \<and> term_at n index = is_SnapshotTerm (psn_request p)
      else n_commitIndex n \<le> index))"

lemma contiguous_dropWhile:
  "contiguous b es \<Longrightarrow> dropWhile (\<lambda>e. le_Index e \<le> i) es = drop (i - b) es"
proof (induction es arbitrary: b)
  case (Cons e es)
  show ?case
  proof (cases "le_Index e \<le> i")
    case True
    then have "i - b = Suc (i - (b + 1))" using Cons.prems by auto
    then show ?thesis using Cons True by simp
  next
    case False
    then show ?thesis using Cons.prems by simp
  qed
qed simp

lemma snapshotPersisted_wf:
  assumes "node_wf n" and "\<And>p. n_pendingSnapshot n i = Some p \<Longrightarrow> snapshot_fits n p"
  shows "node_wf (fst (snapshotPersisted n i))"
proof (cases "n_pendingSnapshot n i")
  case (Some p)
  let ?idx = "is_SnapshotIndex (psn_request p)" and ?t = "is_SnapshotTerm (psn_request p)"
  let ?k = "?idx - n_logBaseIndex n"
  have fits: "snapshot_fits n p" using assms(2) Some by simp
  have pend: "pc_commitIndex q \<le> n_commitIndex n" if "n_pendingCommit n j = Some q" for j q
    using assms(1) that by (auto simp: wf_defs)
  have pend': "pc_commitIndex q \<le> max (n_commitIndex n) x" if "n_pendingCommit n j = Some q" for j q x
    using pend [OF that] by simp
  have pend'': "pc_commitIndex q \<le> x" if "n_pendingCommit n j = Some q" "n_commitIndex n \<le> x" for j q x
    using pend [OF that(1)] that(2) by simp
  show ?thesis
  proof (cases "psn_retainSuffix p")
    case False
    then show ?thesis using Some fits assms(1) pend' pend''
      by (auto simp: snapshotPersisted_def Let_def snapshot_fits_def wf_defs)
  next
    case True
    have k: "?k \<le> length (n_log n)" using fits True assms(1) by (auto simp: snapshot_fits_def Let_def wf_defs)
    have dw: "dropWhile (\<lambda>e. le_Index e \<le> ?idx) (n_log n) = drop ?k (n_log n)"
      using assms(1) by (intro contiguous_dropWhile) (simp add: wf_defs)
    have cont: "contiguous ?idx (drop ?k (n_log n))"
      using contiguous_drop [OF _ k, of "n_logBaseIndex n"] assms(1) fits True
      by (simp add: wf_defs snapshot_fits_def Let_def)
    define L where "L = drop ?k (n_log n)"
    have len: "?idx + length L = n_lastLogIndex n"
      using k fits True assms(1) by (auto simp: L_def snapshot_fits_def Let_def wf_defs)
    have empty: "n_lastLogTerm n = ?t" if "L = []"
      using that len term_at_last [of n] fits True assms(1) by (auto simp: snapshot_fits_def Let_def node_wf_def)
    have nonempty: "le_Index (last L) = n_lastLogIndex n" if "L \<noteq> []"
      using contiguous_last [OF cont] that len by (simp add: L_def)
    have "fst (snapshotPersisted n i) = n\<lparr>n_pendingSnapshot := (n_pendingSnapshot n)(i := None), n_log := L,
      n_logBaseIndex := ?idx, n_logBaseTerm := ?t, n_commitIndex := max (n_commitIndex n) ?idx,
      n_durableCommitIndex := max (n_durableCommitIndex n) ?idx, n_lastApplied := ?idx,
      n_lastLogTerm := (if L = [] then n_lastLogTerm n else le_Term (last L)),
      n_durableLogIndex := (if L = [] then n_durableLogIndex n else n_lastLogIndex n)\<rparr>"
      using nonempty by (simp add: snapshotPersisted_def Let_def Some True dw L_def [symmetric] del: dropWhile_eq_Nil_conv)
    moreover have "n_commitIndex n \<le> n_lastLogIndex n" "n_durableCommitIndex n \<le> n_commitIndex n"
      "n_lastLogIndex n + 1 < W64" using assms(1) by (auto simp: wf_defs)
    moreover have "contiguous ?idx L" using cont by (simp add: L_def)
    ultimately show ?thesis using len empty pend'
      by (auto simp: node_wf_def log_wf_def commit_wf_def)
  qed
qed (simp add: snapshotPersisted_def assms)

definition event_ok :: "Node \<Rightarrow> Event \<Rightarrow> bool" where
  "event_ok n event =
    (case event of
       EvVoteResponse m \<Rightarrow> n_lastLogIndex n + 2 < W64
     | EvProposeSession p \<Rightarrow> n_lastLogIndex n + 2 < W64
     | EvProposeSet p \<Rightarrow> n_lastLogIndex n + 2 < W64
     | EvProposeDelete p \<Rightarrow> n_lastLogIndex n + 2 < W64
     | EvAppendEntries m \<Rightarrow> contiguous (ae_PrevLogIndex m) (ae_Entries m)
         \<and> ae_PrevLogIndex m + length (ae_Entries m) + 1 < W64
     | SnapshotPersisted i \<Rightarrow>
         (case n_pendingSnapshot n i of None \<Rightarrow> True | Some p \<Rightarrow> snapshot_fits n p)
     | _ \<Rightarrow> True)"

lemma Step_settles:
  assumes "node_wf n" and "event_ok n event"
  shows "settles (Step n event)"
proof (cases event)
  case (SnapshotCompacted index t)
  then show ?thesis using compactLog_wf [OF assms(1), of index t] by auto
next
  case (SnapshotPersisted i)
  then show ?thesis using assms by (auto simp: event_ok_def intro!: snapshotPersisted_wf)
next
  case RecoverCommitted
  then show ?thesis using assms by (simp add: applyThrough_settles)
next
  case (EvPreVoteRequest m)
  then show ?thesis using assms by (simp add: handlePreVoteRequest_def)
qed (use assms in \<open>simp_all add: event_ok_def startPreVote_wf heartbeatRound_settles checkQuorum_wf
      hardStatePersisted_wf logEntriesPersisted_settles commitIndexPersisted_settles propose_settles
      confirmRead_settles handlePreVoteResponse_wf handleVoteRequest_wf handleVoteResponse_settles
      handleAppendEntries_settles handleAppendEntriesResponse_settles handleAppendEntriesFailed_wf
      handleInstallSnapshot_settles handleInstallSnapshotResponse_settles\<close>)

end
