(* ===== verification/Raft_Frame.thy ===== *)
theory Raft_Frame
  imports Raft_Wf
begin

text \<open>
  The soft state of a node: the read bookkeeping, the replication progress and the contacts, which
  the helpers that only send messages change. The rest of the node is its core; the effects of the
  handlers on votes, log and commit index are all statements about the core.
\<close>

definition core :: "Node \<Rightarrow> Node" where
  "core n = n\<lparr>n_leaderID := [], n_readReady := False, n_preVotes := {}, n_activePeers := {},
     n_matchIndex := Map.empty, n_nextIndex := Map.empty, n_appendInFlight := Map.empty,
     n_snapshotInFlight := Map.empty, n_nextRequestID := 0, n_pendingReads := fmempty,
     n_recentLeaderContact := False\<rparr>"

lemma core_frame [simp]:
  "core (n\<lparr>n_leaderID := x_leaderID\<rparr>) = core n"
  "core (n\<lparr>n_readReady := x_readReady\<rparr>) = core n"
  "core (n\<lparr>n_preVotes := x_preVotes\<rparr>) = core n"
  "core (n\<lparr>n_activePeers := x_activePeers\<rparr>) = core n"
  "core (n\<lparr>n_matchIndex := x_matchIndex\<rparr>) = core n"
  "core (n\<lparr>n_nextIndex := x_nextIndex\<rparr>) = core n"
  "core (n\<lparr>n_appendInFlight := x_appendInFlight\<rparr>) = core n"
  "core (n\<lparr>n_snapshotInFlight := x_snapshotInFlight\<rparr>) = core n"
  "core (n\<lparr>n_nextRequestID := x_nextRequestID\<rparr>) = core n"
  "core (n\<lparr>n_pendingReads := x_pendingReads\<rparr>) = core n"
  "core (n\<lparr>n_recentLeaderContact := x_recentLeaderContact\<rparr>) = core n"
  by (simp_all add: core_def)

lemma core_fields:
  assumes "core n = core m"
  shows
    "n_id n = n_id m"
    "n_peers n = n_peers m"
    "n_role n = n_role m"
    "n_term n = n_term m"
    "n_votedFor n = n_votedFor m"
    "n_lastLogIndex n = n_lastLogIndex m"
    "n_lastLogTerm n = n_lastLogTerm m"
    "n_durableLogIndex n = n_durableLogIndex m"
    "n_logBaseIndex n = n_logBaseIndex m"
    "n_logBaseTerm n = n_logBaseTerm m"
    "n_log n = n_log m"
    "n_commitIndex n = n_commitIndex m"
    "n_lastApplied n = n_lastApplied m"
    "n_votes n = n_votes m"
    "n_durableTerm n = n_durableTerm m"
    "n_durableVotedFor n = n_durableVotedFor m"
    "n_nextHardStatePersistence n = n_nextHardStatePersistence m"
    "n_pendingHardState n = n_pendingHardState m"
    "n_nextLogPersistence n = n_nextLogPersistence m"
    "n_pendingLog n = n_pendingLog m"
    "n_durableCommitIndex n = n_durableCommitIndex m"
    "n_nextCommitPersistence n = n_nextCommitPersistence m"
    "n_pendingCommit n = n_pendingCommit m"
    "n_nextSnapshotPersistence n = n_nextSnapshotPersistence m"
    "n_pendingSnapshot n = n_pendingSnapshot m"
  using assms unfolding core_def by (cases n; cases m; simp)+

lemma core_same [simp]: "core (n\<lparr>n_role := n_role n\<rparr>) = core n"
  by (simp add: core_def)

text \<open>Actions that neither promise a vote nor write, apply or restore anything.\<close>

fun soft_act :: "Action \<Rightarrow> bool" where
  "soft_act (PersistHardState i t v) = False"
| "soft_act (PersistLogEntries i t es) = False"
| "soft_act (PersistCommitIndex i c) = False"
| "soft_act (PersistSnapshot i r t b) = False"
| "soft_act (SendVoteRequest to r) = False"
| "soft_act (SendVoteResponse to r) = False"
| "soft_act (BecameLeader t) = False"
| "soft_act (ApplyEntry e) = False"
| "soft_act (RestoreSnapshot i t) = False"
| "soft_act a = True"

definition keeps_core :: "Node \<Rightarrow> outcome mayPanic \<Rightarrow> bool" where
  "keeps_core n r \<longleftrightarrow> (\<forall>n' acts. r = Some (n', acts) \<longrightarrow> core n' = core n \<and> list_all soft_act acts)"

lemma keeps_core_simps [simp]:
  "keeps_core n None"
  "keeps_core n (Some p) \<longleftrightarrow> core (fst p) = core n \<and> list_all soft_act (snd p)"
  by (cases p; auto simp: keeps_core_def)+

lemma keeps_coreD: "keeps_core n (Some (n', acts)) \<Longrightarrow> core n' = core n \<and> list_all soft_act acts"
  by simp

lemma keeps_core_bindI:
  assumes "keeps_core n r"
    and "\<And>m acts. r = Some (m, acts) \<Longrightarrow> core m = core n \<Longrightarrow> list_all soft_act acts \<Longrightarrow> keeps_core n (f (m, acts))"
  shows "keeps_core n (Option.bind r f)"
  using assms by (cases r) (auto simp: keeps_core_def)

lemma keeps_core_bind_other:
  assumes "\<And>x. r = Some x \<Longrightarrow> keeps_core n (f x)"
  shows "keeps_core n (Option.bind r f)"
  using assms by (cases r) auto

lemma keeps_core_trans: "keeps_core m r \<Longrightarrow> core m = core n \<Longrightarrow> keeps_core n r"
  by (auto simp: keeps_core_def)

section \<open>Helpers that keep the core\<close>

lemma sendAppendEntriesTo_core: "keeps_core n (sendAppendEntriesTo n p i)"
  unfolding sendAppendEntriesTo_def Let_def by (auto intro!: keeps_core_bind_other)

lemma sendAppendEntriesAll_core: "keeps_core n (sendAppendEntriesAll n i ps)"
proof (induction ps arbitrary: n i)
  case (Cons p ps)
  show ?case unfolding sendAppendEntriesAll.simps Let_def
    using sendAppendEntriesTo_core [of n p]
    by (auto simp: case_prod_beta intro!: keeps_core_bindI intro: keeps_core_trans [OF Cons.IH])
qed simp

lemma sendAppendEntries_core: "keeps_core n (sendAppendEntries n i)"
  unfolding sendAppendEntries_def by (rule sendAppendEntriesAll_core)

lemma completeReads_core [simp]: "core (fst (completeReads n)) = core n" "list_all soft_act (snd (completeReads n))"
  by (simp_all add: completeReads_eq list_all_iff confirm_action_def)

lemma acknowledgeRead_core [simp]:
  "core (fst (acknowledgeRead n m)) = core n" "list_all soft_act (snd (acknowledgeRead n m))"
  by (simp_all add: acknowledgeRead_def Let_def split: option.split)

lemma recordProgress_core: "recordProgress n m = Some n' \<Longrightarrow> core n' = core n"
  by (auto simp: recordProgress_def Let_def split: if_splits bind_splits)

lemma handleAppendEntriesFailed_core [simp]: "core (handleAppendEntriesFailed n to i) = core n"
  by (simp add: handleAppendEntriesFailed_def Let_def)

lemma heartbeatRound_core: "keeps_core n (heartbeatRound n)"
  unfolding heartbeatRound_def
  using keeps_core_trans [OF sendAppendEntries_core [of "n\<lparr>n_appendInFlight := Map.empty\<rparr>" 0]]
  by (auto intro!: keeps_core_bindI)

lemma confirmRead_core: "keeps_core n (confirmRead n i)"
  unfolding confirmRead_def by (auto intro: keeps_core_trans [OF sendAppendEntries_core])

lemma handlePreVoteRequest_core: "keeps_core n (Some (handlePreVoteRequest n m))"
  by (simp add: handlePreVoteRequest_def)

lemma rejectAppend_core: "keeps_core n (rejectAppend n req i)"
  unfolding rejectAppend_def by (auto simp: appendEntriesResponse_def intro!: keeps_core_bind_other)

lemma handleInstallSnapshotResponse_core:
  "isr_Term res \<le> n_term n \<Longrightarrow> keeps_core n (handleInstallSnapshotResponse n res)"
  unfolding handleInstallSnapshotResponse_def Let_def
  by (auto intro: keeps_core_trans [OF sendAppendEntriesTo_core])

section \<open>Sequences of events\<close>

text \<open>A node that handles a sequence of events, and all the actions it emits on the way.\<close>

fun Run :: "Node \<Rightarrow> Event list \<Rightarrow> outcome mayPanic" where
  "Run n [] = Some (n, [])"
| "Run n (event # events) = do {
     (n, actions) \<leftarrow> Step n event;
     (n, more) \<leftarrow> Run n events;
     Some (n, actions @ more)
   }"

lemma Run_Cons_iff:
  "Run n (e # es) = Some (n', acts) \<longleftrightarrow>
    (\<exists>m a b. Step n e = Some (m, a) \<and> Run m es = Some (n', b) \<and> acts = a @ b)"
  by (auto split: bind_splits)

lemma Run_append:
  "Run n xs = Some (m, as) \<Longrightarrow> Run m ys = Some (n', bs) \<Longrightarrow> Run n (xs @ ys) = Some (n', as @ bs)"
  by (induction xs arbitrary: n as) (fastforce simp: Run_Cons_iff simp del: Run.simps(2))+

end
