(* ===== verification/Raft_Votes.thy ===== *)
theory Raft_Votes
  imports Raft_Frame
begin

text \<open>
  Votes and hard state of a single node: what every handler does to the Term, the vote and their
  durable copies, and which of the actions that matter to an election it emits.
\<close>

section \<open>The part of a node that elections depend on\<close>

fun quiet :: "Action \<Rightarrow> bool" where
  "quiet (PersistHardState i t v) = False"
| "quiet (SendVoteRequest to r) = False"
| "quiet (SendVoteResponse to r) = False"
| "quiet (BecameLeader t) = False"
| "quiet a = True"

definition election_view :: "Node \<Rightarrow> NodeID \<times> NodeID list \<times> Role \<times> NodeID set \<times> u64 \<times> NodeID \<times> u64
    \<times> NodeID \<times> u64 \<times> (u64 \<rightharpoonup> pendingHardStatePersistence)" where
  "election_view n = (n_id n, n_peers n, n_role n, n_votes n, n_term n, n_votedFor n, n_durableTerm n,
     n_durableVotedFor n, n_nextHardStatePersistence n, n_pendingHardState n)"

lemma election_view_same [simp]: "election_view (n\<lparr>n_role := n_role n\<rparr>) = election_view n"
  "election_view (n\<lparr>n_role := n_role n, n_votes := n_votes n\<rparr>) = election_view n"
  "election_view (n\<lparr>n_role := r, n_votes := n_votes n\<rparr>) = election_view (n\<lparr>n_role := r\<rparr>)"
  by (simp_all add: election_view_def)

definition commit_quiet :: "Node \<Rightarrow> bool" where
  "commit_quiet n \<longleftrightarrow> (\<forall>p \<in> ran (n_pendingCommit n). list_all quiet (pc_after p))"

lemma election_view_frame [simp]:
  "election_view (n\<lparr>n_leaderID := x_leaderID\<rparr>) = election_view n"
  "election_view (n\<lparr>n_lastLogIndex := x_lastLogIndex\<rparr>) = election_view n"
  "election_view (n\<lparr>n_lastLogTerm := x_lastLogTerm\<rparr>) = election_view n"
  "election_view (n\<lparr>n_durableLogIndex := x_durableLogIndex\<rparr>) = election_view n"
  "election_view (n\<lparr>n_logBaseIndex := x_logBaseIndex\<rparr>) = election_view n"
  "election_view (n\<lparr>n_logBaseTerm := x_logBaseTerm\<rparr>) = election_view n"
  "election_view (n\<lparr>n_log := x_log\<rparr>) = election_view n"
  "election_view (n\<lparr>n_commitIndex := x_commitIndex\<rparr>) = election_view n"
  "election_view (n\<lparr>n_lastApplied := x_lastApplied\<rparr>) = election_view n"
  "election_view (n\<lparr>n_readReady := x_readReady\<rparr>) = election_view n"
  "election_view (n\<lparr>n_preVotes := x_preVotes\<rparr>) = election_view n"
  "election_view (n\<lparr>n_activePeers := x_activePeers\<rparr>) = election_view n"
  "election_view (n\<lparr>n_matchIndex := x_matchIndex\<rparr>) = election_view n"
  "election_view (n\<lparr>n_nextIndex := x_nextIndex\<rparr>) = election_view n"
  "election_view (n\<lparr>n_appendInFlight := x_appendInFlight\<rparr>) = election_view n"
  "election_view (n\<lparr>n_snapshotInFlight := x_snapshotInFlight\<rparr>) = election_view n"
  "election_view (n\<lparr>n_nextRequestID := x_nextRequestID\<rparr>) = election_view n"
  "election_view (n\<lparr>n_pendingReads := x_pendingReads\<rparr>) = election_view n"
  "election_view (n\<lparr>n_recentLeaderContact := x_recentLeaderContact\<rparr>) = election_view n"
  "election_view (n\<lparr>n_nextLogPersistence := x_nextLogPersistence\<rparr>) = election_view n"
  "election_view (n\<lparr>n_pendingLog := x_pendingLog\<rparr>) = election_view n"
  "election_view (n\<lparr>n_durableCommitIndex := x_durableCommitIndex\<rparr>) = election_view n"
  "election_view (n\<lparr>n_nextCommitPersistence := x_nextCommitPersistence\<rparr>) = election_view n"
  "election_view (n\<lparr>n_pendingCommit := x_pendingCommit\<rparr>) = election_view n"
  "election_view (n\<lparr>n_nextSnapshotPersistence := x_nextSnapshotPersistence\<rparr>) = election_view n"
  "election_view (n\<lparr>n_pendingSnapshot := x_pendingSnapshot\<rparr>) = election_view n"
  by (simp_all add: election_view_def)

lemma commit_quiet_frame [simp]:
  "commit_quiet (n\<lparr>n_id := x_id\<rparr>) = commit_quiet n"
  "commit_quiet (n\<lparr>n_peers := x_peers\<rparr>) = commit_quiet n"
  "commit_quiet (n\<lparr>n_role := x_role\<rparr>) = commit_quiet n"
  "commit_quiet (n\<lparr>n_term := x_term\<rparr>) = commit_quiet n"
  "commit_quiet (n\<lparr>n_votedFor := x_votedFor\<rparr>) = commit_quiet n"
  "commit_quiet (n\<lparr>n_leaderID := x_leaderID\<rparr>) = commit_quiet n"
  "commit_quiet (n\<lparr>n_lastLogIndex := x_lastLogIndex\<rparr>) = commit_quiet n"
  "commit_quiet (n\<lparr>n_lastLogTerm := x_lastLogTerm\<rparr>) = commit_quiet n"
  "commit_quiet (n\<lparr>n_durableLogIndex := x_durableLogIndex\<rparr>) = commit_quiet n"
  "commit_quiet (n\<lparr>n_logBaseIndex := x_logBaseIndex\<rparr>) = commit_quiet n"
  "commit_quiet (n\<lparr>n_logBaseTerm := x_logBaseTerm\<rparr>) = commit_quiet n"
  "commit_quiet (n\<lparr>n_log := x_log\<rparr>) = commit_quiet n"
  "commit_quiet (n\<lparr>n_commitIndex := x_commitIndex\<rparr>) = commit_quiet n"
  "commit_quiet (n\<lparr>n_lastApplied := x_lastApplied\<rparr>) = commit_quiet n"
  "commit_quiet (n\<lparr>n_readReady := x_readReady\<rparr>) = commit_quiet n"
  "commit_quiet (n\<lparr>n_votes := x_votes\<rparr>) = commit_quiet n"
  "commit_quiet (n\<lparr>n_preVotes := x_preVotes\<rparr>) = commit_quiet n"
  "commit_quiet (n\<lparr>n_activePeers := x_activePeers\<rparr>) = commit_quiet n"
  "commit_quiet (n\<lparr>n_matchIndex := x_matchIndex\<rparr>) = commit_quiet n"
  "commit_quiet (n\<lparr>n_nextIndex := x_nextIndex\<rparr>) = commit_quiet n"
  "commit_quiet (n\<lparr>n_appendInFlight := x_appendInFlight\<rparr>) = commit_quiet n"
  "commit_quiet (n\<lparr>n_snapshotInFlight := x_snapshotInFlight\<rparr>) = commit_quiet n"
  "commit_quiet (n\<lparr>n_nextRequestID := x_nextRequestID\<rparr>) = commit_quiet n"
  "commit_quiet (n\<lparr>n_pendingReads := x_pendingReads\<rparr>) = commit_quiet n"
  "commit_quiet (n\<lparr>n_recentLeaderContact := x_recentLeaderContact\<rparr>) = commit_quiet n"
  "commit_quiet (n\<lparr>n_durableTerm := x_durableTerm\<rparr>) = commit_quiet n"
  "commit_quiet (n\<lparr>n_durableVotedFor := x_durableVotedFor\<rparr>) = commit_quiet n"
  "commit_quiet (n\<lparr>n_nextHardStatePersistence := x_nextHardStatePersistence\<rparr>) = commit_quiet n"
  "commit_quiet (n\<lparr>n_pendingHardState := x_pendingHardState\<rparr>) = commit_quiet n"
  "commit_quiet (n\<lparr>n_nextLogPersistence := x_nextLogPersistence\<rparr>) = commit_quiet n"
  "commit_quiet (n\<lparr>n_pendingLog := x_pendingLog\<rparr>) = commit_quiet n"
  "commit_quiet (n\<lparr>n_durableCommitIndex := x_durableCommitIndex\<rparr>) = commit_quiet n"
  "commit_quiet (n\<lparr>n_nextCommitPersistence := x_nextCommitPersistence\<rparr>) = commit_quiet n"
  "commit_quiet (n\<lparr>n_nextSnapshotPersistence := x_nextSnapshotPersistence\<rparr>) = commit_quiet n"
  "commit_quiet (n\<lparr>n_pendingSnapshot := x_pendingSnapshot\<rparr>) = commit_quiet n"
  by (simp_all add: commit_quiet_def)


definition keeps_election :: "Node \<Rightarrow> outcome mayPanic \<Rightarrow> bool" where
  "keeps_election n r \<longleftrightarrow> (\<forall>n' acts. r = Some (n', acts) \<longrightarrow> commit_quiet n
     \<longrightarrow> election_view n' = election_view n \<and> list_all quiet acts \<and> commit_quiet n')"

lemma keeps_election_simps [simp]:
  "keeps_election n None"
  "keeps_election n (Some (n', acts)) \<longleftrightarrow>
    (commit_quiet n \<longrightarrow> election_view n' = election_view n \<and> list_all quiet acts \<and> commit_quiet n')"
  by (auto simp: keeps_election_def)

lemma keeps_election_bindI:
  assumes "keeps_election n r"
    and "\<And>m acts. r = Some (m, acts) \<Longrightarrow> commit_quiet n \<Longrightarrow> election_view m = election_view n \<Longrightarrow> list_all quiet acts
      \<Longrightarrow> commit_quiet m \<Longrightarrow> keeps_election n (f (m, acts))"
  shows "keeps_election n (Option.bind r f)"
proof (cases r)
  case (Some p)
  then show ?thesis using assms by (cases p; cases "commit_quiet n") (auto simp: keeps_election_def)
qed simp

lemma keeps_election_bind_other:
  assumes "\<And>x. r = Some x \<Longrightarrow> keeps_election n (f x)"
  shows "keeps_election n (Option.bind r f)"
  using assms by (cases r) auto

lemma keeps_election_trans:
  "keeps_election m r \<Longrightarrow> (commit_quiet n \<Longrightarrow> election_view m = election_view n \<and> commit_quiet m) \<Longrightarrow> keeps_election n r"
  by (auto simp: keeps_election_def)

lemma election_view_core: "core n = core m \<Longrightarrow> election_view n = election_view m"
  by (simp add: election_view_def core_fields [of n m])

lemma commit_quiet_core: "core n = core m \<Longrightarrow> commit_quiet n = commit_quiet m"
  by (simp add: commit_quiet_def core_fields [of n m])

lemma soft_quiet: "soft_act a \<Longrightarrow> quiet a"
  by (cases a) auto

lemma soft_quiet_all [simp]: "list_all soft_act acts \<Longrightarrow> list_all quiet acts"
  by (auto simp: list_all_iff soft_quiet)

lemma keeps_core_election: "keeps_core n r \<Longrightarrow> keeps_election n r"
  unfolding keeps_core_def keeps_election_def
  by (auto dest: election_view_core commit_quiet_core)

lemmas sendAppendEntries_keeps = keeps_core_election [OF sendAppendEntries_core]
lemmas sendAppendEntriesTo_keeps = keeps_core_election [OF sendAppendEntriesTo_core]

lemma completeReads_keeps [simp]:
  "election_view (fst (completeReads n)) = election_view n"
  "commit_quiet (fst (completeReads n)) = commit_quiet n"
  "list_all quiet (snd (completeReads n))"
  by (rule election_view_core commit_quiet_core soft_quiet_all; simp)+

lemma keeps_election_Some: "keeps_election n (Some p) \<longleftrightarrow> (commit_quiet n \<longrightarrow>
    election_view (fst p) = election_view n \<and> list_all quiet (snd p) \<and> commit_quiet (fst p))"
  by (cases p) simp

lemma commit_quiet_drop: "commit_quiet n \<Longrightarrow> commit_quiet (n\<lparr>n_pendingCommit := (n_pendingCommit n)(i := None)\<rparr>)"
  by (auto simp: commit_quiet_def ran_def)

lemma applyNext_keeps: "keeps_election n (applyNext n)"
  unfolding applyNext_def Let_def by (auto intro!: keeps_election_bind_other)

lemma applyLoop_keeps: "keeps_election n (applyLoop k n)"
proof (induction k arbitrary: n)
  case (Suc k)
  show ?case unfolding applyLoop.simps using applyNext_keeps [of n]
    by (auto intro!: keeps_election_bindI intro: keeps_election_trans [OF Suc.IH])
qed simp

lemma applyThrough_keeps: "keeps_election n (applyThrough n i)"
  unfolding applyThrough_def Let_def using applyLoop_keeps [of n]
  by (auto simp: case_prod_beta keeps_election_Some intro!: keeps_election_bindI)

lemma persistLog_keeps [simp]:
  "election_view (fst (persistLog n es p)) = election_view n"
  "commit_quiet (fst (persistLog n es p)) = commit_quiet n"
  "list_all quiet (snd (persistLog n es p))"
  by (simp_all add: persistLog_def Let_def)

lemma persistSnapshot_keeps [simp]:
  "election_view (fst (persistSnapshot n req b)) = election_view n"
  "commit_quiet (fst (persistSnapshot n req b)) = commit_quiet n"
  "list_all quiet (snd (persistSnapshot n req b))"
  by (simp_all add: persistSnapshot_def Let_def)

lemma persistCommit_keeps:
  assumes "list_all quiet acts"
  shows "keeps_election n (Some (persistCommit n acts))"
  using assms by (auto simp: persistCommit_def Let_def commit_quiet_def ran_def)

lemma advanceFollowerCommit_keeps:
  assumes "list_all quiet acts"
  shows "keeps_election n (advanceFollowerCommit n c acts)"
  unfolding advanceFollowerCommit_def Let_def using applyThrough_keeps [of n] assms
  by (auto intro!: keeps_election_bindI intro: keeps_election_trans [OF persistCommit_keeps])

lemma appendEntriesResponse_quiet [simp]: "list_all quiet (appendEntriesResponse n to i b m ct ci r)"
  by (simp add: appendEntriesResponse_def)

lemma snapshotResponse_quiet [simp]: "list_all quiet (snapshotResponse n req b off d)"
  by (simp add: snapshotResponse_def)

lemma appendEntries_keeps: "appendEntries n es = Some n'
    \<Longrightarrow> election_view n' = election_view n \<and> commit_quiet n' = commit_quiet n"
  by (auto simp: appendEntries_def Let_def split: if_splits)

lemma truncateLog_keeps: "truncateLog n i = Some n'
    \<Longrightarrow> election_view n' = election_view n \<and> commit_quiet n' = commit_quiet n"
  by (auto simp: truncateLog_def Let_def split: bind_splits)

lemma compactLog_keeps: "compactLog n i t = Some n'
    \<Longrightarrow> election_view n' = election_view n \<and> commit_quiet n' = commit_quiet n"
  by (auto simp: compactLog_def split: if_splits bind_splits)

lemma recordProgress_keeps: "recordProgress n m = Some n'
    \<Longrightarrow> election_view n' = election_view n \<and> commit_quiet n' = commit_quiet n"
  using election_view_core commit_quiet_core recordProgress_core by blast

lemma advanceLeaderCommit_keeps: "advanceLeaderCommit n = Some (n', b)
    \<Longrightarrow> election_view n' = election_view n \<and> commit_quiet n' = commit_quiet n"
  by (auto simp: advanceLeaderCommit_def split: bind_splits option.splits)

lemma acknowledgeRead_keeps [simp]:
  "election_view (fst (acknowledgeRead n m)) = election_view n"
  "commit_quiet (fst (acknowledgeRead n m)) = commit_quiet n"
  "list_all quiet (snd (acknowledgeRead n m))"
  by (rule election_view_core commit_quiet_core soft_quiet_all; simp)+

lemma proposeEntry_keeps: "keeps_election n (proposeEntry n i e)"
  unfolding proposeEntry_def
  by (auto simp: case_prod_beta dest!: appendEntries_keeps intro!: keeps_election_bind_other)

lemma propose_keeps: "keeps_election n (proposeSession n ps)" "keeps_election n (proposeSet n pset)"
    "keeps_election n (proposeDelete n pd)"
  by (simp_all add: proposeSession_def proposeSet_def proposeDelete_def proposeEntry_keeps)

lemma snapshotPersisted_keeps: "keeps_election n (Some (snapshotPersisted n i))"
  by (simp add: snapshotPersisted_def Let_def split: option.split)

lemma logEntriesPersisted_keeps: "keeps_election n (logEntriesPersisted n i)"
  unfolding logEntriesPersisted_def Let_def
  by (auto split: option.split logPersistencePurpose.split
    intro: keeps_election_trans [OF sendAppendEntries_keeps] keeps_election_trans [OF advanceFollowerCommit_keeps])

lemma commitIndexPersisted_keeps: "keeps_election n (commitIndexPersisted n i)"
proof (cases "n_pendingCommit n i")
  case (Some p)
  let ?n = "n\<lparr>n_pendingCommit := (n_pendingCommit n)(i := None),
     n_durableCommitIndex := max (n_durableCommitIndex n) (pc_commitIndex p)\<rparr>"
  have after: "commit_quiet n \<Longrightarrow> list_all quiet (pc_after p)"
    using Some by (auto simp: commit_quiet_def ran_def)
  have "keeps_election n (applyThrough ?n (pc_commitIndex p))"
    by (rule keeps_election_trans [OF applyThrough_keeps]) (simp add: commit_quiet_drop)
  then show ?thesis using Some after by (auto simp: commitIndexPersisted_def Let_def intro!: keeps_election_bindI)
qed (simp add: commitIndexPersisted_def)

section \<open>What a step does to the election state\<close>

text \<open>
  Every event has one of six effects on the election state: none beyond leaving the leadership or
  entering the pre-vote, following a later Term, a candidacy, a vote, a counted vote response, or the
  completion of a hard state write.
\<close>

inductive election_step :: "Node \<Rightarrow> Event \<Rightarrow> Action list \<Rightarrow> Node \<Rightarrow> bool" where
  keeps: "election_view n' = election_view (n\<lparr>n_role := r, n_votes := vs\<rparr>)
    \<Longrightarrow> r = n_role n \<and> vs = n_votes n \<or> r = Follower \<or> r = PreCandidate \<Longrightarrow> list_all quiet acts \<Longrightarrow> election_step n ev acts n'"
| follows: "t > n_term n \<Longrightarrow> election_view m = election_view (becomeFollower n t l) \<Longrightarrow> list_all quiet after
    \<Longrightarrow> persistHardState m after = (n', acts) \<Longrightarrow> election_step n ev acts n'"
| campaigns: "election_view m = election_view (n\<lparr>n_role := r\<rparr>) \<Longrightarrow> r = n_role n \<or> r = PreCandidate
    \<Longrightarrow> startElection m = (n', acts) \<Longrightarrow> list_all quiet pre \<Longrightarrow> election_step n ev (pre @ acts) n'"
| votes: "handleVoteRequest n req = (n', acts) \<Longrightarrow> election_step n (EvVoteRequest req) acts n'"
| counts: "n_role n = Candidate \<Longrightarrow> vr_Term res = n_term n \<Longrightarrow> vr_Granted res
    \<Longrightarrow> vs = insert (vr_From res) (n_votes n)
    \<Longrightarrow> if card vs < quorum n then election_view n' = election_view (n\<lparr>n_votes := vs\<rparr>) \<and> acts = []
      else election_view n' = election_view (n\<lparr>n_votes := vs, n_role := Leader\<rparr>)
        \<and> (\<exists>rest. acts = BecameLeader (n_term n) # rest \<and> list_all quiet rest)
    \<Longrightarrow> election_step n (EvVoteResponse res) acts n'"
| persisted: "hardStatePersisted n i = (n', acts) \<Longrightarrow> election_step n (HardStatePersisted i) acts n'"

lemma election_step_keeps:
  assumes "keeps_election n r" "commit_quiet n" "r = Some (n', acts)"
  shows "election_step n ev acts n' \<and> commit_quiet n'"
  using assms by (auto simp: keeps_election_def intro!: election_step.keeps [where r = "n_role n" and vs = "n_votes n"])

lemma persistHardState_commit_quiet [simp]: "commit_quiet (fst (persistHardState n after)) = commit_quiet n"
  by (simp add: persistHardState_def Let_def)

lemma becomeFollower_commit_quiet [simp]: "commit_quiet (becomeFollower n t l) = commit_quiet n"
  by (simp add: becomeFollower_def)

lemma election_step_follows:
  assumes "t > n_term n" "commit_quiet n" "persistHardState (becomeFollower n t l) [] = (n', acts)"
  shows "election_step n ev acts n' \<and> commit_quiet n'"
  using election_step.follows [OF assms(1) refl _ assms(3)] assms(2)
    persistHardState_commit_quiet [of "becomeFollower n t l" "[]"] assms(3) by simp

lemma acceptLeader_view:
  "election_view (acceptLeader n t l) = election_view (if t > n_term n then becomeFollower n t l else n\<lparr>n_role := Follower\<rparr>)"
  "commit_quiet (acceptLeader n t l) = commit_quiet n"
  by (auto simp: acceptLeader_def Let_def election_view_def)

lemma election_step_accepts:
  assumes "keeps_election (acceptLeader n t l) (Some p)" "commit_quiet n" "t \<ge> n_term n"
    "persistIf (n_term n < t) p = (n', acts)"
  shows "election_step n ev acts n' \<and> commit_quiet n'"
proof (cases "n_term n < t")
  case True
  obtain m after where p: "p = (m, after)" by (cases p)
  have m: "election_view m = election_view (becomeFollower n t l)" "list_all quiet after" "commit_quiet m"
    using assms(1,2) True by (auto simp: p acceptLeader_view)
  have "persistHardState m after = (n', acts)" using assms(4) True by (simp add: p persistIf_def)
  then show ?thesis using election_step.follows [OF True m(1,2)] m(3) persistHardState_commit_quiet [of m after] by simp
next
  case False
  then show ?thesis using assms
    by (cases p) (auto simp: acceptLeader_view persistIf_def intro!: election_step.keeps [where r = Follower and vs = "n_votes n"])
qed

lemma acceptAppend_keeps: "keeps_election n (acceptAppend n req es t)"
proof -
  have es: "keeps_election n (acceptAppend n req es t)" if "es \<noteq> []"
    unfolding acceptAppend_def using that
    by (auto simp: case_prod_beta dest!: appendEntries_keeps truncateLog_keeps intro!: keeps_election_bind_other split: if_splits)
  show ?thesis
  proof (cases "es = []")
    case True
    then show ?thesis unfolding acceptAppend_def
      by (auto intro!: keeps_election_bindI advanceFollowerCommit_keeps)
  qed (rule es)
qed

lemma handleAppendEntries_step:
  assumes "commit_quiet n" "handleAppendEntries n req = Some (n', acts)"
  shows "election_step n ev acts n' \<and> commit_quiet n'"
proof (cases "ae_Term req < n_term n")
  case True
  then show ?thesis using assms
    by (auto simp: handleAppendEntries_def intro!: election_step.keeps [where r = "n_role n" and vs = "n_votes n"])
next
  case False
  let ?n = "acceptLeader n (ae_Term req) (ae_From req)"
  define r where "r = Option.bind (matches ?n (ae_PrevLogIndex req) (ae_PrevLogTerm req)) (\<lambda>matching.
      if \<not> matching then rejectAppend ?n req (ae_PrevLogIndex req)
      else Option.bind (entriesToAppend ?n (ae_PrevLogIndex req) (ae_Entries req)) (\<lambda>(es, trunc, ok).
        if \<not> ok then rejectAppend ?n req (add64 (ae_PrevLogIndex req) 1) else acceptAppend ?n req es trunc))"
  have "handleAppendEntries n req = map_option (persistIf (n_term n < ae_Term req)) r"
    unfolding handleAppendEntries_def r_def Let_def using False by (simp split: bind_split)
  moreover have "keeps_election ?n r" unfolding r_def
    by (auto intro!: keeps_election_bind_other keeps_core_election [OF rejectAppend_core] acceptAppend_keeps)
  ultimately have r: "keeps_election ?n r" "map_option (persistIf (n_term n < ae_Term req)) r = Some (n', acts)"
    using assms(2) by auto
  then show ?thesis using election_step_accepts [of n "ae_Term req" "ae_From req"] assms(1) False by (cases r) auto
qed

lemma handleInstallSnapshot_step:
  assumes "commit_quiet n" "handleInstallSnapshot n req = Some (n', acts)"
  shows "election_step n ev acts n' \<and> commit_quiet n'"
proof (cases "is_Term req < n_term n")
  case True
  then show ?thesis using assms
    by (auto simp: handleInstallSnapshot_def intro!: election_step.keeps [where r = "n_role n" and vs = "n_votes n"])
next
  case False
  let ?n = "acceptLeader n (is_Term req) (is_From req)"
  define r where "r = (if is_Success req \<and> is_Done req \<and> is_SnapshotIndex req > n_logBaseIndex ?n
       then Option.bind (if is_SnapshotIndex req \<le> n_lastLogIndex ?n
            then map_option (\<lambda>t. t = is_SnapshotTerm req) (termAt ?n (is_SnapshotIndex req)) else Some False)
         (\<lambda>retain. Some (fst (persistSnapshot ?n req retain), ResetElectionTimer # snd (persistSnapshot ?n req retain)))
       else Some (?n, ResetElectionTimer # snapshotResponse ?n req (is_Success req) (is_NextOffset req)
         (is_Success req \<and> is_Done req \<and> is_SnapshotIndex req \<le> n_logBaseIndex ?n)))"
  have "handleInstallSnapshot n req = map_option (persistIf (n_term n < is_Term req)) r"
    unfolding handleInstallSnapshot_def r_def Let_def using False
    by (cases "termAt ?n (is_SnapshotIndex req)") (simp_all add: case_prod_unfold)
  moreover have "keeps_election ?n r" unfolding r_def by (auto intro!: keeps_election_bind_other)
  ultimately have r: "keeps_election ?n r" "map_option (persistIf (n_term n < is_Term req)) r = Some (n', acts)"
    using assms(2) by auto
  then show ?thesis using election_step_accepts [of n "is_Term req" "is_From req"] assms(1) False by (cases r) auto
qed

lemma replicate_keeps:
  "keeps_election n (if b then Option.bind (sendAppendEntries n 0) (\<lambda>(n, sends). Some (persistCommit n sends))
     else if c then sendAppendEntriesTo n from i else Some (n, []))"
  by (auto intro!: keeps_election_bindI sendAppendEntries_keeps sendAppendEntriesTo_keeps
    intro: keeps_election_trans [OF persistCommit_keeps])

lemma handleAppendEntriesResponse_step:
  assumes "commit_quiet n" "handleAppendEntriesResponse n res = Some (n', acts)"
  shows "election_step n ev acts n' \<and> commit_quiet n'"
proof (cases "aer_Term res > n_term n")
  case True
  then show ?thesis using assms election_step_follows [OF True assms(1)] by (simp add: handleAppendEntriesResponse_def)
next
  case False
  have "keeps_election n (handleAppendEntriesResponse n res)"
    using False unfolding handleAppendEntriesResponse_def Let_def
    by (auto simp del: bind_eq_Some_conv simp: keeps_election_Some case_prod_unfold
      dest!: recordProgress_keeps advanceLeaderCommit_keeps
      intro!: keeps_election_bind_other [of "recordProgress n res"] keeps_election_bind_other [of "advanceLeaderCommit _"]
        keeps_election_bindI keeps_election_trans [OF replicate_keeps])
  then show ?thesis using assms election_step_keeps by blast
qed

lemma handleInstallSnapshotResponse_step:
  assumes "commit_quiet n" "handleInstallSnapshotResponse n res = Some (n', acts)"
  shows "election_step n ev acts n' \<and> commit_quiet n'"
proof (cases "isr_Term res > n_term n")
  case True
  then show ?thesis using assms election_step_follows [OF True assms(1)] by (simp add: handleInstallSnapshotResponse_def)
next
  case False
  have "keeps_election n (handleInstallSnapshotResponse n res)"
    using False by (intro keeps_core_election handleInstallSnapshotResponse_core) simp
  then show ?thesis using assms election_step_keeps by blast
qed

lemma handleVoteResponse_step:
  assumes "commit_quiet n" "handleVoteResponse n res = Some (n', acts)"
  shows "election_step n (EvVoteResponse res) acts n' \<and> commit_quiet n'"
proof (cases "vr_Term res > n_term n")
  case True
  then show ?thesis using assms election_step_follows [OF True assms(1)] by (simp add: handleVoteResponse_def)
next
  case False
  consider (ignore) "n_role n \<noteq> Candidate \<or> vr_Term res \<noteq> n_term n \<or> \<not> vr_Granted res"
    | (count) "n_role n = Candidate" "vr_Term res = n_term n" "vr_Granted res" by auto
  then show ?thesis
  proof cases
    case ignore
    then show ?thesis using assms False
      by (auto simp: handleVoteResponse_def intro!: election_step.keeps [where r = "n_role n" and vs = "n_votes n"])
  next
    case count
    let ?vs = "insert (vr_From res) (n_votes n)"
    have "(if card ?vs < quorum n then election_view n' = election_view (n\<lparr>n_votes := ?vs\<rparr>) \<and> acts = []
      else election_view n' = election_view (n\<lparr>n_votes := ?vs, n_role := Leader\<rparr>)
        \<and> (\<exists>rest. acts = BecameLeader (n_term n) # rest \<and> list_all quiet rest)) \<and> commit_quiet n'"
      using assms count False
      by (auto simp: handleVoteResponse_def Let_def becomeLeader_def appendEntries_def persistLog_def election_view_def
        commit_quiet_def split: bind_splits if_splits)
    then show ?thesis using election_step.counts [OF count refl] by blast
  qed
qed

lemma startElection_commit_quiet: "startElection n = (n', acts) \<Longrightarrow> commit_quiet n' = commit_quiet n"
  by (auto simp: startElection_def Let_def persistHardState_def)

lemma startPreVote_step:
  assumes "commit_quiet n" "startPreVote n = (n', acts)"
  shows "election_step n ev acts n' \<and> commit_quiet n'"
proof (cases "n_role n = Leader")
  case True
  then show ?thesis using assms
    by (auto simp: startPreVote_def election_view_def intro!: election_step.keeps [where r = "n_role n" and vs = "n_votes n"])
next
  case False
  let ?m = "n\<lparr>n_recentLeaderContact := False, n_leaderID := [], n_role := PreCandidate, n_preVotes := {n_id n}\<rparr>"
  let ?pre = "ResetElectionTimer # map (\<lambda>peer. SendPreVoteRequest peer
     \<lparr>pvq_From = n_id n, pvq_Term = add64 (n_term n) 1, pvq_LastLogIndex = n_lastLogIndex n,
      pvq_LastLogTerm = n_lastLogTerm n\<rparr>) (n_peers n)"
  have view: "election_view ?m = election_view (n\<lparr>n_role := PreCandidate\<rparr>)" "commit_quiet ?m = commit_quiet n"
    and pre: "list_all quiet ?pre" by (simp_all add: election_view_def list_all_iff)
  show ?thesis
  proof (cases "quorum n = 1")
    case True
    obtain more where "startElection ?m = (n', more)" "acts = ?pre @ more"
      using assms(2) True False unfolding startPreVote_def Let_def by (cases "startElection ?m") auto
    then show ?thesis
      using election_step.campaigns [OF view(1) _ _ pre] startElection_commit_quiet view(2) assms(1) by auto
  next
    case False
    then have "n' = ?m" "acts = ?pre" using assms(2) \<open>n_role n \<noteq> Leader\<close> by (auto simp: startPreVote_def Let_def)
    then show ?thesis using election_step.keeps [where r = PreCandidate and vs = "n_votes n", OF _ _ pre] view assms(1) by simp
  qed
qed

lemma handlePreVoteResponse_step:
  assumes "commit_quiet n" "handlePreVoteResponse n res = (n', acts)"
  shows "election_step n ev acts n' \<and> commit_quiet n'"
proof -
  let ?m = "n\<lparr>n_preVotes := insert (pvr_From res) (n_preVotes n)\<rparr>"
  consider (later) "pvr_CurrentTerm res > n_term n" | (quiet) "(n' = n \<or> n' = ?m) \<and> acts = []"
    | (elect) "startElection ?m = (n', acts)"
    using assms(2) by (auto simp: handlePreVoteResponse_def Let_def split: if_splits)
  then show ?thesis
  proof cases
    case later
    then show ?thesis using assms election_step_follows [OF later assms(1)] by (simp add: handlePreVoteResponse_def)
  next
    case quiet
    then show ?thesis using assms(1) by (auto intro!: election_step.keeps [where r = "n_role n" and vs = "n_votes n"])
  next
    case elect
    show ?thesis using election_step.campaigns [OF _ _ elect, where n = n and r = "n_role n" and pre = "[]"]
        startElection_commit_quiet [OF elect] assms(1) by simp
  qed
qed

lemma handleVoteRequest_commit_quiet: "handleVoteRequest n req = (n', acts) \<Longrightarrow> commit_quiet n' = commit_quiet n"
  by (auto simp: handleVoteRequest_def Let_def persistHardState_def split: if_splits)

lemma checkQuorum_step:
  assumes "commit_quiet n" "checkQuorum n = (n', acts)"
  shows "election_step n ev acts n' \<and> commit_quiet n'"
proof (cases "n_role n = Leader \<and> card (n_activePeers n) + 1 < quorum n")
  case True
  then show ?thesis using assms
    by (auto simp: checkQuorum_def becomeFollower_def election_view_def
      intro!: election_step.keeps [where r = Follower and vs = "{}"])
next
  case False
  then show ?thesis using assms
    by (auto simp: checkQuorum_def election_view_def split: if_splits intro!: election_step.keeps [where r = "n_role n" and vs = "n_votes n"])
qed

lemma Step_election:
  assumes "commit_quiet n" "Step n ev = Some (n', acts)"
  shows "election_step n ev acts n' \<and> commit_quiet n'"
proof -
  note keeps = election_step_keeps [OF _ assms(1)]
  show ?thesis
  proof (cases ev)
    case ElectionTimeout
    then show ?thesis using assms startPreVote_step by simp
  next
    case HeartbeatTimeout
    then show ?thesis using assms keeps [OF keeps_core_election [OF heartbeatRound_core]] by simp
  next
    case CheckQuorumTimeout
    then show ?thesis using assms checkQuorum_step by simp
  next
    case (HardStatePersisted i)
    then show ?thesis using assms election_step.persisted [of n i]
      by (auto simp: hardStatePersisted_def Let_def split: option.splits if_splits)
  next
    case (LogEntriesPersisted i)
    then show ?thesis using assms keeps [OF logEntriesPersisted_keeps] by simp
  next
    case (CommitIndexPersisted i)
    then show ?thesis using assms keeps [OF commitIndexPersisted_keeps] by simp
  next
    case (SnapshotPersisted i)
    then show ?thesis using assms keeps [OF snapshotPersisted_keeps] by simp
  next
    case RecoverCommitted
    then show ?thesis using assms keeps [OF applyThrough_keeps] by simp
  next
    case (SnapshotCompacted i t)
    then obtain m where "compactLog n i t = Some m" "n' = m" "acts = []" using assms by auto
    then show ?thesis using keeps [of "Some (m, [])"] compactLog_keeps [of n i t m] assms(1) by simp
  next
    case (EvProposeSession p)
    then show ?thesis using assms keeps [OF propose_keeps(1)] by simp
  next
    case (EvProposeSet p)
    then show ?thesis using assms keeps [OF propose_keeps(2)] by simp
  next
    case (EvProposeDelete p)
    then show ?thesis using assms keeps [OF propose_keeps(3)] by simp
  next
    case (ConfirmRead i)
    then show ?thesis using assms keeps [OF keeps_core_election [OF confirmRead_core]] by simp
  next
    case (EvPreVoteRequest m)
    then show ?thesis using assms keeps [OF keeps_core_election [OF handlePreVoteRequest_core]] by simp
  next
    case (EvPreVoteResponse m)
    then show ?thesis using assms handlePreVoteResponse_step by simp
  next
    case (EvVoteRequest m)
    then show ?thesis using assms election_step.votes handleVoteRequest_commit_quiet by simp
  next
    case (EvVoteResponse m)
    then show ?thesis using assms handleVoteResponse_step by simp
  next
    case (EvAppendEntries m)
    then show ?thesis using assms handleAppendEntries_step by simp
  next
    case (EvAppendEntriesResponse m)
    then show ?thesis using assms handleAppendEntriesResponse_step by simp
  next
    case (AppendEntriesFailed to i)
    then show ?thesis using assms keeps [OF keeps_core_election, of "Some (handleAppendEntriesFailed n to i, [])"] by auto
  next
    case (EvInstallSnapshot m)
    then show ?thesis using assms handleInstallSnapshot_step by simp
  next
    case (EvInstallSnapshotResponse m)
    then show ?thesis using assms handleInstallSnapshotResponse_step by simp
  qed
qed

section \<open>Votes are durable before they are promised\<close>

text \<open>
  A node promises its vote to a candidate when it grants a vote request and, to itself, when it asks
  for the votes of its peers.
\<close>

definition promises :: "Action list \<Rightarrow> (NodeID \<times> u64) set" where
  "promises acts = {(to, vr_Term r) | to r. SendVoteResponse to r \<in> set acts \<and> vr_Granted r}
     \<union> {(vq_From r, vq_Term r) | to r. SendVoteRequest to r \<in> set acts}"

lemma promises_simps [simp]: "promises [] = {}" "promises (xs @ ys) = promises xs \<union> promises ys"
  by (auto simp: promises_def)

lemma promises_quiet: "list_all quiet acts \<Longrightarrow> promises acts = {}"
  by (auto simp: promises_def list_all_iff)

definition vote_inv :: "Node \<Rightarrow> bool" where
  "vote_inv n \<longleftrightarrow> commit_quiet n
     \<and> (\<forall>p \<in> ran (n_pendingHardState n). promises (phs_after p) \<subseteq> {(phs_votedFor p, phs_term p)})"

lemma NewNode_vote_inv: "vote_inv (NewNodeFromRecoveredState i ps st)"
  by (simp add: vote_inv_def commit_quiet_def NewNodeFromRecoveredState_def Let_def)

lemma persistHardState_vote_inv:
  assumes "persistHardState m after = (n', acts)" "vote_inv m" "promises after \<subseteq> {(n_votedFor m, n_term m)}"
  shows "vote_inv n' \<and> promises acts = {}"
proof -
  have "promises [PersistHardState i t v] = {}" for i t v by (simp add: promises_def)
  then show ?thesis using assms
    by (auto simp: vote_inv_def persistHardState_def Let_def ran_def split: if_splits simp del: subset_singleton_iff del: subsetI) blast
qed

lemma vote_inv_view: "election_view n = election_view m \<Longrightarrow> commit_quiet n \<Longrightarrow> vote_inv m \<Longrightarrow> vote_inv n"
  by (auto simp: vote_inv_def election_view_def)

lemma vote_inv_frame [simp]:
  "vote_inv (becomeFollower n t l) = vote_inv n" "vote_inv (n\<lparr>n_role := r\<rparr>) = vote_inv n"
  "vote_inv (n\<lparr>n_votes := vs\<rparr>) = vote_inv n" "vote_inv (n\<lparr>n_votedFor := v\<rparr>) = vote_inv n"
  "vote_inv (n\<lparr>n_term := t\<rparr>) = vote_inv n" "vote_inv (n\<lparr>n_leaderID := l\<rparr>) = vote_inv n"
  "vote_inv (n\<lparr>n_readReady := b\<rparr>) = vote_inv n"
  by (auto simp: vote_inv_def commit_quiet_def becomeFollower_def)

lemma handleVoteRequest_vote_inv:
  assumes "handleVoteRequest n req = (n', acts)" "vote_inv n"
  shows "vote_inv n' \<and> promises acts \<subseteq> {(n_durableVotedFor n', n_durableTerm n')} \<inter> {(n_votedFor n', n_term n')}"
proof (cases "vq_Term req < n_term n")
  case True
  then show ?thesis using assms by (auto simp: handleVoteRequest_def voteResponse_def promises_def)
next
  case False
  define f where "f = (if vq_Term req > n_term n then becomeFollower n (vq_Term req) [] else n)"
  define grant where "grant \<longleftrightarrow> (n_votedFor f = [] \<or> n_votedFor f = vq_From req)
    \<and> candidateLogIsUpToDate f (vq_LastLogTerm req) (vq_LastLogIndex req)"
  define g where "g = (if grant then f\<lparr>n_votedFor := vq_From req\<rparr> else f)"
  have *: "(n', acts) = (if vq_Term req > n_term n \<or> (grant \<and> \<not> voteIsDurable g (vq_From req))
     then persistHardState g (voteResponse g (vq_From req) grant) else (g, voteResponse g (vq_From req) grant))"
    using assms(1) False unfolding handleVoteRequest_def Let_def f_def g_def grant_def by simp
  have g: "vote_inv g" using assms(2) by (simp add: g_def f_def)
  have promise: "promises (voteResponse g (vq_From req) grant) = (if grant then {(n_votedFor g, n_term g)} else {})"
    by (auto simp: promises_def voteResponse_def g_def)
  show ?thesis
  proof (cases "vq_Term req > n_term n \<or> (grant \<and> \<not> voteIsDurable g (vq_From req))")
    case True
    then show ?thesis using * persistHardState_vote_inv [OF _ g, of "voteResponse g (vq_From req) grant" n' acts] promise by auto
  next
    case False
    then have n': "n' = g" "acts = voteResponse g (vq_From req) grant" using * by auto
    have "grant \<Longrightarrow> n_durableTerm g = n_term g \<and> n_durableVotedFor g = n_votedFor g"
      using False by (simp add: voteIsDurable_def) (simp add: g_def)
    then show ?thesis using g promise n' by auto
  qed
qed

lemma election_step_vote_inv:
  assumes "election_step n ev acts n'" "vote_inv n" "commit_quiet n'"
  shows "vote_inv n' \<and> promises acts \<subseteq> {(n_durableVotedFor n', n_durableTerm n')} \<inter> {(n_votedFor n', n_term n')}"
  using assms
proof cases
  case (keeps r vs)
  then show ?thesis using assms by (auto simp: vote_inv_def election_view_def promises_quiet)
next
  case (follows t m l after)
  then have "commit_quiet m" using assms(3) persistHardState_commit_quiet [of m after] by simp
  then have "vote_inv m" using vote_inv_view [OF follows(2)] assms(2) by simp
  then show ?thesis using persistHardState_vote_inv [OF follows(4)] promises_quiet [OF follows(3)] by auto
next
  case (campaigns m r acts' pre)
  then have "commit_quiet m" using assms(3) startElection_commit_quiet by blast
  then have m: "vote_inv m" using vote_inv_view [OF campaigns(2)] assms(2) by simp
  let ?m = "m\<lparr>n_role := Candidate, n_term := add64 (n_term m) 1, n_votedFor := n_id m,
               n_leaderID := [], n_readReady := False, n_votes := {n_id m}\<rparr>"
  obtain after where "persistHardState ?m after = (n', acts')" "promises after \<subseteq> {(n_votedFor ?m, n_term ?m)}"
    using campaigns(4) unfolding startElection_def Let_def by (fastforce simp: promises_def)
  then show ?thesis using persistHardState_vote_inv [of ?m after] m promises_quiet [OF campaigns(5)] campaigns(1) by auto
next
  case (votes req)
  then show ?thesis using handleVoteRequest_vote_inv assms(2) by blast
next
  case (counts res vs)
  have "promises (BecameLeader t # rest) = {}" if "list_all quiet rest" for t rest
    using promises_quiet [OF that] by (simp add: promises_def)
  then show ?thesis using counts assms(2,3)
    by (auto simp: vote_inv_def election_view_def split: if_splits)
next
  case (persisted i)
  show ?thesis
  proof (cases "n_pendingHardState n i")
    case None
    then show ?thesis using persisted assms(2) by (auto simp: hardStatePersisted_def)
  next
    case (Some p)
    have "promises (phs_after p) \<subseteq> {(phs_votedFor p, phs_term p)}" using Some assms(2) by (auto simp: vote_inv_def ran_def)
    moreover have "vote_inv n'" using persisted Some assms(2,3)
      by (force simp: vote_inv_def hardStatePersisted_def Let_def ran_def split: if_splits)
    ultimately show ?thesis using persisted Some
      by (cases "phs_term p \<noteq> n_term n \<or> phs_votedFor p \<noteq> n_votedFor n") (auto simp: hardStatePersisted_def Let_def)
  qed
qed

lemma Step_vote_inv:
  assumes "vote_inv n" "Step n ev = Some (n', acts)"
  shows "vote_inv n'" "promises acts \<subseteq> {(n_durableVotedFor n', n_durableTerm n')} \<inter> {(n_votedFor n', n_term n')}"
proof -
  have "commit_quiet n" using assms(1) by (simp add: vote_inv_def)
  note step = Step_election [OF this assms(2)]
  show "vote_inv n'" "promises acts \<subseteq> {(n_durableVotedFor n', n_durableTerm n')} \<inter> {(n_votedFor n', n_term n')}"
    using election_step_vote_inv [OF _ assms(1)] step by blast+
qed

section \<open>The Term never falls and a Term has one vote\<close>

definition hard_advances :: "Node \<Rightarrow> Node \<Rightarrow> bool" where
  "hard_advances n n' \<longleftrightarrow> n_term n < n_term n'
     \<or> n_term n = n_term n' \<and> (n_votedFor n = [] \<or> n_votedFor n' = n_votedFor n)"

lemma hard_advances_refl [simp]: "hard_advances n n"
  by (simp add: hard_advances_def)

lemma hard_advances_trans: "hard_advances a b \<Longrightarrow> hard_advances b c \<Longrightarrow> hard_advances a c"
  by (auto simp: hard_advances_def)

lemma add64_next: "n + 1 < W64 \<Longrightarrow> add64 n 1 = n + 1"
  by (simp add: add64_def)

lemma election_step_advances:
  assumes "election_step n ev acts n'" "n_term n + 1 < W64"
  shows "hard_advances n n'"
  using assms
proof cases
  case (follows t m l after)
  then show ?thesis by (auto simp: hard_advances_def election_view_def persistHardState_def becomeFollower_def Let_def)
next
  case (campaigns m r acts' pre)
  then show ?thesis using assms(2)
    by (auto simp: hard_advances_def election_view_def persistHardState_def startElection_def Let_def add64_next)
next
  case (votes req)
  then show ?thesis
    by (auto simp: hard_advances_def handleVoteRequest_def Let_def persistHardState_def becomeFollower_def split: if_splits)
qed (auto simp: hard_advances_def election_view_def hardStatePersisted_def Let_def split: if_splits option.splits)

text \<open>The Term counter does not wrap around while a node handles the events.\<close>

fun terms_fit :: "Node \<Rightarrow> Event list \<Rightarrow> bool" where
  "terms_fit n [] = True"
| "terms_fit n (event # events) = (n_term n + 1 < W64
     \<and> (case Step n event of None \<Rightarrow> True | Some (n', actions) \<Rightarrow> terms_fit n' events))"

lemma Run_vote_inv: "Run n events = Some (n', acts) \<Longrightarrow> vote_inv n \<Longrightarrow> vote_inv n'"
proof (induction events arbitrary: n acts)
  case (Cons event events)
  then show ?case using Step_vote_inv(1) by (fastforce simp: Run_Cons_iff simp del: Run.simps(2))
qed simp

lemma Run_advances: "Run n events = Some (n', acts) \<Longrightarrow> vote_inv n \<Longrightarrow> terms_fit n events \<Longrightarrow> hard_advances n n'"
proof (induction events arbitrary: n acts)
  case (Cons event events)
  then obtain m as bs where m: "Step n event = Some (m, as)" "Run m events = Some (n', bs)" by (auto split: bind_splits)
  have "hard_advances n m" using election_step_advances Step_election [OF _ m(1)] Cons.prems by (auto simp: vote_inv_def)
  moreover have "hard_advances m n'" using Cons m Step_vote_inv(1) [OF _ m(1)] by auto
  ultimately show ?case by (rule hard_advances_trans)
qed simp

lemmas vote_eval = NewNodeFromRecoveredState_def trimRecovered_def handleVoteRequest_def hardStatePersisted_def
  persistHardState_def becomeFollower_def voteResponse_def voteIsDurable_def candidateLogIsUpToDate_def
  logIsAtLeastAsUpToDate_def promises_def Let_def add64_def W64_def

text \<open>
  C2: a vote is promised only from stable storage. Whatever events a recovered node has handled, a
  step that grants a vote, or asks the peers for theirs, names exactly the Term and the candidate of
  the hard state whose write has completed, which are also the current ones.
\<close>

theorem promised_vote_is_durable:
  assumes "Run (NewNodeFromRecoveredState i ps recovered) events = Some (n, past)"
    and "Step n event = Some (n', actions)" and "(candidate, t) \<in> promises actions"
  shows "n_durableTerm n' = t \<and> n_durableVotedFor n' = candidate \<and> n_term n' = t \<and> n_votedFor n' = candidate"
  using Step_vote_inv(2) [OF Run_vote_inv [OF assms(1) NewNode_vote_inv] assms(2)] assms(3) by auto

theorem promised_vote_is_durable_witness:
  "\<exists>n n' past actions. Run (NewNodeFromRecoveredState ''a'' [''b'', ''c'']
       \<lparr>rs_HardState = \<lparr>hs_Term = 3, hs_VotedFor = []\<rparr>, rs_Log = [], rs_CommitIndex = 0,
        rs_SnapshotIndex = 0, rs_SnapshotTerm = 0\<rparr>)
      [EvVoteRequest \<lparr>vq_From = ''b'', vq_Term = 5, vq_LastLogIndex = 0, vq_LastLogTerm = 0\<rparr>] = Some (n, past)
    \<and> Step n (HardStatePersisted 1) = Some (n', actions) \<and> (''b'', 5) \<in> promises actions
    \<and> n_durableTerm n' = 5 \<and> n_durableVotedFor n' = ''b'' \<and> n_term n' = 5 \<and> n_votedFor n' = ''b''"
  (is "\<exists>n n' past actions. ?run n past \<and> ?step n n' actions \<and> ?promise actions \<and> _")
proof -
  have "\<exists>n n' past actions. ?run n past \<and> ?step n n' actions \<and> ?promise actions"
    by (simp add: vote_eval)
  then obtain n n' past actions where w: "?run n past" "?step n n' actions" "?promise actions" by blast
  show ?thesis using w promised_vote_is_durable [OF w] by blast
qed

text \<open>
  One vote in a Term. After a node has promised its vote of a Term to a candidate, no later step
  promises the vote of that Term to another one, as long as the Term counter does not wrap.
\<close>

lemma one_vote_per_term:
  assumes "Run (NewNodeFromRecoveredState i ps recovered) events = Some (n, past)"
    and "Step n event = Some (m, actions)" and "(candidate, t) \<in> promises actions" and "candidate \<noteq> []"
    and "Run m between = Some (m', others)" and "terms_fit m (between @ [event'])"
    and "Step m' event' = Some (n', actions')" and "(candidate', t) \<in> promises actions'"
  shows "candidate' = candidate"
proof -
  have inv: "vote_inv n" by (rule Run_vote_inv [OF assms(1) NewNode_vote_inv])
  then have m: "vote_inv m" "n_votedFor m = candidate" "n_term m = t"
    using Step_vote_inv [OF inv assms(2)] assms(3) by auto
  have "vote_inv m'" by (rule Run_vote_inv [OF assms(5) m(1)])
  then have n': "n_votedFor n' = candidate'" "n_term n' = t"
    using Step_vote_inv [OF _ assms(7)] assms(8) by auto
  have "Run m (between @ [event']) = Some (n', others @ actions')" using Run_append [OF assms(5)] assms(7) by simp
  then have "hard_advances m n'" using assms(6) m(1) Run_advances by blast
  then show ?thesis using m(2,3) n' assms(4) by (simp add: hard_advances_def)
qed

lemma one_vote_per_term_witness:
  "\<exists>n m m' n' past actions others actions'. Run (NewNodeFromRecoveredState ''a'' [''b'', ''c'']
       \<lparr>rs_HardState = \<lparr>hs_Term = 3, hs_VotedFor = []\<rparr>, rs_Log = [], rs_CommitIndex = 0,
        rs_SnapshotIndex = 0, rs_SnapshotTerm = 0\<rparr>)
      [EvVoteRequest \<lparr>vq_From = ''b'', vq_Term = 5, vq_LastLogIndex = 0, vq_LastLogTerm = 0\<rparr>] = Some (n, past)
    \<and> Step n (HardStatePersisted 1) = Some (m, actions) \<and> (''b'', 5) \<in> promises actions
    \<and> Run m [EvVoteRequest \<lparr>vq_From = ''c'', vq_Term = 5, vq_LastLogIndex = 9, vq_LastLogTerm = 4\<rparr>] = Some (m', others)
    \<and> Step m' (EvVoteRequest \<lparr>vq_From = ''b'', vq_Term = 5, vq_LastLogIndex = 0, vq_LastLogTerm = 0\<rparr>) = Some (n', actions')
    \<and> (''b'', 5) \<in> promises actions'
    \<and> (\<forall>candidate. (candidate, 5) \<in> promises actions' \<longrightarrow> candidate = ''b'')"
  (is "\<exists>n m m' n' past actions others actions'. ?run n past \<and> ?step n m actions \<and> ?promise actions \<and> ?between m m' others
     \<and> ?again m' n' actions' \<and> ?promise actions' \<and> _ actions'")
proof -
  have "\<exists>n m m' n' past actions others actions'. ?run n past \<and> ?step n m actions \<and> ?promise actions \<and> ?between m m' others
     \<and> terms_fit m ([EvVoteRequest \<lparr>vq_From = ''c'', vq_Term = 5, vq_LastLogIndex = 9, vq_LastLogTerm = 4\<rparr>]
        @ [EvVoteRequest \<lparr>vq_From = ''b'', vq_Term = 5, vq_LastLogIndex = 0, vq_LastLogTerm = 0\<rparr>])
     \<and> ?again m' n' actions' \<and> ?promise actions'"
    by (simp add: vote_eval)
  then obtain n m m' n' past actions others actions' where w: "?run n past" "?step n m actions" "?promise actions" "?between m m' others"
    "terms_fit m ([EvVoteRequest \<lparr>vq_From = ''c'', vq_Term = 5, vq_LastLogIndex = 9, vq_LastLogTerm = 4\<rparr>]
        @ [EvVoteRequest \<lparr>vq_From = ''b'', vq_Term = 5, vq_LastLogIndex = 0, vq_LastLogTerm = 0\<rparr>])"
    "?again m' n' actions'" "?promise actions'" by blast
  show ?thesis using w one_vote_per_term [OF w(1-3) _ w(4-6)] by blast
qed

end
