(* ===== verification/Raft_Log.thy ===== *)
theory Raft_Log
  imports Raft_Frame
begin

text \<open>
  The log, the commit index and the application of entries on a single node: what every event does
  to them. Committed entries are never rewritten, the commit index never falls, and the state machine
  is driven through the log without a gap, and without a repetition unless a Snapshot takes it back.
\<close>

section \<open>The log part of a node\<close>

definition entry_at :: "Node \<Rightarrow> u64 \<Rightarrow> LogEntry" where
  "entry_at n i = n_log n ! (i - n_logBaseIndex n - 1)"

definition log_view :: "Node \<Rightarrow> LogEntry list \<times> u64 \<times> u64 \<times> u64 \<times> u64 \<times> u64 \<times> u64 \<times> u64" where
  "log_view n = (n_log n, n_logBaseIndex n, n_logBaseTerm n, n_lastLogIndex n, n_lastLogTerm n,
     n_commitIndex n, n_durableCommitIndex n, n_lastApplied n)"

text \<open>Actions that leave the state machine alone.\<close>

fun plain :: "Action \<Rightarrow> bool" where
  "plain (ApplyEntry e) = False"
| "plain (RestoreSnapshot i t) = False"
| "plain a = True"

definition after_plain :: "Node \<Rightarrow> bool" where
  "after_plain n \<longleftrightarrow> (\<forall>p \<in> ran (n_pendingHardState n). list_all plain (phs_after p))
     \<and> (\<forall>p \<in> ran (n_pendingCommit n). list_all plain (pc_after p))"

text \<open>Between two events everything that is durably committed has been applied.\<close>

definition settled :: "Node \<Rightarrow> bool" where
  "settled n \<longleftrightarrow> n_lastApplied n = n_durableCommitIndex n \<and> after_plain n"

lemma log_view_frame [simp]:
  "log_view (n\<lparr>n_id := x_id\<rparr>) = log_view n"
  "log_view (n\<lparr>n_peers := x_peers\<rparr>) = log_view n"
  "log_view (n\<lparr>n_role := x_role\<rparr>) = log_view n"
  "log_view (n\<lparr>n_term := x_term\<rparr>) = log_view n"
  "log_view (n\<lparr>n_votedFor := x_votedFor\<rparr>) = log_view n"
  "log_view (n\<lparr>n_leaderID := x_leaderID\<rparr>) = log_view n"
  "log_view (n\<lparr>n_durableLogIndex := x_durableLogIndex\<rparr>) = log_view n"
  "log_view (n\<lparr>n_readReady := x_readReady\<rparr>) = log_view n"
  "log_view (n\<lparr>n_votes := x_votes\<rparr>) = log_view n"
  "log_view (n\<lparr>n_preVotes := x_preVotes\<rparr>) = log_view n"
  "log_view (n\<lparr>n_activePeers := x_activePeers\<rparr>) = log_view n"
  "log_view (n\<lparr>n_matchIndex := x_matchIndex\<rparr>) = log_view n"
  "log_view (n\<lparr>n_nextIndex := x_nextIndex\<rparr>) = log_view n"
  "log_view (n\<lparr>n_appendInFlight := x_appendInFlight\<rparr>) = log_view n"
  "log_view (n\<lparr>n_snapshotInFlight := x_snapshotInFlight\<rparr>) = log_view n"
  "log_view (n\<lparr>n_nextRequestID := x_nextRequestID\<rparr>) = log_view n"
  "log_view (n\<lparr>n_pendingReads := x_pendingReads\<rparr>) = log_view n"
  "log_view (n\<lparr>n_recentLeaderContact := x_recentLeaderContact\<rparr>) = log_view n"
  "log_view (n\<lparr>n_durableTerm := x_durableTerm\<rparr>) = log_view n"
  "log_view (n\<lparr>n_durableVotedFor := x_durableVotedFor\<rparr>) = log_view n"
  "log_view (n\<lparr>n_nextHardStatePersistence := x_nextHardStatePersistence\<rparr>) = log_view n"
  "log_view (n\<lparr>n_pendingHardState := x_pendingHardState\<rparr>) = log_view n"
  "log_view (n\<lparr>n_nextLogPersistence := x_nextLogPersistence\<rparr>) = log_view n"
  "log_view (n\<lparr>n_pendingLog := x_pendingLog\<rparr>) = log_view n"
  "log_view (n\<lparr>n_nextCommitPersistence := x_nextCommitPersistence\<rparr>) = log_view n"
  "log_view (n\<lparr>n_pendingCommit := x_pendingCommit\<rparr>) = log_view n"
  "log_view (n\<lparr>n_nextSnapshotPersistence := x_nextSnapshotPersistence\<rparr>) = log_view n"
  "log_view (n\<lparr>n_pendingSnapshot := x_pendingSnapshot\<rparr>) = log_view n"
  by (simp_all add: log_view_def)

lemma after_plain_frame [simp]:
  "after_plain (n\<lparr>n_id := x_id\<rparr>) = after_plain n"
  "after_plain (n\<lparr>n_peers := x_peers\<rparr>) = after_plain n"
  "after_plain (n\<lparr>n_role := x_role\<rparr>) = after_plain n"
  "after_plain (n\<lparr>n_term := x_term\<rparr>) = after_plain n"
  "after_plain (n\<lparr>n_votedFor := x_votedFor\<rparr>) = after_plain n"
  "after_plain (n\<lparr>n_leaderID := x_leaderID\<rparr>) = after_plain n"
  "after_plain (n\<lparr>n_lastLogIndex := x_lastLogIndex\<rparr>) = after_plain n"
  "after_plain (n\<lparr>n_lastLogTerm := x_lastLogTerm\<rparr>) = after_plain n"
  "after_plain (n\<lparr>n_durableLogIndex := x_durableLogIndex\<rparr>) = after_plain n"
  "after_plain (n\<lparr>n_logBaseIndex := x_logBaseIndex\<rparr>) = after_plain n"
  "after_plain (n\<lparr>n_logBaseTerm := x_logBaseTerm\<rparr>) = after_plain n"
  "after_plain (n\<lparr>n_log := x_log\<rparr>) = after_plain n"
  "after_plain (n\<lparr>n_commitIndex := x_commitIndex\<rparr>) = after_plain n"
  "after_plain (n\<lparr>n_lastApplied := x_lastApplied\<rparr>) = after_plain n"
  "after_plain (n\<lparr>n_readReady := x_readReady\<rparr>) = after_plain n"
  "after_plain (n\<lparr>n_votes := x_votes\<rparr>) = after_plain n"
  "after_plain (n\<lparr>n_preVotes := x_preVotes\<rparr>) = after_plain n"
  "after_plain (n\<lparr>n_activePeers := x_activePeers\<rparr>) = after_plain n"
  "after_plain (n\<lparr>n_matchIndex := x_matchIndex\<rparr>) = after_plain n"
  "after_plain (n\<lparr>n_nextIndex := x_nextIndex\<rparr>) = after_plain n"
  "after_plain (n\<lparr>n_appendInFlight := x_appendInFlight\<rparr>) = after_plain n"
  "after_plain (n\<lparr>n_snapshotInFlight := x_snapshotInFlight\<rparr>) = after_plain n"
  "after_plain (n\<lparr>n_nextRequestID := x_nextRequestID\<rparr>) = after_plain n"
  "after_plain (n\<lparr>n_pendingReads := x_pendingReads\<rparr>) = after_plain n"
  "after_plain (n\<lparr>n_recentLeaderContact := x_recentLeaderContact\<rparr>) = after_plain n"
  "after_plain (n\<lparr>n_durableTerm := x_durableTerm\<rparr>) = after_plain n"
  "after_plain (n\<lparr>n_durableVotedFor := x_durableVotedFor\<rparr>) = after_plain n"
  "after_plain (n\<lparr>n_nextHardStatePersistence := x_nextHardStatePersistence\<rparr>) = after_plain n"
  "after_plain (n\<lparr>n_nextLogPersistence := x_nextLogPersistence\<rparr>) = after_plain n"
  "after_plain (n\<lparr>n_pendingLog := x_pendingLog\<rparr>) = after_plain n"
  "after_plain (n\<lparr>n_durableCommitIndex := x_durableCommitIndex\<rparr>) = after_plain n"
  "after_plain (n\<lparr>n_nextCommitPersistence := x_nextCommitPersistence\<rparr>) = after_plain n"
  "after_plain (n\<lparr>n_nextSnapshotPersistence := x_nextSnapshotPersistence\<rparr>) = after_plain n"
  "after_plain (n\<lparr>n_pendingSnapshot := x_pendingSnapshot\<rparr>) = after_plain n"
  by (simp_all add: after_plain_def)

lemma settled_frame [simp]:
  "settled (n\<lparr>n_id := x_id\<rparr>) = settled n"
  "settled (n\<lparr>n_peers := x_peers\<rparr>) = settled n"
  "settled (n\<lparr>n_role := x_role\<rparr>) = settled n"
  "settled (n\<lparr>n_term := x_term\<rparr>) = settled n"
  "settled (n\<lparr>n_votedFor := x_votedFor\<rparr>) = settled n"
  "settled (n\<lparr>n_leaderID := x_leaderID\<rparr>) = settled n"
  "settled (n\<lparr>n_lastLogIndex := x_lastLogIndex\<rparr>) = settled n"
  "settled (n\<lparr>n_lastLogTerm := x_lastLogTerm\<rparr>) = settled n"
  "settled (n\<lparr>n_durableLogIndex := x_durableLogIndex\<rparr>) = settled n"
  "settled (n\<lparr>n_logBaseIndex := x_logBaseIndex\<rparr>) = settled n"
  "settled (n\<lparr>n_logBaseTerm := x_logBaseTerm\<rparr>) = settled n"
  "settled (n\<lparr>n_log := x_log\<rparr>) = settled n"
  "settled (n\<lparr>n_commitIndex := x_commitIndex\<rparr>) = settled n"
  "settled (n\<lparr>n_readReady := x_readReady\<rparr>) = settled n"
  "settled (n\<lparr>n_votes := x_votes\<rparr>) = settled n"
  "settled (n\<lparr>n_preVotes := x_preVotes\<rparr>) = settled n"
  "settled (n\<lparr>n_activePeers := x_activePeers\<rparr>) = settled n"
  "settled (n\<lparr>n_matchIndex := x_matchIndex\<rparr>) = settled n"
  "settled (n\<lparr>n_nextIndex := x_nextIndex\<rparr>) = settled n"
  "settled (n\<lparr>n_appendInFlight := x_appendInFlight\<rparr>) = settled n"
  "settled (n\<lparr>n_snapshotInFlight := x_snapshotInFlight\<rparr>) = settled n"
  "settled (n\<lparr>n_nextRequestID := x_nextRequestID\<rparr>) = settled n"
  "settled (n\<lparr>n_pendingReads := x_pendingReads\<rparr>) = settled n"
  "settled (n\<lparr>n_recentLeaderContact := x_recentLeaderContact\<rparr>) = settled n"
  "settled (n\<lparr>n_durableTerm := x_durableTerm\<rparr>) = settled n"
  "settled (n\<lparr>n_durableVotedFor := x_durableVotedFor\<rparr>) = settled n"
  "settled (n\<lparr>n_nextHardStatePersistence := x_nextHardStatePersistence\<rparr>) = settled n"
  "settled (n\<lparr>n_nextLogPersistence := x_nextLogPersistence\<rparr>) = settled n"
  "settled (n\<lparr>n_pendingLog := x_pendingLog\<rparr>) = settled n"
  "settled (n\<lparr>n_nextCommitPersistence := x_nextCommitPersistence\<rparr>) = settled n"
  "settled (n\<lparr>n_nextSnapshotPersistence := x_nextSnapshotPersistence\<rparr>) = settled n"
  "settled (n\<lparr>n_pendingSnapshot := x_pendingSnapshot\<rparr>) = settled n"
  by (simp_all add: settled_def)

lemma log_view_core: "core n = core m \<Longrightarrow> log_view n = log_view m"
  by (simp add: log_view_def core_fields [of n m])

lemma settled_core: "core n = core m \<Longrightarrow> settled n = settled m"
  by (simp add: settled_def after_plain_def core_fields [of n m])

lemma soft_plain: "soft_act a \<Longrightarrow> plain a"
  by (cases a) auto

lemma soft_plain_all [simp]: "list_all soft_act acts \<Longrightarrow> list_all plain acts"
  by (auto simp: list_all_iff soft_plain)

section \<open>Helpers that keep the log part\<close>

definition keeps_log :: "Node \<Rightarrow> outcome mayPanic \<Rightarrow> bool" where
  "keeps_log n r \<longleftrightarrow> (\<forall>n' acts. r = Some (n', acts) \<longrightarrow> settled n
     \<longrightarrow> log_view n' = log_view n \<and> list_all plain acts \<and> settled n')"

lemma keeps_log_simps [simp]:
  "keeps_log n None"
  "keeps_log n (Some (n', acts)) \<longleftrightarrow>
    (settled n \<longrightarrow> log_view n' = log_view n \<and> list_all plain acts \<and> settled n')"
  by (auto simp: keeps_log_def)

lemma keeps_log_Some: "keeps_log n (Some p) \<longleftrightarrow> (settled n \<longrightarrow>
    log_view (fst p) = log_view n \<and> list_all plain (snd p) \<and> settled (fst p))"
  by (cases p) simp

lemma keeps_log_bindI:
  assumes "keeps_log n r"
    and "\<And>m acts. r = Some (m, acts) \<Longrightarrow> settled n \<Longrightarrow> log_view m = log_view n \<Longrightarrow> list_all plain acts
      \<Longrightarrow> settled m \<Longrightarrow> keeps_log n (f (m, acts))"
  shows "keeps_log n (Option.bind r f)"
proof (cases r)
  case (Some p)
  then show ?thesis using assms by (cases p; cases "settled n") (auto simp: keeps_log_def)
qed simp

lemma keeps_log_bind_other:
  assumes "\<And>x. r = Some x \<Longrightarrow> keeps_log n (f x)"
  shows "keeps_log n (Option.bind r f)"
  using assms by (cases r) auto

lemma keeps_log_trans:
  "keeps_log m r \<Longrightarrow> (settled n \<Longrightarrow> log_view m = log_view n \<and> settled m) \<Longrightarrow> keeps_log n r"
  by (auto simp: keeps_log_def)

lemma keeps_core_log: "keeps_core n r \<Longrightarrow> keeps_log n r"
  unfolding keeps_core_def keeps_log_def by (auto dest: log_view_core settled_core)

lemma settled_applyThrough:
  "keeps_log n (applyThrough n (n_durableCommitIndex n))"
proof (cases "settled n")
  case True
  then have "applyThrough n (n_durableCommitIndex n) = Some (completeReads n)"
    by (simp add: applyThrough_def settled_def)
  moreover have "keeps_core n (Some (completeReads n))" by simp
  ultimately show ?thesis by (metis keeps_core_log)
qed (simp add: keeps_log_def)

lemma persistLog_log [simp]:
  "log_view (fst (persistLog n es p)) = log_view n" "settled (fst (persistLog n es p)) = settled n"
  "list_all plain (snd (persistLog n es p))"
  by (simp_all add: persistLog_def Let_def)

lemma persistSnapshot_log [simp]:
  "log_view (fst (persistSnapshot n req b)) = log_view n" "settled (fst (persistSnapshot n req b)) = settled n"
  "list_all plain (snd (persistSnapshot n req b))"
  by (simp_all add: persistSnapshot_def Let_def)

lemma persistCommit_log [simp]:
  "log_view (fst (persistCommit n acts)) = log_view n" "list_all plain (snd (persistCommit n acts))"
  "settled n \<Longrightarrow> list_all plain acts \<Longrightarrow> settled (fst (persistCommit n acts))"
  by (auto simp: persistCommit_def Let_def settled_def after_plain_def ran_def)

lemma persistHardState_log [simp]:
  "log_view (fst (persistHardState n acts)) = log_view n" "list_all plain (snd (persistHardState n acts))"
  "settled n \<Longrightarrow> list_all plain acts \<Longrightarrow> settled (fst (persistHardState n acts))"
  by (auto simp: persistHardState_def Let_def settled_def after_plain_def ran_def)

lemma becomeFollower_log [simp]:
  "log_view (becomeFollower n t l) = log_view n" "settled (becomeFollower n t l) = settled n"
  by (simp_all add: becomeFollower_def)

lemma acceptLeader_log [simp]:
  "log_view (acceptLeader n t l) = log_view n" "settled (acceptLeader n t l) = settled n"
  by (simp_all add: acceptLeader_def Let_def)

lemma response_plain [simp]:
  "list_all plain (appendEntriesResponse n to i b m ct ci r)" "list_all plain (snapshotResponse n req b off d)"
  "list_all plain (voteResponse n to b)"
  by (simp_all add: appendEntriesResponse_def snapshotResponse_def voteResponse_def)

lemma startElection_log: "keeps_log n (Some (startElection n))"
  unfolding startElection_def Let_def keeps_log_Some
  by (simp add: list.pred_map comp_def list.pred_True)

lemma startPreVote_log: "keeps_log n (Some (startPreVote n))"
  using startElection_log [of "n\<lparr>n_recentLeaderContact := False, n_leaderID := [], n_role := PreCandidate, n_preVotes := {n_id n}\<rparr>"]
  unfolding startPreVote_def Let_def keeps_log_Some by (simp add: case_prod_beta list.pred_map comp_def list.pred_True)

lemma handlePreVoteResponse_log: "keeps_log n (Some (handlePreVoteResponse n m))"
  using startElection_log [of "n\<lparr>n_preVotes := insert (pvr_From m) (n_preVotes n)\<rparr>"]
  unfolding handlePreVoteResponse_def Let_def keeps_log_Some by simp

lemma handleVoteRequest_log: "keeps_log n (Some (handleVoteRequest n m))"
  unfolding handleVoteRequest_def Let_def keeps_log_Some by simp

lemma checkQuorum_log: "keeps_log n (Some (checkQuorum n))"
  unfolding checkQuorum_def keeps_log_Some by simp

lemma hardStatePersisted_log: "keeps_log n (Some (hardStatePersisted n i))"
proof (cases "n_pendingHardState n i")
  case (Some p)
  have "settled n \<Longrightarrow> list_all plain (phs_after p)"
    and "settled n \<Longrightarrow> settled (n\<lparr>n_pendingHardState := (n_pendingHardState n)(i := None)\<rparr>)"
    using Some by (auto simp: settled_def after_plain_def ran_def)
  then show ?thesis using Some unfolding hardStatePersisted_def Let_def keeps_log_Some by simp
qed (simp add: hardStatePersisted_def)

lemma handleInstallSnapshotResponse_log: "keeps_log n (handleInstallSnapshotResponse n m)"
proof (cases "isr_Term m \<le> n_term n")
  case True
  then show ?thesis by (intro keeps_core_log handleInstallSnapshotResponse_core)
next
  case False
  then show ?thesis by (simp add: handleInstallSnapshotResponse_def Let_def keeps_log_Some)
qed

lemma persistIf_log:
  assumes "keeps_log n r"
  shows "keeps_log n (map_option (persistIf b) r)"
proof (cases r)
  case (Some p)
  then show ?thesis using assms by (cases p) (auto simp: persistIf_def keeps_log_Some)
qed simp

lemma handleInstallSnapshot_log: "keeps_log n (handleInstallSnapshot n m)"
proof -
  have "keeps_log n (Some (persistIf b p))" if "keeps_log n (Some p)" for b p
    using persistIf_log [OF that, of b] by simp
  then show ?thesis unfolding handleInstallSnapshot_def Let_def
    by (auto simp: case_prod_unfold intro!: keeps_log_bind_other)
qed

section \<open>What a step does to the log part\<close>

text \<open>
  Every event has one of seven effects: none, an entry of the node's own Term at the end of the log,
  the entries of an accepted \<open>AppendEntries\<close> request, a higher commit index, the application of what
  has become durably committed, a compaction, or the installation of a Snapshot.
\<close>

definition with_log :: "Node \<Rightarrow> LogEntry list \<Rightarrow> Node" where
  "with_log n es = n\<lparr>n_log := es, n_lastLogIndex := n_logBaseIndex n + length es,
     n_lastLogTerm := (if es = [] then n_logBaseTerm n else le_Term (last es))\<rparr>"

text \<open>Why a commit index may rise to \<open>c\<close>: the Leader's word, or replication on a quorum.\<close>

definition commit_reason :: "Node \<Rightarrow> Event \<Rightarrow> u64 \<Rightarrow> bool" where
  "commit_reason n ev c \<longleftrightarrow>
    (\<exists>req. ev = EvAppendEntries req \<and> n_term n \<le> ae_Term req \<and> c \<le> ae_LeaderCommit req)
    \<or> (\<exists>i p. ev = LogEntriesPersisted i \<and> n_pendingLog n i = Some p \<and> c \<le> pl_leaderCommit p)
    \<or> (\<exists>res m. ev = EvAppendEntriesResponse res \<and> n_role n = Leader \<and> recordProgress n res = Some m
         \<and> term_at n c = n_term n \<and> quorum n \<le> replicatedCount m c)"

text \<open>The events that may make a node append an entry of its own.\<close>

fun appending :: "Event \<Rightarrow> bool" where
  "appending (EvVoteResponse m) = True"
| "appending (EvProposeSession p) = True"
| "appending (EvProposeSet p) = True"
| "appending (EvProposeDelete p) = True"
| "appending ev = False"

inductive log_step :: "Node \<Rightarrow> Event \<Rightarrow> Action list \<Rightarrow> Node \<Rightarrow> bool" where
  keeps: "log_view n' = log_view n \<Longrightarrow> list_all plain acts \<Longrightarrow> settled n' \<Longrightarrow> log_step n ev acts n'"
| appends: "appending ev \<Longrightarrow> log_view n' = log_view (with_log n (n_log n @ [e])) \<Longrightarrow> le_Index e = n_lastLogIndex n + 1
    \<Longrightarrow> le_Term e = n_term n \<Longrightarrow> n_term n' = n_term n \<Longrightarrow> n_role n' = Leader \<Longrightarrow> list_all plain acts \<Longrightarrow> settled n'
    \<Longrightarrow> log_step n ev acts n'"
| follows: "n_term n \<le> ae_Term req \<Longrightarrow> ae_PrevLogIndex req \<le> n_lastLogIndex n
    \<Longrightarrow> ae_PrevLogIndex req = 0 \<and> ae_PrevLogTerm req = 0 \<or> term_at n (ae_PrevLogIndex req) = ae_PrevLogTerm req
    \<Longrightarrow> pick_new n (ae_Entries req) = (new, trunc, True) \<Longrightarrow> new \<noteq> []
    \<Longrightarrow> log_view n' = log_view (with_log n (take (le_Index (hd new) - n_logBaseIndex n - 1) (n_log n) @ new))
    \<Longrightarrow> list_all plain acts \<Longrightarrow> settled n' \<Longrightarrow> log_step n (EvAppendEntries req) acts n'"
| commits: "n_commitIndex n < c \<Longrightarrow> c \<le> n_lastLogIndex n \<Longrightarrow> commit_reason n ev c
    \<Longrightarrow> log_view n' = log_view (n\<lparr>n_commitIndex := c\<rparr>) \<Longrightarrow> list_all plain acts \<Longrightarrow> settled n' \<Longrightarrow> log_step n ev acts n'"
| applies: "n_pendingCommit n i = Some p \<Longrightarrow> c = max (n_lastApplied n) (pc_commitIndex p)
    \<Longrightarrow> log_view n' = log_view (n\<lparr>n_durableCommitIndex := c, n_lastApplied := c\<rparr>)
    \<Longrightarrow> applied acts = take (c - n_lastApplied n) (drop (n_lastApplied n - n_logBaseIndex n) (n_log n))
    \<Longrightarrow> (\<And>k t. RestoreSnapshot k t \<notin> set acts) \<Longrightarrow> settled n' \<Longrightarrow> log_step n (CommitIndexPersisted i) acts n'"
| compacts: "n_logBaseIndex n < index \<Longrightarrow> index \<le> n_lastApplied n
    \<Longrightarrow> log_view n' = log_view (n\<lparr>n_log := drop (index - n_logBaseIndex n) (n_log n), n_logBaseIndex := index, n_logBaseTerm := t\<rparr>)
    \<Longrightarrow> settled n' \<Longrightarrow> log_step n (SnapshotCompacted index t) [] n'"
| installs: "n_pendingSnapshot n i = Some p \<Longrightarrow> snapshotPersisted n i = (n', acts) \<Longrightarrow> settled n'
    \<Longrightarrow> log_step n (SnapshotPersisted i) acts n'"

lemma log_step_keeps:
  assumes "keeps_log n r" "settled n" "r = Some (n', acts)"
  shows "log_step n ev acts n'"
  using assms by (auto simp: keeps_log_def intro!: log_step.keeps)

lemma advanceFollowerCommit_log:
  assumes "settled n" "list_all plain after" "advanceFollowerCommit n c after = Some (n', acts)"
  shows "(log_view n' = log_view n \<or> n_commitIndex n < min c (n_lastLogIndex n)
      \<and> log_view n' = log_view (n\<lparr>n_commitIndex := min c (n_lastLogIndex n)\<rparr>)) \<and> list_all plain acts \<and> settled n'"
proof (cases "n_commitIndex n < min c (n_lastLogIndex n)")
  case True
  let ?n = "n\<lparr>n_commitIndex := min c (n_lastLogIndex n)\<rparr>"
  have "persistCommit ?n after = (n', acts)"
    using assms(3) True by (simp add: advanceFollowerCommit_def Let_def)
  then show ?thesis using persistCommit_log [of ?n after] True assms(1,2) by simp
next
  case False
  then obtain rest where "applyThrough n (n_durableCommitIndex n) = Some (n', rest)" "acts = rest @ after"
    using assms(3) by (auto simp: advanceFollowerCommit_def Let_def split: bind_splits)
  then show ?thesis using settled_applyThrough [of n] assms(1,2) by (simp add: keeps_log_def)
qed

lemma appendEntries_log:
  assumes "node_wf n" "contiguous (n_lastLogIndex n) es" "es \<noteq> []" "n_lastLogIndex n + length es + 1 < W64"
  shows "appendEntries n es = Some (with_log n (n_log n @ es))"
  using appendEntries_wf [OF assms] assms by (auto simp: with_log_def wf_defs)

lemma with_log_settled [simp]: "settled (with_log n es) = settled n"
  by (simp add: with_log_def)

lemma log_view_with_log: "log_view n = log_view m \<Longrightarrow> log_view (with_log n es) = log_view (with_log m es)"
  by (simp add: with_log_def log_view_def)

lemma proposeEntry_step:
  assumes "node_wf n" "settled n" "n_lastLogIndex n + 2 < W64" "le_Index e = n_lastLogIndex n + 1"
    "le_Term e = n_term n" "n_role n = Leader" "proposeEntry n i e = Some (n', acts)" "appending ev"
  shows "log_step n ev acts n'"
proof -
  have "appendEntries n [e] = Some (with_log n (n_log n @ [e]))"
    using assms by (intro appendEntries_log) auto
  then have "n' = fst (persistLog (with_log n (n_log n @ [e])) [e] (leaderPending (with_log n (n_log n @ [e])) e))"
    "list_all plain acts"
    using assms(7) by (auto simp: proposeEntry_def case_prod_beta persistLog_def Let_def)
  then show ?thesis using assms
    by (intro log_step.appends [where e = e]) (auto simp: persistLog_def with_log_def Let_def)
qed

lemma propose_step:
  assumes "node_wf n" "settled n" "n_lastLogIndex n + 2 < W64"
  shows "proposeSession n ps = Some (n', acts) \<Longrightarrow> log_step n (EvProposeSession ps) acts n'"
    and "proposeSet n pset = Some (n', acts) \<Longrightarrow> log_step n (EvProposeSet pset) acts n'"
    and "proposeDelete n pd = Some (n', acts) \<Longrightarrow> log_step n (EvProposeDelete pd) acts n'"
  using assms
  by (auto simp: proposeSession_def proposeSet_def proposeDelete_def split: if_splits
    dest!: proposeEntry_step [OF assms, rotated 3] intro: log_step.keeps)

lemma handleVoteResponse_log_step:
  assumes "node_wf n" "settled n" "n_lastLogIndex n + 2 < W64" "handleVoteResponse n m = Some (n', acts)"
  shows "log_step n (EvVoteResponse m) acts n'"
proof (cases "vr_Term m > n_term n \<or> (n_role n \<noteq> Candidate \<or> vr_Term m \<noteq> n_term n \<or> \<not> vr_Granted m)
    \<or> card (insert (vr_From m) (n_votes n)) < quorum n")
  case True
  then have "keeps_log n (handleVoteResponse n m)"
    by (auto simp: handleVoteResponse_def Let_def keeps_log_Some)
  then show ?thesis using assms log_step_keeps by blast
next
  case False
  let ?n = "becomeLeader (n\<lparr>n_votes := insert (vr_From m) (n_votes n)\<rparr>)"
  let ?e = "noOpEntry (add64 (n_lastLogIndex ?n) 1) (n_term ?n)"
  have n: "log_view ?n = log_view n" "settled ?n" "n_term ?n = n_term n" "n_role ?n = Leader" "node_wf ?n"
    "n_lastLogIndex ?n = n_lastLogIndex n" "n_log ?n = n_log n"
    using assms(1,2) by (simp_all add: becomeLeader_def)
  have e: "le_Index ?e = n_lastLogIndex n + 1" "le_Term ?e = n_term n"
    using n assms(3) by (simp_all add: noOpEntry_def)
  have app: "appendEntries ?n [?e] = Some (with_log ?n (n_log ?n @ [?e]))"
    using n e assms(3) by (intro appendEntries_log) auto
  have "log_view n' = log_view (with_log ?n (n_log ?n @ [?e])) \<and> list_all plain acts \<and> settled n'
    \<and> n_term n' = n_term n \<and> n_role n' = Leader"
    using assms(4) False app n
    by (auto simp: handleVoteResponse_def Let_def case_prod_beta persistLog_def with_log_def)
  moreover have "log_view (with_log ?n (n_log ?n @ [?e])) = log_view (with_log n (n_log n @ [?e]))"
    using log_view_with_log [OF n(1)] n(7) by simp
  ultimately show ?thesis using e by (intro log_step.appends [where e = ?e]) auto
qed

lemma pick_new_log:
  assumes "node_wf n" "pick_new n (ae_Entries req) = (new, trunc, True)" "new \<noteq> []"
    and "contiguous (ae_PrevLogIndex req) (ae_Entries req)" "ae_PrevLogIndex req \<le> n_lastLogIndex n"
    and "ae_PrevLogIndex req + length (ae_Entries req) + 1 < W64"
  obtains m where "Option.bind (if trunc \<noteq> 0 then truncateLog n trunc else Some n) (\<lambda>n. appendEntries n new) = Some m"
    and "log_view m = log_view (with_log n (take (le_Index (hd new) - n_logBaseIndex n - 1) (n_log n) @ new))"
    and "settled m = settled n"
proof -
  let ?k = "le_Index (hd new) - n_logBaseIndex n - 1"
  note spec = pick_new_spec [OF assms(2,4,5)] assms(3)
  obtain n1 d where n1: "(if trunc \<noteq> 0 then truncateLog n trunc else Some n) = Some n1" "node_wf n1"
    "n_lastLogIndex n1 = le_Index (hd new) - 1" "n_log n1 = take ?k (n_log n)"
    "n1 = n\<lparr>n_log := n_log n1, n_lastLogIndex := n_lastLogIndex n1, n_lastLogTerm := n_lastLogTerm n1, n_durableLogIndex := d\<rparr>"
  proof (cases "trunc = 0")
    case True
    then have "?k = length (n_log n)" using spec assms(1) by (auto simp: wf_defs)
    then show ?thesis using True that [of n "n_durableLogIndex n"] spec assms(1) by auto
  next
    case False
    then show ?thesis using that truncateLog_wf [OF assms(1), of trunc] spec by auto
  qed
  have app: "appendEntries n1 new = Some (with_log n1 (take ?k (n_log n) @ new))"
    using appendEntries_log [OF n1(2), of new] spec assms(6) n1(3,4) by auto
  have "with_log n1 es = (with_log n es)\<lparr>n_durableLogIndex := d\<rparr>" for es
    by (subst n1(5)) (simp add: with_log_def)
  then show thesis using that app n1(1) by simp
qed

lemma log_view_fields:
  assumes "log_view n = log_view m"
  shows "n_log n = n_log m" "n_logBaseIndex n = n_logBaseIndex m" "n_logBaseTerm n = n_logBaseTerm m"
    "n_lastLogIndex n = n_lastLogIndex m" "n_lastLogTerm n = n_lastLogTerm m" "n_commitIndex n = n_commitIndex m"
    "n_durableCommitIndex n = n_durableCommitIndex m" "n_lastApplied n = n_lastApplied m"
  using assms by (simp_all add: log_view_def)

lemma term_at_view: "log_view n = log_view m \<Longrightarrow> term_at n i = term_at m i"
  by (simp add: term_at_def log_view_def)

lemma pick_new_view: "log_view n = log_view m \<Longrightarrow> pick_new n es = pick_new m es"
  by (induction es) (simp_all add: log_view_fields [of n m] term_at_view [of n m])

lemma acceptAppend_log:
  assumes "node_wf n" "settled n" "pick_new n (ae_Entries req) = (new, trunc, True)"
    "contiguous (ae_PrevLogIndex req) (ae_Entries req)" "ae_PrevLogIndex req \<le> n_lastLogIndex n"
    "ae_PrevLogIndex req + length (ae_Entries req) + 1 < W64" "acceptAppend n req new trunc = Some (n', acts)"
  shows "settled n' \<and> list_all plain acts \<and>
    (log_view n' = log_view n
     \<or> new \<noteq> [] \<and> log_view n' = log_view (with_log n (take (le_Index (hd new) - n_logBaseIndex n - 1) (n_log n) @ new))
     \<or> n_commitIndex n < min (ae_LeaderCommit req) (n_lastLogIndex n)
       \<and> log_view n' = log_view (n\<lparr>n_commitIndex := min (ae_LeaderCommit req) (n_lastLogIndex n)\<rparr>))"
proof (cases "new = []")
  case False
  obtain m where m: "Option.bind (if trunc \<noteq> 0 then truncateLog n trunc else Some n) (\<lambda>n. appendEntries n new) = Some m"
    "log_view m = log_view (with_log n (take (le_Index (hd new) - n_logBaseIndex n - 1) (n_log n) @ new))" "settled m = settled n"
    using pick_new_log [OF assms(1,3) False assms(4-6)] by blast
  then have "log_view n' = log_view m \<and> settled n' = settled m \<and> list_all plain acts"
    using assms(7) False by (auto simp: acceptAppend_def case_prod_beta persistLog_def Let_def split: bind_splits if_splits)
  then show ?thesis using m False assms(2) by auto
next
  case True
  let ?after = "appendEntriesResponse n (ae_From req) (ae_RequestID req) True (n_lastLogIndex n) 0 0 (ae_ReadID req)"
  consider "n' = n" "acts = [ResetElectionTimer]"
    | rest where "advanceFollowerCommit n (ae_LeaderCommit req) ?after = Some (n', rest)" "acts = ResetElectionTimer # rest"
    using True assms(7) by (auto simp: acceptAppend_def split: if_splits bind_splits)
  then show ?thesis
  proof cases
    case 2
    then show ?thesis using advanceFollowerCommit_log [OF assms(2) _ 2(1)] by auto
  qed (use assms(2) in simp)
qed

lemma persistIf_same:
  assumes "persistIf b (m, rest) = (n', acts)" "settled m" "list_all plain rest"
  shows "log_view n' = log_view m" "settled n'" "list_all plain acts"
  using assms persistHardState_log(1,2) [of m rest] persistHardState_log(3) [of m rest]
  by (cases b; simp add: persistIf_def)+

lemma handleAppendEntries_log_step:
  assumes "node_wf n" "settled n" "event_ok n (EvAppendEntries req)" "handleAppendEntries n req = Some (n', acts)"
  shows "log_step n (EvAppendEntries req) acts n'"
proof (cases "ae_Term req < n_term n")
  case True
  then have "keeps_log n (handleAppendEntries n req)" by (simp add: handleAppendEntries_def)
  then show ?thesis using assms log_step_keeps by blast
next
  case False
  let ?n = "acceptLeader n (ae_Term req) (ae_From req)"
  have wf: "node_wf ?n" using assms(1) by simp
  then have log: "log_wf ?n" by (rule node_wf_log)
  have ok: "contiguous (ae_PrevLogIndex req) (ae_Entries req)" "ae_PrevLogIndex req + length (ae_Entries req) + 1 < W64"
    using assms(3) by (simp_all add: event_ok_def)
  have view: "log_view ?n = log_view n" and set: "settled ?n" using assms(2) by simp_all
  note fields = log_view_fields [OF view] term_at_view [OF view] pick_new_view [OF view]
  let ?match = "ae_PrevLogIndex req = 0 \<and> ae_PrevLogTerm req = 0
      \<or> ae_PrevLogIndex req \<le> n_lastLogIndex ?n \<and> term_at ?n (ae_PrevLogIndex req) = ae_PrevLogTerm req"
  obtain new trunc ok' where pick: "pick_new ?n (ae_Entries req) = (new, trunc, ok')" by (cases "pick_new ?n (ae_Entries req)")
  have keep: "log_step n (EvAppendEntries req) acts n'"
    if "handleAppendEntries n req = map_option (persistIf (n_term n < ae_Term req)) (rejectAppend ?n req i)" for i
  proof -
    have "keeps_log ?n (rejectAppend ?n req i)" by (intro keeps_core_log rejectAppend_core)
    then have "keeps_log n (rejectAppend ?n req i)" by (rule keeps_log_trans) (simp add: view)
    then show ?thesis using that assms log_step_keeps [OF persistIf_log] by metis
  qed
  show ?thesis
  proof (cases ?match)
    case False
    then have "handleAppendEntries n req
      = map_option (persistIf (n_term n < ae_Term req)) (rejectAppend ?n req (ae_PrevLogIndex req))"
      using \<open>\<not> ae_Term req < n_term n\<close> by (simp add: handleAppendEntries_def Let_def matches_total [OF log])
    then show ?thesis by (rule keep)
  next
    case True
    then have prev: "ae_PrevLogIndex req \<le> n_lastLogIndex ?n" by auto
    have entries: "entriesToAppend ?n (ae_PrevLogIndex req) (ae_Entries req) = Some (new, trunc, ok')"
      using entriesToAppendFrom_total [OF log, of "ae_PrevLogIndex req" 0] ok prev pick by (simp add: entriesToAppend_def)
    show ?thesis
    proof (cases ok')
      case False
      then have "handleAppendEntries n req
        = map_option (persistIf (n_term n < ae_Term req)) (rejectAppend ?n req (add64 (ae_PrevLogIndex req) 1))"
        using \<open>\<not> ae_Term req < n_term n\<close> True entries by (simp add: handleAppendEntries_def Let_def matches_total [OF log])
      then show ?thesis by (rule keep)
    next
      case accepted: True
      obtain m rest where m: "acceptAppend ?n req new trunc = Some (m, rest)"
        and n': "persistIf (n_term n < ae_Term req) (m, rest) = (n', acts)"
        using assms(4) False True entries accepted
        by (auto simp: handleAppendEntries_def Let_def matches_total [OF log])
      have "pick_new ?n (ae_Entries req) = (new, trunc, True)" using pick accepted by simp
      note acc = acceptAppend_log [OF wf set this ok(1) prev ok(2) m]
      then have same: "log_view n' = log_view m" "settled n'" "list_all plain acts"
        using persistIf_same [OF n'] by blast+
      consider "log_view n' = log_view n"
        | "new \<noteq> []" "log_view n' = log_view (with_log n (take (le_Index (hd new) - n_logBaseIndex n - 1) (n_log n) @ new))"
        | "n_commitIndex n < min (ae_LeaderCommit req) (n_lastLogIndex n)"
          "log_view n' = log_view (n\<lparr>n_commitIndex := min (ae_LeaderCommit req) (n_lastLogIndex n)\<rparr>)"
        using acc same(1) log_view_with_log [OF view] unfolding fields by (auto simp: log_view_def fields)
      then show ?thesis
      proof cases
        case 1
        then show ?thesis using same by (intro log_step.keeps)
      next
        case 2
        then show ?thesis using same pick accepted True False prev unfolding fields
          by (intro log_step.follows) auto
      next
        case 3
        then show ?thesis using same False
          by (intro log_step.commits [where c = "min (ae_LeaderCommit req) (n_lastLogIndex n)"])
            (auto simp: commit_reason_def)
      qed
    qed
  qed
qed

lemma handleAppendEntriesResponse_log_step:
  assumes "node_wf n" "settled n" "handleAppendEntriesResponse n res = Some (n', acts)"
  shows "log_step n (EvAppendEntriesResponse res) acts n'"
proof -
  let ?pending = "lookup_default zeroAppend (n_appendInFlight n) (aer_From res)"
  consider (keep) "keeps_log n (handleAppendEntriesResponse n res)" 
    | (handle) "n_role n = Leader" "aer_Term res = n_term n"
      "\<not> (pa_requestID ?pending \<noteq> 0 \<and> aer_RequestID res \<noteq> 0 \<and> aer_RequestID res \<noteq> pa_requestID ?pending)"
    by (cases "aer_Term res > n_term n"; cases "n_role n \<noteq> Leader \<or> aer_Term res \<noteq> n_term n";
      cases "pa_requestID ?pending \<noteq> 0 \<and> aer_RequestID res \<noteq> 0 \<and> aer_RequestID res \<noteq> pa_requestID ?pending")
      (auto simp: handleAppendEntriesResponse_def Let_def keeps_log_Some)
  then show ?thesis
  proof cases
    case keep
    then show ?thesis using assms log_step_keeps by blast
  next
    case handle
    obtain m where m: "recordProgress n res = Some m" "node_wf m" using recordProgress_total [OF assms(1)] by blast
    then have core: "core m = core n" using recordProgress_core by blast
    then have mview: "log_view m = log_view n" "settled m" using log_view_core settled_core assms(2) by blast+
    obtain found where found: "commitCandidate m (n_lastLogIndex m) = Some found"
      "\<And>c. found = Some c \<Longrightarrow> n_commitIndex m < c \<and> c \<le> n_lastLogIndex m \<and> term_at m c = n_term m \<and> quorum m \<le> replicatedCount m c"
      using commitCandidate_total [OF node_wf_log [OF m(2)]] by metis
    let ?more = "if found \<noteq> None
      then Option.bind (sendAppendEntries (m\<lparr>n_commitIndex := the found\<rparr>) 0) (\<lambda>(n, sends). Some (persistCommit n sends))
      else if \<not> aer_Success res \<or> lookup_default 0 (n_nextIndex m) (aer_From res) \<le> min (n_durableLogIndex m) (n_lastLogIndex m)
              \<or> pendingReadFor m (aer_From res) \<noteq> 0 \<or> pa_leaderCommit ?pending < n_commitIndex m
           then sendAppendEntriesTo m (aer_From res) (pendingReadFor m (aer_From res)) else Some (m, [])"
    have "handleAppendEntriesResponse n res = Option.bind ?more
        (\<lambda>(n, actions). Some (fst (acknowledgeRead n res), actions @ snd (acknowledgeRead n res)))"
      using handle m(1) found(1)
      by (cases found) (auto simp: handleAppendEntriesResponse_def Let_def advanceLeaderCommit_def case_prod_unfold)
    then obtain a sends where a: "?more = Some (a, sends)" "n' = fst (acknowledgeRead a res)" "acts = sends @ snd (acknowledgeRead a res)"
      using assms(3) by (auto split: bind_splits)
    have ack: "log_view n' = log_view a" "settled n' = settled a" "list_all plain (snd (acknowledgeRead a res))"
      using a(2) by (auto intro!: log_view_core settled_core)
    show ?thesis
    proof (cases found)
      case None
      then have "keeps_log m (Some (a, sends))"
        using a(1) keeps_core_log [OF sendAppendEntriesTo_core [of m "aer_From res" "pendingReadFor m (aer_From res)"]]
        by (simp split: if_splits)
      then show ?thesis using mview ack a(3) by (intro log_step.keeps) auto
    next
      case (Some c)
      let ?m = "m\<lparr>n_commitIndex := c\<rparr>"
      obtain b bs where b: "sendAppendEntries ?m 0 = Some (b, bs)" "persistCommit b bs = (a, sends)"
        using a(1) Some by (auto split: bind_splits)
      have "keeps_log ?m (Some (b, bs))" using keeps_core_log [OF sendAppendEntries_core [of ?m 0]] b(1) by simp
      then have bv: "log_view b = log_view ?m" "settled b" "list_all plain bs" using mview(2) by simp_all
      then have av: "log_view a = log_view b" "settled a" "list_all plain sends"
        using b(2) persistCommit_log(1,2) [of b bs] persistCommit_log(3) [of b bs] by simp_all
      have "log_view n' = log_view (n\<lparr>n_commitIndex := c\<rparr>)"
        using ack(1) av(1) bv(1) mview(1) by (simp add: log_view_def)
      moreover have "commit_reason n (EvAppendEntriesResponse res) c"
        using handle m(1) found(2) [OF Some] core_fields [OF core] term_at_view [OF mview(1)]
        by (auto simp: commit_reason_def quorum_def)
      ultimately show ?thesis using found(2) [OF Some] ack av a(3) log_view_fields [OF mview(1)]
        by (intro log_step.commits [where c = c]) auto
    qed
  qed
qed

lemma logEntriesPersisted_log_step:
  assumes "node_wf n" "settled n" "logEntriesPersisted n i = Some (n', acts)"
  shows "log_step n (LogEntriesPersisted i) acts n'"
proof (cases "n_pendingLog n i")
  case (Some p)
  let ?n = "n\<lparr>n_pendingLog := (n_pendingLog n)(i := None), n_durableLogIndex := max (n_durableLogIndex n) (pl_lastIndex p)\<rparr>"
  have view: "log_view ?n = log_view n" and set: "settled ?n" using assms(2) by simp_all
  let ?after = "appendEntriesResponse ?n (pl_leader p) (pl_requestID p) True (pl_lastIndex p) 0 0 (pl_readID p)"
  consider (keep) "keeps_log ?n (logEntriesPersisted n i)"
    | (advance) "advanceFollowerCommit ?n (pl_leaderCommit p) ?after = Some (n', acts)"
    using assms(3) Some keeps_core_log [OF sendAppendEntries_core [of ?n 0]]
    by (auto simp: logEntriesPersisted_def Let_def split: logPersistencePurpose.splits if_splits)
  then show ?thesis
  proof cases
    case keep
    then have "keeps_log n (logEntriesPersisted n i)" by (rule keeps_log_trans) (simp add: view)
    then show ?thesis using assms log_step_keeps by blast
  next
    case advance
    note adv = advanceFollowerCommit_log [OF set response_plain(1) advance]
    show ?thesis
    proof (cases "log_view n' = log_view n")
      case True
      then show ?thesis using adv by (intro log_step.keeps) auto
    next
      case False
      then have "n_commitIndex n < min (pl_leaderCommit p) (n_lastLogIndex n)"
        "log_view n' = log_view (n\<lparr>n_commitIndex := min (pl_leaderCommit p) (n_lastLogIndex n)\<rparr>)"
        using adv view by (auto simp: log_view_def)
      then show ?thesis using adv Some
        by (intro log_step.commits [where c = "min (pl_leaderCommit p) (n_lastLogIndex n)"]) (auto simp: commit_reason_def)
    qed
  qed
next
  case None
  then show ?thesis using assms by (auto simp: logEntriesPersisted_def intro: log_step.keeps)
qed

lemma applied_plain: "list_all plain acts \<Longrightarrow> applied acts = []"
  by (induction acts rule: applied.induct) auto

lemma commitIndexPersisted_log_step:
  assumes "node_wf n" "settled n" "commitIndexPersisted n i = Some (n', acts)"
  shows "log_step n (CommitIndexPersisted i) acts n'"
proof (cases "n_pendingCommit n i")
  case (Some p)
  let ?c = "max (n_durableCommitIndex n) (pc_commitIndex p)"
  let ?n = "n\<lparr>n_pendingCommit := (n_pendingCommit n)(i := None), n_durableCommitIndex := ?c\<rparr>"
  have pend: "pc_commitIndex p \<le> n_commitIndex n" using assms(1) Some by (auto simp: wf_defs)
  then have le: "pc_commitIndex p \<le> n_lastLogIndex ?n" using assms(1) by (simp add: wf_defs)
  have wf: "node_wf ?n" using assms(1) pend by (auto simp: wf_defs max_def)
  have eq: "n_lastApplied n = n_durableCommitIndex n" and after: "list_all plain (pc_after p)"
    and plain: "after_plain ?n"
    using assms(2) Some by (auto simp: settled_def after_plain_def ran_def)
  obtain rr R bs where ap: "applyThrough ?n (pc_commitIndex p) =
      Some (?n\<lparr>n_lastApplied := max (n_lastApplied ?n) (pc_commitIndex p), n_readReady := rr, n_pendingReads := R\<rparr>, bs)"
    "applied bs = take (pc_commitIndex p - n_lastApplied n) (drop (n_lastApplied n - n_logBaseIndex n) (n_log n))"
    "set bs \<subseteq> range ApplyEntry \<union> {BecameReadReady (n_term n)} \<union> {ReadConfirmed i c | i c. True}"
    using applyThrough_total [of ?n "pc_commitIndex p"] wf le by (auto simp: node_wf_def commit_wf_def)
  have n': "n' = ?n\<lparr>n_lastApplied := max (n_lastApplied n) (pc_commitIndex p), n_readReady := rr, n_pendingReads := R\<rparr>"
    "acts = bs @ pc_after p"
    using assms(3) Some ap(1) by (simp_all add: commitIndexPersisted_def Let_def)
  have "applied (pc_after p) = []" by (rule applied_plain [OF after])
  moreover have "RestoreSnapshot k t \<notin> set acts" for k t using n'(2) ap(3) after by (auto simp: list_all_iff)
  moreover have "max (n_lastApplied n) (pc_commitIndex p) - n_lastApplied n = pc_commitIndex p - n_lastApplied n" by simp
  ultimately show ?thesis using Some n' ap(2) eq plain
    by (intro log_step.applies [OF Some refl]) (auto simp: log_view_def settled_def)
next
  case None
  then show ?thesis using assms by (auto simp: commitIndexPersisted_def intro: log_step.keeps)
qed

lemma compactLog_log_step:
  assumes "node_wf n" "settled n" "compactLog n index t = Some n'"
  shows "log_step n (SnapshotCompacted index t) [] n'"
proof (cases "index \<le> n_logBaseIndex n \<or> n_lastApplied n < index \<or> term_at n index \<noteq> t")
  case True
  then have "n' = n" using assms by (auto simp: compactLog_def split: if_splits)
  then show ?thesis using assms(2) by (auto intro: log_step.keeps)
next
  case False
  have "index - n_logBaseIndex n \<le> length (n_log n)" using False assms(1) by (auto simp: wf_defs)
  then have "n' = n\<lparr>n_log := drop (index - n_logBaseIndex n) (n_log n), n_logBaseIndex := index, n_logBaseTerm := t\<rparr>"
    using False assms(1,3) by (simp add: compactLog_def)
  then show ?thesis using False assms(2) by (intro log_step.compacts) auto
qed

lemma snapshotPersisted_settled:
  assumes "settled n" "n_pendingSnapshot n i = Some p" "n_durableCommitIndex n \<le> is_SnapshotIndex (psn_request p)"
    "snapshotPersisted n i = (n', acts)"
  shows "settled n' \<and> n_lastApplied n' = is_SnapshotIndex (psn_request p)
    \<and> acts = RestoreSnapshot (is_SnapshotIndex (psn_request p)) (is_SnapshotTerm (psn_request p))
        # snapshotResponse n' (psn_request p) (is_Success (psn_request p)) (is_NextOffset (psn_request p)) True"
  using assms
  by (cases "psn_retainSuffix p"; cases "dropWhile (\<lambda>e. le_Index e \<le> is_SnapshotIndex (psn_request p)) (n_log n) = []")
    (auto simp: snapshotPersisted_def Let_def settled_def after_plain_def max_def simp del: dropWhile_eq_Nil_conv)

text \<open>
  A Snapshot may be installed when it fits the log and does not lie behind what has been applied.
\<close>

definition log_event_ok :: "Node \<Rightarrow> Event \<Rightarrow> bool" where
  "log_event_ok n ev \<longleftrightarrow> event_ok n ev \<and> (\<forall>i p. ev = SnapshotPersisted i \<longrightarrow> n_pendingSnapshot n i = Some p
     \<longrightarrow> n_durableCommitIndex n \<le> is_SnapshotIndex (psn_request p))"

lemma Step_log:
  assumes "node_wf n" "settled n" "log_event_ok n ev" "Step n ev = Some (n', acts)"
  shows "log_step n ev acts n'"
proof -
  have ok: "event_ok n ev" using assms(3) by (simp add: log_event_ok_def)
  note keeps = log_step_keeps [OF _ assms(2)]
  show ?thesis
  proof (cases ev)
    case ElectionTimeout
    then show ?thesis using assms(4) keeps [OF startPreVote_log] by simp
  next
    case HeartbeatTimeout
    then show ?thesis using assms(4) keeps [OF keeps_core_log [OF heartbeatRound_core]] by simp
  next
    case CheckQuorumTimeout
    then show ?thesis using assms(4) keeps [OF checkQuorum_log] by simp
  next
    case (HardStatePersisted i)
    then show ?thesis using assms(4) keeps [OF hardStatePersisted_log] by simp
  next
    case (LogEntriesPersisted i)
    then show ?thesis using assms logEntriesPersisted_log_step by simp
  next
    case (CommitIndexPersisted i)
    then show ?thesis using assms commitIndexPersisted_log_step by simp
  next
    case (SnapshotPersisted i)
    show ?thesis
    proof (cases "n_pendingSnapshot n i")
      case None
      then show ?thesis using SnapshotPersisted assms by (auto simp: snapshotPersisted_def intro: log_step.keeps)
    next
      case (Some p)
      have snap: "snapshotPersisted n i = (n', acts)" using assms(4) SnapshotPersisted by simp
      have "n_durableCommitIndex n \<le> is_SnapshotIndex (psn_request p)"
        using assms(3) SnapshotPersisted Some by (auto simp: log_event_ok_def)
      then have "settled n'" using snapshotPersisted_settled [OF assms(2) Some _ snap] by blast
      then show ?thesis using SnapshotPersisted log_step.installs [OF Some snap] by simp
    qed
  next
    case RecoverCommitted
    then show ?thesis using assms(4) keeps [OF settled_applyThrough] by simp
  next
    case (SnapshotCompacted i t)
    then show ?thesis using assms compactLog_log_step by auto
  next
    case (EvProposeSession p)
    then show ?thesis using assms ok propose_step(1) by (simp add: event_ok_def)
  next
    case (EvProposeSet p)
    then show ?thesis using assms ok propose_step(2) by (simp add: event_ok_def)
  next
    case (EvProposeDelete p)
    then show ?thesis using assms ok propose_step(3) by (simp add: event_ok_def)
  next
    case (ConfirmRead i)
    then show ?thesis using assms(4) keeps [OF keeps_core_log [OF confirmRead_core]] by simp
  next
    case (EvPreVoteRequest m)
    then show ?thesis using assms(4) keeps [OF keeps_core_log [OF handlePreVoteRequest_core]] by simp
  next
    case (EvPreVoteResponse m)
    then show ?thesis using assms(4) keeps [OF handlePreVoteResponse_log] by simp
  next
    case (EvVoteRequest m)
    then show ?thesis using assms(4) keeps [OF handleVoteRequest_log] by simp
  next
    case (EvVoteResponse m)
    then show ?thesis using assms ok handleVoteResponse_log_step by (simp add: event_ok_def)
  next
    case (EvAppendEntries m)
    then show ?thesis using assms ok handleAppendEntries_log_step by simp
  next
    case (EvAppendEntriesResponse m)
    then show ?thesis using assms handleAppendEntriesResponse_log_step by simp
  next
    case (AppendEntriesFailed to i)
    then show ?thesis using assms(4) keeps [OF keeps_core_log, of "Some (handleAppendEntriesFailed n to i, [])"] by auto
  next
    case (EvInstallSnapshot m)
    then show ?thesis using assms(4) keeps [OF handleInstallSnapshot_log] by simp
  next
    case (EvInstallSnapshotResponse m)
    then show ?thesis using assms(4) keeps [OF handleInstallSnapshotResponse_log] by simp
  qed
qed

lemma log_step_settled: "log_step n ev acts n' \<Longrightarrow> settled n'"
  by (cases rule: log_step.cases) auto

section \<open>Committed entries stay\<close>

definition keeps_committed :: "Node \<Rightarrow> Node \<Rightarrow> bool" where
  "keeps_committed n n' \<longleftrightarrow> n_commitIndex n \<le> n_commitIndex n' \<and> n_logBaseIndex n \<le> n_logBaseIndex n'
     \<and> (\<forall>i. n_logBaseIndex n' < i \<and> i \<le> n_commitIndex n \<longrightarrow> entry_at n' i = entry_at n i)"

lemma keeps_committed_refl [simp]: "keeps_committed n n"
  by (simp add: keeps_committed_def)

lemma keeps_committed_trans: "keeps_committed a b \<Longrightarrow> keeps_committed b c \<Longrightarrow> keeps_committed a c"
  by (auto simp: keeps_committed_def)

lemma keeps_committed_view: "log_view n' = log_view m \<Longrightarrow> keeps_committed n m \<Longrightarrow> keeps_committed n n'"
  by (simp add: keeps_committed_def log_view_def entry_at_def)

lemma keeps_committed_prefix:
  assumes "node_wf n" "take (n_commitIndex n - n_logBaseIndex n) es = take (n_commitIndex n - n_logBaseIndex n) (n_log n)"
    "n_commitIndex n \<le> n_logBaseIndex n + length es"
  shows "keeps_committed n (with_log n es)"
proof -
  have "es ! (i - n_logBaseIndex n - 1) = n_log n ! (i - n_logBaseIndex n - 1)"
    if i: "n_logBaseIndex n < i" "i \<le> n_commitIndex n" for i
  proof -
    have "i - n_logBaseIndex n - 1 < n_commitIndex n - n_logBaseIndex n" using i by simp
    then show ?thesis using assms(2) by (metis nth_take)
  qed
  then show ?thesis by (simp add: keeps_committed_def with_log_def entry_at_def)
qed

lemma keeps_committed_drop:
  assumes "node_wf n" "n_logBaseIndex n \<le> b" "b \<le> n_lastLogIndex n"
    "n_log n' = drop (b - n_logBaseIndex n) (n_log n)" "n_logBaseIndex n' = b" "n_commitIndex n \<le> n_commitIndex n'"
  shows "keeps_committed n n'"
proof -
  have "n_log n ! (b - n_logBaseIndex n + (i - b - 1)) = n_log n ! (i - n_logBaseIndex n - 1)" if "b < i" for i
    using that assms(2) by (auto intro: arg_cong [of _ _ "(!) (n_log n)"])
  moreover have "b - n_logBaseIndex n \<le> length (n_log n)" using assms by (auto simp: wf_defs)
  ultimately show ?thesis using assms by (simp add: keeps_committed_def entry_at_def)
qed

lemma log_step_keeps_committed:
  assumes "log_step n ev acts n'" "node_wf n" "log_event_ok n ev"
  shows "keeps_committed n n'"
  using assms
proof cases
  case keeps
  then show ?thesis using keeps_committed_view by auto
next
  case (appends e)
  have "keeps_committed n (with_log n (n_log n @ [e]))"
    using assms(2) by (intro keeps_committed_prefix) (auto simp: wf_defs)
  then show ?thesis using appends keeps_committed_view by blast
next
  case (follows req new trunc)
  have "contiguous (ae_PrevLogIndex req) (ae_Entries req)" using assms(3) follows by (simp add: log_event_ok_def event_ok_def)
  then have "n_commitIndex n < le_Index (hd new)"
    using pick_new_spec [OF follows(5) _ follows(3)] follows(6) assms(2) by (auto simp: wf_defs)
  then have "keeps_committed n (with_log n (take (le_Index (hd new) - n_logBaseIndex n - 1) (n_log n) @ new))"
    using assms(2) by (intro keeps_committed_prefix) (auto simp: wf_defs min_def)
  then show ?thesis using follows keeps_committed_view by blast
next
  case (commits c)
  have "keeps_committed n (n\<lparr>n_commitIndex := c\<rparr>)" using commits by (simp add: keeps_committed_def entry_at_def)
  then show ?thesis using commits keeps_committed_view by blast
next
  case (applies i p c)
  have "keeps_committed n (n\<lparr>n_durableCommitIndex := c, n_lastApplied := c\<rparr>)" by (simp add: keeps_committed_def entry_at_def)
  then show ?thesis using applies keeps_committed_view by blast
next
  case (compacts index t)
  then show ?thesis using assms(2)
    by (intro keeps_committed_drop [where b = index]) (auto simp: log_view_def wf_defs)
next
  case (installs i p)
  let ?idx = "is_SnapshotIndex (psn_request p)"
  have fits: "snapshot_fits n p" using assms(3) installs by (auto simp: log_event_ok_def event_ok_def)
  show ?thesis
  proof (cases "psn_retainSuffix p")
    case True
    have "n_log n' = drop (?idx - n_logBaseIndex n) (n_log n)" "n_logBaseIndex n' = ?idx" "n_commitIndex n \<le> n_commitIndex n'"
      using installs True contiguous_dropWhile [of "n_logBaseIndex n" "n_log n" ?idx] assms(2)
      by (auto simp: snapshotPersisted_def Let_def wf_defs split: if_splits)
    then show ?thesis using fits True assms(2)
      by (intro keeps_committed_drop [where b = ?idx]) (auto simp: snapshot_fits_def Let_def wf_defs)
  next
    case False
    have "n_logBaseIndex n' = ?idx" "n_commitIndex n' = max (n_commitIndex n) ?idx"
      using installs False by (auto simp: snapshotPersisted_def Let_def)
    then show ?thesis using fits False assms(2) by (auto simp: snapshot_fits_def Let_def keeps_committed_def wf_defs)
  qed
qed

section \<open>The state machine is driven in order\<close>

text \<open>
  The index of the state machine that consumes a list of actions: an entry must be the next one, and a
  Snapshot may skip entries but not go back.
\<close>

fun position :: "u64 \<Rightarrow> Action list \<Rightarrow> u64 option" where
  "position p [] = Some p"
| "position p (ApplyEntry e # acts) = (if le_Index e = p + 1 then position (p + 1) acts else None)"
| "position p (RestoreSnapshot i t # acts) = (if p \<le> i then position i acts else None)"
| "position p (a # acts) = position p acts"

lemma position_append: "position p (as @ bs) = Option.bind (position p as) (\<lambda>q. position q bs)"
  by (induction p as rule: position.induct) auto

lemma position_plain: "list_all plain acts \<Longrightarrow> position p acts = Some p"
  by (induction p acts rule: position.induct) auto

lemma position_applied:
  "(\<And>i t. RestoreSnapshot i t \<notin> set acts) \<Longrightarrow> contiguous p (applied acts)
    \<Longrightarrow> position p acts = Some (p + length (applied acts))"
  by (induction p acts rule: position.induct) force+

lemma position_mono: "position p acts = Some q \<Longrightarrow> p \<le> q"
  by (induction p acts rule: position.induct) (auto split: if_splits)

lemma position_increasing:
  "position p acts = Some q \<Longrightarrow> sorted_wrt (<) (map le_Index (applied acts)) \<and> (\<forall>e \<in> set (applied acts). p < le_Index e \<and> le_Index e \<le> q)"
proof (induction p acts rule: position.induct)
  case (2 p e acts)
  then show ?case using position_mono [of "p + 1" acts q] by (auto split: if_splits)
next
  case (3 p i t acts)
  then show ?case by (auto split: if_splits dest: less_le_trans le_less_trans)
qed auto

lemma position_every:
  "position p acts = Some q \<Longrightarrow> (\<And>i t. RestoreSnapshot i t \<notin> set acts) \<Longrightarrow> map le_Index (applied acts) = [Suc p..<Suc q]"
proof (induction p acts rule: position.induct)
  case (2 p e acts)
  then have "le_Index e = p + 1" "position (p + 1) acts = Some q" by (auto split: if_splits)
  moreover have "p < q" using position_mono [OF \<open>position (p + 1) acts = Some q\<close>] by simp
  ultimately show ?case using 2 by (auto simp: upt_conv_Cons)
qed auto

lemma applied_map: "applied (map ApplyEntry es) = es"
  by (induction es) auto

lemma applied_set: "set (applied acts) = {e. ApplyEntry e \<in> set acts}"
  by (induction acts rule: applied.induct) auto

lemma committed_suffix_contiguous:
  assumes "node_wf n"
  shows "contiguous (n_lastApplied n) (take k (drop (n_lastApplied n - n_logBaseIndex n) (n_log n)))"
proof -
  have "contiguous (n_logBaseIndex n + (n_lastApplied n - n_logBaseIndex n)) (drop (n_lastApplied n - n_logBaseIndex n) (n_log n))"
    using assms by (intro contiguous_drop) (auto simp: wf_defs)
  then show ?thesis using assms by (auto simp: wf_defs)
qed

lemma log_step_position:
  assumes "log_step n ev acts n'" "node_wf n" "settled n" "log_event_ok n ev"
  shows "position (n_lastApplied n) acts = Some (n_lastApplied n')"
  using assms
proof cases
  case (applies i p c)
  have "contiguous (n_lastApplied n) (applied acts)"
    unfolding applies(5) by (rule committed_suffix_contiguous [OF assms(2)])
  moreover have "pc_commitIndex p \<le> n_commitIndex n" using applies(2) assms(2) by (auto simp: wf_defs)
  then have "c \<le> n_lastLogIndex n" using applies(3) assms(2) by (auto simp: wf_defs)
  then have "length (applied acts) = c - n_lastApplied n"
    unfolding applies(5) using assms(2) by (auto simp: wf_defs)
  moreover have "n_lastApplied n' = c" using applies by (simp add: log_view_def)
  moreover have "n_lastApplied n \<le> c" using applies by simp
  ultimately show ?thesis using position_applied [of acts "n_lastApplied n"] applies(6) by simp
next
  case (installs i p)
  have "n_durableCommitIndex n \<le> is_SnapshotIndex (psn_request p)"
    using assms(4) installs by (auto simp: log_event_ok_def)
  moreover have "n_lastApplied n = n_durableCommitIndex n" using assms(3) by (simp add: settled_def)
  ultimately show ?thesis using snapshotPersisted_settled [OF assms(3) installs(2) _ installs(3)] position_plain by simp
qed (auto simp: log_view_def with_log_def position_plain)

text \<open>
  Events that come in the ranges of \<open>event_ok\<close>, and events of which none installs a Snapshot behind the
  durable commit index. The core does not exclude such a Snapshot when it can keep the entries after it
  (\<open>handleInstallSnapshot\<close>); \<open>stale_snapshot\<close> below says what happens then.
\<close>

fun events_ok :: "Node \<Rightarrow> Event list \<Rightarrow> bool" where
  "events_ok n [] = True"
| "events_ok n (ev # evs) = (event_ok n ev \<and> (case Step n ev of None \<Rightarrow> True | Some (n', acts) \<Rightarrow> events_ok n' evs))"

definition installs_forward :: "Node \<Rightarrow> Event \<Rightarrow> bool" where
  "installs_forward n ev \<longleftrightarrow> (\<forall>i p. ev = SnapshotPersisted i \<longrightarrow> n_pendingSnapshot n i = Some p
     \<longrightarrow> n_durableCommitIndex n \<le> is_SnapshotIndex (psn_request p))"

fun forward :: "Node \<Rightarrow> Event list \<Rightarrow> bool" where
  "forward n [] = True"
| "forward n (ev # evs) = (installs_forward n ev \<and> (case Step n ev of None \<Rightarrow> True | Some (n', acts) \<Rightarrow> forward n' evs))"

lemma Run_returns:
  assumes "node_wf n" "events_ok n events"
  shows "\<exists>n' acts. Run n events = Some (n', acts) \<and> node_wf n'"
  using assms
proof (induction events arbitrary: n)
  case (Cons ev events)
  then obtain m as where m: "Step n ev = Some (m, as)" "node_wf m"
    using Step_settles [OF Cons.prems(1), of ev] by (auto simp: settles_def)
  then obtain n' bs where "Run m events = Some (n', bs)" "node_wf n'" using Cons.IH [OF m(2)] Cons.prems(2) by auto
  then show ?case using m(1) by simp
qed simp

lemma Run_in_order:
  assumes "node_wf n" "settled n" "events_ok n events" "forward n events" "Run n events = Some (n', acts)"
  shows "keeps_committed n n' \<and> position (n_lastApplied n) acts = Some (n_lastApplied n')"
  using assms
proof (induction events arbitrary: n acts)
  case (Cons ev events)
  have ok: "log_event_ok n ev" using Cons.prems(3,4) by (auto simp: log_event_ok_def installs_forward_def)
  obtain m as bs where m: "Step n ev = Some (m, as)" "Run m events = Some (n', bs)" "acts = as @ bs"
    using Cons.prems(5) by (auto split: bind_splits)
  have wf: "node_wf m" using Step_settles [OF Cons.prems(1), of ev] Cons.prems(3) m(1) by (auto simp: settles_def)
  note step = Step_log [OF Cons.prems(1,2) ok m(1)]
  have n': "keeps_committed m n'" "position (n_lastApplied m) bs = Some (n_lastApplied n')"
    using Cons.IH [OF wf log_step_settled [OF step] _ _ m(2)] Cons.prems(3,4) m(1) by auto
  have "keeps_committed n n'"
    using log_step_keeps_committed [OF step Cons.prems(1) ok] n'(1) keeps_committed_trans by blast
  moreover have "position (n_lastApplied n) acts = Some (n_lastApplied n')"
    using log_step_position [OF step Cons.prems(1,2) ok] n'(2) m(3) by (simp add: position_append)
  ultimately show ?case by blast
qed simp

text \<open>
  A Snapshot that lies behind the durable commit index and is followed by entries that the log keeps takes
  the state machine back: the node restores it and forgets what it had applied after it. The next request
  of the Leader that brings nothing new makes it apply the entries up to the durable commit index again,
  after which the state machine is where it was.
\<close>

lemma stale_snapshot:
  assumes "node_wf n" "n_pendingSnapshot n i = Some p" "snapshot_fits n p" "is_SnapshotIndex (psn_request p) < n_durableCommitIndex n"
    and "psn_retainSuffix p" "snapshotPersisted n i = (n', acts)"
  shows "hd acts = RestoreSnapshot (is_SnapshotIndex (psn_request p)) (is_SnapshotTerm (psn_request p))
    \<and> n_lastApplied n' = is_SnapshotIndex (psn_request p) \<and> n_durableCommitIndex n' = n_durableCommitIndex n
    \<and> (\<exists>m again. applyThrough n' (n_durableCommitIndex n') = Some (m, again) \<and> n_lastApplied m = n_durableCommitIndex n
         \<and> applied again = map (entry_at n) [Suc (is_SnapshotIndex (psn_request p))..<Suc (n_durableCommitIndex n)])"
proof -
  let ?i = "is_SnapshotIndex (psn_request p)" and ?c = "n_durableCommitIndex n"
  have eqs: "n_log n' = drop (?i - n_logBaseIndex n) (n_log n)" "n_logBaseIndex n' = ?i" "n_lastApplied n' = ?i" "n_durableCommitIndex n' = ?c"
    "hd acts = RestoreSnapshot ?i (is_SnapshotTerm (psn_request p))"
    using assms(2,4-6) contiguous_dropWhile [of "n_logBaseIndex n" "n_log n" ?i] assms(1)
    by (auto simp: snapshotPersisted_def Let_def wf_defs split: if_splits)
  have wf: "node_wf n'" using snapshotPersisted_wf [OF assms(1), of i] assms(2,3,6) by auto
  then obtain rr R again where again: "applyThrough n' ?c = Some (n'\<lparr>n_lastApplied := max ?i ?c, n_readReady := rr, n_pendingReads := R\<rparr>, again)"
    "applied again = take (?c - ?i) (n_log n')"
    using applyThrough_total [OF node_wf_log [OF wf], of ?c] eqs by (auto simp: wf_defs)
  have le: "n_logBaseIndex n \<le> ?i" "?c \<le> n_logBaseIndex n + length (n_log n)"
    using assms(1,3,5) by (auto simp: snapshot_fits_def Let_def wf_defs)
  have "applied again = map (entry_at n) [Suc ?i..<Suc ?c]"
    unfolding again(2) eqs(1) by (rule nth_equalityI) (use le in \<open>auto simp: entry_at_def simp del: upt_Suc\<close>)
  then show ?thesis using again(1) eqs assms(4) by (intro conjI exI [of _ "n'\<lparr>n_lastApplied := max ?i ?c, n_readReady := rr, n_pendingReads := R\<rparr>"] exI [of _ again]) auto
qed

section \<open>Recovery\<close>

definition recovered_ok :: "RecoveredState \<Rightarrow> bool" where
  "recovered_ok r \<longleftrightarrow> (let r = trimRecovered r in contiguous (rs_SnapshotIndex r) (rs_Log r)
     \<and> rs_SnapshotIndex r \<le> rs_CommitIndex r \<and> rs_CommitIndex r \<le> rs_SnapshotIndex r + length (rs_Log r)
     \<and> rs_SnapshotIndex r + length (rs_Log r) + 1 < W64)"

lemma trimRecovered_fields [simp]:
  "rs_CommitIndex (trimRecovered r) = rs_CommitIndex r" "rs_SnapshotIndex (trimRecovered r) = rs_SnapshotIndex r"
  by (simp_all add: trimRecovered_def)

lemma recovered_node_wf:
  assumes "recovered_ok r"
  shows "node_wf (NewNodeFromRecoveredState i ps r)"
proof -
  let ?r = "trimRecovered r"
  have "le_Index (last (rs_Log ?r)) = rs_SnapshotIndex ?r + length (rs_Log ?r)" if "rs_Log ?r \<noteq> []"
    using contiguous_last [OF _ that] assms by (simp add: recovered_ok_def Let_def)
  then show ?thesis using assms
    by (auto simp: NewNodeFromRecoveredState_def Let_def wf_defs recovered_ok_def)
qed

lemma applyLoop_follower:
  "applyLoop k n = Some (n', acts) \<Longrightarrow> n_role n \<noteq> Leader \<Longrightarrow> acts = map ApplyEntry (applied acts)"
proof (induction k arbitrary: n acts)
  case (Suc k)
  then obtain m as bs where m: "applyNext n = Some (m, as)" "applyLoop k m = Some (n', bs)" "acts = as @ bs"
    by (auto split: bind_splits)
  have "as = map ApplyEntry (applied as)" "n_role m = n_role n"
    using m(1) Suc.prems(2) by (auto simp: applyNext_def Let_def split: bind_splits)
  then show ?case using Suc.IH [OF m(2)] Suc.prems(2) m(3) by auto
qed simp

lemma completeReads_none: "n_pendingReads n = fmempty \<Longrightarrow> completeReads n = (n, [])"
proof -
  assume none: "n_pendingReads n = fmempty"
  have "n\<lparr>n_pendingReads := fmempty\<rparr> = n\<lparr>n_pendingReads := n_pendingReads n\<rparr>" by (simp only: none)
  also have "\<dots> = n" by simp
  finally have same: "n\<lparr>n_pendingReads := fmempty\<rparr> = n" .
  have "completeReads n = (n\<lparr>n_pendingReads := fmempty\<rparr>, [])" unfolding completeReads_eq none fmfilter_empty
    by (simp add: sorted_list_of_fset.rep_eq)
  then show ?thesis unfolding same .
qed

lemma recover_committed:
  assumes "recovered_ok r"
  shows "\<exists>n. Step (NewNodeFromRecoveredState i ps r) RecoverCommitted
      = Some (n, map ApplyEntry (take (rs_CommitIndex r - rs_SnapshotIndex r) (rs_Log (trimRecovered r))))
    \<and> node_wf n \<and> settled n \<and> n_lastApplied n = rs_CommitIndex r"
proof -
  let ?n = "NewNodeFromRecoveredState i ps r" and ?r = "trimRecovered r"
  have trim: "rs_CommitIndex ?r = rs_CommitIndex r" "rs_SnapshotIndex ?r = rs_SnapshotIndex r"
    by (simp_all add: trimRecovered_def)
  have fields: "n_role ?n = Follower" "n_pendingReads ?n = fmempty" "n_lastApplied ?n = rs_SnapshotIndex r"
    "n_logBaseIndex ?n = rs_SnapshotIndex r" "n_durableCommitIndex ?n = rs_CommitIndex r" "n_log ?n = rs_Log ?r"
    "n_pendingHardState ?n = Map.empty" "n_pendingCommit ?n = Map.empty" "n_commitIndex ?n = rs_CommitIndex r"
    by (simp_all add: NewNodeFromRecoveredState_def Let_def trim)
  have wf: "node_wf ?n" by (rule recovered_node_wf [OF assms])
  have le: "rs_SnapshotIndex r \<le> rs_CommitIndex r" "rs_CommitIndex r \<le> n_lastLogIndex ?n"
    using wf fields by (auto simp: wf_defs)
  let ?k = "rs_CommitIndex r - rs_SnapshotIndex r"
  obtain rr acts where loop: "applyLoop ?k ?n = Some (?n\<lparr>n_lastApplied := rs_CommitIndex r, n_readReady := rr\<rparr>, acts)"
    "applied acts = take ?k (rs_Log ?r)"
  proof -
    have add: "rs_SnapshotIndex r + ?k = rs_CommitIndex r" "rs_SnapshotIndex r - rs_SnapshotIndex r = 0" using le by simp_all
    have pre: "n_logBaseIndex ?n \<le> n_lastApplied ?n" "n_lastApplied ?n + ?k \<le> n_lastLogIndex ?n"
      unfolding fields add using le by simp_all
    show thesis using applyLoop_total [OF node_wf_log [OF wf] pre] that unfolding fields add drop_0 by blast
  qed
  have "n_role ?n \<noteq> Leader" by (simp add: fields)
  then have "acts = map ApplyEntry (take ?k (rs_Log ?r))" using applyLoop_follower [OF loop(1)] loop(2) by metis
  let ?m = "?n\<lparr>n_lastApplied := rs_CommitIndex r, n_readReady := rr\<rparr>"
  have reads: "completeReads ?n = (?n, [])" "completeReads ?m = (?m, [])"
    by (simp_all add: completeReads_none fields)
  have "applyThrough ?n (rs_CommitIndex r) = applyLoop ?k ?n"
  proof (cases "rs_CommitIndex r = rs_SnapshotIndex r")
    case False
    then show ?thesis using le unfolding applyThrough_def fields loop(1) by (simp add: reads(2))
  qed (simp add: applyThrough_def fields reads(1))
  then have "applyThrough ?n (rs_CommitIndex r) = Some (?m, map ApplyEntry (take ?k (rs_Log ?r)))"
    using loop(1) \<open>acts = _\<close> by simp
  moreover have "settled (?n\<lparr>n_lastApplied := rs_CommitIndex r, n_readReady := rr\<rparr>)"
    by (simp add: settled_def after_plain_def fields)
  moreover have "node_wf (?n\<lparr>n_lastApplied := rs_CommitIndex r, n_readReady := rr\<rparr>)"
    using wf le by (simp add: wf_defs fields)
  ultimately show ?thesis by (simp add: fields)
qed

section \<open>Properties\<close>

text \<open>
  C13: recovery replays exactly the committed entries. A node built from a recovered state whose log
  continues the Snapshot and reaches the commit index answers \<open>RecoverCommitted\<close> with one
  \<open>ApplyEntry\<close> for every entry after the Snapshot up to the commit index, in order, and nothing
  else; afterwards it has applied everything that is committed.
\<close>

theorem recovery_applies_committed_suffix:
  assumes "recovered_ok r"
  shows "\<exists>n. Step (NewNodeFromRecoveredState i ps r) RecoverCommitted
      = Some (n, map ApplyEntry (take (rs_CommitIndex r - rs_SnapshotIndex r) (rs_Log (trimRecovered r))))
    \<and> node_wf n \<and> settled n \<and> n_lastApplied n = rs_CommitIndex r"
  by (rule recover_committed [OF assms])

definition sample_entry :: "u64 \<Rightarrow> u64 \<Rightarrow> LogEntry" where
  "sample_entry i t = \<lparr>le_Index = i, le_Term = t, le_Type = EntryNoOp, le_SessionID = zeroSessionID,
     le_Sequence = 0, le_Key = [], le_Value = []\<rparr>"

definition sample_recovered :: RecoveredState where
  "sample_recovered = \<lparr>rs_HardState = \<lparr>hs_Term = 2, hs_VotedFor = []\<rparr>,
     rs_Log = [sample_entry 5 2, sample_entry 6 2], rs_CommitIndex = 5,
     rs_SnapshotIndex = 4, rs_SnapshotTerm = 1\<rparr>"

lemma sample_recovered_ok: "recovered_ok sample_recovered"
  by (simp add: recovered_ok_def sample_recovered_def trimRecovered_def sample_entry_def W64_def)

theorem recovery_applies_committed_suffix_witness:
  "\<exists>n. Step (NewNodeFromRecoveredState ''a'' [''b'', ''c''] sample_recovered) RecoverCommitted
     = Some (n, [ApplyEntry (sample_entry 5 2)]) \<and> n_lastApplied n = 5"
  using recovery_applies_committed_suffix [OF sample_recovered_ok, of "''a''" "[''b'', ''c'']"]
  by (auto simp: sample_recovered_def trimRecovered_def sample_entry_def)

text \<open>
  C9: the state machine sees the committed entries in order. After recovery, whatever events in range a
  node handles, none of them panics and the node never applies beyond its commit index. As long as no
  installed Snapshot lies behind the durable commit index, the applied entries and restored Snapshots of
  the whole run take the state machine from the Snapshot of the recovered state to the node's last applied
  index without a gap, no index is applied twice, without a restored Snapshot every index is applied
  exactly once, and no entry at or below a commit index is ever replaced.
\<close>

theorem run_applies_in_order:
  assumes "recovered_ok r" and "Step (NewNodeFromRecoveredState i ps r) RecoverCommitted = Some (n, first)"
    and "events_ok n events"
  shows "\<exists>n' acts. Run n events = Some (n', acts) \<and> n_lastApplied n' \<le> n_commitIndex n'
    \<and> (forward n events \<longrightarrow>
         position (rs_SnapshotIndex r) (first @ acts) = Some (n_lastApplied n')
         \<and> sorted_wrt (<) (map le_Index (applied (first @ acts)))
         \<and> ((\<forall>k t. RestoreSnapshot k t \<notin> set acts) \<longrightarrow>
              map le_Index (applied (first @ acts)) = [Suc (rs_SnapshotIndex r)..<Suc (n_lastApplied n')])
         \<and> keeps_committed n n')"
proof -
  let ?k = "rs_CommitIndex r - rs_SnapshotIndex r" and ?r = "trimRecovered r"
  have r: "contiguous (rs_SnapshotIndex r) (rs_Log ?r)" "rs_SnapshotIndex r \<le> rs_CommitIndex r"
    "?k \<le> length (rs_Log ?r)"
    using assms(1) by (auto simp: recovered_ok_def Let_def)
  have n: "first = map ApplyEntry (take ?k (rs_Log ?r))" "node_wf n" "settled n" "n_lastApplied n = rs_CommitIndex r"
    using recover_committed [OF assms(1), of i ps] assms(2) by auto
  obtain n' acts where run: "Run n events = Some (n', acts)" "node_wf n'" using Run_returns [OF n(2) assms(3)] by blast
  have "applied first = take ?k (rs_Log ?r)" unfolding n(1) by (rule applied_map)
  then have start: "position (rs_SnapshotIndex r) first = Some (n_lastApplied n)"
    using position_applied [of first "rs_SnapshotIndex r"] r n by auto
  have "position (rs_SnapshotIndex r) (first @ acts) = Some (n_lastApplied n')
      \<and> sorted_wrt (<) (map le_Index (applied (first @ acts)))
      \<and> ((\<forall>k t. RestoreSnapshot k t \<notin> set acts) \<longrightarrow> map le_Index (applied (first @ acts)) = [Suc (rs_SnapshotIndex r)..<Suc (n_lastApplied n')])
      \<and> keeps_committed n n'" if "forward n events"
  proof -
    have p: "position (rs_SnapshotIndex r) (first @ acts) = Some (n_lastApplied n')" "keeps_committed n n'"
      using Run_in_order [OF n(2,3) assms(3) that run(1)] start by (simp_all add: position_append)
    have "RestoreSnapshot k t \<notin> set first" for k t using n(1) by auto
    then have "map le_Index (applied (first @ acts)) = [Suc (rs_SnapshotIndex r)..<Suc (n_lastApplied n')]"
      if "\<forall>k t. RestoreSnapshot k t \<notin> set acts"
      using position_every [OF p(1)] that by (metis UnE set_append)
    then show ?thesis using p position_increasing [OF p(1)] by blast
  qed
  then show ?thesis using run by (intro exI [of _ n'] exI [of _ acts]) (simp add: wf_defs del: applied_append)
qed

definition sample_append :: AppendEntries where
  "sample_append = \<lparr>ae_From = ''b'', ae_Term = 3, ae_RequestID = 1, ae_PrevLogIndex = 5, ae_PrevLogTerm = 2,
     ae_Entries = [sample_entry 6 3, sample_entry 7 3], ae_LeaderCommit = 6, ae_ReadID = 0\<rparr>"

lemmas node_eval = NewNodeFromRecoveredState_def trimRecovered_def sample_recovered_def sample_entry_def sample_append_def
  handleAppendEntries_def acceptLeader_def becomeFollower_def matches_def termAt_def entriesToAppend_def acceptAppend_def
  truncateLog_def appendEntries_def persistLog_def persistIf_def persistHardState_def hardStatePersisted_def
  logEntriesPersisted_def advanceFollowerCommit_def persistCommit_def commitIndexPersisted_def applyThrough_def
  applyNext_def appendEntriesResponse_def Let_def
  index_at_def slice_to_def slice_from_def completeReads_none small_less_W64

theorem run_applies_in_order_witness:
  "\<exists>n first n' acts. Step (NewNodeFromRecoveredState ''a'' [''b'', ''c''] sample_recovered) RecoverCommitted = Some (n, first)
    \<and> Run n [EvAppendEntries sample_append, HardStatePersisted 1, LogEntriesPersisted 1, CommitIndexPersisted 1] = Some (n', acts)
    \<and> position 4 (first @ acts) = Some 6 \<and> map le_Index (applied (first @ acts)) = [5, 6] \<and> keeps_committed n n'"
  (is "\<exists>n first n' acts. ?first n first \<and> ?run n n' acts \<and> _")
proof -
  let ?events = "[EvAppendEntries sample_append, HardStatePersisted 1, LogEntriesPersisted 1, CommitIndexPersisted 1]"
  have "\<exists>n first n' acts. ?first n first \<and> ?run n n' acts \<and> n_lastApplied n' = 6 \<and> map le_Index (applied (first @ acts)) = [5, 6] \<and>
    events_ok n ?events \<and> forward n ?events"
    by (simp add: node_eval event_ok_def installs_forward_def)
  then obtain n first n' acts where w: "?first n first" "?run n n' acts" "n_lastApplied n' = 6" "events_ok n ?events" "forward n ?events"
    "map le_Index (applied (first @ acts)) = [5, 6]"
    by (elim exE conjE)
  have "rs_SnapshotIndex sample_recovered = 4" by (simp add: sample_recovered_def)
  then show ?thesis using w run_applies_in_order [OF sample_recovered_ok w(1,4)] by auto
qed

text \<open>
  C12: a well-formed node never panics and stays well-formed. Every index into the log and every slice
  of it is in range for every event, as long as the log has room for another entry, the entries of a
  request are numbered consecutively and a persisted Snapshot fits the log.
\<close>

theorem Step_never_panics:
  assumes "node_wf n" and "event_ok n event"
  shows "\<exists>n' actions. Step n event = Some (n', actions) \<and> node_wf n'"
  using Step_settles [OF assms] by (auto simp: settles_def)

theorem Step_never_panics_witness:
  "\<exists>n' actions. Step (NewNodeFromRecoveredState ''a'' [''b'', ''c''] sample_recovered) (EvAppendEntries sample_append)
     = Some (n', actions) \<and> node_wf n'"
proof -
  have "event_ok (NewNodeFromRecoveredState ''a'' [''b'', ''c''] sample_recovered) (EvAppendEntries sample_append)"
    by (simp add: event_ok_def node_eval)
  then show ?thesis by (intro Step_never_panics recovered_node_wf sample_recovered_ok)
qed

text \<open>
  The index up to which a Leader knows a member's log to equal its own once it has seen a response: all of
  its own log, and for a peer the greatest index that a successful response of that peer has reported.
\<close>

definition acknowledged :: "Node \<Rightarrow> AppendEntriesResponse \<Rightarrow> NodeID \<Rightarrow> u64" where
  "acknowledged n response p =
    (if p = n_id n then n_lastLogIndex n
     else if p = aer_From response \<and> aer_Success response
       then max (lookup_default 0 (n_matchIndex n) p) (aer_MatchIndex response)
     else lookup_default 0 (n_matchIndex n) p)"

lemma recordProgress_acknowledged:
  "recordProgress n response = Some m \<Longrightarrow> p \<noteq> n_id n \<Longrightarrow> lookup_default 0 (n_matchIndex m) p = acknowledged n response p"
  by (auto simp: recordProgress_def acknowledged_def lookup_default_def Let_def max_def split: if_splits bind_splits option.splits)

lemma replicatedCount_majority:
  assumes "quorum n \<le> replicatedCount m c" "recordProgress n response = Some m" "distinct (n_id n # n_peers n)" "c \<le> n_lastLogIndex n"
  shows "card (insert (n_id n) (set (n_peers n))) < 2 * card {p \<in> insert (n_id n) (set (n_peers n)). c \<le> acknowledged n response p}"
proof -
  let ?P = "filter (\<lambda>p. c \<le> acknowledged n response p) (n_peers n)"
  have "n_peers m = n_peers n" using recordProgress_core [OF assms(2)] by (simp add: core_fields [of m n])
  moreover have "lookup_default 0 (n_matchIndex m) p = acknowledged n response p" if "p \<in> set (n_peers n)" for p
    using that assms(3) by (intro recordProgress_acknowledged [OF assms(2)]) auto
  ultimately have "filter (\<lambda>p. c \<le> lookup_default 0 (n_matchIndex m) p) (n_peers m) = ?P" by (auto intro: filter_cong)
  then have "(length (n_peers n) + 1) div 2 + 1 \<le> 1 + length ?P" using assms(1) by (simp add: quorum_def replicatedCount_def)
  then have "length (n_peers n) + 1 < 2 * (1 + length ?P)" by arith
  moreover have "{p \<in> insert (n_id n) (set (n_peers n)). c \<le> acknowledged n response p} = set (n_id n # ?P)"
    using assms(4) by (auto simp: acknowledged_def)
  moreover have "card (set (n_id n # ?P)) = 1 + length ?P" using assms(3) by (subst distinct_card) auto
  moreover have "card (insert (n_id n) (set (n_peers n))) = length (n_peers n) + 1"
    using distinct_card [OF assms(3)] by simp
  ultimately show ?thesis by simp
qed

text \<open>
  C10: a Leader commits only entries of its own Term that a majority of the cluster stores. When the
  response to a replication request raises the commit index, the node leads, the entry at the new index
  carries its current Term, and more than half of the members, the Leader included, have acknowledged an
  index at or above it: by the match index that the Leader keeps, or by this response.
\<close>

theorem leader_commit_rule:
  assumes "node_wf n" and "settled n" and "distinct (n_id n # n_peers n)"
    and "Step n (EvAppendEntriesResponse response) = Some (n', actions)"
    and "n_commitIndex n' \<noteq> n_commitIndex n"
  shows "n_commitIndex n < n_commitIndex n' \<and> n_commitIndex n' \<le> n_lastLogIndex n \<and> n_role n = Leader
    \<and> term_at n (n_commitIndex n') = n_term n
    \<and> card (insert (n_id n) (set (n_peers n)))
        < 2 * card {p \<in> insert (n_id n) (set (n_peers n)). n_commitIndex n' \<le> acknowledged n response p}"
proof -
  have "log_event_ok n (EvAppendEntriesResponse response)" by (simp add: log_event_ok_def event_ok_def)
  note step = Step_log [OF assms(1,2) this assms(4)]
  have c: "n_commitIndex n < n_commitIndex n'" "n_commitIndex n' \<le> n_lastLogIndex n" "n_role n = Leader"
    "term_at n (n_commitIndex n') = n_term n"
    and "\<exists>m. recordProgress n response = Some m \<and> quorum n \<le> replicatedCount m (n_commitIndex n')"
    using step assms(5) by (cases rule: log_step.cases; auto simp: log_view_def with_log_def commit_reason_def)+
  then show ?thesis using replicatedCount_majority [OF _ _ assms(3) c(2)] by blast
qed

definition sample_leader :: Node where
  "sample_leader = (NewNodeFromRecoveredState ''a'' [''b'', ''c''] sample_recovered)
     \<lparr>n_role := Leader, n_lastApplied := 5\<rparr>"

definition sample_ack :: AppendEntriesResponse where
  "sample_ack = \<lparr>aer_From = ''b'', aer_Term = 2, aer_RequestID = 0, aer_Success = True, aer_MatchIndex = 6,
     aer_ConflictTerm = 0, aer_ConflictIndex = 0, aer_ReadID = 0\<rparr>"

lemmas leader_eval = node_eval sample_leader_def sample_ack_def handleAppendEntriesResponse_def recordProgress_def
  advanceLeaderCommit_def replicatedCount_def quorum_def sendAppendEntries_def sendAppendEntriesTo_def
  acknowledgeRead_def lookup_default_def zeroAppend_def entriesBatch_def wf_defs settled_def after_plain_def

theorem leader_commit_rule_witness:
  "\<exists>n' actions. Step sample_leader (EvAppendEntriesResponse sample_ack) = Some (n', actions)
    \<and> n_commitIndex n' = 6 \<and> term_at sample_leader 6 = n_term sample_leader
    \<and> card {''a'', ''b'', ''c''} < 2 * card {p \<in> {''a'', ''b'', ''c''}. 6 \<le> acknowledged sample_leader sample_ack p}"
proof -
  have wf: "node_wf sample_leader" "settled sample_leader" "distinct (n_id sample_leader # n_peers sample_leader)"
    and members: "insert (n_id sample_leader) (set (n_peers sample_leader)) = {''a'', ''b'', ''c''}"
    by (simp_all add: leader_eval)
  have half: "Suc (Suc (Suc 0)) div Suc (Suc 0) = 1"
    unfolding numeral_3_eq_3 [symmetric] numeral_2_eq_2 [symmetric] by simp
  have "\<exists>n' actions. Step sample_leader (EvAppendEntriesResponse sample_ack) = Some (n', actions) \<and> n_commitIndex n' = 6"
    by (simp add: leader_eval eval_nat_numeral half)
  then obtain n' actions where s: "Step sample_leader (EvAppendEntriesResponse sample_ack) = Some (n', actions)" "n_commitIndex n' = 6"
    by blast
  moreover have "n_commitIndex n' \<noteq> n_commitIndex sample_leader" using s by (simp add: leader_eval)
  ultimately show ?thesis using leader_commit_rule [OF wf s(1)] unfolding members by auto
qed



lemma term_at_nth:
  "log_wf n \<Longrightarrow> n_logBaseIndex n < i \<Longrightarrow> i \<le> n_lastLogIndex n \<Longrightarrow> term_at n i = le_Term (entry_at n i)"
  by (simp add: term_at_def entry_at_def)

lemma term_at_base [simp]: "term_at n (n_logBaseIndex n) = n_logBaseTerm n"
  by (simp add: term_at_def)





lemma batchLength_taken:
  "k = batchLength es used True \<Longrightarrow>
    (k = 0 \<or> used + sum_list (map entryBytes (take k es)) \<le> maxAppendEntriesBytes)
    \<and> (k < length es \<longrightarrow> maxAppendEntriesBytes < used + sum_list (map entryBytes (take (Suc k) es)))"
proof (induction es arbitrary: used k)
  case (Cons e es)
  show ?case
  proof (cases "used + entryBytes e > maxAppendEntriesBytes")
    case False
    then show ?thesis using Cons.IH [OF refl, of "used + entryBytes e"] Cons.prems by (auto simp: add.assoc)
  qed (use Cons.prems in simp)
qed simp

lemma batchLength_first:
  assumes "es \<noteq> []" "k = batchLength es 0 False"
  shows "0 < k \<and> (k = 1 \<or> sum_list (map entryBytes (take k es)) \<le> maxAppendEntriesBytes)
    \<and> (k < length es \<longrightarrow> maxAppendEntriesBytes < sum_list (map entryBytes (take (Suc k) es)))"
proof (cases es)
  case (Cons e rest)
  then show ?thesis using assms(2) batchLength_taken [OF refl, of rest "entryBytes e"] by auto
qed (use assms in simp)

text \<open>
  C14: replication batches make progress within the byte limit. From an uncompacted index up to a
  stored one, the batch is a non-empty run of log entries starting at that index; unless it is a
  single entry its estimated size is at most \<open>maxAppendEntriesBytes\<close>; and it stops early only because
  the next entry would exceed the limit.
\<close>

theorem batch_bounded_and_progressing:
  assumes "log_wf n" and "n_logBaseIndex n < first" and "first \<le> lst" and "lst \<le> n_lastLogIndex n"
  shows "\<exists>batch. entriesBatch n first lst = Some batch \<and> batch \<noteq> [] \<and> first + length batch \<le> lst + 1
    \<and> batch = map (entry_at n) [first ..< first + length batch]
    \<and> (length batch = 1 \<or> sum_list (map entryBytes batch) \<le> maxAppendEntriesBytes)
    \<and> (first + length batch \<le> lst \<longrightarrow>
         maxAppendEntriesBytes < sum_list (map entryBytes (batch @ [entry_at n (first + length batch)])))"
proof -
  define cs where "cs = take (lst + 1 - first) (drop (first - n_logBaseIndex n - 1) (n_log n))"
  define k where "k = batchLength cs 0 False"
  have len: "length cs = lst + 1 - first" using assms by (auto simp: log_wf_def cs_def)
  have nth: "cs ! j = entry_at n (first + j)" if "j < length cs" for j
    using that assms by (auto simp: cs_def entry_at_def log_wf_def intro!: arg_cong [of _ _ "(!) (n_log n)"])
  have k: "k \<le> length cs" unfolding k_def by (rule batchLength_le)
  have "cs \<noteq> []" using len assms(3) by auto
  note first = batchLength_first [OF this k_def]
  have batch: "entriesBatch n first lst = Some (take k cs)"
    using assms by (simp add: entriesBatch_total batch_of_def Let_def cs_def k_def)
  have "take k cs = map (entry_at n) [first ..< first + k]"
    using k by (intro nth_equalityI) (auto simp: nth)
  moreover have "take (Suc k) cs = take k cs @ [entry_at n (first + k)]" if "first + k \<le> lst"
    using that len nth [of k] take_Suc_conv_app_nth [of k cs] by simp
  ultimately show ?thesis using batch first len k
    by (intro exI [of _ "take k cs"]) (auto simp: min_def)
qed

theorem batch_bounded_and_progressing_witness:
  "\<exists>batch. entriesBatch (NewNodeFromRecoveredState ''a'' [''b'', ''c''] sample_recovered) 5 6 = Some batch
    \<and> batch \<noteq> [] \<and> (length batch = 1 \<or> sum_list (map entryBytes batch) \<le> maxAppendEntriesBytes)"
proof -
  let ?n = "NewNodeFromRecoveredState ''a'' [''b'', ''c''] sample_recovered"
  have "log_wf ?n" by (rule node_wf_log [OF recovered_node_wf [OF sample_recovered_ok]])
  moreover have "n_logBaseIndex ?n < 5" "6 \<le> n_lastLogIndex ?n" by (simp_all add: node_eval)
  ultimately show ?thesis using batch_bounded_and_progressing [of ?n 5 6] by auto
qed

end
