(* ===== verification/Bytes.thy ===== *)
theory Bytes
  imports Prelude
begin

unbundle bit_operations_syntax

text \<open>
  Byte-level vocabulary shared by the write-ahead log and the Snapshot files: the big-endian
  integers of \<open>encoding/binary\<close>, the CRC-32 of \<open>hash/crc32\<close> with the IEEE polynomial, and the
  validity of UTF-8 text as \<open>unicode/utf8\<close> decides it.
\<close>

section \<open>Big-endian integers\<close>

primrec put_be :: "nat \<Rightarrow> nat \<Rightarrow> bytes" where
  "put_be 0 n = []"
| "put_be (Suc k) n = put_be k (n div 256) @ [char_of (n mod 256)]"

definition get_be :: "bytes \<Rightarrow> nat" where
  "get_be bs = foldl (\<lambda>acc b. acc * 256 + of_char b) 0 bs"

abbreviation putUint64 :: "u64 \<Rightarrow> bytes" where
  "putUint64 n \<equiv> put_be 8 n"

abbreviation putUint32 :: "u32 \<Rightarrow> bytes" where
  "putUint32 n \<equiv> put_be 4 n"

lemma length_put_be [simp]: "length (put_be k n) = k"
  by (induction k arbitrary: n) simp_all

lemma get_be_append [simp]: "get_be (bs @ [b]) = get_be bs * 256 + of_char b"
  by (simp add: get_be_def)

lemma get_put_be: "get_be (put_be k n) = n mod 256 ^ k"
proof (induction k arbitrary: n)
  case 0
  then show ?case by (simp add: get_be_def)
next
  case (Suc k)
  have "n mod 256 ^ Suc k = 256 * (n div 256 mod 256 ^ k) + n mod 256"
    by (simp add: mod_mult2_eq)
  then show ?case using Suc by (simp add: mult.commute)
qed

lemma get_put_be_id [simp]: "n < 256 ^ k \<Longrightarrow> get_be (put_be k n) = n"
  by (simp add: get_put_be)

lemma get_be_bound: "get_be bs < 256 ^ length bs"
proof (induction bs rule: rev_induct)
  case Nil
  then show ?case by (simp add: get_be_def)
next
  case (snoc b bs)
  have "of_char b < (256 :: nat)" by simp
  moreover have "get_be bs * 256 + 256 \<le> 256 ^ length bs * 256"
    using snoc by (metis Suc_leI add.commute mult.commute mult_Suc_right mult_le_mono2)
  ultimately have "get_be bs * 256 + of_char b < 256 ^ length bs * 256" by linarith
  then show ?case by simp
qed

lemma W64_bytes: "W64 = 256 ^ 8"
  by (simp add: W64_def)

section \<open>CRC-32\<close>

text \<open>
  \<open>crc32.ChecksumIEEE\<close>: the reflected polynomial 0xEDB88320, one bit at a time, on a register of
  32 bits that starts and ends complemented.
\<close>

definition crc_bit :: "nat \<Rightarrow> nat" where
  "crc_bit c = (if odd c then (c div 2) XOR 0xEDB88320 else c div 2)"

definition crc_byte :: "nat \<Rightarrow> byte \<Rightarrow> nat" where
  "crc_byte c b = (crc_bit ^^ 8) (c XOR of_char b)"

definition checksumIEEE :: "bytes \<Rightarrow> u32" where
  "checksumIEEE bs = foldl crc_byte 0xFFFFFFFF bs XOR 0xFFFFFFFF"

lemma crc_byte_eval: "crc_byte c b =
    crc_bit (crc_bit (crc_bit (crc_bit (crc_bit (crc_bit (crc_bit (crc_bit (c XOR of_char b))))))))"
  by (simp add: crc_byte_def eval_nat_numeral)

named_theorems crc_eval \<open>evaluate a checksum\<close>
lemmas [crc_eval] = checksumIEEE_def crc_byte_eval crc_bit_def

text \<open>The check value of the CRC-32/ISO-HDLC parameters.\<close>

lemma checksumIEEE_check: "checksumIEEE ''123456789'' = 0xCBF43926"
  by (simp add: crc_eval)

definition W32 :: nat where
  "W32 = 2 ^ 32"

lemma nat_xor_bound: "a < W32 \<Longrightarrow> b < W32 \<Longrightarrow> (a XOR b :: nat) < W32"
  unfolding W32_def by (metis take_bit_nat_eq_self_iff take_bit_xor)

lemma xor_left_cancel_nat: "(a XOR b :: nat) = a XOR c \<longleftrightarrow> b = c"
  by (metis xor.assoc xor.left_neutral xor_self_eq)

lemma xor_right_cancel_nat: "(b XOR a :: nat) = c XOR a \<longleftrightarrow> b = c"
  by (metis xor.assoc xor.right_neutral xor_self_eq)

lemma div2_W32: "c < W32 \<Longrightarrow> c div 2 < W32"
  by linarith

lemma crc_bit_bound: "c < W32 \<Longrightarrow> crc_bit c < W32"
  unfolding crc_bit_def using nat_xor_bound [OF div2_W32, of c "0xEDB88320"] div2_W32 [of c]
  by (simp add: W32_def)

lemma crc_bit_top:
  assumes "c < W32"
  shows "bit (crc_bit c) 31 = odd c"
proof -
  have "c div 2 < 2 ^ 31" using assms by (simp add: W32_def)
  then have *: "\<not> bit (c div 2) 31" by (simp add: bit_iff_odd)
  have "bit (0xEDB88320 :: nat) 31" by (simp add: bit_iff_odd)
  then show ?thesis using * by (simp add: crc_bit_def bit_xor_iff)
qed

lemma crc_bit_inj:
  assumes "a < W32" and "b < W32" and "crc_bit a = crc_bit b"
  shows "a = b"
proof -
  have par: "odd a = odd b" using crc_bit_top assms by metis
  then have "a div 2 = b div 2"
    using assms(3) by (simp add: crc_bit_def xor_right_cancel_nat split: if_splits)
  then show ?thesis using par by (metis dvd_mult_div_cancel odd_two_times_div_two_succ)
qed

lemma crc_bits_bound: "c < W32 \<Longrightarrow> (crc_bit ^^ k) c < W32"
  by (induction k) (simp_all add: crc_bit_bound)

lemma crc_bits_inj:
  "a < W32 \<Longrightarrow> b < W32 \<Longrightarrow> (crc_bit ^^ k) a = (crc_bit ^^ k) b \<Longrightarrow> a = b"
proof (induction k)
  case (Suc k)
  then have "crc_bit ((crc_bit ^^ k) a) = crc_bit ((crc_bit ^^ k) b)" by simp
  then have "(crc_bit ^^ k) a = (crc_bit ^^ k) b"
    using crc_bit_inj [OF crc_bits_bound crc_bits_bound] Suc.prems(1,2) by blast
  then show ?case using Suc by blast
qed simp

lemma of_char_bound: "(of_char b :: nat) < W32"
proof -
  have "(of_char b :: nat) < 256" by simp
  then show ?thesis unfolding W32_def by (rule less_trans) simp
qed

lemma crc_byte_bound: "c < W32 \<Longrightarrow> crc_byte c b < W32"
  unfolding crc_byte_def by (intro crc_bits_bound nat_xor_bound of_char_bound)

lemma crc_byte_inj_state:
  assumes "c < W32" and "d < W32" and "crc_byte c b = crc_byte d b"
  shows "c = d"
proof -
  have "c XOR of_char b = d XOR of_char b"
    using crc_bits_inj [OF nat_xor_bound [OF assms(1) of_char_bound] nat_xor_bound [OF assms(2) of_char_bound]]
      assms(3) unfolding crc_byte_def by blast
  then show ?thesis unfolding xor_right_cancel_nat .
qed

lemma crc_byte_inj_byte:
  assumes "c < W32" and "crc_byte c x = crc_byte c y"
  shows "x = y"
proof -
  have "c XOR of_char x = c XOR of_char y"
    using crc_bits_inj [OF nat_xor_bound [OF assms(1) of_char_bound] nat_xor_bound [OF assms(1) of_char_bound]]
      assms(2) unfolding crc_byte_def by blast
  then show ?thesis unfolding xor_left_cancel_nat by simp
qed

lemma foldl_crc_bound: "c < W32 \<Longrightarrow> foldl crc_byte c bs < W32"
  by (induction bs arbitrary: c) (simp_all add: crc_byte_bound)

lemma foldl_crc_inj:
  "c < W32 \<Longrightarrow> d < W32 \<Longrightarrow> foldl crc_byte c bs = foldl crc_byte d bs \<Longrightarrow> c = d"
proof (induction bs arbitrary: c d)
  case (Cons b bs)
  then have "crc_byte c b = crc_byte d b" using crc_byte_bound by auto
  then show ?case using Cons.prems crc_byte_inj_state by blast
qed simp

text \<open>A checksum fits 32 bits, and changing any single byte of the data changes it.\<close>

lemma init_bound: "(0xFFFFFFFF :: nat) < W32"
  by (simp add: W32_def)

lemma checksumIEEE_bound: "checksumIEEE bs < W32"
  unfolding checksumIEEE_def by (intro nat_xor_bound foldl_crc_bound init_bound)

lemma checksumIEEE_single_byte:
  assumes "checksumIEEE (xs @ a # ys) = checksumIEEE (xs @ b # ys)"
  shows "a = b"
proof -
  let ?c = "foldl crc_byte 0xFFFFFFFF xs"
  have c: "?c < W32" by (intro foldl_crc_bound init_bound)
  have "foldl crc_byte (crc_byte ?c a) ys = foldl crc_byte (crc_byte ?c b) ys"
    using assms unfolding checksumIEEE_def xor_right_cancel_nat by simp
  then have "crc_byte ?c a = crc_byte ?c b" 
    using foldl_crc_inj [OF crc_byte_bound crc_byte_bound] c by blast
  then show ?thesis using c crc_byte_inj_byte by blast
qed

section \<open>UTF-8\<close>

text \<open>
  The size of the valid UTF-8 sequence at the head of the bytes, as \<open>utf8.DecodeRune\<close> accepts it
  (no overlong forms, no surrogates, nothing above U+10FFFF); \<open>None\<close> when the head is not valid.
\<close>

definition byte_in :: "nat \<Rightarrow> nat \<Rightarrow> byte \<Rightarrow> bool" where
  "byte_in lo hi b \<longleftrightarrow> lo \<le> of_char b \<and> of_char b \<le> hi"

abbreviation continuation :: "byte \<Rightarrow> bool" where
  "continuation \<equiv> byte_in 0x80 0xBF"

definition three_head :: "byte \<Rightarrow> byte \<Rightarrow> bool" where
  "three_head a b \<longleftrightarrow> byte_in 0xE0 0xE0 a \<and> byte_in 0xA0 0xBF b
     \<or> (byte_in 0xE1 0xEC a \<or> byte_in 0xEE 0xEF a) \<and> continuation b
     \<or> byte_in 0xED 0xED a \<and> byte_in 0x80 0x9F b"

definition four_head :: "byte \<Rightarrow> byte \<Rightarrow> bool" where
  "four_head a b \<longleftrightarrow> byte_in 0xF0 0xF0 a \<and> byte_in 0x90 0xBF b
     \<or> byte_in 0xF1 0xF3 a \<and> continuation b \<or> byte_in 0xF4 0xF4 a \<and> byte_in 0x80 0x8F b"

definition rune_size :: "bytes \<Rightarrow> nat option" where
  "rune_size bs =
    (if bs = [] then None
     else if of_char (bs ! 0) < (0x80 :: nat) then Some 1
     else if 2 \<le> length bs \<and> byte_in 0xC2 0xDF (bs ! 0) \<and> continuation (bs ! 1) then Some 2
     else if 3 \<le> length bs \<and> three_head (bs ! 0) (bs ! 1) \<and> continuation (bs ! 2) then Some 3
     else if 4 \<le> length bs \<and> four_head (bs ! 0) (bs ! 1) \<and> continuation (bs ! 2)
             \<and> continuation (bs ! 3) then Some 4
     else None)"

lemma rune_size_bounds: "rune_size bs = Some k \<Longrightarrow> 0 < k \<and> k \<le> length bs"
  by (auto simp: rune_size_def Suc_le_eq split: if_splits)

function validUTF8 :: "bytes \<Rightarrow> bool" where
  "validUTF8 bs =
    (if bs = [] then True
     else case rune_size bs of None \<Rightarrow> False | Some k \<Rightarrow> validUTF8 (drop k bs))"
  by pat_completeness auto
termination
  by (relation "measure length") (auto dest: rune_size_bounds)

declare validUTF8.simps [simp del]

lemma validUTF8_ascii: "validUTF8 (c # cs) = validUTF8 cs" if "of_char c < (0x80 :: nat)"
  by (subst validUTF8.simps) (use that in \<open>simp add: rune_size_def\<close>)

lemma validUTF8_Nil [simp]: "validUTF8 []"
  by (simp add: validUTF8.simps)

end
