(* ===== verification/Json.thy ===== *)
theory Json
  imports Bytes
begin

text \<open>
  The part of Go's \<open>encoding/json\<close> that the program uses: \<open>json.Marshal\<close> of structs made of strings,
  unsigned integers, booleans, byte slices, arrays and string-keyed maps (the compaction checkpoint
  of the WAL and the Snapshot state), and the decoding of such text by \<open>json.Unmarshal\<close> and by
  \<open>json.Decoder\<close>. A value is first built as (or parsed into) a \<open>json\<close> tree; the field-by-field
  conversions of the structs are in the theories that own them.
\<close>

section \<open>Values and their text\<close>

datatype json =
  JNull | JBool bool | JNum bytes | JStr bytes | JArr "json list" | JObj "(bytes \<times> json) list"

abbreviation byte_of :: "nat \<Rightarrow> byte" where
  "byte_of n \<equiv> char_of n"

definition hex_digit :: "nat \<Rightarrow> byte" where
  "hex_digit d = ''0123456789abcdef'' ! d"

text \<open>
  One character of a quoted string (\<open>appendString\<close> with HTML escaping on): the quote, the backslash
  and the control characters are escaped, and so are \<open><\<close>, \<open>>\<close>, \<open>&\<close>.
\<close>

definition escape_ascii :: "byte \<Rightarrow> bytes" where
  "escape_ascii c =
    (let n = of_char c :: nat in
     if c = CHR 0x22 \<or> c = CHR 0x5C then [CHR 0x5C, c]
     else if c = CHR 0x08 then [CHR 0x5C, CHR ''b'']
     else if c = CHR 0x09 then [CHR 0x5C, CHR ''t'']
     else if c = CHR 0x0A then [CHR 0x5C, CHR ''n'']
     else if c = CHR 0x0C then [CHR 0x5C, CHR ''f'']
     else if c = CHR 0x0D then [CHR 0x5C, CHR ''r'']
     else if n < 0x20 \<or> c = CHR ''<'' \<or> c = CHR ''>'' \<or> c = CHR ''&''
     then [CHR 0x5C, CHR ''u'', CHR ''0'', CHR ''0'', hex_digit (n div 16), hex_digit (n mod 16)]
     else [c])"

text \<open>
  The body of a quoted string: an invalid byte becomes the escape of U+FFFD, the line separators U+2028 and
  U+2029 are escaped, other valid sequences are copied.
\<close>

definition escape_rune :: "bytes \<Rightarrow> bytes" where
  "escape_rune rune =
    (if rune = [CHR 0xE2, CHR 0x80, CHR 0xA8] then CHR 0x5C # ''u2028''
     else if rune = [CHR 0xE2, CHR 0x80, CHR 0xA9] then CHR 0x5C # ''u2029''
     else if length rune = 1 then escape_ascii (hd rune)
     else rune)"

function escape :: "bytes \<Rightarrow> bytes" where
  "escape bs =
    (if bs = [] then []
     else case rune_size bs of
       None \<Rightarrow> CHR 0x5C # ''ufffd'' @ escape (tl bs)
     | Some k \<Rightarrow> escape_rune (take k bs) @ escape (drop k bs))"
  by pat_completeness auto
termination
  by (relation "measure length") (auto dest: rune_size_bounds)

declare escape.simps [simp del]

definition quote :: "bytes \<Rightarrow> bytes" where
  "quote bs = CHR 0x22 # escape bs @ [CHR 0x22]"

fun decimal :: "nat \<Rightarrow> bytes" where
  "decimal n = (if n < 10 then [byte_of (48 + n)] else decimal (n div 10) @ [byte_of (48 + n mod 10)])"

declare decimal.simps [simp del]

fun join :: "bytes list \<Rightarrow> bytes" where
  "join [] = []"
| "join [x] = x"
| "join (x # y # zs) = x @ CHR '','' # join (y # zs)"

fun render :: "json \<Rightarrow> bytes" where
  "render JNull = ''null''"
| "render (JBool b) = (if b then ''true'' else ''false'')"
| "render (JNum ds) = ds"
| "render (JStr s) = quote s"
| "render (JArr vs) = CHR ''['' # join (map render vs) @ '']''"
| "render (JObj kvs) = CHR ''{'' # join (map (\<lambda>(k, v). quote k @ CHR '':'' # render v) kvs) @ ''}''"

section \<open>Parsing\<close>

definition is_space :: "byte \<Rightarrow> bool" where
  "is_space c \<longleftrightarrow> (of_char c :: nat) \<in> {0x20, 0x09, 0x0A, 0x0D}"

definition skip_ws :: "bytes \<Rightarrow> bytes" where
  "skip_ws bs = dropWhile is_space bs"

definition is_digit :: "byte \<Rightarrow> bool" where
  "is_digit c \<longleftrightarrow> byte_in 0x30 0x39 c"

definition hex_value :: "byte \<Rightarrow> nat option" where
  "hex_value c =
    (let n = of_char c in
     if 0x30 \<le> n \<and> n \<le> 0x39 then Some (n - 0x30)
     else if 0x61 \<le> n \<and> n \<le> 0x66 then Some (n - 0x61 + 10)
     else if 0x41 \<le> n \<and> n \<le> 0x46 then Some (n - 0x41 + 10)
     else None)"

definition hex4 :: "bytes \<Rightarrow> (nat \<times> bytes) option" where
  "hex4 bs =
    (case bs of
       a # b # c # d # rest \<Rightarrow> do {
         w \<leftarrow> hex_value a; x \<leftarrow> hex_value b; y \<leftarrow> hex_value c; z \<leftarrow> hex_value d;
         Some (((w * 16 + x) * 16 + y) * 16 + z, rest)
       }
     | _ \<Rightarrow> None)"

text \<open>\<open>utf8.AppendRune\<close>, and the replacement character for what is not a rune.\<close>

definition replacement :: bytes where
  "replacement = [CHR 0xEF, CHR 0xBF, CHR 0xBD]"

definition append_rune :: "nat \<Rightarrow> bytes" where
  "append_rune r =
    (if r < 0x80 then [byte_of r]
     else if r < 0x800 then [byte_of (0xC0 + r div 64), byte_of (0x80 + r mod 64)]
     else if 0xD800 \<le> r \<and> r < 0xE000 \<or> r > 0x10FFFF then replacement
     else if r < 0x10000
     then [byte_of (0xE0 + r div 4096), byte_of (0x80 + r div 64 mod 64), byte_of (0x80 + r mod 64)]
     else [byte_of (0xF0 + r div 262144), byte_of (0x80 + r div 4096 mod 64),
           byte_of (0x80 + r div 64 mod 64), byte_of (0x80 + r mod 64)])"

text \<open>
  A \<open>\u\<close> escape: a high surrogate followed by an escaped low surrogate is one rune, any other
  surrogate is the replacement character.
\<close>

definition unescape_u :: "bytes \<Rightarrow> (bytes \<times> bytes) option" where
  "unescape_u bs = do {
     (r, rest) \<leftarrow> hex4 bs;
     if 0xD800 \<le> r \<and> r < 0xE000 then
       (case rest of
          x # y # more \<Rightarrow>
            if r < 0xDC00 \<and> x = CHR 0x5C \<and> y = CHR ''u'' then
              (case hex4 more of
                 Some (r2, rest2) \<Rightarrow>
                   if 0xDC00 \<le> r2 \<and> r2 < 0xE000
                   then Some (append_rune (0x10000 + (r - 0xD800) * 1024 + (r2 - 0xDC00)), rest2)
                   else Some (replacement, rest)
               | None \<Rightarrow> Some (replacement, rest))
            else Some (replacement, rest)
        | _ \<Rightarrow> Some (replacement, rest))
     else Some (append_rune r, rest)
   }"

definition unescape :: "bytes \<Rightarrow> (bytes \<times> bytes) option" where
  "unescape bs =
    (case bs of
       [] \<Rightarrow> None
     | e # rest \<Rightarrow>
         if e = CHR 0x22 \<or> e = CHR 0x5C \<or> e = CHR ''/'' then Some ([e], rest)
         else if e = CHR ''b'' then Some ([CHR 0x08], rest)
         else if e = CHR ''f'' then Some ([CHR 0x0C], rest)
         else if e = CHR ''n'' then Some ([CHR 0x0A], rest)
         else if e = CHR ''r'' then Some ([CHR 0x0D], rest)
         else if e = CHR ''t'' then Some ([CHR 0x09], rest)
         else if e = CHR ''u'' then unescape_u rest
         else None)"

lemma hex4_shorter: "hex4 bs = Some (r, rest) \<Longrightarrow> length rest < length bs"
  by (auto simp: hex4_def split: list.splits bind_splits)

lemma unescape_shorter: "unescape bs = Some (out, rest) \<Longrightarrow> length rest < length bs"
  by (auto simp: unescape_def unescape_u_def split: list.splits if_splits bind_splits option.splits
    dest!: hex4_shorter)

text \<open>The bytes after an opening quote: the decoded string and the bytes after the closing quote.\<close>

function unquote :: "bytes \<Rightarrow> (bytes \<times> bytes) option" where
  "unquote bs =
    (case bs of
       [] \<Rightarrow> None
     | c # cs \<Rightarrow>
         if c = CHR 0x22 then Some ([], cs)
         else if c = CHR 0x5C then
           (case unescape cs of
              None \<Rightarrow> None
            | Some (out, rest) \<Rightarrow> map_option (\<lambda>(s, r). (out @ s, r)) (unquote rest))
         else if of_char c < (0x20 :: nat) then None
         else
           (case rune_size bs of
              None \<Rightarrow> map_option (\<lambda>(s, r). (replacement @ s, r)) (unquote cs)
            | Some k \<Rightarrow> map_option (\<lambda>(s, r). (take k bs @ s, r)) (unquote (drop k bs))))"
  by pat_completeness auto
termination
  by (relation "measure length") (auto dest!: unescape_shorter rune_size_bounds)

declare unquote.simps [simp del]

text \<open>
  A number literal: an optional sign, an integer part without leading zeros, an optional fraction
  and an optional exponent.
\<close>

definition int_part :: "bytes \<Rightarrow> (bytes \<times> bytes) option" where
  "int_part bs =
    (case bs of
       [] \<Rightarrow> None
     | c # cs \<Rightarrow>
         if c = CHR ''0'' then Some ([c], cs)
         else if is_digit c then Some (takeWhile is_digit bs, dropWhile is_digit bs)
         else None)"

definition frac_part :: "bytes \<Rightarrow> (bytes \<times> bytes) option" where
  "frac_part bs =
    (case bs of
       [] \<Rightarrow> Some ([], bs)
     | c # cs \<Rightarrow>
         if c = CHR ''.'' then
           (if takeWhile is_digit cs = [] then None
            else Some (c # takeWhile is_digit cs, dropWhile is_digit cs))
         else Some ([], bs))"

definition exp_part :: "bytes \<Rightarrow> (bytes \<times> bytes) option" where
  "exp_part bs =
    (case bs of
       [] \<Rightarrow> Some ([], bs)
     | c # cs \<Rightarrow>
         if c = CHR ''e'' \<or> c = CHR ''E'' then
           (let (sign, ds) = (case cs of
                                [] \<Rightarrow> ([], cs)
                              | d # ds \<Rightarrow> if d = CHR ''+'' \<or> d = CHR ''-'' then ([d], ds) else ([], cs))
            in if takeWhile is_digit ds = [] then None
               else Some (c # sign @ takeWhile is_digit ds, dropWhile is_digit ds))
         else Some ([], bs))"

definition json_number :: "bytes \<Rightarrow> (bytes \<times> bytes) option" where
  "json_number bs = do {
     let (sign, bs) = (case bs of
                         [] \<Rightarrow> ([], bs)
                       | c # cs \<Rightarrow> if c = CHR ''-'' then ([c], cs) else ([], bs));
     (i, bs) \<leftarrow> int_part bs;
     (f, bs) \<leftarrow> frac_part bs;
     (e, bs) \<leftarrow> exp_part bs;
     Some (sign @ i @ f @ e, bs)
   }"

definition strip_prefix :: "bytes \<Rightarrow> bytes \<Rightarrow> bytes option" where
  "strip_prefix p bs = (if take (length p) bs = p then Some (drop (length p) bs) else None)"

definition expect :: "byte \<Rightarrow> bytes \<Rightarrow> bytes option" where
  "expect c bs = (case skip_ws bs of [] \<Rightarrow> None | d # ds \<Rightarrow> if d = c then Some ds else None)"

text \<open>
  The value parser. Every call consumes a byte before it recurs, so the length of the text bounds
  the depth of the recursion; \<open>parse_json\<close> supplies that fuel.
\<close>

fun parse_value :: "nat \<Rightarrow> bytes \<Rightarrow> (json \<times> bytes) option"
  and parse_elements :: "nat \<Rightarrow> bytes \<Rightarrow> (json list \<times> bytes) option"
  and parse_members :: "nat \<Rightarrow> bytes \<Rightarrow> ((bytes \<times> json) list \<times> bytes) option" where
  "parse_value 0 bs = None"
| "parse_value (Suc n) bs =
    (case skip_ws bs of
       [] \<Rightarrow> None
     | c # cs \<Rightarrow>
         if c = CHR 0x22 then map_option (\<lambda>(s, r). (JStr s, r)) (unquote cs)
         else if c = CHR ''['' then
           (case expect (CHR '']'') cs of
              Some r \<Rightarrow> Some (JArr [], r)
            | None \<Rightarrow> map_option (\<lambda>(vs, r). (JArr vs, r)) (parse_elements n cs))
         else if c = CHR ''{'' then
           (case expect (CHR ''}'') cs of
              Some r \<Rightarrow> Some (JObj [], r)
            | None \<Rightarrow> map_option (\<lambda>(kvs, r). (JObj kvs, r)) (parse_members n cs))
         else if c = CHR ''n'' then map_option (\<lambda>r. (JNull, r)) (strip_prefix ''ull'' cs)
         else if c = CHR ''t'' then map_option (\<lambda>r. (JBool True, r)) (strip_prefix ''rue'' cs)
         else if c = CHR ''f'' then map_option (\<lambda>r. (JBool False, r)) (strip_prefix ''alse'' cs)
         else map_option (\<lambda>(ds, r). (JNum ds, r)) (json_number (c # cs)))"
| "parse_elements 0 bs = None"
| "parse_elements (Suc n) bs =
    (case parse_value n bs of
       None \<Rightarrow> None
     | Some (v, r) \<Rightarrow>
         (case expect (CHR '']'') r of
            Some r' \<Rightarrow> Some ([v], r')
          | None \<Rightarrow>
              (case expect (CHR '','') r of
                 None \<Rightarrow> None
               | Some r' \<Rightarrow> map_option (\<lambda>(vs, r''). (v # vs, r'')) (parse_elements n r'))))"
| "parse_members 0 bs = None"
| "parse_members (Suc n) bs =
    (case expect (CHR 0x22) bs of
       None \<Rightarrow> None
     | Some ks \<Rightarrow>
         (case unquote ks of
            None \<Rightarrow> None
          | Some (k, r) \<Rightarrow>
              (case expect (CHR '':'') r of
                 None \<Rightarrow> None
               | Some vs \<Rightarrow>
                   (case parse_value n vs of
                      None \<Rightarrow> None
                    | Some (v, r) \<Rightarrow>
                        (case expect (CHR ''}'') r of
                           Some r' \<Rightarrow> Some ([(k, v)], r')
                         | None \<Rightarrow>
                             (case expect (CHR '','') r of
                                None \<Rightarrow> None
                              | Some r' \<Rightarrow>
                                  map_option (\<lambda>(kvs, r''). ((k, v) # kvs, r'')) (parse_members n r')))))))"

text \<open>A whole document: one value and nothing but white space after it.\<close>

definition parse_json :: "bytes \<Rightarrow> json option" where
  "parse_json bs =
    (case parse_value (length bs) bs of
       Some (v, rest) \<Rightarrow> if skip_ws rest = [] then Some v else None
     | None \<Rightarrow> None)"

section \<open>Field names and scalars\<close>

text \<open>
  \<open>foldName\<close>: keys that do not match a field exactly are compared after case folding. The only
  runes outside ASCII that fold to an ASCII letter are U+017F (to s) and U+212A (to k).
\<close>

definition fold_byte :: "byte \<Rightarrow> byte" where
  "fold_byte c = (if byte_in 0x41 0x5A c then byte_of (of_char c + 0x20) else c)"

function fold_name :: "bytes \<Rightarrow> bytes" where
  "fold_name bs =
    (if bs = [] then []
     else if take 2 bs = [CHR 0xC5, CHR 0xBF] then CHR ''s'' # fold_name (drop 2 bs)
     else if take 3 bs = [CHR 0xE2, CHR 0x84, CHR 0xAA] then CHR ''k'' # fold_name (drop 3 bs)
     else fold_byte (hd bs) # fold_name (tl bs))"
  by pat_completeness auto
termination
  by (relation "measure length") auto

declare fold_name.simps [simp del]

text \<open>The field of a struct that a key selects, by position in the list of field names.\<close>

definition find_field :: "bytes list \<Rightarrow> bytes \<Rightarrow> nat option" where
  "find_field names key =
    (case filter (\<lambda>i. names ! i = key) [0..<length names] of
       i # _ \<Rightarrow> Some i
     | [] \<Rightarrow>
         (case filter (\<lambda>i. fold_name (names ! i) = fold_name key) [0..<length names] of
            i # _ \<Rightarrow> Some i
          | [] \<Rightarrow> None))"

definition parse_uint :: "nat \<Rightarrow> bytes \<Rightarrow> nat option" where
  "parse_uint bound ds =
    (if ds \<noteq> [] \<and> list_all is_digit ds then
       (let n = foldl (\<lambda>acc d. acc * 10 + (of_char d - 48)) 0 ds in
        if n < bound then Some n else None)
     else None)"

text \<open>
  Decoding into a scalar that holds \<open>old\<close>: \<open>null\<close> leaves it, a value of another kind is an error.
\<close>

definition to_uint :: "nat \<Rightarrow> nat \<Rightarrow> json \<Rightarrow> nat option" where
  "to_uint bound old v =
    (case v of JNum ds \<Rightarrow> parse_uint bound ds | JNull \<Rightarrow> Some old | _ \<Rightarrow> None)"

definition to_string :: "bytes \<Rightarrow> json \<Rightarrow> bytes option" where
  "to_string old v = (case v of JStr s \<Rightarrow> Some s | JNull \<Rightarrow> Some old | _ \<Rightarrow> None)"

definition to_bool :: "bool \<Rightarrow> json \<Rightarrow> bool option" where
  "to_bool old v = (case v of JBool b \<Rightarrow> Some b | JNull \<Rightarrow> Some old | _ \<Rightarrow> None)"

text \<open>Decoding an object into a struct: the fields in the order of the text; \<open>null\<close> changes nothing.\<close>

fun to_struct :: "(bytes \<Rightarrow> json \<Rightarrow> 'a \<Rightarrow> 'a option) \<Rightarrow> (bytes \<times> json) list \<Rightarrow> 'a \<Rightarrow> 'a option" where
  "to_struct f [] x = Some x"
| "to_struct f ((k, v) # kvs) x = Option.bind (f k v x) (to_struct f kvs)"

definition to_object :: "(bytes \<Rightarrow> json \<Rightarrow> 'a \<Rightarrow> 'a option) \<Rightarrow> 'a \<Rightarrow> json \<Rightarrow> 'a option" where
  "to_object f old v =
    (case v of JObj kvs \<Rightarrow> to_struct f kvs old | JNull \<Rightarrow> Some old | _ \<Rightarrow> None)"

section \<open>Round trips\<close>

lemma ladder_iff:
  assumes "c2 \<Longrightarrow> \<not> c1" and "c3 \<Longrightarrow> \<not> c1 \<and> \<not> c2" and "c4 \<Longrightarrow> \<not> c1 \<and> \<not> c2 \<and> \<not> c3"
  shows "((if e then None else if c1 then Some (1 :: nat) else if c2 then Some 2 else if c3 then Some 3
      else if c4 then Some 4 else None) = Some k)
    \<longleftrightarrow> \<not> e \<and> (k = 1 \<and> c1 \<or> k = 2 \<and> c2 \<or> k = 3 \<and> c3 \<or> k = 4 \<and> c4)"
  using assms by auto

lemma rune_size_iff:
  "rune_size bs = Some k \<longleftrightarrow> bs \<noteq> [] \<and>
    (k = 1 \<and> of_char (bs ! 0) < (0x80 :: nat)
    \<or> k = 2 \<and> 2 \<le> length bs \<and> byte_in 0xC2 0xDF (bs ! 0) \<and> continuation (bs ! 1)
    \<or> k = 3 \<and> 3 \<le> length bs \<and> three_head (bs ! 0) (bs ! 1) \<and> continuation (bs ! 2)
    \<or> k = 4 \<and> 4 \<le> length bs \<and> four_head (bs ! 0) (bs ! 1) \<and> continuation (bs ! 2) \<and> continuation (bs ! 3))"
proof -
  let ?a = "bs ! 0" and ?b = "bs ! 1"
  have 2: "byte_in 0xC2 0xDF ?a \<Longrightarrow> \<not> of_char ?a < (0x80 :: nat)" by (simp add: byte_in_def)
  have 3: "three_head ?a ?b \<Longrightarrow> \<not> of_char ?a < (0x80 :: nat) \<and> \<not> byte_in 0xC2 0xDF ?a"
    unfolding three_head_def byte_in_def by linarith
  have 4: "four_head ?a ?b \<Longrightarrow> \<not> of_char ?a < (0x80 :: nat) \<and> \<not> byte_in 0xC2 0xDF ?a \<and> \<not> three_head ?a ?b"
    unfolding three_head_def four_head_def byte_in_def by linarith
  show ?thesis unfolding rune_size_def
    by (rule ladder_iff) (use 2 3 4 in blast)+
qed

lemma rune_size_append:
  assumes "rune_size bs = Some k"
  shows "rune_size (take k bs @ ys) = Some k"
  using assms unfolding rune_size_iff by (elim conjE disjE) (simp_all add: nth_append)

lemma rune_size_head:
  assumes "rune_size bs = Some k" and "k \<noteq> 1"
  shows "(0x80 :: nat) \<le> of_char (hd bs)"
  using assms by (auto simp: rune_size_def hd_conv_nth byte_in_def split: if_splits)

lemma rune_size_one: "rune_size bs = Some 1 \<Longrightarrow> (of_char (hd bs) :: nat) < 0x80"
  by (auto simp: rune_size_def hd_conv_nth split: if_splits)

lemma hex_value_digit: "d < 16 \<Longrightarrow> hex_value (hex_digit d) = Some d"
proof -
  assume "d < 16"
  then consider "d = 0" | "d = 1" | "d = 2" | "d = 3" | "d = 4" | "d = 5" | "d = 6" | "d = 7"
    | "d = 8" | "d = 9" | "d = 10" | "d = 11" | "d = 12" | "d = 13" | "d = 14" | "d = 15" by (auto simp: eval_nat_numeral less_Suc_eq)
  then show ?thesis by cases (simp_all add: hex_value_def hex_digit_def Let_def)
qed

lemma unescape_u_ascii:
  assumes "n < 0x80"
  shows "unescape (CHR ''u'' # CHR ''0'' # CHR ''0'' # hex_digit (n div 16) # hex_digit (n mod 16) # rest)
    = Some ([byte_of n], rest)"
proof -
  have "n div 16 < 16" using assms by auto
  then have hx: "hex_value (hex_digit (n div 16)) = Some (n div 16)"
    "hex_value (hex_digit (n mod 16)) = Some (n mod 16)" by (auto intro: hex_value_digit)
  moreover have "n div 16 * 16 + n mod 16 = n" by simp
  ultimately show ?thesis using assms
    by (simp add: unescape_def unescape_u_def hex4_def hex_value_def append_rune_def)
qed

lemma char_of_lit: "char_of (226::nat) = CHR 0xE2" "char_of (128::nat) = CHR 0x80"
  "char_of (168::nat) = CHR 0xA8" "char_of (169::nat) = CHR 0xA9"
  by (simp_all add: char_of_eq_iff)

lemma unquote_escape_ascii:
  assumes "(of_char c :: nat) < 0x80"
  shows "unquote (escape_ascii c @ rest) = map_option (\<lambda>(s, r). (c # s, r)) (unquote rest)"
proof -
  let ?n = "of_char c :: nat"
  show ?thesis
  proof (cases "c \<in> {CHR 0x22, CHR 0x5C, CHR 0x08, CHR 0x09, CHR 0x0A, CHR 0x0C, CHR 0x0D}")
    case True
    then show ?thesis
      by (elim insertE emptyE) (simp_all add: escape_ascii_def unquote.simps [of "_ # _"] unescape_def)
  next
    case special: False
    show ?thesis
    proof (cases "?n < 0x20 \<or> c = CHR ''<'' \<or> c = CHR ''>'' \<or> c = CHR ''&''")
      case True
      then have "escape_ascii c = CHR 0x5C # CHR ''u'' # CHR ''0'' # CHR ''0'' # hex_digit (?n div 16)
        # [hex_digit (?n mod 16)]"
        using special unfolding escape_ascii_def Let_def by simp
      then show ?thesis using unescape_u_ascii [OF assms, of rest]
        by (simp add: unquote.simps [of "_ # _"])
    next
      case False
      then have "escape_ascii c = [c]" using special unfolding escape_ascii_def Let_def by simp
      moreover have "rune_size (c # rest) = Some 1" using assms by (simp add: rune_size_def)
      moreover have "c \<noteq> CHR 0x22" "c \<noteq> CHR 0x5C" using special by auto
      ultimately show ?thesis using False by (simp add: unquote.simps [of "_ # _"])
    qed
  qed
qed

lemma unquote_escape_rune:
  assumes "rune_size bs = Some k"
  shows "unquote (escape_rune (take k bs) @ rest) = map_option (\<lambda>(s, r). (take k bs @ s, r)) (unquote rest)"
proof -
  have k: "0 < k" "k \<le> length bs" using rune_size_bounds [OF assms] by auto
  consider "take k bs = [CHR 0xE2, CHR 0x80, CHR 0xA8]" | "take k bs = [CHR 0xE2, CHR 0x80, CHR 0xA9]"
    | "take k bs \<noteq> [CHR 0xE2, CHR 0x80, CHR 0xA8]" "take k bs \<noteq> [CHR 0xE2, CHR 0x80, CHR 0xA9]" by blast
  then show ?thesis
  proof cases
    case 1
    then show ?thesis unfolding 1
      by (simp add: escape_rune_def unquote.simps [of "_ # _"] unescape_def unescape_u_def hex4_def
          hex_value_def append_rune_def char_of_lit)
  next
    case 2
    then show ?thesis unfolding 2
      by (simp add: escape_rune_def unquote.simps [of "_ # _"] unescape_def unescape_u_def hex4_def
          hex_value_def append_rune_def char_of_lit)
  next
    case 3
    show ?thesis
    proof (cases "k = 1")
      case True
      then obtain c where c: "take k bs = [c]" using k by (cases bs) auto
      then have "(of_char c :: nat) < 0x80" using rune_size_one [of bs] assms True by (cases bs) auto
      then show ?thesis using unquote_escape_ascii c 3 unfolding c by (simp add: escape_rune_def)
    next
      case False
      then have esc: "escape_rune (take k bs) = take k bs" using 3 k by (simp add: escape_rune_def)
      obtain c cs where cs: "take k bs = c # cs" using k by (cases "take k bs") auto
      then have "c = hd bs" using k by (cases bs; cases k) auto
      then have hi: "(0x80 :: nat) \<le> of_char c" using rune_size_head [OF assms False] by simp
      then have ne: "c \<noteq> CHR 0x22" "c \<noteq> CHR 0x5C" by auto
      have len: "length (c # cs) = k" using cs k by (metis length_take min.absorb2)
      have size: "rune_size ((c # cs) @ rest) = Some k" using rune_size_append [OF assms] cs by metis
      moreover have "take k ((c # cs) @ rest) = c # cs" "drop k ((c # cs) @ rest) = rest" using len by auto
      ultimately show ?thesis unfolding esc unfolding cs using hi ne
        by (simp add: unquote.simps [of "_ # _"])
    qed
  qed
qed

lemma unquote_escape:
  "validUTF8 s \<Longrightarrow> unquote (escape s @ CHR 0x22 # rest) = Some (s, rest)"
proof (induction s rule: validUTF8.induct)
  case (1 bs)
  show ?case
  proof (cases "bs = []")
    case True
    then show ?thesis by (simp add: escape.simps unquote.simps [of "_ # _"])
  next
    case False
    then obtain k where k: "rune_size bs = Some k" "validUTF8 (drop k bs)"
      using "1.prems" by (subst (asm) validUTF8.simps) (auto split: option.splits)
    then have IH: "unquote (escape (drop k bs) @ CHR 0x22 # rest) = Some (drop k bs, rest)"
      using "1.IH" False by blast
    have "escape bs = escape_rune (take k bs) @ escape (drop k bs)"
      using False k(1) by (subst escape.simps) simp
    then show ?thesis using unquote_escape_rune [OF k(1)] IH by simp
  qed
qed

definition digits_value :: "bytes \<Rightarrow> nat" where
  "digits_value ds = foldl (\<lambda>acc d. acc * 10 + (of_char d - 48)) 0 ds"

lemma of_char_digit: "n < 10 \<Longrightarrow> (of_char (byte_of (48 + n)) :: nat) = 48 + n"
  by simp

lemma decimal_digits: "list_all is_digit (decimal n)"
proof (induction n rule: decimal.induct)
  case (1 n)
  have d: "is_digit (byte_of (48 + k))" if "k < 10" for k
    using that by (simp add: is_digit_def byte_in_def)
  show ?case using 1 d by (subst decimal.simps) auto
qed

lemma decimal_nonempty [simp]: "decimal n \<noteq> []"
  by (subst decimal.simps) simp

lemma decimal_value: "digits_value (decimal n) = n"
proof (induction n rule: decimal.induct)
  case (1 n)
  show ?case
  proof (cases "n < 10")
    case True
    then show ?thesis by (subst decimal.simps) (simp add: digits_value_def)
  next
    case False
    have "n mod 10 < 10" by simp
    then have "(of_char (byte_of (48 + n mod 10)) :: nat) - 48 = n mod 10" by simp
    then show ?thesis using 1 False by (subst decimal.simps) (simp add: digits_value_def)
  qed
qed

lemma decimal_head: "n \<noteq> 0 \<Longrightarrow> hd (decimal n) \<noteq> CHR ''0''"
proof (induction n rule: decimal.induct)
  case (1 n)
  show ?case
  proof (cases "n < 10")
    case True
    then have "byte_of (48 + n) \<noteq> CHR ''0''" using 1 by (simp add: char_of_eq_iff take_bit_eq_mod)
    then show ?thesis using True by (subst decimal.simps) simp
  next
    case False
    then show ?thesis using 1 by (subst decimal.simps) simp
  qed
qed

lemma decimal_zero: "decimal 0 = ''0''"
  by (subst decimal.simps) (simp add: char_of_eq_iff)

lemma parse_uint_decimal: "n < bound \<Longrightarrow> parse_uint bound (decimal n) = Some n"
  using decimal_value [of n] by (simp add: parse_uint_def decimal_digits digits_value_def Let_def)

definition stops :: "bytes \<Rightarrow> bool" where
  "stops rest \<longleftrightarrow> rest = [] \<or> hd rest \<in> {CHR '','', CHR '']'', CHR ''}''}"

lemma is_digit_code: "is_digit c \<Longrightarrow> 48 \<le> (of_char c :: nat) \<and> (of_char c :: nat) \<le> 57"
  by (simp add: is_digit_def byte_in_def)

lemma number_decimal:
  assumes "stops rest"
  shows "json_number (decimal n @ rest) = Some (decimal n, rest)"
proof -
  have nd: "takeWhile is_digit rest = []" "dropWhile is_digit rest = rest"
    using assms by (cases rest; auto simp: stops_def is_digit_def byte_in_def)+
  obtain c cs where c: "decimal n = c # cs" by (cases "decimal n") auto
  have cd: "is_digit c" "list_all is_digit cs" using decimal_digits [of n] c by auto
  then have "c \<noteq> CHR ''-''" using is_digit_code [of c] by auto
  moreover have "int_part (decimal n @ rest) = Some (decimal n, rest)"
  proof (cases "n = 0")
    case True
    then show ?thesis by (simp add: decimal_zero int_part_def)
  next
    case False
    then have "c \<noteq> CHR ''0''" using decimal_head [OF False] c by simp
    moreover have "takeWhile is_digit (decimal n @ rest) = decimal n"
      "dropWhile is_digit (decimal n @ rest) = rest"
      using decimal_digits [of n] nd by (simp_all add: list_all_iff)
    ultimately show ?thesis using cd c by (simp add: int_part_def)
  qed
  moreover have "frac_part rest = Some ([], rest)" "exp_part rest = Some ([], rest)"
    using assms by (auto simp: stops_def frac_part_def exp_part_def split: list.splits)
  ultimately show ?thesis using c by (simp add: json_number_def)
qed

text \<open>The trees that the program renders, and the fuel their text needs.\<close>

fun good_json :: "json \<Rightarrow> bool" where
  "good_json JNull = True"
| "good_json (JBool b) = True"
| "good_json (JNum ds) = (\<exists>n. ds = decimal n)"
| "good_json (JStr s) = validUTF8 s"
| "good_json (JArr vs) = (\<forall>v \<in> set vs. good_json v)"
| "good_json (JObj kvs) = (\<forall>(k, v) \<in> set kvs. validUTF8 k \<and> good_json v)"

fun json_fuel :: "json \<Rightarrow> nat" where
  "json_fuel (JArr vs) = 1 + foldr (\<lambda>v n. 1 + max (json_fuel v) n) vs 0"
| "json_fuel (JObj kvs) = 1 + foldr (\<lambda>(k, v) n. 1 + max (json_fuel v) n) kvs 0"
| "json_fuel _ = 1"

lemma skip_ws_head: "bs \<noteq> [] \<Longrightarrow> \<not> is_space (hd bs) \<Longrightarrow> skip_ws bs = bs"
  by (cases bs) (simp_all add: skip_ws_def)

lemma render_head:
  assumes "good_json v"
  shows "render v \<noteq> [] \<and> \<not> is_space (hd (render v)) \<and> hd (render v) \<notin> {CHR '','', CHR '']'', CHR ''}''}"
proof (cases v)
  case (JNum ds)
  then obtain n c cs where "ds = decimal n" "ds = c # cs" using assms
    by (metis decimal_nonempty good_json.simps(3) neq_Nil_conv)
  then have "is_digit c" using decimal_digits [of n] by (metis list.pred_inject(2))
  then show ?thesis using JNum \<open>ds = c # cs\<close> is_digit_code [of c] by (auto simp: is_space_def)
qed (auto simp: quote_def is_space_def)

lemma expect_Cons: "\<not> is_space c \<Longrightarrow> expect d (c # cs) = (if c = d then Some cs else None)"
  by (simp add: expect_def skip_ws_def)

lemma expect_render:
  assumes "good_json v" and "c \<in> {CHR '','', CHR '']'', CHR ''}''}"
  shows "expect c (render v @ rest) = None"
proof -
  obtain d ds where "render v = d # ds" using render_head [OF assms(1)] by (cases "render v") auto
  then show ?thesis using render_head [OF assms(1)] assms(2) by (auto simp: expect_Cons)
qed

lemma unquote_quote: "validUTF8 s \<Longrightarrow> unquote (tl (quote s @ rest)) = Some (s, rest)"
  using unquote_escape by (simp add: quote_def)

lemma parse_num:
  assumes "stops rest"
  shows "parse_value (Suc f) (decimal n @ rest) = Some (JNum (decimal n), rest)"
proof -
  obtain c cs where c: "decimal n = c # cs" by (cases "decimal n") auto
  then have "is_digit c" using decimal_digits [of n] by simp
  then have "48 \<le> (of_char c :: nat)" "(of_char c :: nat) \<le> 57" using is_digit_code by auto
  then have "\<not> is_space c" and "c \<notin> {CHR 0x22, CHR ''['', CHR ''{'', CHR ''n'', CHR ''t'', CHR ''f''}"
    by (auto simp: is_space_def)
  then show ?thesis using number_decimal [OF assms, of n] c by (simp add: skip_ws_def)
qed


lemma parse_elements_render:
  assumes "\<And>v f rest. v \<in> set vs \<Longrightarrow> json_fuel v \<le> f \<Longrightarrow> stops rest \<Longrightarrow> parse_value f (render v @ rest) = Some (v, rest)"
    and "vs \<noteq> []" and "foldr (\<lambda>v n. 1 + max (json_fuel v) n) vs 0 \<le> f"
  shows "parse_elements f (join (map render vs) @ CHR '']'' # rest) = Some (vs, rest)"
  using assms
proof (induction vs arbitrary: f)
  case (Cons v vs)
  then obtain g where f: "f = Suc g" by (cases f) auto
  show ?case
  proof (cases vs)
    case Nil
    then have "parse_value g (render v @ CHR '']'' # rest) = Some (v, CHR '']'' # rest)"
      using Cons.prems f by (intro Cons.prems(1)) (auto simp: stops_def)
    then show ?thesis using Nil f by (simp add: expect_Cons is_space_def)
  next
    case (Cons w ws)
    let ?tail = "join (map render vs) @ CHR '']'' # rest"
    have "parse_value g (render v @ CHR '','' # ?tail) = Some (v, CHR '','' # ?tail)"
      using Cons.prems f by (intro Cons.prems(1)) (auto simp: stops_def)
    moreover have "parse_elements g ?tail = Some (vs, rest)"
      using Cons.prems f local.Cons by (intro Cons.IH) auto
    moreover have "join (map render (v # vs)) @ CHR '']'' # rest = render v @ CHR '','' # ?tail"
      using local.Cons by simp
    ultimately show ?thesis using f by (simp add: expect_Cons is_space_def del: join.simps)
  qed
qed simp

lemma parse_members_render:
  assumes "\<And>k v f rest. (k, v) \<in> set kvs \<Longrightarrow> json_fuel v \<le> f \<Longrightarrow> stops rest \<Longrightarrow> parse_value f (render v @ rest) = Some (v, rest)"
    and "\<And>k v. (k, v) \<in> set kvs \<Longrightarrow> validUTF8 k"
    and "kvs \<noteq> []" and "foldr (\<lambda>(k, v) n. 1 + max (json_fuel v) n) kvs 0 \<le> f"
  shows "parse_members f (join (map (\<lambda>(k, v). quote k @ CHR '':'' # render v) kvs) @ CHR ''}'' # rest) = Some (kvs, rest)"
  using assms
proof (induction kvs arbitrary: f)
  case (Cons kv kvs)
  obtain k v where kv: "kv = (k, v)" by (cases kv)
  obtain g where f: "f = Suc g" using Cons.prems(4) kv by (cases f) auto
  have k: "expect (CHR 0x22) (quote k @ r) = Some (escape k @ CHR 0x22 # r)" for r
    by (simp add: quote_def expect_Cons is_space_def)
  have u: "unquote (escape k @ CHR 0x22 # r) = Some (k, r)" for r
    using Cons.prems(2) kv by (intro unquote_escape) auto
  show ?case
  proof (cases kvs)
    case Nil
    have "parse_value g (render v @ CHR ''}'' # rest) = Some (v, CHR ''}'' # rest)"
      using Cons.prems f kv by (intro Cons.prems(1) [of k]) (auto simp: stops_def)
    then show ?thesis using Nil f kv k u by (simp add: expect_Cons is_space_def)
  next
    case (Cons w ws)
    let ?tail = "join (map (\<lambda>(k, v). quote k @ CHR '':'' # render v) kvs) @ CHR ''}'' # rest"
    have "parse_value g (render v @ CHR '','' # ?tail) = Some (v, CHR '','' # ?tail)"
      using Cons.prems f kv by (intro Cons.prems(1) [of k]) (auto simp: stops_def)
    moreover have "parse_members g ?tail = Some (kvs, rest)"
    proof (rule Cons.IH)
      show "parse_value f (render v @ rest) = Some (v, rest)"
        if "(k, v) \<in> set kvs" "json_fuel v \<le> f" "stops rest" for k v f rest
        using Cons.prems(1) [of k v f rest] that by simp
      show "validUTF8 k" if "(k, v) \<in> set kvs" for k v using Cons.prems(2) [of k v] that by simp
      show "kvs \<noteq> []" using local.Cons by simp
      show "foldr (\<lambda>(k, v) n. 1 + max (json_fuel v) n) kvs 0 \<le> g" using Cons.prems(4) f kv by simp
    qed
    moreover have "join (map (\<lambda>(k, v). quote k @ CHR '':'' # render v) (kv # kvs)) @ CHR ''}'' # rest
        = quote k @ CHR '':'' # render v @ CHR '','' # ?tail"
      using local.Cons kv by simp
    ultimately show ?thesis using f kv k u by (simp add: expect_Cons is_space_def del: join.simps)
  qed
qed simp

lemma parse_render:
  "good_json v \<Longrightarrow> json_fuel v \<le> f \<Longrightarrow> stops rest \<Longrightarrow> parse_value f (render v @ rest) = Some (v, rest)"
proof (induction v arbitrary: f rest)
  case (JNum ds)
  then show ?case using parse_num by (cases f) auto
next
  case (JStr s)
  then show ?case using unquote_escape [of s rest]
    by (cases f) (simp_all add: quote_def skip_ws_def is_space_def)
next
  case (JArr vs)
  then obtain g where f: "f = Suc g" by (cases f) auto
  show ?case
  proof (cases "vs = []")
    case True
    then show ?thesis using f by (simp add: skip_ws_def is_space_def expect_Cons)
  next
    case False
    have "parse_elements g (join (map render vs) @ CHR '']'' # rest) = Some (vs, rest)"
      using JArr False f by (intro parse_elements_render) auto
    moreover obtain w ws where "vs = w # ws" using False by (cases vs) auto
    then have "expect (CHR '']'') (join (map render vs) @ CHR '']'' # rest) = None"
      using JArr.prems(1) expect_render [of w "CHR '']''"] by (cases ws) auto
    ultimately show ?thesis using f by (simp add: skip_ws_def is_space_def)
  qed
next
  case (JObj kvs)
  then obtain g where f: "f = Suc g" by (cases f) auto
  show ?case
  proof (cases "kvs = []")
    case True
    then show ?thesis using f by (simp add: skip_ws_def is_space_def expect_Cons)
  next
    case False
    let ?body = "join (map (\<lambda>(k, v). quote k @ CHR '':'' # render v) kvs) @ CHR ''}'' # rest"
    have "parse_members g ?body = Some (kvs, rest)"
      using JObj False f by (intro parse_members_render) (force simp: case_prod_beta)+
    moreover obtain k w ws where "kvs = (k, w) # ws" using False by (cases kvs) auto
    then have "expect (CHR ''}'') ?body = None"
      by (cases ws) (auto simp: quote_def expect_Cons is_space_def)
    ultimately show ?thesis using f by (simp add: skip_ws_def is_space_def)
  qed
next
  case JNull
  then show ?case by (cases f) (simp_all add: skip_ws_def is_space_def strip_prefix_def)
next
  case (JBool b)
  then show ?case by (cases f) (simp_all add: skip_ws_def is_space_def strip_prefix_def)
qed


lemma length_join: "xs \<noteq> [] \<Longrightarrow> length (join xs) + 1 = sum_list (map length xs) + length xs"
  by (induction xs rule: join.induct) auto

lemma json_fuel_list:
  assumes "\<And>v. v \<in> set vs \<Longrightarrow> json_fuel v \<le> w v \<and> 0 < w v"
  shows "foldr (\<lambda>v n. 1 + max (json_fuel v) n) vs 0 \<le> sum_list (map w vs) + length vs"
  using assms by (induction vs) force+

lemma json_fuel_le: "good_json v \<Longrightarrow> json_fuel v \<le> length (render v)"
proof (induction v)
  case (JArr vs)
  show ?case
  proof (cases "vs = []")
    case False
    have "foldr (\<lambda>v n. 1 + max (json_fuel v) n) vs 0 \<le> sum_list (map (\<lambda>v. length (render v)) vs) + length vs"
      using JArr render_head by (intro json_fuel_list) auto
    also have "\<dots> = length (join (map render vs)) + 1"
      using length_join [of "map render vs"] False by (simp add: comp_def)
    finally show ?thesis by simp
  qed simp
next
  case (JObj kvs)
  let ?m = "\<lambda>(k, v). quote k @ CHR '':'' # render v"
  show ?case
  proof (cases "kvs = []")
    case False
    have "foldr (\<lambda>(k, v) n. 1 + max (json_fuel v) n) kvs 0
        = foldr (\<lambda>v n. 1 + max (json_fuel v) n) (map snd kvs) 0"
      by (induction kvs) auto
    also have "\<dots> \<le> sum_list (map (\<lambda>v. length (render v)) (map snd kvs)) + length (map snd kvs)"
      using JObj render_head by (intro json_fuel_list) (force simp: case_prod_beta)
    also have "\<dots> \<le> sum_list (map length (map ?m kvs)) + length kvs"
      by (simp add: comp_def case_prod_beta) (intro sum_list_mono, simp)
    also have "\<dots> = length (join (map ?m kvs)) + 1"
      using length_join [of "map ?m kvs"] False by simp
    finally show ?thesis by simp
  qed simp
next
  case (JNum ds)
  then show ?case by (auto simp: Suc_le_eq)
qed (auto simp: quote_def)

text \<open>Rendering and parsing a tree of the program gives the tree back.\<close>

lemma parse_json_render: "good_json v \<Longrightarrow> parse_json (render v) = Some v"
  using parse_render [of v "length (render v)" "[]"] json_fuel_le [of v]
  by (simp add: parse_json_def stops_def skip_ws_def)

end
