(* ===== verification/Wal.thy ===== *)
theory Wal
  imports Json Snapshot_State
begin

text \<open>
  The write-ahead log, \<open>src/internal/wal/wal.go\<close>: the frame format, the operations that append
  consensus records and wait for them to be synced, and the recovery that replays the segments.

  The data directory is a \<open>Disk\<close>: the bytes of every segment by number (the file
  \<open>wal-%016d.qwal\<close> of that number), how many of them are known to be synced, and the outcomes of
  the coming I/O calls. An I/O call takes the next outcome (success when none is left); a failed
  write leaves the prefix that the outcome names. An operation of the WAL maps the pair of the
  \<open>WAL\<close> struct and the disk to an error or a value and the new pair.
\<close>

section \<open>Data\<close>

record WalIdentity =
  wi_ClusterID :: string
  wi_NodeID :: string

record WalHardState =
  wh_Term :: u64
  wh_VotedFor :: string

record WalEntry =
  we_Index :: u64
  we_Term :: u64
  we_Type :: u8
  we_SessionID :: bytes
  we_Sequence :: u64
  we_Key :: string
  we_Value :: bytes

record WalState =
  ws_Identity :: WalIdentity
  ws_HardState :: WalHardState
  ws_Log :: "WalEntry list"
  ws_CommitIndex :: u64
  ws_SnapshotIndex :: u64
  ws_SnapshotTerm :: u64

record compactionCheckpoint =
  cc_Identity :: WalIdentity
  cc_HardState :: WalHardState
  cc_CommitIndex :: u64
  cc_SnapshotIndex :: u64
  cc_SnapshotTerm :: u64
  cc_TruncateFrom :: u64

definition zeroIdentity :: WalIdentity where
  "zeroIdentity = \<lparr>wi_ClusterID = [], wi_NodeID = []\<rparr>"

definition zeroHardState :: WalHardState where
  "zeroHardState = \<lparr>wh_Term = 0, wh_VotedFor = []\<rparr>"

definition zeroCheckpoint :: compactionCheckpoint where
  "zeroCheckpoint = \<lparr>cc_Identity = zeroIdentity, cc_HardState = zeroHardState, cc_CommitIndex = 0,
     cc_SnapshotIndex = 0, cc_SnapshotTerm = 0, cc_TruncateFrom = 0\<rparr>"

text \<open>The one-byte record types.\<close>

abbreviation recordClusterIdentity :: u8 where "recordClusterIdentity \<equiv> 1"
abbreviation recordNodeIdentity :: u8 where "recordNodeIdentity \<equiv> 2"
abbreviation recordHardState :: u8 where "recordHardState \<equiv> 3"
abbreviation recordLogEntries :: u8 where "recordLogEntries \<equiv> 4"
abbreviation recordLogEntriesV2 :: u8 where "recordLogEntriesV2 \<equiv> 5"
abbreviation recordLogEntryV3 :: u8 where "recordLogEntryV3 \<equiv> 6"
abbreviation recordLogTruncation :: u8 where "recordLogTruncation \<equiv> 7"
abbreviation recordCommitIndex :: u8 where "recordCommitIndex \<equiv> 8"
abbreviation recordCompactionCheckpoint :: u8 where "recordCompactionCheckpoint \<equiv> 9"

definition segmentMagic :: bytes where
  "segmentMagic = ''QKVWAL01''"

definition formatVersion :: u32 where
  "formatVersion = 1"

definition defaultSegmentSize :: nat where
  "defaultSegmentSize = 16 * 2 ^ 20"

definition segmentHeaderSize :: nat where
  "segmentHeaderSize = length segmentMagic + 4"

definition frameHeaderSize :: nat where
  "frameHeaderSize = 8"

definition maxRecordSize :: nat where
  "maxRecordSize = 2 * 2 ^ 20"

record WAL =
  w_file :: bool \<comment> \<open>the active segment is open\<close>
  w_segmentSize :: nat
  w_segment :: u64
  w_offset :: nat
  w_lastLogIndex :: u64
  w_commitIndex :: u64
  w_hardState :: WalHardState
  w_identity :: WalIdentity
  w_snapshotIndex :: u64
  w_snapshotTerm :: u64
  w_entryBytes :: "u64 \<rightharpoonup> u64"
  w_retainedThroughIndex :: u64
  w_retainedBytes :: u64

text \<open>The error returns of the package, one value per message.\<close>

datatype wal_error =
  WalClosed | NoEntries | IndexGap u64 u64 | TruncateOutside u64 u64 | TruncateCommitted u64 u64
| CommitDecreased u64 u64 | CommitBeyondLog u64 u64 | SnapshotOutsideCommit u64 u64
| InvalidSnapshotPosition u64 u64 | DiscardsCommitted u64 u64 | RecordTooLarge nat
| IoError | RollbackFailed | MissingIdentity | SegmentTooSmall nat | IdentityMismatch
| ShortHeader | InvalidMagic | UnsupportedVersion u32 | ShortFrameHeader nat | ZeroLength nat
| LengthExceeded nat nat | ShortFrameBody nat | ChecksumMismatch nat
| IdentityConflict | NodeBeforeCluster | HardStateBeforeIdentity | ShortHardState
| BadRecordLength nat | TruncateZero | CheckpointUndecodable | CheckpointIdentity
| CheckpointNewer | CheckpointTruncation u64 u64 | CheckpointIncomplete | CheckpointPosition u64 u64 u64
| UnknownRecord u8 | IncompleteIdentity

section \<open>The disk\<close>

datatype io_outcome = IoOk | IoFail nat

record Disk =
  dk_files :: "(u64, bytes) fmap"
  dk_synced :: "u64 \<rightharpoonup> nat"
  dk_plan :: "io_outcome list"

definition next_io :: "Disk \<Rightarrow> io_outcome \<times> Disk" where
  "next_io d = (case dk_plan d of [] \<Rightarrow> (IoOk, d) | o1 # os \<Rightarrow> (o1, d\<lparr>dk_plan := os\<rparr>))"

definition contents :: "Disk \<Rightarrow> u64 \<Rightarrow> bytes" where
  "contents d n = (case fmlookup (dk_files d) n of None \<Rightarrow> [] | Some bs \<Rightarrow> bs)"

definition set_contents :: "Disk \<Rightarrow> u64 \<Rightarrow> bytes \<Rightarrow> Disk" where
  "set_contents d n bs = d\<lparr>dk_files := fmupd n bs (dk_files d)\<rparr>"

type_synonym store = "WAL \<times> Disk"
type_synonym 'a wal = "store \<Rightarrow> (wal_error + 'a) \<times> store"

text \<open>
  Sequencing of operations: an error ends the method. \<open>reads f\<close> looks at the struct, \<open>assigns f\<close>
  updates it, \<open>check\<close> is a guard with an error return.
\<close>

definition returns :: "'a \<Rightarrow> 'a wal" where
  "returns x = (\<lambda>s. (Inr x, s))"

definition fails :: "wal_error \<Rightarrow> 'a wal" where
  "fails e = (\<lambda>s. (Inl e, s))"

definition and_then :: "'a wal \<Rightarrow> ('a \<Rightarrow> 'b wal) \<Rightarrow> 'b wal" where
  "and_then m f = (\<lambda>s. case m s of (Inl e, s') \<Rightarrow> (Inl e, s') | (Inr x, s') \<Rightarrow> f x s')"

definition seq :: "'a wal \<Rightarrow> 'b wal \<Rightarrow> 'b wal" where
  "seq m m' = and_then m (\<lambda>_. m')"

definition reads :: "(WAL \<Rightarrow> 'a wal) \<Rightarrow> 'a wal" where
  "reads f = (\<lambda>(w, d). f w (w, d))"

definition assigns :: "(WAL \<Rightarrow> WAL) \<Rightarrow> unit wal" where
  "assigns f = (\<lambda>(w, d). (Inr (), (f w, d)))"

definition check :: "bool \<Rightarrow> wal_error \<Rightarrow> 'a wal \<Rightarrow> 'a wal" where
  "check ok e m = (if ok then m else fails e)"

definition io_call :: "(Disk \<Rightarrow> Disk) \<Rightarrow> (nat \<Rightarrow> Disk \<Rightarrow> Disk) \<Rightarrow> unit wal" where
  "io_call done failed = (\<lambda>(w, d).
    case next_io d of
      (IoOk, d) \<Rightarrow> (Inr (), (w, done d))
    | (IoFail k, d) \<Rightarrow> (Inl IoError, (w, failed k d)))"

definition write_file :: "u64 \<Rightarrow> bytes \<Rightarrow> unit wal" where
  "write_file n bs = io_call (\<lambda>d. set_contents d n (contents d n @ bs))
                             (\<lambda>k d. set_contents d n (contents d n @ take k bs))"

definition sync_file :: "u64 \<Rightarrow> unit wal" where
  "sync_file n = io_call (\<lambda>d. d\<lparr>dk_synced := (dk_synced d)(n \<mapsto> length (contents d n))\<rparr>) (\<lambda>_ d. d)"

definition truncate_file :: "u64 \<Rightarrow> nat \<Rightarrow> unit wal" where
  "truncate_file n k = io_call (\<lambda>d. set_contents d n (take k (contents d n))) (\<lambda>_ d. d)"

definition remove_file :: "u64 \<Rightarrow> unit wal" where
  "remove_file n = io_call (\<lambda>d. d\<lparr>dk_files := fmdrop n (dk_files d)\<rparr>) (\<lambda>_ d. d)"

definition other_io :: "unit wal" where
  "other_io = io_call (\<lambda>d. d) (\<lambda>_ d. d)"

section \<open>Checkpoint encoding\<close>

text \<open>
  \<open>json.Marshal\<close> of the checkpoint: \<open>Identity\<close> and \<open>HardState\<close> have no field tags, and
  \<open>truncate_from\<close> is left out when it is zero.
\<close>

definition checkpoint_json :: "compactionCheckpoint \<Rightarrow> json" where
  "checkpoint_json c = JObj
    ([(''identity'', JObj [(''ClusterID'', JStr (wi_ClusterID (cc_Identity c))),
                           (''NodeID'', JStr (wi_NodeID (cc_Identity c)))]),
      (''hard_state'', JObj [(''Term'', JNum (decimal (wh_Term (cc_HardState c)))),
                             (''VotedFor'', JStr (wh_VotedFor (cc_HardState c)))]),
      (''commit_index'', JNum (decimal (cc_CommitIndex c))),
      (''snapshot_index'', JNum (decimal (cc_SnapshotIndex c))),
      (''snapshot_term'', JNum (decimal (cc_SnapshotTerm c)))]
     @ (if cc_TruncateFrom c = 0 then []
        else [(''truncate_from'', JNum (decimal (cc_TruncateFrom c)))]))"

definition marshalCheckpoint :: "compactionCheckpoint \<Rightarrow> bytes" where
  "marshalCheckpoint c = render (checkpoint_json c)"

definition identity_field :: "bytes \<Rightarrow> json \<Rightarrow> WalIdentity \<Rightarrow> WalIdentity option" where
  "identity_field key v i =
    (case find_field [''ClusterID'', ''NodeID''] key of
       None \<Rightarrow> Some i
     | Some k \<Rightarrow>
         if k = 0 then map_option (\<lambda>s. i\<lparr>wi_ClusterID := s\<rparr>) (to_string (wi_ClusterID i) v)
         else map_option (\<lambda>s. i\<lparr>wi_NodeID := s\<rparr>) (to_string (wi_NodeID i) v))"

definition hardState_field :: "bytes \<Rightarrow> json \<Rightarrow> WalHardState \<Rightarrow> WalHardState option" where
  "hardState_field key v h =
    (case find_field [''Term'', ''VotedFor''] key of
       None \<Rightarrow> Some h
     | Some k \<Rightarrow>
         if k = 0 then map_option (\<lambda>t. h\<lparr>wh_Term := t\<rparr>) (to_uint W64 (wh_Term h) v)
         else map_option (\<lambda>s. h\<lparr>wh_VotedFor := s\<rparr>) (to_string (wh_VotedFor h) v))"

definition checkpoint_field :: "bytes \<Rightarrow> json \<Rightarrow> compactionCheckpoint \<Rightarrow> compactionCheckpoint option" where
  "checkpoint_field key v c =
    (case find_field [''identity'', ''hard_state'', ''commit_index'', ''snapshot_index'',
                      ''snapshot_term'', ''truncate_from''] key of
       None \<Rightarrow> Some c
     | Some k \<Rightarrow>
         if k = 0 then map_option (\<lambda>x. c\<lparr>cc_Identity := x\<rparr>) (to_object identity_field (cc_Identity c) v)
         else if k = 1 then map_option (\<lambda>x. c\<lparr>cc_HardState := x\<rparr>) (to_object hardState_field (cc_HardState c) v)
         else if k = 2 then map_option (\<lambda>x. c\<lparr>cc_CommitIndex := x\<rparr>) (to_uint W64 (cc_CommitIndex c) v)
         else if k = 3 then map_option (\<lambda>x. c\<lparr>cc_SnapshotIndex := x\<rparr>) (to_uint W64 (cc_SnapshotIndex c) v)
         else if k = 4 then map_option (\<lambda>x. c\<lparr>cc_SnapshotTerm := x\<rparr>) (to_uint W64 (cc_SnapshotTerm c) v)
         else map_option (\<lambda>x. c\<lparr>cc_TruncateFrom := x\<rparr>) (to_uint W64 (cc_TruncateFrom c) v))"

definition unmarshalCheckpoint :: "bytes \<Rightarrow> compactionCheckpoint option" where
  "unmarshalCheckpoint bs = Option.bind (parse_json bs) (to_object checkpoint_field zeroCheckpoint)"

section \<open>Records and frames\<close>

definition segmentHeader :: bytes where
  "segmentHeader = segmentMagic @ putUint32 formatVersion"

definition frame_body :: "u8 \<Rightarrow> bytes \<Rightarrow> bytes" where
  "frame_body kind payload = char_of kind # payload"

definition frame :: "u8 \<Rightarrow> bytes \<Rightarrow> bytes" where
  "frame kind payload =
    putUint32 (length (frame_body kind payload)) @ putUint32 (checksumIEEE (frame_body kind payload))
    @ frame_body kind payload"

definition recordFrameSize :: "bytes \<Rightarrow> nat" where
  "recordFrameSize payload = frameHeaderSize + 1 + length payload"

definition entry_payload :: "WalEntry \<Rightarrow> bytes" where
  "entry_payload e = putUint64 (we_Index e) @ putUint64 (we_Term e) @ [char_of (we_Type e)]
     @ we_SessionID e @ putUint64 (we_Sequence e) @ putUint32 (length (we_Key e))
     @ putUint32 (length (we_Value e)) @ we_Key e @ we_Value e"

definition hardState_payload :: "WalHardState \<Rightarrow> bytes" where
  "hardState_payload h = putUint64 (wh_Term h) @ wh_VotedFor h"

section \<open>Appending\<close>

definition createSegment :: "u64 \<Rightarrow> unit wal" where
  "createSegment number =
    seq (io_call (\<lambda>d. set_contents d number []) (\<lambda>_ d. d))
   (seq (write_file number segmentHeader)
   (seq (sync_file number)
   (seq other_io
        (assigns (\<lambda>w. w\<lparr>w_segment := number, w_file := True, w_offset := segmentHeaderSize\<rparr>)))))"

text \<open>\<open>os.O_EXCL\<close>: creating a segment that exists fails before anything is written.\<close>

definition createNewSegment :: "u64 \<Rightarrow> unit wal" where
  "createNewSegment number = (\<lambda>(w, d).
    if number |\<in>| fmdom (dk_files d) then (Inl IoError, (w, d)) else createSegment number (w, d))"

definition prepareRecordBatch :: "nat \<Rightarrow> unit wal" where
  "prepareRecordBatch batch = reads (\<lambda>w.
    if w_offset w > segmentHeaderSize \<and> w_offset w + batch > w_segmentSize w then
      seq (sync_file (w_segment w))
     (seq other_io
     (seq (assigns (\<lambda>w. w\<lparr>w_file := False\<rparr>))
          (createNewSegment (add64 (w_segment w) 1))))
    else returns ())"

definition appendRecordInSegment :: "u8 \<Rightarrow> bytes \<Rightarrow> unit wal" where
  "appendRecordInSegment kind payload =
    (let body = frame_body kind payload in
     check (length body \<le> maxRecordSize) (RecordTooLarge (length body))
       (reads (\<lambda>w.
          seq (write_file (w_segment w) (putUint32 (length body) @ putUint32 (checksumIEEE body)))
         (seq (write_file (w_segment w) body)
              (assigns (\<lambda>w. w\<lparr>w_offset := w_offset w + frameHeaderSize + length body\<rparr>))))))"

definition appendRecord :: "u8 \<Rightarrow> bytes \<Rightarrow> unit wal" where
  "appendRecord kind payload =
    (let body = frame_body kind payload in
     check (length body \<le> maxRecordSize) (RecordTooLarge (length body))
       (seq (prepareRecordBatch (frameHeaderSize + length body))
            (appendRecordInSegment kind payload)))"

definition syncActive :: "unit wal" where
  "syncActive = reads (\<lambda>w. sync_file (w_segment w))"

section \<open>Operations\<close>

definition SaveHardState :: "WalHardState \<Rightarrow> unit wal" where
  "SaveHardState state = reads (\<lambda>w.
    check (w_file w) WalClosed
      (seq (appendRecord recordHardState (hardState_payload state))
      (seq syncActive
           (assigns (\<lambda>w. w\<lparr>w_hardState := state\<rparr>)))))"

text \<open>The index check of \<open>SaveLogEntries\<close>, entry by entry from the given offset.\<close>

fun checkIndexes :: "u64 \<Rightarrow> u64 \<Rightarrow> WalEntry list \<Rightarrow> wal_error option" where
  "checkIndexes lst offset [] = None"
| "checkIndexes lst offset (e # es) =
    (let want = add64 (add64 lst offset) 1 in
     if we_Index e \<noteq> want then Some (IndexGap (we_Index e) (sub64 want 1))
     else checkIndexes lst (offset + 1) es)"

fun appendEntryRecords :: "WalEntry list \<Rightarrow> unit wal" where
  "appendEntryRecords [] = returns ()"
| "appendEntryRecords (e # es) =
    seq (appendRecord recordLogEntryV3 (entry_payload e))
   (seq (assigns (\<lambda>w. w\<lparr>w_entryBytes := (w_entryBytes w)
           (we_Index e \<mapsto> frameHeaderSize + 1 + length (entry_payload e))\<rparr>))
        (appendEntryRecords es))"

definition SaveLogEntries :: "WalEntry list \<Rightarrow> unit wal" where
  "SaveLogEntries entries = reads (\<lambda>w.
    check (w_file w) WalClosed
      (check (entries \<noteq> []) NoEntries
        (case checkIndexes (w_lastLogIndex w) 0 entries of
           Some e \<Rightarrow> fails e
         | None \<Rightarrow>
             seq (appendEntryRecords entries)
            (seq syncActive
                 (assigns (\<lambda>w. w\<lparr>w_lastLogIndex := add64 (w_lastLogIndex w) (length entries)\<rparr>))))))"

definition dropEntryBytes :: "u64 \<Rightarrow> WAL \<Rightarrow> WAL" where
  "dropEntryBytes first w = w\<lparr>w_entryBytes := (\<lambda>i.
     if first \<le> i \<and> i \<le> w_lastLogIndex w then None else w_entryBytes w i)\<rparr>"

definition TruncateLog :: "u64 \<Rightarrow> unit wal" where
  "TruncateLog firstIndex = reads (\<lambda>w.
    check (w_file w) WalClosed
      (check (\<not> (firstIndex = 0 \<or> firstIndex > add64 (w_lastLogIndex w) 1))
             (TruncateOutside firstIndex (w_lastLogIndex w))
        (check (\<not> firstIndex \<le> w_commitIndex w) (TruncateCommitted firstIndex (w_commitIndex w))
          (seq (appendRecord recordLogTruncation (putUint64 firstIndex))
          (seq syncActive
               (assigns (\<lambda>w. (dropEntryBytes firstIndex w)\<lparr>w_lastLogIndex := sub64 firstIndex 1\<rparr>)))))))"

definition SaveCommitIndex :: "u64 \<Rightarrow> unit wal" where
  "SaveCommitIndex index = reads (\<lambda>w.
    check (w_file w) WalClosed
      (check (\<not> index < w_commitIndex w) (CommitDecreased (w_commitIndex w) index)
        (check (\<not> index > w_lastLogIndex w) (CommitBeyondLog index (w_lastLogIndex w))
          (if index = w_commitIndex w then returns ()
           else seq (appendRecord recordCommitIndex (putUint64 index))
               (seq syncActive
                    (assigns (\<lambda>w. w\<lparr>w_commitIndex := index\<rparr>)))))))"

text \<open>The loop of \<open>RetainedLogBytes\<close> runs \<open>throughIndex - retainedThroughIndex\<close> times.\<close>

primrec retainLoop :: "nat \<Rightarrow> WAL \<Rightarrow> WAL" where
  "retainLoop 0 w = w"
| "retainLoop (Suc k) w =
    (let i = add64 (w_retainedThroughIndex w) 1 in
     retainLoop k (w\<lparr>w_retainedThroughIndex := i,
                     w_retainedBytes := add64 (w_retainedBytes w) (lookup_default 0 (w_entryBytes w) i)\<rparr>))"

definition RetainedLogBytes :: "u64 \<Rightarrow> WAL \<Rightarrow> WAL \<times> u64" where
  "RetainedLogBytes throughIndex w =
    (let w = retainLoop (throughIndex - w_retainedThroughIndex w) w in (w, w_retainedBytes w))"

section \<open>Scanning frames\<close>

text \<open>
  \<open>scanSegmentFrames\<close> after the segment header: \<open>visit\<close> folds over the kind and payload of every
  frame. \<open>offset\<close> is the position of the remaining bytes in the file.
\<close>

function scanFrames ::
    "bool \<Rightarrow> (u8 \<Rightarrow> bytes \<Rightarrow> 'a \<Rightarrow> wal_error + 'a) \<Rightarrow> nat \<Rightarrow> bytes \<Rightarrow> 'a \<Rightarrow> wal_error + 'a" where
  "scanFrames tolerate visit offset bs x =
    (if bs = [] then Inr x
     else if length bs < frameHeaderSize then
       (if tolerate then Inr x else Inl (ShortFrameHeader offset))
     else
       let len = get_be (take 4 bs); end = frameHeaderSize + len in
       if len = 0 \<or> len > maxRecordSize then Inl (LengthExceeded offset len)
       else if length bs < end then (if tolerate then Inr x else Inl (ShortFrameBody offset))
       else
         let body = take len (drop frameHeaderSize bs); want = get_be (take 4 (drop 4 bs)) in
         if checksumIEEE body \<noteq> want then
           (if tolerate \<and> end = length bs then Inr x else Inl (ChecksumMismatch offset))
         else case visit (of_char (hd body)) (tl body) x of
           Inl e \<Rightarrow> Inl e
         | Inr x \<Rightarrow> scanFrames tolerate visit (offset + end) (drop end bs) x)"
  by pat_completeness auto
termination
  by (relation "measure (\<lambda>(_, _, _, bs, _). length bs)") (auto simp: frameHeaderSize_def)

declare scanFrames.simps [simp del]

text \<open>The header checks that \<open>scanSegmentFrames\<close> and \<open>readSegment\<close> share.\<close>

definition checkHeader :: "bytes \<Rightarrow> wal_error option" where
  "checkHeader bs =
    (if length bs < segmentHeaderSize then Some ShortHeader
     else if take (length segmentMagic) bs \<noteq> segmentMagic then Some InvalidMagic
     else let version = get_be (take 4 (drop (length segmentMagic) bs)) in
       if version \<noteq> formatVersion then Some (UnsupportedVersion version) else None)"

definition scanSegmentFrames ::
    "bytes \<Rightarrow> bool \<Rightarrow> (u8 \<Rightarrow> bytes \<Rightarrow> 'a \<Rightarrow> wal_error + 'a) \<Rightarrow> 'a \<Rightarrow> wal_error + 'a" where
  "scanSegmentFrames bs tolerate visit x =
    (case checkHeader bs of
       Some e \<Rightarrow> Inl e
     | None \<Rightarrow> scanFrames tolerate visit segmentHeaderSize (drop segmentHeaderSize bs) x)"

section \<open>Replaying records\<close>

definition lastRecovered :: "WalState \<Rightarrow> u64" where
  "lastRecovered st = add64 (ws_SnapshotIndex st) (length (ws_Log st))"

text \<open>One recovered log entry: skipped below the Snapshot, appended when it is the next index.\<close>

definition recoverEntry :: "WalEntry \<Rightarrow> WalState \<Rightarrow> wal_error + WalState" where
  "recoverEntry e st =
    (if we_Index e \<le> ws_SnapshotIndex st then Inr st
     else if we_Index e \<noteq> add64 (lastRecovered st) 1
     then Inl (IndexGap (we_Index e) (lastRecovered st))
     else Inr (st\<lparr>ws_Log := ws_Log st @ [e]\<rparr>))"

text \<open>The fixed-width entries of the legacy records: 17 bytes, or 33 with the Client Session.\<close>

fun chunks :: "nat \<Rightarrow> nat \<Rightarrow> bytes \<Rightarrow> bytes list" where
  "chunks 0 width bs = []"
| "chunks (Suc k) width bs = (if bs = [] then [] else take width bs # chunks k width (drop width bs))"

definition legacyEntry :: "nat \<Rightarrow> bytes \<Rightarrow> WalEntry" where
  "legacyEntry width c = \<lparr>we_Index = get_be (take 8 c), we_Term = get_be (take 8 (drop 8 c)),
     we_Type = of_char (c ! 16),
     we_SessionID = (if width = 33 then drop 17 c else replicate 16 (char_of (0 :: nat))),
     we_Sequence = 0, we_Key = [], we_Value = []\<rparr>"

fun recoverEntries :: "WalEntry list \<Rightarrow> WalState \<Rightarrow> wal_error + WalState" where
  "recoverEntries [] st = Inr st"
| "recoverEntries (e # es) st =
    (case recoverEntry e st of Inl err \<Rightarrow> Inl err | Inr st \<Rightarrow> recoverEntries es st)"

definition applyLegacy :: "nat \<Rightarrow> bytes \<Rightarrow> WalState \<Rightarrow> wal_error + WalState" where
  "applyLegacy width payload st =
    (if payload = [] \<or> length payload mod width \<noteq> 0 then Inl (BadRecordLength (length payload))
     else recoverEntries (map (legacyEntry width) (chunks (length payload) width payload)) st)"

definition entryV3 :: "bytes \<Rightarrow> WalEntry" where
  "entryV3 payload =
    (let keyLength = get_be (take 4 (drop 41 payload)) in
     \<lparr>we_Index = get_be (take 8 payload), we_Term = get_be (take 8 (drop 8 payload)),
      we_Type = of_char (payload ! 16), we_SessionID = take 16 (drop 17 payload),
      we_Sequence = get_be (take 8 (drop 33 payload)), we_Key = take keyLength (drop 49 payload),
      we_Value = drop (49 + keyLength) payload\<rparr>)"

definition applyEntryV3 :: "bytes \<Rightarrow> WalState \<Rightarrow> wal_error + WalState" where
  "applyEntryV3 payload st =
    (if length payload < 49 then Inl (BadRecordLength (length payload))
     else
       let keyLength = get_be (take 4 (drop 41 payload));
           valueLength = get_be (take 4 (drop 45 payload))
       in if 49 + keyLength + valueLength \<noteq> length payload then Inl (BadRecordLength (length payload))
          else recoverEntry (entryV3 payload) st)"

definition applyIdentity :: "bool \<Rightarrow> bytes \<Rightarrow> WalState \<Rightarrow> wal_error + WalState" where
  "applyIdentity cluster payload st =
    (let i = ws_Identity st in
     if cluster then
       (if wi_ClusterID i \<noteq> [] then (if wi_ClusterID i \<noteq> payload then Inl IdentityConflict else Inr st)
        else Inr (st\<lparr>ws_Identity := i\<lparr>wi_ClusterID := payload\<rparr>\<rparr>))
     else if wi_ClusterID i = [] then Inl NodeBeforeCluster
     else if wi_NodeID i \<noteq> [] then (if wi_NodeID i \<noteq> payload then Inl IdentityConflict else Inr st)
     else Inr (st\<lparr>ws_Identity := i\<lparr>wi_NodeID := payload\<rparr>\<rparr>))"

definition applyHardState :: "bytes \<Rightarrow> WalState \<Rightarrow> wal_error + WalState" where
  "applyHardState payload st =
    (if wi_NodeID (ws_Identity st) = [] then Inl HardStateBeforeIdentity
     else if length payload < 8 then Inl ShortHardState
     else
       let t = get_be (take 8 payload); h = ws_HardState st in
       if t < wh_Term h then Inr st
       else if t = wh_Term h \<and> wh_VotedFor h \<noteq> [] then Inr st
       else Inr (st\<lparr>ws_HardState := \<lparr>wh_Term = t, wh_VotedFor = drop 8 payload\<rparr>\<rparr>))"

definition applyTruncation :: "bytes \<Rightarrow> WalState \<Rightarrow> wal_error + WalState" where
  "applyTruncation payload st =
    (if length payload \<noteq> 8 then Inl (BadRecordLength (length payload))
     else
       let firstIndex = get_be payload in
       if firstIndex = 0 then Inl TruncateZero
       else if firstIndex \<le> ws_SnapshotIndex st then Inr st
       else if firstIndex > add64 (lastRecovered st) 1
       then Inl (TruncateOutside firstIndex (lastRecovered st))
       else if firstIndex \<le> ws_CommitIndex st
       then Inl (TruncateCommitted firstIndex (ws_CommitIndex st))
       else Inr (st\<lparr>ws_Log := take (firstIndex - ws_SnapshotIndex st - 1) (ws_Log st)\<rparr>))"

definition applyCommit :: "bytes \<Rightarrow> WalState \<Rightarrow> wal_error + WalState" where
  "applyCommit payload st =
    (if length payload \<noteq> 8 then Inl (BadRecordLength (length payload))
     else
       let index = get_be payload in
       if index < ws_CommitIndex st then Inr st
       else if index > lastRecovered st then Inl (CommitBeyondLog index (lastRecovered st))
       else Inr (st\<lparr>ws_CommitIndex := index\<rparr>))"

definition applyCheckpoint :: "bytes \<Rightarrow> WalState \<Rightarrow> wal_error + WalState" where
  "applyCheckpoint payload st =
    (case unmarshalCheckpoint payload of
       None \<Rightarrow> Inl CheckpointUndecodable
     | Some c \<Rightarrow>
         if cc_Identity c \<noteq> ws_Identity st then Inl CheckpointIdentity
         else if cc_SnapshotIndex c > ws_SnapshotIndex st then Inl CheckpointNewer
         else if cc_TruncateFrom c \<noteq> 0 then
           (if cc_TruncateFrom c \<noteq> add64 (cc_SnapshotIndex c) 1
            then Inl (CheckpointTruncation (cc_TruncateFrom c) (cc_SnapshotIndex c))
            else if cc_SnapshotIndex c = ws_SnapshotIndex st then
              (let first = sort_search (length (ws_Log st))
                             (\<lambda>i. we_Index (ws_Log st ! i) \<ge> cc_TruncateFrom c)
               in Inr (st\<lparr>ws_Log := take first (ws_Log st)\<rparr>))
            else Inr st)
         else Inr st)"

definition applyRecord :: "u8 \<Rightarrow> bytes \<Rightarrow> WalState \<Rightarrow> wal_error + WalState" where
  "applyRecord kind payload st =
    (if kind = recordClusterIdentity then applyIdentity True payload st
     else if kind = recordNodeIdentity then applyIdentity False payload st
     else if kind = recordHardState then applyHardState payload st
     else if kind = recordLogEntries then applyLegacy 17 payload st
     else if kind = recordLogEntriesV2 then applyLegacy 33 payload st
     else if kind = recordLogEntryV3 then applyEntryV3 payload st
     else if kind = recordLogTruncation then applyTruncation payload st
     else if kind = recordCommitIndex then applyCommit payload st
     else if kind = recordCompactionCheckpoint then applyCheckpoint payload st
     else Inl (UnknownRecord kind))"

section \<open>Recovery\<close>

text \<open>
  The loop of \<open>readSegment\<close>: the replayed state, and the offset at which an interrupted final frame
  is cut off, if there is one.
\<close>

function readFrames :: "bool \<Rightarrow> nat \<Rightarrow> bytes \<Rightarrow> WalState \<Rightarrow> wal_error + (WalState \<times> nat option)" where
  "readFrames recoverFinal offset bs st =
    (if bs = [] then Inr (st, None)
     else if length bs < frameHeaderSize then
       (if recoverFinal then Inr (st, Some offset) else Inl (ShortFrameHeader offset))
     else
       let len = get_be (take 4 bs); end = frameHeaderSize + len in
       if len = 0 then Inl (ZeroLength offset)
       else if len > maxRecordSize then Inl (LengthExceeded offset len)
       else if length bs < end then
         (if recoverFinal then Inr (st, Some offset) else Inl (ShortFrameBody offset))
       else
         let body = take len (drop frameHeaderSize bs); want = get_be (take 4 (drop 4 bs)) in
         if checksumIEEE body \<noteq> want then
           (if recoverFinal \<and> end = length bs then Inr (st, Some offset) else Inl (ChecksumMismatch offset))
         else case applyRecord (of_char (hd body)) (tl body) st of
           Inl e \<Rightarrow> Inl e
         | Inr st \<Rightarrow> readFrames recoverFinal (offset + end) (drop end bs) st)"
  by pat_completeness auto
termination
  by (relation "measure (\<lambda>(_, _, bs, _). length bs)") (auto simp: frameHeaderSize_def)

declare readFrames.simps [simp del]

definition readContents :: "bytes \<Rightarrow> bool \<Rightarrow> WalState \<Rightarrow> wal_error + (WalState \<times> nat option)" where
  "readContents bs recoverFinal st =
    (case checkHeader bs of
       Some e \<Rightarrow> Inl e
     | None \<Rightarrow> readFrames recoverFinal segmentHeaderSize (drop segmentHeaderSize bs) st)"

definition truncateFinalFrame :: "u64 \<Rightarrow> nat \<Rightarrow> unit wal" where
  "truncateFinalFrame number offset = seq (truncate_file number offset) (sync_file number)"

definition readSegment :: "u64 \<Rightarrow> bool \<Rightarrow> WalState \<Rightarrow> WalState wal" where
  "readSegment number recoverFinal st = (\<lambda>(w, d).
    case readContents (contents d number) recoverFinal st of
      Inl e \<Rightarrow> (Inl e, (w, d))
    | Inr (st, None) \<Rightarrow> (Inr st, (w, d))
    | Inr (st, Some offset) \<Rightarrow> seq (truncateFinalFrame number offset) (returns st) (w, d))"

definition findSegments :: "Disk \<Rightarrow> u64 list" where
  "findSegments d = sorted_list_of_fset (fmdom (dk_files d))"

definition visitCheckpoint :: "u8 \<Rightarrow> bytes \<Rightarrow> compactionCheckpoint \<Rightarrow> wal_error + compactionCheckpoint" where
  "visitCheckpoint kind payload newest =
    (if kind \<noteq> recordCompactionCheckpoint then Inr newest
     else case unmarshalCheckpoint payload of
       None \<Rightarrow> Inl CheckpointUndecodable
     | Some c \<Rightarrow>
         if blank (wi_ClusterID (cc_Identity c)) \<or> blank (wi_NodeID (cc_Identity c))
         then Inl CheckpointIncomplete
         else if cc_SnapshotIndex c = 0 \<or> cc_SnapshotTerm c = 0 \<or> cc_SnapshotIndex c > cc_CommitIndex c
         then Inl (CheckpointPosition (cc_SnapshotIndex c) (cc_SnapshotTerm c) (cc_CommitIndex c))
         else if cc_TruncateFrom c \<noteq> 0 \<and> cc_TruncateFrom c \<noteq> add64 (cc_SnapshotIndex c) 1
         then Inl (CheckpointTruncation (cc_TruncateFrom c) (cc_SnapshotIndex c))
         else Inr c)"

fun newestCheckpointFrom :: "Disk \<Rightarrow> u64 list \<Rightarrow> compactionCheckpoint \<Rightarrow> wal_error + compactionCheckpoint" where
  "newestCheckpointFrom d [] newest = Inr newest"
| "newestCheckpointFrom d (n # ns) newest =
    (case scanSegmentFrames (contents d n) (ns = []) visitCheckpoint newest of
       Inl e \<Rightarrow> Inl e
     | Inr newest \<Rightarrow> newestCheckpointFrom d ns newest)"

definition newestCompactionCheckpoint :: "Disk \<Rightarrow> u64 list \<Rightarrow> wal_error + compactionCheckpoint" where
  "newestCompactionCheckpoint d segments = newestCheckpointFrom d segments zeroCheckpoint"

definition seededState :: "compactionCheckpoint \<Rightarrow> WalState" where
  "seededState c = \<lparr>ws_Identity = cc_Identity c, ws_HardState = cc_HardState c, ws_Log = [],
     ws_CommitIndex = cc_CommitIndex c, ws_SnapshotIndex = cc_SnapshotIndex c,
     ws_SnapshotTerm = cc_SnapshotTerm c\<rparr>"

fun readSegments :: "u64 list \<Rightarrow> WalState \<Rightarrow> WalState wal" where
  "readSegments [] st = returns st"
| "readSegments (n # ns) st = and_then (readSegment n (ns = []) st) (readSegments ns)"

definition recoverSegments :: "u64 list \<Rightarrow> WalState wal" where
  "recoverSegments segments = (\<lambda>(w, d).
    case newestCompactionCheckpoint d segments of
      Inl e \<Rightarrow> (Inl e, (w, d))
    | Inr checkpoint \<Rightarrow>
        and_then (readSegments segments (seededState checkpoint))
          (\<lambda>st. check (wi_ClusterID (ws_Identity st) \<noteq> [] \<and> wi_NodeID (ws_Identity st) \<noteq> [])
                      IncompleteIdentity (returns st)) (w, d))"

definition newWAL :: "WalIdentity \<Rightarrow> nat \<Rightarrow> WAL" where
  "newWAL i segmentSize = \<lparr>w_file = False, w_segmentSize = segmentSize, w_segment = 0, w_offset = 0,
     w_lastLogIndex = 0, w_commitIndex = 0, w_hardState = zeroHardState, w_identity = i,
     w_snapshotIndex = 0, w_snapshotTerm = 0, w_entryBytes = Map.empty,
     w_retainedThroughIndex = 0, w_retainedBytes = 0\<rparr>"

definition recoveredWAL :: "WAL \<Rightarrow> u64 \<Rightarrow> nat \<Rightarrow> WalState \<Rightarrow> WAL" where
  "recoveredWAL w lst fileSize st =
    w\<lparr>w_segment := lst, w_file := True, w_offset := fileSize,
      w_lastLogIndex := lastRecovered st, w_commitIndex := ws_CommitIndex st,
      w_hardState := ws_HardState st, w_snapshotIndex := ws_SnapshotIndex st,
      w_snapshotTerm := ws_SnapshotTerm st, w_retainedThroughIndex := ws_SnapshotIndex st,
      w_entryBytes := map_of (rev (map (\<lambda>e. (we_Index e,
        frameHeaderSize + 1 + 49 + length (we_Key e) + length (we_Value e))) (ws_Log st)))\<rparr>"

text \<open>\<open>openSegments\<close> runs on a fresh struct; the result is the recovered state.\<close>

definition openSegments :: "WalIdentity \<Rightarrow> WalState wal" where
  "openSegments i = (\<lambda>(w, d).
    if findSegments d = [] then
      seq (createNewSegment 1)
     (seq (appendRecord recordClusterIdentity (wi_ClusterID i))
     (seq (appendRecord recordNodeIdentity (wi_NodeID i))
     (seq syncActive
          (returns (seededState (zeroCheckpoint\<lparr>cc_Identity := i\<rparr>)))))) (w, d)
    else
      and_then (recoverSegments (findSegments d)) (\<lambda>st.
        check (ws_Identity st = i) IdentityMismatch
          (\<lambda>(w, d). let lst = last (findSegments d) in
            (Inr st, (recoveredWAL w lst (length (contents d lst)) st, d)))) (w, d))"

definition openWAL :: "WalIdentity \<Rightarrow> nat \<Rightarrow> Disk \<Rightarrow> (wal_error + WalState) \<times> store" where
  "openWAL i segmentSize d =
    (if blank (wi_ClusterID i) \<or> blank (wi_NodeID i) then (Inl MissingIdentity, (newWAL i segmentSize, d))
     else if segmentSize \<le> segmentHeaderSize + frameHeaderSize
     then (Inl (SegmentTooSmall segmentSize), (newWAL i segmentSize, d))
     else openSegments i (newWAL i segmentSize, d))"

section \<open>Snapshot checkpoints\<close>

definition visitCovered :: "u64 \<Rightarrow> u8 \<Rightarrow> bytes \<Rightarrow> bool \<Rightarrow> wal_error + bool" where
  "visitCovered snapshotIndex kind payload covered = Inr
    (if kind = recordLogEntries \<or> kind = recordLogEntriesV2 then
       (let width = (if kind = recordLogEntries then 17 else 33);
            whole = filter (\<lambda>c. length c = width) (chunks (length payload) width payload)
        in covered \<and> list_all (\<lambda>c. get_be (take 8 c) \<le> snapshotIndex) whole)
     else if kind = recordLogEntryV3 then
       (if length payload < 8 \<or> get_be (take 8 payload) > snapshotIndex then False else covered)
     else if kind = recordLogTruncation then
       (if length payload \<noteq> 8 \<or> get_be payload > snapshotIndex then False else covered)
     else covered)"

definition segmentCoveredBySnapshot :: "bytes \<Rightarrow> u64 \<Rightarrow> wal_error + bool" where
  "segmentCoveredBySnapshot bs snapshotIndex =
    scanSegmentFrames bs False (visitCovered snapshotIndex) True"

fun removeCovered :: "u64 \<Rightarrow> u64 list \<Rightarrow> unit wal" where
  "removeCovered snapshotIndex [] = returns ()"
| "removeCovered snapshotIndex (n # ns) = (\<lambda>(w, d).
    if n = w_segment w then removeCovered snapshotIndex ns (w, d)
    else case segmentCoveredBySnapshot (contents d n) snapshotIndex of
      Inl e \<Rightarrow> (Inl e, (w, d))
    | Inr covered \<Rightarrow>
        if covered then seq (remove_file n) (removeCovered snapshotIndex ns) (w, d)
        else removeCovered snapshotIndex ns (w, d))"

definition rollbackUnsyncedRecords :: "nat \<Rightarrow> unit wal" where
  "rollbackUnsyncedRecords offset = reads (\<lambda>w.
    seq (truncate_file (w_segment w) offset)
   (seq other_io
   (seq (assigns (\<lambda>w. w\<lparr>w_offset := offset\<rparr>))
        syncActive)))"

text \<open>A failed rollback closes the WAL, so that nothing more is written after the torn records.\<close>

definition rollbackSnapshotTransaction :: "nat \<Rightarrow> wal_error \<Rightarrow> unit wal" where
  "rollbackSnapshotTransaction offset cause = (\<lambda>s.
    case rollbackUnsyncedRecords offset s of
      (Inr _, s) \<Rightarrow> (Inl cause, s)
    | (Inl _, (w, d)) \<Rightarrow> (Inl RollbackFailed, (w\<lparr>w_file := False\<rparr>, d)))"

definition orRollback :: "nat \<Rightarrow> unit wal \<Rightarrow> unit wal" where
  "orRollback offset m = (\<lambda>s.
    case m s of
      (Inl e, s) \<Rightarrow> rollbackSnapshotTransaction offset e s
    | (Inr _, s) \<Rightarrow> (Inr (), s))"

definition checkpointInstalled :: "u64 \<Rightarrow> u64 \<Rightarrow> u64 \<Rightarrow> WAL \<Rightarrow> WAL" where
  "checkpointInstalled snapshotIndex snapshotTerm truncateFrom w =
    (let w = w\<lparr>w_snapshotIndex := snapshotIndex, w_snapshotTerm := snapshotTerm,
               w_retainedThroughIndex := snapshotIndex, w_retainedBytes := 0\<rparr>
     in if truncateFrom \<noteq> 0 then dropEntryBytes truncateFrom w else w)"

definition forgetCompacted :: "u64 \<Rightarrow> WAL \<Rightarrow> WAL" where
  "forgetCompacted snapshotIndex w =
    w\<lparr>w_entryBytes := (\<lambda>i. if i \<le> snapshotIndex then None else w_entryBytes w i)\<rparr>"

definition snapshotTransaction :: "bytes \<Rightarrow> u64 \<Rightarrow> unit wal" where
  "snapshotTransaction payload truncateFrom = reads (\<lambda>w.
    orRollback (w_offset w)
      (seq (appendRecordInSegment recordCompactionCheckpoint payload)
      (seq (if truncateFrom \<noteq> 0
            then appendRecordInSegment recordLogTruncation (putUint64 truncateFrom) else returns ())
           syncActive)))"

definition installSnapshotCheckpoint :: "u64 \<Rightarrow> u64 \<Rightarrow> u64 \<Rightarrow> u64 \<Rightarrow> unit wal" where
  "installSnapshotCheckpoint snapshotIndex snapshotTerm commitIndex truncateFrom = reads (\<lambda>w.
    let payload = marshalCheckpoint
          \<lparr>cc_Identity = w_identity w, cc_HardState = w_hardState w, cc_CommitIndex = commitIndex,
           cc_SnapshotIndex = snapshotIndex, cc_SnapshotTerm = snapshotTerm,
           cc_TruncateFrom = truncateFrom\<rparr>;
        batchSize = recordFrameSize payload
          + (if truncateFrom \<noteq> 0 then recordFrameSize (replicate 8 (char_of (0 :: nat))) else 0)
    in seq (prepareRecordBatch batchSize)
      (seq (snapshotTransaction payload truncateFrom)
      (seq (assigns (checkpointInstalled snapshotIndex snapshotTerm truncateFrom))
      (seq (\<lambda>(w, d). removeCovered snapshotIndex (findSegments d) (w, d))
      (seq other_io
           (assigns (forgetCompacted snapshotIndex)))))))"

definition Compact :: "u64 \<Rightarrow> u64 \<Rightarrow> unit wal" where
  "Compact snapshotIndex snapshotTerm = reads (\<lambda>w.
    check (w_file w) WalClosed
      (check (\<not> (snapshotIndex = 0 \<or> snapshotIndex > w_commitIndex w))
             (SnapshotOutsideCommit snapshotIndex (w_commitIndex w))
        (installSnapshotCheckpoint snapshotIndex snapshotTerm (w_commitIndex w) 0)))"

definition InstallSnapshotWAL :: "u64 \<Rightarrow> u64 \<Rightarrow> bool \<Rightarrow> unit wal" where
  "InstallSnapshotWAL snapshotIndex snapshotTerm retainSuffix = reads (\<lambda>w.
    check (w_file w) WalClosed
      (check (\<not> (snapshotIndex = 0 \<or> snapshotTerm = 0 \<or> snapshotIndex < w_snapshotIndex w))
             (InvalidSnapshotPosition snapshotIndex snapshotTerm)
        (check (\<not> (\<not> retainSuffix \<and> snapshotIndex < w_commitIndex w))
               (DiscardsCommitted snapshotIndex (w_commitIndex w))
          (let truncateFrom = (if \<not> retainSuffix \<and> snapshotIndex < w_lastLogIndex w
                               then add64 snapshotIndex 1 else 0)
           in seq (installSnapshotCheckpoint snapshotIndex snapshotTerm
                     (max (w_commitIndex w) snapshotIndex) truncateFrom)
                  (assigns (\<lambda>w. w\<lparr>w_commitIndex := max (w_commitIndex w) snapshotIndex,
                                 w_lastLogIndex := (if retainSuffix then max (w_lastLogIndex w) snapshotIndex
                                                    else snapshotIndex)\<rparr>))))))"

definition CloseWAL :: "unit wal" where
  "CloseWAL = (\<lambda>(w, d).
    if w_file w then
      (case other_io (w, d) of (r, (w, d)) \<Rightarrow> (r, (w\<lparr>w_file := False\<rparr>, d)))
    else (Inr (), (w, d)))"

end
