(* ===== verification/Wal_Records.thy ===== *)
theory Wal_Records
  imports Wal
begin

text \<open>
  The records of the write-ahead log as values: each payload decodes to what was encoded, and a
  segment of frames replays to the fold of its records, also when its end has been torn off.
\<close>

section \<open>Codecs\<close>

text \<open>
  What recovery relies on for every payload format: decoding inverts encoding on the values that the
  program writes. Two such values with the same bytes are then equal.
\<close>

locale codec =
  fixes encode :: "'a \<Rightarrow> bytes" and decode :: "bytes \<Rightarrow> 'a option" and valid :: "'a \<Rightarrow> bool"
  assumes decode_encode: "valid x \<Longrightarrow> decode (encode x) = Some x"
begin

lemma encode_inj: "valid x \<Longrightarrow> valid y \<Longrightarrow> encode x = encode y \<Longrightarrow> x = y"
  by (metis decode_encode option.inject)

lemma decode_encode_iff: "valid x \<Longrightarrow> decode (encode x) = Some y \<longleftrightarrow> x = y"
  by (auto simp: decode_encode)

end

text \<open>A big-endian counter: the payload of a truncation or a commit record.\<close>

definition decode_u64 :: "bytes \<Rightarrow> u64 option" where
  "decode_u64 bs = (if length bs = 8 then Some (get_be bs) else None)"

interpretation counter: codec "put_be 8" decode_u64 "\<lambda>n. n < W64"
  by unfold_locales (simp add: decode_u64_def W64_bytes)

definition decode_hardState :: "bytes \<Rightarrow> WalHardState option" where
  "decode_hardState bs = (if length bs < 8 then None
     else Some \<lparr>wh_Term = get_be (take 8 bs), wh_VotedFor = drop 8 bs\<rparr>)"

interpretation hardState: codec hardState_payload decode_hardState "\<lambda>h. wh_Term h < W64"
  by unfold_locales (simp add: decode_hardState_def hardState_payload_def W64_bytes)

definition decode_entry :: "bytes \<Rightarrow> WalEntry option" where
  "decode_entry bs = (if length bs < 49 \<or> 49 + get_be (take 4 (drop 41 bs)) + get_be (take 4 (drop 45 bs)) \<noteq> length bs
     then None else Some (entryV3 bs))"

definition entry_ok :: "WalEntry \<Rightarrow> bool" where
  "entry_ok e \<longleftrightarrow> we_Index e < W64 \<and> we_Term e < W64 \<and> we_Type e < 256 \<and> length (we_SessionID e) = 16
     \<and> we_Sequence e < W64 \<and> length (we_Key e) < W32 \<and> length (we_Value e) < W32"

lemma W32_bytes: "W32 = 256 ^ 4"
  by (simp add: W32_def)

lemma entry_payload_length [simp]:
  "length (we_SessionID e) = 16 \<Longrightarrow> length (entry_payload e) = 49 + length (we_Key e) + length (we_Value e)"
  by (simp add: entry_payload_def)

text \<open>The parts of a concatenation of fixed-width fields.\<close>

lemma take_field: "length a = k \<Longrightarrow> take k (a @ b) = a"
  by simp

lemma drop_field: "length a \<le> k \<Longrightarrow> drop k (a @ b) = drop (k - length a) b"
  by simp

lemma decode_entry_payload:
  assumes "entry_ok e"
  shows "decode_entry (entry_payload e) = Some e"
proof -
  have len: "length (we_SessionID e) = 16" using assms by (simp add: entry_ok_def)
  have klen: "take 4 (drop 41 (entry_payload e)) = put_be 4 (length (we_Key e))"
    and vlen: "take 4 (drop 45 (entry_payload e)) = put_be 4 (length (we_Value e))"
    and idx: "take 8 (entry_payload e) = put_be 8 (we_Index e)"
    and trm: "take 8 (drop 8 (entry_payload e)) = put_be 8 (we_Term e)"
    and kind: "entry_payload e ! 16 = char_of (we_Type e)"
    and sid: "take 16 (drop 17 (entry_payload e)) = we_SessionID e"
    and sqn: "take 8 (drop 33 (entry_payload e)) = put_be 8 (we_Sequence e)"
    and kv: "drop 49 (entry_payload e) = we_Key e @ we_Value e"
    using len by (simp_all add: entry_payload_def nth_append)
  have "drop (49 + length (we_Key e)) (entry_payload e) = we_Value e"
    using kv by (metis add.commute append_eq_conv_conj drop_drop)
  then show ?thesis using assms len
    by (simp add: decode_entry_def entryV3_def klen vlen idx trm kind sid sqn kv entry_ok_def W64_bytes W32_bytes)
qed

interpretation entry: codec entry_payload decode_entry entry_ok
  by unfold_locales (rule decode_entry_payload)

definition checkpoint_ok :: "compactionCheckpoint \<Rightarrow> bool" where
  "checkpoint_ok c \<longleftrightarrow> validUTF8 (wi_ClusterID (cc_Identity c)) \<and> validUTF8 (wi_NodeID (cc_Identity c))
     \<and> validUTF8 (wh_VotedFor (cc_HardState c)) \<and> wh_Term (cc_HardState c) < W64 \<and> cc_CommitIndex c < W64
     \<and> cc_SnapshotIndex c < W64 \<and> cc_SnapshotTerm c < W64 \<and> cc_TruncateFrom c < W64"

lemma checkpoint_names:
  "find_field [''ClusterID'', ''NodeID''] ''ClusterID'' = Some 0" "find_field [''ClusterID'', ''NodeID''] ''NodeID'' = Some 1"
  "find_field [''Term'', ''VotedFor''] ''Term'' = Some 0" "find_field [''Term'', ''VotedFor''] ''VotedFor'' = Some 1"
  "find_field [''identity'', ''hard_state'', ''commit_index'', ''snapshot_index'', ''snapshot_term'', ''truncate_from''] ''identity'' = Some 0"
  "find_field [''identity'', ''hard_state'', ''commit_index'', ''snapshot_index'', ''snapshot_term'', ''truncate_from''] ''hard_state'' = Some 1"
  "find_field [''identity'', ''hard_state'', ''commit_index'', ''snapshot_index'', ''snapshot_term'', ''truncate_from''] ''commit_index'' = Some 2"
  "find_field [''identity'', ''hard_state'', ''commit_index'', ''snapshot_index'', ''snapshot_term'', ''truncate_from''] ''snapshot_index'' = Some 3"
  "find_field [''identity'', ''hard_state'', ''commit_index'', ''snapshot_index'', ''snapshot_term'', ''truncate_from''] ''snapshot_term'' = Some 4"
  "find_field [''identity'', ''hard_state'', ''commit_index'', ''snapshot_index'', ''snapshot_term'', ''truncate_from''] ''truncate_from'' = Some 5"
  by (simp_all add: find_field_def)

lemma checkpoint_json_good:
  assumes "checkpoint_ok c"
  shows "good_json (checkpoint_json c)"
proof -
  have names: "validUTF8 ''identity''" "validUTF8 ''ClusterID''" "validUTF8 ''NodeID''" "validUTF8 ''hard_state''"
    "validUTF8 ''Term''" "validUTF8 ''VotedFor''" "validUTF8 ''commit_index''" "validUTF8 ''snapshot_index''"
    "validUTF8 ''snapshot_term''" "validUTF8 ''truncate_from''"
    by (simp_all add: validUTF8_ascii)
  then show ?thesis using assms by (auto simp: checkpoint_ok_def checkpoint_json_def)
qed

lemma unmarshal_marshal_checkpoint:
  assumes "checkpoint_ok c"
  shows "unmarshalCheckpoint (marshalCheckpoint c) = Some c"
proof -
  have parse: "parse_json (marshalCheckpoint c) = Some (checkpoint_json c)"
    unfolding marshalCheckpoint_def by (rule parse_json_render [OF checkpoint_json_good [OF assms]])
  have ident: "to_object identity_field zeroIdentity (JObj [(''ClusterID'', JStr a), (''NodeID'', JStr b)])
      = Some \<lparr>wi_ClusterID = a, wi_NodeID = b\<rparr>" for a b
    by (simp add: to_object_def identity_field_def checkpoint_names to_string_def zeroIdentity_def)
  have hard: "to_object hardState_field zeroHardState (JObj [(''Term'', JNum (decimal t)), (''VotedFor'', JStr b)])
      = Some \<lparr>wh_Term = t, wh_VotedFor = b\<rparr>" if "t < W64" for t b
    using that by (simp add: to_object_def hardState_field_def checkpoint_names to_string_def to_uint_def
      parse_uint_decimal zeroHardState_def)
  have uint: "to_uint W64 old (JNum (decimal t)) = Some t" if "t < W64" for old t
    using that by (simp add: to_uint_def parse_uint_decimal)
  have z: "cc_Identity zeroCheckpoint = zeroIdentity" "cc_HardState zeroCheckpoint = zeroHardState" "cc_TruncateFrom zeroCheckpoint = 0"
    by (simp_all add: zeroCheckpoint_def)
  have "to_object checkpoint_field zeroCheckpoint (checkpoint_json c) = Some c"
    using assms
    by (cases c; cases "cc_Identity c"; cases "cc_HardState c")
      (simp add: checkpoint_json_def to_object_def [of checkpoint_field] checkpoint_field_def
        checkpoint_names ident hard uint checkpoint_ok_def z)
  then show ?thesis by (simp add: unmarshalCheckpoint_def parse)
qed

interpretation checkpoint: codec marshalCheckpoint unmarshalCheckpoint checkpoint_ok
  by unfold_locales (rule unmarshal_marshal_checkpoint)

section \<open>Frames\<close>

type_synonym wal_record = "u8 \<times> bytes"

definition record_ok :: "wal_record \<Rightarrow> bool" where
  "record_ok r \<longleftrightarrow> fst r < 256 \<and> 1 + length (snd r) \<le> maxRecordSize"

definition record_frame :: "wal_record \<Rightarrow> bytes" where
  "record_frame r = frame (fst r) (snd r)"

definition frames :: "wal_record list \<Rightarrow> bytes" where
  "frames rs = concat (map record_frame rs)"

lemma frames_simps [simp]:
  "frames [] = []" "frames (r # rs) = record_frame r @ frames rs" "frames (rs @ ss) = frames rs @ frames ss"
  by (simp_all add: frames_def)

lemma length_record_frame [simp]: "length (record_frame r) = frameHeaderSize + 1 + length (snd r)"
  by (simp add: record_frame_def frame_def frame_body_def frameHeaderSize_def)

lemma maxRecordSize_W32: "maxRecordSize < W32"
  by (simp add: maxRecordSize_def W32_def)

text \<open>The fields that the scanners read from the start of a frame.\<close>

lemma frame_fields:
  assumes "record_ok r"
  shows "get_be (take 4 (record_frame r @ rest)) = 1 + length (snd r)"
    "get_be (take 4 (drop 4 (record_frame r @ rest))) = checksumIEEE (frame_body (fst r) (snd r))"
    "take (1 + length (snd r)) (drop frameHeaderSize (record_frame r @ rest)) = frame_body (fst r) (snd r)"
    "drop (frameHeaderSize + (1 + length (snd r))) (record_frame r @ rest) = rest"
    "of_char (hd (frame_body (fst r) (snd r))) = fst r" "tl (frame_body (fst r) (snd r)) = snd r"
proof -
  have len: "1 + length (snd r) < 256 ^ 4" and crc: "checksumIEEE (frame_body (fst r) (snd r)) < 256 ^ 4"
    using assms maxRecordSize_W32 checksumIEEE_bound [of "frame_body (fst r) (snd r)"]
    unfolding W32_bytes [symmetric] by (auto simp: record_ok_def)
  show "get_be (take 4 (record_frame r @ rest)) = 1 + length (snd r)"
    using get_put_be_id [OF len] by (simp add: record_frame_def frame_def frame_body_def)
  show "get_be (take 4 (drop 4 (record_frame r @ rest))) = checksumIEEE (frame_body (fst r) (snd r))"
    using get_put_be_id [OF crc] by (simp add: record_frame_def frame_def)
  show "take (1 + length (snd r)) (drop frameHeaderSize (record_frame r @ rest)) = frame_body (fst r) (snd r)"
    by (simp add: record_frame_def frame_def frame_body_def frameHeaderSize_def)
  show "drop (frameHeaderSize + (1 + length (snd r))) (record_frame r @ rest) = rest" by simp
  show "of_char (hd (frame_body (fst r) (snd r))) = fst r" "tl (frame_body (fst r) (snd r)) = snd r"
    using assms by (simp_all add: frame_body_def record_ok_def)
qed

lemma readFrames_frame:
  assumes "record_ok r"
  shows "readFrames final off (record_frame r @ rest) st =
    (case applyRecord (fst r) (snd r) st of Inl e \<Rightarrow> Inl e
     | Inr st' \<Rightarrow> readFrames final (off + length (record_frame r)) rest st')"
proof -
  have ne: "record_frame r @ rest \<noteq> []" and len: "\<not> length (record_frame r @ rest) < frameHeaderSize"
    and fit: "\<not> length (record_frame r @ rest) < frameHeaderSize + (1 + length (snd r))"
    and size: "1 + length (snd r) \<noteq> 0" "\<not> 1 + length (snd r) > maxRecordSize"
    using assms by (auto simp: record_frame_def frame_def frame_body_def record_ok_def length_record_frame [symmetric]
      simp del: length_record_frame simp: frameHeaderSize_def)
  show ?thesis
    by (subst readFrames.simps) (simp only: ne len fit size frame_fields [OF assms] Let_def if_False simp_thms refl
      length_record_frame add.assoc)
qed

lemma scanFrames_frame:
  assumes "record_ok r"
  shows "scanFrames tolerate visit off (record_frame r @ rest) x =
    (case visit (fst r) (snd r) x of Inl e \<Rightarrow> Inl e
     | Inr x' \<Rightarrow> scanFrames tolerate visit (off + length (record_frame r)) rest x')"
proof -
  have ne: "record_frame r @ rest \<noteq> []" and len: "\<not> length (record_frame r @ rest) < frameHeaderSize"
    and fit: "\<not> length (record_frame r @ rest) < frameHeaderSize + (1 + length (snd r))"
    and size: "\<not> (1 + length (snd r) = 0 \<or> 1 + length (snd r) > maxRecordSize)"
    using assms by (auto simp: record_frame_def frame_def frame_body_def record_ok_def frameHeaderSize_def)
  show ?thesis
    by (subst scanFrames.simps) (simp only: ne len fit size frame_fields [OF assms] Let_def if_False simp_thms refl
      length_record_frame add.assoc)
qed

fun fold_records :: "(u8 \<Rightarrow> bytes \<Rightarrow> 'a \<Rightarrow> wal_error + 'a) \<Rightarrow> wal_record list \<Rightarrow> 'a \<Rightarrow> wal_error + 'a" where
  "fold_records f [] x = Inr x"
| "fold_records f (r # rs) x = (case f (fst r) (snd r) x of Inl e \<Rightarrow> Inl e | Inr y \<Rightarrow> fold_records f rs y)"

abbreviation replay :: "wal_record list \<Rightarrow> WalState \<Rightarrow> wal_error + WalState" where
  "replay \<equiv> fold_records applyRecord"

lemma fold_records_append:
  "fold_records f (rs @ ss) x = (case fold_records f rs x of Inl e \<Rightarrow> Inl e | Inr y \<Rightarrow> fold_records f ss y)"
  by (induction rs arbitrary: x) (auto split: sum.split)

lemma readFrames_frames:
  assumes "list_all record_ok rs"
  shows "readFrames final off (frames rs @ rest) st =
    (case replay rs st of Inl e \<Rightarrow> Inl e | Inr st' \<Rightarrow> readFrames final (off + length (frames rs)) rest st')"
  using assms by (induction rs arbitrary: off st) (auto simp: readFrames_frame add.assoc split: sum.split)

lemma scanFrames_frames:
  assumes "list_all record_ok rs"
  shows "scanFrames tolerate visit off (frames rs @ rest) x =
    (case fold_records visit rs x of Inl e \<Rightarrow> Inl e | Inr y \<Rightarrow> scanFrames tolerate visit (off + length (frames rs)) rest y)"
  using assms by (induction rs arbitrary: off x) (auto simp: scanFrames_frame add.assoc split: sum.split)

section \<open>Torn tails\<close>

text \<open>What an interrupted append leaves after the last whole frame: a proper prefix of a frame.\<close>

definition torn :: "bytes \<Rightarrow> bool" where
  "torn t \<longleftrightarrow> (\<exists>r j. record_ok r \<and> j < length (record_frame r) \<and> t = take j (record_frame r))"

lemma torn_Nil [simp]: "torn []"
  unfolding torn_def by (intro exI [of _ "(0, [])"] exI [of _ 0]) (simp add: record_ok_def maxRecordSize_def frameHeaderSize_def)

lemma torn_cases:
  assumes "torn t" "t \<noteq> []"
  obtains "length t < frameHeaderSize"
    | len where "frameHeaderSize \<le> length t" "get_be (take 4 t) = len" "0 < len" "len \<le> maxRecordSize" "length t < frameHeaderSize + len"
proof (cases "length t < frameHeaderSize")
  case False
  obtain r j where r: "record_ok r" "j < length (record_frame r)" "t = take j (record_frame r)"
    using assms(1) by (auto simp: torn_def)
  have j: "length t = j" using r by simp
  have "take 4 t = take 4 (record_frame r @ [])" using False j r(3) by (simp add: frameHeaderSize_def min_def)
  then have "get_be (take 4 t) = 1 + length (snd r)" using frame_fields(1) [OF r(1), of "[]"] by simp
  then show ?thesis using that(2) False j r(1,2) by (auto simp: record_ok_def)
qed (use that in simp)

lemma readFrames_Nil [simp]: "readFrames final off [] st = Inr (st, None)"
  by (simp add: readFrames.simps)

lemma scanFrames_Nil [simp]: "scanFrames tolerate visit off [] x = Inr x"
  by (simp add: scanFrames.simps)

lemma readFrames_torn:
  assumes "torn t" "t \<noteq> []"
  shows "readFrames True off t st = Inr (st, Some off)" "\<exists>e. readFrames False off t st = Inl e"
proof -
  show "readFrames True off t st = Inr (st, Some off)"
    using torn_cases [OF assms] assms(2) by cases (subst readFrames.simps, simp add: Let_def)+
  show "\<exists>e. readFrames False off t st = Inl e"
    using torn_cases [OF assms] assms(2) by cases (subst readFrames.simps, simp add: Let_def)+
qed

lemma scanFrames_torn:
  assumes "torn t"
  shows "scanFrames True visit off t x = Inr x"
proof (cases "t = []")
  case False
  show ?thesis using torn_cases [OF assms False] False
    by cases (subst scanFrames.simps, simp add: Let_def)+
qed simp

lemma frames_prefix:
  assumes "list_all record_ok rs" "j \<le> length (frames rs)"
  shows "\<exists>k t. k \<le> length rs \<and> torn t \<and> take j (frames rs) = frames (take k rs) @ t"
  using assms
proof (induction rs arbitrary: j)
  case (Cons r rs)
  show ?case
  proof (cases "j < length (record_frame r)")
    case True
    then have "torn (take j (record_frame r))" using Cons.prems(1)
      unfolding torn_def by (intro exI [of _ r] exI [of _ j]) simp
    then show ?thesis using True by (intro exI [of _ 0] exI [of _ "take j (record_frame r)"]) simp
  next
    case False
    have "list_all record_ok rs" "j - length (record_frame r) \<le> length (frames rs)" using Cons.prems by auto
    then obtain k t where "k \<le> length rs" "torn t" "take (j - length (record_frame r)) (frames rs) = frames (take k rs) @ t"
      using Cons.IH by blast
    then show ?thesis using False by (intro exI [of _ "Suc k"] exI [of _ t]) simp
  qed
qed (auto intro: exI [of _ "[]"])

text \<open>How much of what was written survives a crash that keeps the first \<open>m\<close> records whole.\<close>

lemma frames_prefix_from:
  assumes "list_all record_ok (rs @ new)" "length (frames rs) \<le> j" "j \<le> length (frames (rs @ new))"
  shows "\<exists>k t. k \<le> length new \<and> torn t \<and> take j (frames (rs @ new)) = frames (rs @ take k new) @ t"
proof -
  have "list_all record_ok new" "j - length (frames rs) \<le> length (frames new)" using assms by auto
  then obtain k t where "k \<le> length new" "torn t" "take (j - length (frames rs)) (frames new) = frames (take k new) @ t"
    using frames_prefix by blast
  then show ?thesis using assms(2) by (intro exI [of _ k] exI [of _ t]) simp
qed

section \<open>Damaged records\<close>

lemma length_segmentHeader [simp]: "length segmentHeader = segmentHeaderSize"
  by (simp add: segmentHeader_def segmentHeaderSize_def)

lemma checkHeader_file [simp]: "checkHeader (segmentHeader @ bs) = None"
proof -
  have "get_be (put_be 4 formatVersion) = formatVersion" by (simp add: formatVersion_def)
  then show ?thesis
    by (simp add: checkHeader_def segmentHeader_def segmentHeaderSize_def)
qed

text \<open>A frame in whose body the byte at \<open>j\<close> has been replaced by \<open>c\<close>.\<close>

definition damaged :: "wal_record \<Rightarrow> nat \<Rightarrow> byte \<Rightarrow> bytes" where
  "damaged r j c = take frameHeaderSize (record_frame r) @ (frame_body (fst r) (snd r))[j := c]"

lemma damaged_checksum:
  assumes "j < length body" "c \<noteq> body ! j"
  shows "checksumIEEE (body[j := c]) \<noteq> checksumIEEE body"
proof
  assume "checksumIEEE (body[j := c]) = checksumIEEE body"
  moreover have "body[j := c] = take j body @ c # drop (Suc j) body" "body = take j body @ body ! j # drop (Suc j) body"
    using assms(1) by (simp_all add: upd_conv_take_nth_drop id_take_nth_drop [symmetric])
  ultimately show False using checksumIEEE_single_byte [of "take j body" c "drop (Suc j) body" "body ! j"] assms(2) by metis
qed

lemma readFrames_damaged:
  assumes "record_ok r" "j < length (frame_body (fst r) (snd r))" "c \<noteq> frame_body (fst r) (snd r) ! j"
  shows "readFrames final off (damaged r j c @ rest) st =
    (if final \<and> rest = [] then Inr (st, Some off) else Inl (ChecksumMismatch off))"
proof -
  let ?body = "frame_body (fst r) (snd r)"
  let ?h = "take frameHeaderSize (record_frame r)"
  have split: "record_frame r = ?h @ ?body" and hlen: "length ?h = frameHeaderSize"
    by (simp_all add: record_frame_def frame_def frameHeaderSize_def)
  have body: "length ?body = 1 + length (snd r)" by (simp add: frame_body_def)
  have fields: "get_be (take 4 (damaged r j c @ rest)) = 1 + length (snd r)"
    "get_be (take 4 (drop 4 (damaged r j c @ rest))) = checksumIEEE ?body"
    using frame_fields(1,2) [OF assms(1), of "[]"] hlen by (simp_all add: damaged_def frameHeaderSize_def drop_take)
  have rest: "take (1 + length (snd r)) (drop frameHeaderSize (damaged r j c @ rest)) = ?body[j := c]"
    using hlen body by (simp add: damaged_def)
  have sizes: "damaged r j c @ rest \<noteq> []" "\<not> length (damaged r j c @ rest) < frameHeaderSize"
    "\<not> length (damaged r j c @ rest) < frameHeaderSize + (1 + length (snd r))"
    "frameHeaderSize + (1 + length (snd r)) = length (damaged r j c @ rest) \<longleftrightarrow> rest = []"
    using hlen body by (auto simp: damaged_def frameHeaderSize_def)
  have len: "1 + length (snd r) \<noteq> 0" "\<not> 1 + length (snd r) > maxRecordSize" using assms(1) by (auto simp: record_ok_def)
  show ?thesis
    by (subst readFrames.simps) (simp only: fields rest sizes len Let_def if_False damaged_checksum [OF assms(2,3)] not_False_eq_True if_True)
qed

text \<open>
  C18: A damaged record is never replayed. When one byte of the body of a record in a segment has
  changed, reading the segment replays the records before it and then reports a checksum mismatch at
  the offset of that record; only as the very last record of the newest segment is it taken for an
  interrupted append, whose offset is reported for truncation.
\<close>

theorem damaged_record_is_detected:
  assumes "list_all record_ok (rs @ [r])" "j < length (frame_body (fst r) (snd r))" "c \<noteq> frame_body (fst r) (snd r) ! j"
    "replay rs st = Inr st'"
  shows "readContents (segmentHeader @ frames rs @ damaged r j c @ rest) final st =
    (let offset = segmentHeaderSize + length (frames rs) in
     if final \<and> rest = [] then Inr (st', Some offset) else Inl (ChecksumMismatch offset))"
  using assms readFrames_frames [of rs final segmentHeaderSize "damaged r j c @ rest" st]
  by (simp add: readContents_def readFrames_damaged Let_def)

text \<open>The record of a commit index with a flipped byte, after the identity of the log.\<close>

theorem damaged_record_is_detected_witness:
  "readContents (segmentHeader @ frames [(recordClusterIdentity, ''c'')] @ damaged (recordNodeIdentity, ''n1'') 2 (CHR ''2'') @ [])
     False (seededState zeroCheckpoint) = Inl (ChecksumMismatch 22)"
  using damaged_record_is_detected [of "[(recordClusterIdentity, ''c'')]" "(recordNodeIdentity, ''n1'')" 2 "CHR ''2''"
      "seededState zeroCheckpoint" "(seededState zeroCheckpoint)\<lparr>ws_Identity := \<lparr>wi_ClusterID = ''c'', wi_NodeID = []\<rparr>\<rparr>" "[]" False]
  by (simp add: record_ok_def maxRecordSize_def frame_body_def applyRecord_def applyIdentity_def seededState_def zeroCheckpoint_def
    zeroIdentity_def segmentHeaderSize_def segmentMagic_def frameHeaderSize_def Let_def)

text \<open>
  C19: A log entry is read back as it was written. Replaying the record that \<open>SaveLogEntries\<close> writes
  for an entry whose fields fit gives the replay step exactly that entry: index, term, type, session,
  sequence, key and value.
\<close>

theorem entry_record_roundtrip:
  assumes "entry_ok e"
  shows "applyRecord recordLogEntryV3 (entry_payload e) st = recoverEntry e st"
proof -
  have "decode_entry (entry_payload e) = Some e" by (rule entry.decode_encode [OF assms])
  then show ?thesis by (auto simp: applyRecord_def decode_entry_def applyEntryV3_def Let_def split: if_splits)
qed

definition sample_entry :: "u64 \<Rightarrow> u64 \<Rightarrow> WalEntry" where
  "sample_entry i t = \<lparr>we_Index = i, we_Term = t, we_Type = 1, we_SessionID = ''0123456789abcdef'', we_Sequence = 7,
     we_Key = ''k'', we_Value = ''v''\<rparr>"

lemma sample_entry_ok: "i \<le> 100 \<Longrightarrow> t \<le> 100 \<Longrightarrow> entry_ok (sample_entry i t)"
  using small_less_W64 by (simp add: sample_entry_def entry_ok_def W32_def)

theorem entry_record_roundtrip_witness:
  "entry_ok (sample_entry 1 2) \<and> applyRecord recordLogEntryV3 (entry_payload (sample_entry 1 2)) (seededState zeroCheckpoint)
     = Inr ((seededState zeroCheckpoint)\<lparr>ws_Log := [sample_entry 1 2]\<rparr>)"
proof -
  have "add64 0 1 = 1" using small_less_W64 [of 1] by simp
  then have "recoverEntry (sample_entry 1 2) (seededState zeroCheckpoint) = Inr ((seededState zeroCheckpoint)\<lparr>ws_Log := [sample_entry 1 2]\<rparr>)"
    by (simp add: recoverEntry_def lastRecovered_def seededState_def zeroCheckpoint_def sample_entry_def)
  moreover have "entry_ok (sample_entry 1 2)" by (simp add: sample_entry_ok)
  ultimately show ?thesis using entry_record_roundtrip [of "sample_entry 1 2"] by simp
qed

text \<open>
  C20: A compaction checkpoint survives its JSON encoding: decoding what \<open>json.Marshal\<close> writes gives
  the same identity, Hard State, commit and Snapshot position and truncation index, for all valid
  UTF-8 names and 64-bit values.
\<close>

theorem checkpoint_roundtrip:
  assumes "checkpoint_ok c"
  shows "unmarshalCheckpoint (marshalCheckpoint c) = Some c"
  by (rule checkpoint.decode_encode [OF assms])

definition sample_checkpoint :: compactionCheckpoint where
  "sample_checkpoint = \<lparr>cc_Identity = \<lparr>wi_ClusterID = ''c\"1'', wi_NodeID = ''n1''\<rparr>, cc_HardState = \<lparr>wh_Term = 7, wh_VotedFor = ''n2''\<rparr>,
     cc_CommitIndex = 40, cc_SnapshotIndex = 30, cc_SnapshotTerm = 5, cc_TruncateFrom = 35\<rparr>"

theorem checkpoint_roundtrip_witness:
  "checkpoint_ok sample_checkpoint \<and> unmarshalCheckpoint (marshalCheckpoint sample_checkpoint) = Some sample_checkpoint"
proof -
  have "checkpoint_ok sample_checkpoint"
    by (simp add: checkpoint_ok_def sample_checkpoint_def validUTF8_ascii small_less_W64)
  then show ?thesis using checkpoint_roundtrip [of sample_checkpoint] by simp
qed

end
