(* ===== verification/Wal_Recovery.thy ===== *)
theory Wal_Recovery
  imports Wal_Records
begin

text \<open>
  The files of a write-ahead log as sequences of records, and recovery as a function of those
  records: opening a log whose newest segment may end in a torn frame replays the whole records and
  cuts the torn bytes off.
\<close>

section \<open>Segments on the disk\<close>

definition file_of :: "wal_record list \<Rightarrow> bytes" where
  "file_of rs = segmentHeader @ frames rs"

text \<open>
  The disk holds the segments \<open>old\<close> and then segment \<open>n\<close> with the records \<open>rs\<close> followed by the
  bytes \<open>t\<close>.
\<close>

type_synonym segments = "(u64 \<times> wal_record list) list"

definition on_disk :: "Disk \<Rightarrow> segments \<Rightarrow> u64 \<Rightarrow> wal_record list \<Rightarrow> bytes \<Rightarrow> bool" where
  "on_disk d old n rs t \<longleftrightarrow> sorted_wrt (<) (map fst old @ [n])
     \<and> fset (fmdom (dk_files d)) = insert n (fst ` set old)
     \<and> (\<forall>(m, ss) \<in> set old. list_all record_ok ss \<and> contents d m = file_of ss)
     \<and> list_all record_ok rs \<and> contents d n = file_of rs @ t"

definition records :: "segments \<Rightarrow> wal_record list" where
  "records segs = concat (map snd segs)"

lemma records_simps [simp]:
  "records [] = []" "records (s # segs) = snd s @ records segs" "records (segs @ segs') = records segs @ records segs'"
  by (simp_all add: records_def)

lemma readContents_file:
  assumes "list_all record_ok rs" "torn t"
  shows "readContents (file_of rs @ t) True st =
    (case replay rs st of Inl e \<Rightarrow> Inl e | Inr st' \<Rightarrow> Inr (st', if t = [] then None else Some (length (file_of rs))))"
  using assms by (auto simp: readContents_def file_of_def readFrames_frames readFrames_torn split: sum.split)

lemma readContents_whole:
  assumes "list_all record_ok rs"
  shows "readContents (file_of rs) final st = (case replay rs st of Inl e \<Rightarrow> Inl e | Inr st' \<Rightarrow> Inr (st', None))"
  using readFrames_frames [OF assms, of final segmentHeaderSize "[]" st] by (auto simp: readContents_def file_of_def split: sum.split)

lemma scanSegmentFrames_file:
  assumes "list_all record_ok rs" "torn t"
  shows "scanSegmentFrames (file_of rs @ t) True visit x = fold_records visit rs x"
  using assms by (auto simp: scanSegmentFrames_def file_of_def scanFrames_frames scanFrames_torn split: sum.split)

lemma scanSegmentFrames_whole:
  assumes "list_all record_ok rs"
  shows "scanSegmentFrames (file_of rs) tolerate visit x = fold_records visit rs x"
  using scanFrames_frames [OF assms, of tolerate visit segmentHeaderSize "[]" x]
  by (auto simp: scanSegmentFrames_def file_of_def split: sum.split)

lemma findSegments_sorted:
  assumes "sorted_wrt (<) (map fst old @ [n])" "fset (fmdom (dk_files d)) = insert n (fst ` set old)"
  shows "findSegments d = map fst old @ [n]"
proof -
  have "fset (fmdom (dk_files d)) = set (map fst old @ [n])" using assms(2) by auto
  moreover have "sorted (map fst old @ [n])" "distinct (map fst old @ [n])" using assms(1) unfolding strict_sorted_iff by blast+
  ultimately show ?thesis unfolding findSegments_def sorted_list_of_fset.rep_eq
    using sorted_list_of_set.idem_if_sorted_distinct by metis
qed

lemma findSegments_on_disk: "on_disk d old n rs t \<Longrightarrow> findSegments d = map fst old @ [n]"
  by (intro findSegments_sorted) (auto simp: on_disk_def)

section \<open>Recovery of segments\<close>

lemma newestCheckpoint_old:
  assumes "\<forall>(m, ss) \<in> set old. list_all record_ok ss \<and> contents d m = file_of ss" "rest \<noteq> []"
  shows "newestCheckpointFrom d (map fst old @ rest) c =
    (case fold_records visitCheckpoint (records old) c of Inl e \<Rightarrow> Inl e | Inr c' \<Rightarrow> newestCheckpointFrom d rest c')"
  using assms by (induction old arbitrary: c)
    (auto simp: scanSegmentFrames_whole fold_records_append split: sum.split)

lemma newestCheckpoint_on_disk:
  assumes "on_disk d old n rs t" "torn t"
  shows "newestCheckpointFrom d (map fst old @ [n]) c = fold_records visitCheckpoint (records old @ rs) c"
  using assms newestCheckpoint_old [of old d "[n]" c]
  by (auto simp: on_disk_def scanSegmentFrames_file fold_records_append split: sum.split)

lemma readSegments_old:
  assumes "\<forall>(m, ss) \<in> set old. list_all record_ok ss \<and> contents d m = file_of ss" "rest \<noteq> []"
  shows "readSegments (map fst old @ rest) st (w, d) =
    (case replay (records old) st of Inl e \<Rightarrow> (Inl e, (w, d)) | Inr st' \<Rightarrow> readSegments rest st' (w, d))"
  using assms by (induction old arbitrary: st)
    (auto simp: and_then_def readSegment_def readContents_whole fold_records_append split: sum.split)

text \<open>What replaying a sequence of records gives: the newest checkpoint seeds the replay.\<close>

definition recovered :: "wal_record list \<Rightarrow> wal_error + WalState" where
  "recovered rs =
    (case fold_records visitCheckpoint rs zeroCheckpoint of
       Inl e \<Rightarrow> Inl e
     | Inr c \<Rightarrow> (case replay rs (seededState c) of
         Inl e \<Rightarrow> Inl e
       | Inr st \<Rightarrow> if wi_ClusterID (ws_Identity st) \<noteq> [] \<and> wi_NodeID (ws_Identity st) \<noteq> []
                   then Inr st else Inl IncompleteIdentity))"

text \<open>The disk after the torn end of the last segment has been cut off.\<close>

definition trimmed :: "Disk \<Rightarrow> u64 \<Rightarrow> wal_record list \<Rightarrow> bytes \<Rightarrow> Disk" where
  "trimmed d n rs t = (if t = [] then d
     else (set_contents d n (file_of rs))\<lparr>dk_synced := (dk_synced d)(n \<mapsto> length (file_of rs))\<rparr>)"

lemma contents_set [simp]: "contents (set_contents d n bs) m = (if m = n then bs else contents d m)"
  by (simp add: contents_def set_contents_def)

lemma contents_frame [simp]: "contents (d\<lparr>dk_synced := x\<rparr>) m = contents d m" "contents (d\<lparr>dk_plan := p\<rparr>) m = contents d m"
  by (simp_all add: contents_def)

lemma set_contents_fields [simp]:
  "dk_synced (set_contents d n bs) = dk_synced d" "dk_plan (set_contents d n bs) = dk_plan d"
  "dk_files (set_contents d n bs) = fmupd n bs (dk_files d)"
  by (simp_all add: set_contents_def)

lemma io_call_ok: "dk_plan d = [] \<Longrightarrow> io_call f g (w, d) = (Inr (), (w, f d))"
  by (simp add: io_call_def next_io_def)

lemma seq_ok: "m s = (Inr x, s') \<Longrightarrow> seq m m' s = m' s'"
  by (simp add: seq_def and_then_def)

lemma truncateFinalFrame_ok:
  assumes "dk_plan d = []" "contents d n = file_of rs @ t" "t \<noteq> []"
  shows "truncateFinalFrame n (length (file_of rs)) (w, d) = (Inr (), (w, trimmed d n rs t))"
proof -
  have "truncate_file n (length (file_of rs)) (w, d) = (Inr (), (w, set_contents d n (file_of rs)))"
    using assms by (simp add: truncate_file_def io_call_ok)
  then show ?thesis using assms
    by (simp add: truncateFinalFrame_def seq_ok sync_file_def io_call_ok trimmed_def)
qed

lemma trimmed_on_disk:
  assumes "on_disk d old n rs t"
  shows "on_disk (trimmed d n rs t) old n rs []"
proof -
  have "m \<noteq> n" if "(m, ss) \<in> set old" for m ss
    using assms that by (fastforce simp: on_disk_def sorted_wrt_append)
  then show ?thesis using assms by (force simp: on_disk_def trimmed_def)
qed

lemma readSegments_on_disk:
  assumes "on_disk d old n rs t" "torn t" "dk_plan d = []"
  shows "readSegments (map fst old @ [n]) st (w, d) =
    (case replay (records old @ rs) st of Inl e \<Rightarrow> (Inl e, (w, d)) | Inr st' \<Rightarrow> (Inr st', (w, trimmed d n rs t)))"
proof -
  have old: "\<forall>(m, ss) \<in> set old. list_all record_ok ss \<and> contents d m = file_of ss"
    and rs: "list_all record_ok rs" and t: "contents d n = file_of rs @ t"
    using assms(1) by (auto simp: on_disk_def)
  have "readSegments [n] st' (w, d) =
    (case replay rs st' of Inl e \<Rightarrow> (Inl e, (w, d)) | Inr st'' \<Rightarrow> (Inr st'', (w, trimmed d n rs t)))" for st'
  proof (cases "replay rs st'")
    case (Inl e)
    then show ?thesis using readContents_file [OF rs assms(2), of st'] t
      by (simp add: and_then_def readSegment_def)
  next
    case (Inr st'')
    show ?thesis
    proof (cases "t = []")
      case True
      then show ?thesis using readContents_file [OF rs assms(2), of st'] t Inr
        by (simp add: and_then_def readSegment_def returns_def trimmed_def)
    next
      case False
      then show ?thesis using readContents_file [OF rs assms(2), of st'] t Inr truncateFinalFrame_ok [OF assms(3) t False]
        by (simp add: and_then_def readSegment_def returns_def seq_def)
    qed
  qed
  then show ?thesis using readSegments_old [OF old, of "[n]" st w] by (auto simp: fold_records_append split: sum.split)
qed

lemma recoverSegments_on_disk:
  assumes "on_disk d old n rs t" "torn t" "dk_plan d = []"
  shows "fst (recoverSegments (findSegments d) (w, d)) = recovered (records old @ rs)"
    and "recovered (records old @ rs) = Inr st \<Longrightarrow>
      recoverSegments (findSegments d) (w, d) = (Inr st, (w, trimmed d n rs t))"
  using newestCheckpoint_on_disk [OF assms(1,2)] readSegments_on_disk [OF assms] findSegments_on_disk [OF assms(1)]
  by (auto simp: recoverSegments_def recovered_def newestCompactionCheckpoint_def and_then_def check_def returns_def fails_def
    split: sum.splits if_splits)

definition can_open :: "WalIdentity \<Rightarrow> nat \<Rightarrow> bool" where
  "can_open i limit \<longleftrightarrow> \<not> blank (wi_ClusterID i) \<and> \<not> blank (wi_NodeID i) \<and> segmentHeaderSize + frameHeaderSize < limit"

lemma openWAL_on_disk:
  assumes "on_disk d old n rs t" "torn t" "dk_plan d = []" "can_open i limit"
  shows "recovered (records old @ rs) = Inl e \<Longrightarrow> fst (openWAL i limit d) = Inl e"
    and "recovered (records old @ rs) = Inr st \<Longrightarrow> ws_Identity st \<noteq> i \<Longrightarrow> fst (openWAL i limit d) = Inl IdentityMismatch"
    and "recovered (records old @ rs) = Inr st \<Longrightarrow> ws_Identity st = i \<Longrightarrow>
      openWAL i limit d = (Inr st, (recoveredWAL (newWAL i limit) n (length (file_of rs)) st, trimmed d n rs t))"
proof -
  have ne: "findSegments d \<noteq> []" using findSegments_on_disk [OF assms(1)] by simp
  have open': "openWAL i limit d = openSegments i (newWAL i limit, d)"
    using assms(4) by (auto simp: openWAL_def can_open_def)
  show "fst (openWAL i limit d) = Inl e" if "recovered (records old @ rs) = Inl e"
    using recoverSegments_on_disk(1) [OF assms(1-3), of "newWAL i limit"] ne that open'
    by (cases "recoverSegments (findSegments d) (newWAL i limit, d)") (simp add: openSegments_def and_then_def)
  show "fst (openWAL i limit d) = Inl IdentityMismatch" if "recovered (records old @ rs) = Inr st" "ws_Identity st \<noteq> i"
    using recoverSegments_on_disk(2) [OF assms(1-3) that(1), of "newWAL i limit"] ne that open'
    by (simp add: openSegments_def and_then_def check_def fails_def)
  show "openWAL i limit d = (Inr st, (recoveredWAL (newWAL i limit) n (length (file_of rs)) st, trimmed d n rs t))"
    if "recovered (records old @ rs) = Inr st" "ws_Identity st = i"
  proof -
    have "findSegments (trimmed d n rs t) = map fst old @ [n]" "contents (trimmed d n rs t) n = file_of rs"
      using findSegments_on_disk [OF trimmed_on_disk [OF assms(1)]] trimmed_on_disk [OF assms(1)] by (auto simp: on_disk_def)
    then show ?thesis using recoverSegments_on_disk(2) [OF assms(1-3) that(1), of "newWAL i limit"] ne that open'
      by (simp add: openSegments_def and_then_def check_def Let_def)
  qed
qed

end
