(* ===== verification/Wal_Writes.thy ===== *)
theory Wal_Writes
  imports Wal_Recovery
begin

text \<open>
  What the write path leaves on the disk: appending records, rotating to a new segment and syncing,
  when every I/O call succeeds and when any of them fails at any point.
\<close>

section \<open>Effects of operations\<close>

text \<open>
  Whatever the outcomes of the I/O calls are, the result and the state after \<open>m\<close> satisfy \<open>Q\<close>.
\<close>

definition wp :: "'a wal \<Rightarrow> (wal_error + 'a \<Rightarrow> store \<Rightarrow> bool) \<Rightarrow> store \<Rightarrow> bool" where
  "wp m Q s \<longleftrightarrow> (case m s of (r, s') \<Rightarrow> Q r s')"

text \<open>A disk that differs only in the outcomes to come; when none is scheduled, none will be.\<close>

definition same_disk :: "Disk \<Rightarrow> Disk \<Rightarrow> bool" where
  "same_disk d d' \<longleftrightarrow> dk_files d' = dk_files d \<and> dk_synced d' = dk_synced d \<and> (dk_plan d = [] \<longrightarrow> dk_plan d' = [])"

lemma wp_io:
  assumes "\<And>d'. same_disk d d' \<Longrightarrow> Q (Inr ()) (w, f d')"
    and "\<And>d' k. dk_plan d \<noteq> [] \<Longrightarrow> same_disk d d' \<Longrightarrow> Q (Inl IoError) (w, g k d')"
  shows "wp (io_call f g) Q (w, d)"
proof (cases "dk_plan d")
  case Nil
  then show ?thesis using assms(1) [of d] by (simp add: wp_def io_call_def next_io_def same_disk_def)
next
  case (Cons a as)
  then show ?thesis using assms(1) [of "d\<lparr>dk_plan := as\<rparr>"] assms(2) [of "d\<lparr>dk_plan := as\<rparr>"]
    by (cases a) (auto simp: wp_def io_call_def next_io_def same_disk_def)
qed

lemma wp_seq:
  assumes "wp m (\<lambda>r s'. case r of Inl e \<Rightarrow> Q (Inl e) s' | Inr x \<Rightarrow> wp m' Q s') s"
  shows "wp (seq m m') Q s"
  using assms by (auto simp: wp_def seq_def and_then_def split: prod.splits sum.splits)

lemma wp_mono: "wp m P s \<Longrightarrow> (\<And>r s'. P r s' \<Longrightarrow> Q r s') \<Longrightarrow> wp m Q s"
  by (auto simp: wp_def split: prod.splits)

lemma wp_simps [simp]:
  "wp (returns x) Q s = Q (Inr x) s" "wp (fails e) Q s = Q (Inl e) s"
  "wp (reads h) Q (w, d) = wp (h w) Q (w, d)"
  "wp (check b e m) Q s = (if b then wp m Q s else Q (Inl e) s)"
  by (auto simp: wp_def returns_def fails_def reads_def check_def)

lemma wp_assigns [simp]: "wp (assigns f) Q (w, d) = Q (Inr ()) (f w, d)"
  by (auto simp: wp_def assigns_def)

section \<open>States of a log that is being written\<close>

definition synced_to :: "Disk \<Rightarrow> u64 \<Rightarrow> nat \<Rightarrow> bool" where
  "synced_to d n k \<longleftrightarrow> (\<exists>x. dk_synced d n = Some x \<and> k \<le> x)"

definition old_synced :: "Disk \<Rightarrow> segments \<Rightarrow> bool" where
  "old_synced d old \<longleftrightarrow> (\<forall>(m, ss) \<in> set old. synced_to d m (length (file_of ss)))"

text \<open>Records that continue \<open>R\<close> with a part of \<open>new\<close>.\<close>

definition grown :: "wal_record list \<Rightarrow> wal_record list \<Rightarrow> wal_record list \<Rightarrow> bool" where
  "grown R new rs \<longleftrightarrow> (\<exists>k \<le> length new. rs = R @ take k new)"

lemma grown_later: "grown R new rs \<Longrightarrow> grown R (new @ later) rs"
  unfolding grown_def by (metis le_add1 le_trans length_append take_append append_Nil2 diff_is_0_eq take0)

lemma grown_all [simp]: "grown R new (R @ new)"
  by (auto simp: grown_def)

text \<open>The disk holds \<open>R\<close> synced and then a part of \<open>new\<close>, perhaps with a torn end.\<close>

definition whole_header :: "Disk \<Rightarrow> wal_record list \<Rightarrow> wal_record list \<Rightarrow> bool" where
  "whole_header d R new \<longleftrightarrow> (\<exists>old n rs t b. on_disk d old n rs t \<and> torn t \<and> old_synced d old
     \<and> synced_to d n (length (file_of (take b rs))) \<and> b \<le> length rs
     \<and> grown R new (records old @ rs) \<and> length R \<le> length (records old) + b)"

text \<open>The disk holds \<open>R\<close> and a part of \<open>new\<close>, and a new segment whose header is being written.\<close>

definition headless :: "Disk \<Rightarrow> wal_record list \<Rightarrow> wal_record list \<Rightarrow> bool" where
  "headless d R new \<longleftrightarrow> (\<exists>old n. sorted_wrt (<) (map fst old @ [n]) \<and> old \<noteq> []
     \<and> fset (fmdom (dk_files d)) = insert n (fst ` set old)
     \<and> (\<forall>(m, ss) \<in> set old. list_all record_ok ss \<and> contents d m = file_of ss) \<and> old_synced d old
     \<and> (\<exists>j. contents d n = take j segmentHeader)
     \<and> grown R new (records old))"

definition leftover :: "Disk \<Rightarrow> wal_record list \<Rightarrow> wal_record list \<Rightarrow> bool" where
  "leftover d R new \<longleftrightarrow> whole_header d R new \<or> headless d R new"

text \<open>
  An open log: the struct agrees with the disk, \<open>R\<close> is on synced storage and \<open>new\<close> follows it.
\<close>

definition writing :: "store \<Rightarrow> wal_record list \<Rightarrow> wal_record list \<Rightarrow> bool" where
  "writing s R new \<longleftrightarrow> (case s of (w, d) \<Rightarrow> w_file w \<and> (\<exists>old rs b. on_disk d old (w_segment w) rs [] \<and> old_synced d old
     \<and> synced_to d (w_segment w) (length (file_of (take b rs))) \<and> b \<le> length rs \<and> w_offset w = length (file_of rs)
     \<and> records old @ rs = R @ new \<and> length R \<le> length (records old) + b))"

definition moved :: "nat \<Rightarrow> WAL \<Rightarrow> WAL \<Rightarrow> bool" where
  "moved j w w' \<longleftrightarrow> (\<exists>n off. w' = w\<lparr>w_segment := n, w_offset := off, w_file := True\<rparr>) \<and> w_segment w' \<le> w_segment w + j"

lemma leftover_more: "leftover d R new \<Longrightarrow> leftover d R (new @ later)"
  unfolding leftover_def whole_header_def headless_def using grown_later by blast

lemma writing_leftover: "writing (w, d) R new \<Longrightarrow> leftover d R (new @ later)"
proof -
  assume "writing (w, d) R new"
  then obtain old rs b where *: "on_disk d old (w_segment w) rs []" "old_synced d old"
    "synced_to d (w_segment w) (length (file_of (take b rs)))" "b \<le> length rs" "records old @ rs = R @ new"
    "length R \<le> length (records old) + b"
    by (auto simp: writing_def)
  then have "whole_header d R new" unfolding whole_header_def
    by (intro exI [of _ old] exI [of _ "w_segment w"] exI [of _ rs] exI [of _ "[]"] exI [of _ b]) simp
  then show ?thesis using leftover_more by (auto simp: leftover_def)
qed

lemma same_disk_contents: "same_disk d d' \<Longrightarrow> contents d' m = contents d m"
  by (simp add: same_disk_def contents_def)

lemma on_disk_same: "same_disk d d' \<Longrightarrow> on_disk d' old n rs t = on_disk d old n rs t"
  by (simp add: on_disk_def same_disk_contents) (simp add: same_disk_def)

lemma synced_same: "same_disk d d' \<Longrightarrow> synced_to d' n k = synced_to d n k" "same_disk d d' \<Longrightarrow> old_synced d' old = old_synced d old"
  by (simp_all add: synced_to_def old_synced_def same_disk_def)

lemma writing_same: "same_disk d d' \<Longrightarrow> writing (w, d') R new = writing (w, d) R new"
  by (simp add: writing_def on_disk_same synced_same)

lemma on_disk_append:
  assumes "on_disk d old n rs t" "list_all record_ok rs'" "file_of rs' @ t' = file_of rs @ t @ bs"
  shows "on_disk (set_contents d n (contents d n @ bs)) old n rs' t'"
proof -
  have "m \<noteq> n" if "(m, ss) \<in> set old" for m ss
    using assms that by (fastforce simp: on_disk_def sorted_wrt_append)
  then show ?thesis using assms by (force simp: on_disk_def)
qed

lemma synced_set [simp]:
  "synced_to (set_contents d m bs) n k = synced_to d n k" "old_synced (set_contents d m bs) old = old_synced d old"
  by (simp_all add: synced_to_def old_synced_def)

section \<open>Appending records\<close>

definition stepped :: "nat \<Rightarrow> store \<Rightarrow> wal_record list \<Rightarrow> wal_record list \<Rightarrow> wal_error + 'a \<Rightarrow> store \<Rightarrow> bool" where
  "stepped j s R new res s' \<longleftrightarrow>
    (case res of Inr _ \<Rightarrow> writing s' R new \<and> moved j (fst s) (fst s') | Inl _ \<Rightarrow> leftover (snd s') R new)
    \<and> (dk_plan (snd s) = [] \<longrightarrow> (\<exists>x. res = Inr x) \<and> dk_plan (snd s') = [])"

lemma same_disk_plan: "same_disk d d' \<Longrightarrow> dk_plan d = [] \<Longrightarrow> dk_plan d' = []"
  by (simp add: same_disk_def)

lemma file_of_snoc: "file_of (rs @ [r]) = file_of rs @ record_frame r"
  by (simp add: file_of_def)

lemma leftoverI:
  assumes "on_disk d old n rs t" "torn t" "old_synced d old" "synced_to d n (length (file_of (take b rs)))" "b \<le> length rs"
    "grown R new (records old @ rs)" "length R \<le> length (records old) + b"
  shows "leftover d R new"
  unfolding leftover_def whole_header_def using assms by blast

lemma take_frame_torn:
  assumes "record_ok r" "bs @ cs = record_frame r" "cs \<noteq> []"
  shows "torn bs"
proof -
  have "bs = take (length bs) (record_frame r)" using assms(2) by (metis append_eq_conv_conj)
  moreover have "length bs < length (record_frame r)" using assms(2,3) by (metis length_append length_greater_0_conv less_add_same_cancel1)
  ultimately show ?thesis unfolding torn_def using assms(1) by blast
qed

lemma frame_parts:
  "record_frame r = (putUint32 (length (frame_body (fst r) (snd r))) @ putUint32 (checksumIEEE (frame_body (fst r) (snd r))))
     @ frame_body (fst r) (snd r)"
  by (simp add: record_frame_def frame_def)

lemma appendRecordInSegment_wp:
  assumes "writing (w, d) R new" "record_ok r"
  shows "wp (appendRecordInSegment (fst r) (snd r)) (stepped 0 (w, d) R (new @ [r])) (w, d)"
proof -
  obtain old rs b where *: "w_file w" "on_disk d old (w_segment w) rs []" "old_synced d old"
    "synced_to d (w_segment w) (length (file_of (take b rs)))" "b \<le> length rs" "w_offset w = length (file_of rs)"
    "records old @ rs = R @ new" "length R \<le> length (records old) + b"
    using assms(1) by (auto simp: writing_def)
  define n where "n = w_segment w"
  define body where "body = frame_body (fst r) (snd r)"
  define h where "h = putUint32 (length body) @ putUint32 (checksumIEEE body)"
  have frame: "record_frame r = h @ body" by (simp add: frame_parts h_def body_def)
  have rs: "list_all record_ok rs" using *(2) by (simp add: on_disk_def)
  have lens: "length h = frameHeaderSize" "body \<noteq> []" "length body \<le> maxRecordSize"
    using assms(2) by (simp_all add: h_def body_def frameHeaderSize_def frame_body_def record_ok_def)
  have grown: "grown R (new @ [r]) (records old @ rs)" unfolding *(7) by (rule grown_later [OF grown_all])
  have "records old @ (rs @ [r]) = R @ (new @ [r])" using *(7) by (metis append.assoc)
  then have all: "grown R (new @ [r]) (records old @ (rs @ [r]))" using grown_all by metis
  have first_fail: "leftover (set_contents d1 n (contents d1 n @ take k h)) R (new @ [r])" if "same_disk d d1" for d1 k
  proof -
    have "torn (take k h)"
    proof (rule take_frame_torn [OF assms(2)])
      show "take k h @ (drop k h @ body) = record_frame r" using frame by (simp add: append_assoc [symmetric])
    qed (use lens in simp)
    then show ?thesis using that *(2-5,8) rs grown n_def
      by (intro leftoverI [OF on_disk_append [where t = "[]" and rs = rs and old = old and rs' = rs and t' = "take k h"]])
        (auto simp: on_disk_same synced_same)
  qed
  let ?d2 = "\<lambda>d1. set_contents d1 n (contents d1 n @ h)"
  have mid: "on_disk (?d2 d1) old n rs h" "old_synced (?d2 d1) old" "synced_to (?d2 d1) n (length (file_of (take b rs)))"
    if "same_disk d d1" for d1
    using that *(2-4) rs n_def
    by (auto intro!: on_disk_append [where t = "[]" and rs = rs] simp: on_disk_same synced_same)
  have second_fail: "leftover (set_contents d2 n (contents d2 n @ take k body)) R (new @ [r])"
    if "same_disk d d1" "same_disk (?d2 d1) d2" for d1 d2 k
  proof (cases "k < length body")
    case True
    have "torn (h @ take k body)"
    proof (rule take_frame_torn [OF assms(2)])
      show "(h @ take k body) @ drop k body = record_frame r" using frame by simp
    qed (use True in simp)
    then show ?thesis using mid [OF that(1)] that(2) *(5,8) rs grown
      by (intro leftoverI [OF on_disk_append [where t = h and rs = rs and old = old and rs' = rs and t' = "h @ take k body"]])
        (auto simp: on_disk_same synced_same)
  next
    case False
    then show ?thesis using mid [OF that(1)] that(2) *(5,8) rs all assms(2) frame
      by (intro leftoverI [where b = b, OF on_disk_append [where t = h and rs = rs and old = old and rs' = "rs @ [r]" and t' = "[]"]])
        (auto simp: on_disk_same synced_same file_of_snoc)
  qed
  have ok: "writing (w\<lparr>w_offset := w_offset w + frameHeaderSize + length body\<rparr>, set_contents d2 n (contents d2 n @ body)) R (new @ [r])"
    if "same_disk d d1" "same_disk (?d2 d1) d2" for d1 d2
  proof -
    have "on_disk (set_contents d2 n (contents d2 n @ body)) old n (rs @ [r]) []"
      using mid [OF that(1)] that(2) rs assms(2) frame
      by (intro on_disk_append [where t = h and rs = rs]) (auto simp: on_disk_same file_of_snoc)
    moreover have "w_offset w + frameHeaderSize + length body = length (file_of (rs @ [r]))"
      using *(6) lens frame by (simp add: file_of_snoc)
    ultimately show ?thesis using mid(2,3) [OF that(1)] that(2) *(1,5,7,8) n_def
      unfolding writing_def by (auto simp: synced_same intro!: exI [of _ old] exI [of _ "rs @ [r]"] exI [of _ b])
  qed
  have "moved 0 w (w\<lparr>w_offset := off\<rparr>)" for off
    unfolding moved_def using *(1) by (intro conjI exI [of _ "w_segment w"] exI [of _ off]) simp_all
  then show ?thesis
    unfolding appendRecordInSegment_def Let_def write_file_def body_def [symmetric] h_def [symmetric]
    using lens(3) first_fail second_fail ok
    by (auto simp: stepped_def n_def [symmetric] dest: same_disk_plan intro!: wp_seq wp_io)
      (metis same_disk_plan set_contents_fields(2))+
qed

section \<open>Syncing and new segments\<close>

lemma on_disk_frame [simp]:
  "on_disk (d\<lparr>dk_synced := x\<rparr>) old n rs t = on_disk d old n rs t" "on_disk (d\<lparr>dk_plan := p\<rparr>) old n rs t = on_disk d old n rs t"
  by (simp_all add: on_disk_def)

lemma synced_upd:
  "old_synced d old \<Longrightarrow> (\<forall>(m, ss) \<in> set old. m \<noteq> n) \<Longrightarrow> old_synced (d\<lparr>dk_synced := (dk_synced d)(n \<mapsto> k)\<rparr>) old"
  "synced_to (d\<lparr>dk_synced := (dk_synced d)(n \<mapsto> k)\<rparr>) n j = (j \<le> k)"
  by (force simp: old_synced_def synced_to_def)+

lemma on_disk_fresh: "on_disk d old n rs t \<Longrightarrow> \<forall>(m, ss) \<in> set old. m < n"
  by (fastforce simp: on_disk_def sorted_wrt_append)

text \<open>After the sync everything that has been written is durable.\<close>

lemma syncActive_wp:
  assumes "writing (w, d) R new"
  shows "wp syncActive (\<lambda>res s'.
    (case res of Inr _ \<Rightarrow> writing s' (R @ new) [] \<and> fst s' = w | Inl _ \<Rightarrow> leftover (snd s') R new)
    \<and> (dk_plan d = [] \<longrightarrow> (\<exists>x. res = Inr x) \<and> dk_plan (snd s') = [])) (w, d)"
proof -
  obtain old rs b where *: "w_file w" "on_disk d old (w_segment w) rs []" "old_synced d old"
    "synced_to d (w_segment w) (length (file_of (take b rs)))" "b \<le> length rs" "w_offset w = length (file_of rs)"
    "records old @ rs = R @ new" "length R \<le> length (records old) + b"
    using assms(1) by (auto simp: writing_def)
  have fresh: "\<forall>(m, ss) \<in> set old. m \<noteq> w_segment w" using on_disk_fresh [OF *(2)] by fastforce
  have "writing (w, d1\<lparr>dk_synced := (dk_synced d1)(w_segment w \<mapsto> length (contents d1 (w_segment w)))\<rparr>) (R @ new) []"
    if "same_disk d d1" for d1
  proof -
    have "contents d1 (w_segment w) = file_of rs" using *(2) that by (simp add: same_disk_contents on_disk_def)
    moreover have "length (R @ new) = length (records old) + length rs" using *(7) by (metis length_append)
    ultimately show ?thesis using * that fresh unfolding writing_def
      by (auto simp: synced_upd on_disk_same synced_same intro!: exI [of _ old] exI [of _ rs] exI [of _ "length rs"])
  qed
  moreover have "leftover d1 R new" if "same_disk d d1" for d1
    using writing_leftover [of w d1 R new "[]"] assms writing_same [OF that] by simp
  ultimately show ?thesis unfolding syncActive_def sync_file_def
    by (auto dest: same_disk_plan intro!: wp_io)
qed

lemma writingI:
  assumes "w_file w" "on_disk d old (w_segment w) rs []" "old_synced d old"
    "synced_to d (w_segment w) (length (file_of (take b rs)))" "b \<le> length rs" "w_offset w = length (file_of rs)"
    "records old @ rs = R @ new" "length R \<le> length (records old) + b"
  shows "writing (w, d) R new"
  unfolding writing_def prod.case using assms by blast

lemma writingE:
  assumes "writing (w, d) R new"
  obtains old rs b where "w_file w" "on_disk d old (w_segment w) rs []" "old_synced d old"
    "synced_to d (w_segment w) (length (file_of (take b rs)))" "b \<le> length rs" "w_offset w = length (file_of rs)"
    "records old @ rs = R @ new" "length R \<le> length (records old) + b"
  using assms unfolding writing_def prod.case by blast

lemma writing_synced: "writing (w, d) (R @ new) [] \<Longrightarrow> writing (w, d) R new"
  by (erule writingE) (rule writingI, auto)

lemma headlessI:
  assumes "on_disk d old n rs []" "old_synced d old" "synced_to d n (length (file_of rs))" "grown R new (records old @ rs)"
    "fset (fmdom (dk_files d')) = insert (Suc n) (fset (fmdom (dk_files d)))"
    "\<And>m. m \<noteq> Suc n \<Longrightarrow> contents d' m = contents d m" "\<And>m. m \<noteq> Suc n \<Longrightarrow> dk_synced d' m = dk_synced d m"
    "contents d' (Suc n) = take j segmentHeader"
  shows "headless d' R new"
proof -
  let ?old = "old @ [(n, rs)]"
  have lt: "\<forall>(m, ss) \<in> set ?old. m < Suc n" using on_disk_fresh [OF assms(1)] by fastforce
  have "sorted_wrt (<) (map fst ?old @ [Suc n])"
    using assms(1) lt by (fastforce simp: on_disk_def sorted_wrt_append)
  moreover have "fset (fmdom (dk_files d')) = insert (Suc n) (fst ` set ?old)"
    using assms(1,5) by (auto simp: on_disk_def)
  moreover have "\<forall>(m, ss) \<in> set ?old. list_all record_ok ss \<and> contents d' m = file_of ss"
    using assms(1) assms(6) lt unfolding on_disk_def by fastforce
  moreover have "old_synced d' ?old"
    using assms(2,3,7) lt by (fastforce simp: old_synced_def synced_to_def)
  ultimately show ?thesis using assms(4,8) unfolding headless_def
    by (intro exI [of _ ?old] exI [of _ "Suc n"]) auto
qed

lemma createNewSegment_wp:
  assumes "on_disk d old n rs []" "old_synced d old" "synced_to d n (length (file_of rs))" "records old @ rs = R @ new"
  shows "wp (createNewSegment (Suc n)) (\<lambda>res s'.
    (case res of Inr _ \<Rightarrow> writing s' R new \<and> fst s' = w\<lparr>w_segment := Suc n, w_file := True, w_offset := segmentHeaderSize\<rparr>
      | Inl _ \<Rightarrow> leftover (snd s') R new)
    \<and> (dk_plan d = [] \<longrightarrow> (\<exists>x. res = Inr x) \<and> dk_plan (snd s') = [])) (w, d)"
proof -
  have new: "Suc n |\<notin>| fmdom (dk_files d)" using on_disk_fresh [OF assms(1)] assms(1) by (fastforce simp: on_disk_def)
  have grown: "grown R new (records old @ rs)" unfolding assms(4) by simp
  have keep: "leftover d' R new" if "same_disk d d'" for d'
    using that assms grown leftoverI [of d' old n rs "[]" "length rs" R new]
    by (simp add: on_disk_same synced_same)
      (metis length_append le_add1)
  define H where "H d' \<longleftrightarrow> fset (fmdom (dk_files d')) = insert (Suc n) (fset (fmdom (dk_files d)))
    \<and> (\<forall>m. m \<noteq> Suc n \<longrightarrow> contents d' m = contents d m \<and> dk_synced d' m = dk_synced d m)" for d'
  have H: "leftover d' R new" if "H d'" "contents d' (Suc n) = take j segmentHeader" for d' j
    using that headlessI [OF assms(1-3) grown] by (auto simp: H_def leftover_def)
  have H_same: "H d'' = H d'" if "same_disk d' d''" for d' d'' using that by (simp add: H_def same_disk_contents) (simp add: same_disk_def)
  have H_set: "H (set_contents d' (Suc n) bs)" if "H d' \<or> same_disk d d'" for d' bs
    using that by (auto simp: H_def same_disk_contents) (auto simp: same_disk_def)
  have H_sync: "H (d'\<lparr>dk_synced := (dk_synced d')(Suc n \<mapsto> k)\<rparr>) = H d'" for d' k by (auto simp: H_def)
  have finish: "writing (w\<lparr>w_segment := Suc n, w_file := True, w_offset := segmentHeaderSize\<rparr>, d') R new"
    if "H d'" "contents d' (Suc n) = segmentHeader" "synced_to d' (Suc n) segmentHeaderSize" for d'
  proof -
    let ?old = "old @ [(n, rs)]"
    have lt: "\<forall>(m, ss) \<in> set ?old. m < Suc n" using on_disk_fresh [OF assms(1)] by fastforce
    have "on_disk d' ?old (Suc n) [] []"
      using assms(1) that(1,2) lt by (fastforce simp: on_disk_def H_def sorted_wrt_append file_of_def)
    moreover have "old_synced d' ?old"
      using assms(2,3) that(1) lt by (fastforce simp: old_synced_def synced_to_def H_def)
    moreover have "length R \<le> length (records ?old)" using assms(4) by (metis le_add1 length_append records_simps append_Nil2 snd_conv)
    ultimately show ?thesis using that(3) assms(4)
      by (intro writingI [where old = ?old and rs = "[]" and b = 0]) (simp_all add: file_of_def)
  qed
  have wp_new: "wp (createNewSegment (Suc n)) Q (w, d) = wp (createSegment (Suc n)) Q (w, d)" for Q
    using new by (simp add: wp_def createNewSegment_def)
  define Q :: "wal_error + unit \<Rightarrow> store \<Rightarrow> bool" where "Q res s' \<longleftrightarrow>
    (case res of Inr _ \<Rightarrow> writing s' R new \<and> fst s' = w\<lparr>w_segment := Suc n, w_file := True, w_offset := segmentHeaderSize\<rparr>
      | Inl _ \<Rightarrow> leftover (snd s') R new)
    \<and> (dk_plan d = [] \<longrightarrow> (\<exists>x. res = Inr x) \<and> dk_plan (snd s') = [])" for res s'
  define calm :: "Disk \<Rightarrow> bool" where "calm d' \<longleftrightarrow> (dk_plan d = [] \<longrightarrow> dk_plan d' = [])" for d'
  have Q_fail: "Q (Inl e) (w', d')" if "leftover d' R new" "calm d1" "dk_plan d1 \<noteq> []" for e w' d' d1
    using that by (auto simp: Q_def calm_def)
  have calm_same: "calm d''" if "calm d'" "same_disk d' d''" for d' d''
    using that by (simp add: calm_def same_disk_def)
  have calm_upd: "calm (set_contents d' m bs) = calm d'" "calm (d'\<lparr>dk_synced := x\<rparr>) = calm d'" for d' m bs x
    by (simp_all add: calm_def)
  have s3: "wp (seq other_io (assigns (\<lambda>w. w\<lparr>w_segment := Suc n, w_file := True, w_offset := segmentHeaderSize\<rparr>))) Q (w, d')"
    if "H d'" "contents d' (Suc n) = segmentHeader" "synced_to d' (Suc n) segmentHeaderSize" "calm d'" for d'
    unfolding other_io_def
  proof (rule wp_seq, rule wp_io)
    fix d'' assume "same_disk d' d''"
    with that finish [of d''] show "case Inr () of Inl e \<Rightarrow> Q (Inl e) (w, d'')
      | Inr x \<Rightarrow> wp (assigns (\<lambda>w. w\<lparr>w_segment := Suc n, w_file := True, w_offset := segmentHeaderSize\<rparr>)) Q (w, d'')"
      using calm_same [of d' d''] by (simp add: Q_def calm_def H_same same_disk_contents synced_same)
  next
    fix d'' and k :: nat assume "dk_plan d' \<noteq> []" "same_disk d' d''"
    with that H [of d'' segmentHeaderSize] show "case Inl IoError of Inl e \<Rightarrow> Q (Inl e) (w, d'')
      | Inr x \<Rightarrow> wp (assigns (\<lambda>w. w\<lparr>w_segment := Suc n, w_file := True, w_offset := segmentHeaderSize\<rparr>)) Q (w, d'')"
      by (auto intro!: Q_fail simp: H_same same_disk_contents)
  qed
  have s2: "wp (seq (sync_file (Suc n)) (seq other_io (assigns (\<lambda>w. w\<lparr>w_segment := Suc n, w_file := True, w_offset := segmentHeaderSize\<rparr>)))) Q (w, d')"
    if "H d'" "contents d' (Suc n) = segmentHeader" "calm d'" for d'
    unfolding sync_file_def using that H [where j = segmentHeaderSize]
    by (intro wp_seq [of "io_call _ _"] wp_io) (auto intro!: s3 Q_fail intro: calm_same simp: calm_upd H_same H_sync same_disk_contents synced_upd)
  have s1: "wp (seq (write_file (Suc n) segmentHeader) (seq (sync_file (Suc n)) (seq other_io
      (assigns (\<lambda>w. w\<lparr>w_segment := Suc n, w_file := True, w_offset := segmentHeaderSize\<rparr>))))) Q (w, d')"
    if "H d'" "contents d' (Suc n) = []" "calm d'" for d'
    unfolding write_file_def using that
    by (intro wp_seq [of "io_call _ _"] wp_io) (auto intro!: s2 H H_set Q_fail intro: calm_same simp: calm_upd H_same same_disk_contents)
  have "calm d" by (simp add: calm_def)
  have "wp (createNewSegment (Suc n)) Q (w, d)" unfolding wp_new createSegment_def using keep
    by (intro wp_seq [of "io_call _ _"] wp_io) (auto intro!: s1 H_set Q_fail [OF _ \<open>calm d\<close>] intro: calm_same [OF \<open>calm d\<close>] simp: calm_upd)
  then show ?thesis by (rule wp_mono) (simp add: Q_def)
qed

lemma leftover_synced: "leftover d (R @ new) [] \<Longrightarrow> leftover d R new"
  unfolding leftover_def whole_header_def headless_def
  by (elim disjE exE; elim conjE) (simp_all add: grown_def, (metis (no_types, lifting) add_leD1 order_refl take_all)+)

lemma writing_fullE:
  assumes "writing (w, d) R []"
  obtains old rs where "w_file w" "on_disk d old (w_segment w) rs []" "old_synced d old"
    "synced_to d (w_segment w) (length (file_of rs))" "w_offset w = length (file_of rs)" "records old @ rs = R"
proof -
  obtain old rs b where *: "w_file w" "on_disk d old (w_segment w) rs []" "old_synced d old"
    "synced_to d (w_segment w) (length (file_of (take b rs)))" "b \<le> length rs" "w_offset w = length (file_of rs)"
    "records old @ rs = R @ []" "length R \<le> length (records old) + b"
    using assms by (rule writingE)
  have "b = length rs" using *(5,7,8) by auto
  then show thesis using that * by simp
qed

definition leaves :: "Disk \<Rightarrow> wal_record list \<Rightarrow> wal_record list \<Rightarrow> (WAL \<Rightarrow> Disk \<Rightarrow> bool) \<Rightarrow> wal_error + 'a \<Rightarrow> store \<Rightarrow> bool" where
  "leaves d R new P res s' \<longleftrightarrow>
    (case res of Inr _ \<Rightarrow> P (fst s') (snd s') | Inl _ \<Rightarrow> leftover (snd s') R new)
    \<and> (dk_plan d = [] \<longrightarrow> (\<exists>x. res = Inr x) \<and> dk_plan (snd s') = [])"

text \<open>Two statements one after the other: the second starts where the first ends.\<close>

lemma leaves_seq:
  assumes "wp m (leaves d R new P) (w, d)"
    and "\<And>w1 d1. P w1 d1 \<Longrightarrow> (dk_plan d = [] \<Longrightarrow> dk_plan d1 = []) \<Longrightarrow> wp m' (leaves d1 R new P') (w1, d1)"
  shows "wp (seq m m') (leaves d R new P') (w, d)"
proof (rule wp_seq, rule wp_mono [OF assms(1)])
  fix r s' assume *: "leaves d R new P r s'"
  obtain w1 d1 where s': "s' = (w1, d1)" by (cases s')
  show "case r of Inl e \<Rightarrow> leaves d R new P' (Inl e) s' | Inr x \<Rightarrow> wp m' (leaves d R new P') s'"
  proof (cases r)
    case (Inl e)
    then show ?thesis using * by (simp add: leaves_def)
  next
    case (Inr x)
    with * s' have "P w1 d1" "dk_plan d = [] \<Longrightarrow> dk_plan d1 = []" by (simp_all add: leaves_def)
    then show ?thesis using assms(2) [of w1 d1] Inr s'
      by (auto intro: wp_mono simp: leaves_def split: sum.splits)
  qed
qed

lemma leaves_mono:
  assumes "wp m (leaves d R new P) (w, d)" "\<And>w1 d1. P w1 d1 \<Longrightarrow> P' w1 d1" "\<And>d'. leftover d' R new \<Longrightarrow> leftover d' R' new'"
  shows "wp m (leaves d R' new' P') (w, d)"
  using assms(1) by (rule wp_mono) (use assms(2,3) in \<open>auto simp: leaves_def split: sum.splits\<close>)

lemma leaves_assigns: "P (f w) d \<Longrightarrow> wp (assigns f) (leaves d R new P) (w, d)"
  by (simp add: leaves_def)

lemma other_io_leaves:
  assumes "\<And>d'. same_disk d d' \<Longrightarrow> P w d'" "\<And>d'. same_disk d d' \<Longrightarrow> leftover d' R new"
  shows "wp other_io (leaves d R new P) (w, d)"
  unfolding other_io_def using assms by (intro wp_io) (auto simp: leaves_def same_disk_plan)

lemma sync_leaves:
  assumes "writing (w, d) R new"
  shows "wp syncActive (leaves d R new (\<lambda>w1 d1. w1 = w \<and> writing (w1, d1) (R @ new) [])) (w, d)"
  by (rule wp_mono [OF syncActive_wp [OF assms]]) (auto simp: leaves_def split: sum.splits)

lemma stepped_leaves: "stepped j (w, d) R new = leaves d R new (\<lambda>w1 d1. writing (w1, d1) R new \<and> moved j w w1)"
  by (simp add: stepped_def leaves_def fun_eq_iff split: sum.splits)

lemma createNewSegment_leaves:
  assumes "writing (w, d) R []" "add64 (w_segment w) 1 = Suc (w_segment w)"
  shows "wp (createNewSegment (add64 (w_segment w) 1)) (leaves d R [] (\<lambda>w1 d1. writing (w1, d1) R [] \<and>
    w1 = w\<lparr>w_segment := Suc (w_segment w), w_file := True, w_offset := segmentHeaderSize\<rparr>)) (w\<lparr>w_file := b\<rparr>, d)"
proof -
  obtain old rs where "on_disk d old (w_segment w) rs []" "old_synced d old"
    "synced_to d (w_segment w) (length (file_of rs))" "records old @ rs = R"
    using assms(1) by (rule writing_fullE)
  then show ?thesis using assms(2) createNewSegment_wp [of d old "w_segment w" rs R "[]" "w\<lparr>w_file := b\<rparr>"]
    by (auto elim!: wp_mono simp: leaves_def split: sum.splits)
qed

lemma prepareRecordBatch_wp:
  assumes "writing (w, d) R new" "w_segment w + 1 < W64"
  shows "wp (prepareRecordBatch batch) (stepped 1 (w, d) R new) (w, d)"
proof (cases "w_offset w > segmentHeaderSize \<and> w_offset w + batch > w_segmentSize w")
  case False
  have "moved 1 w w" using assms(1) unfolding moved_def writing_def prod.case
    by (intro conjI exI [of _ "w_segment w"] exI [of _ "w_offset w"]) auto
  then show ?thesis using False assms(1) by (auto simp: prepareRecordBatch_def stepped_def)
next
  case True
  have nxt: "add64 (w_segment w) 1 = Suc (w_segment w)" using assms(2) by simp
  have mvd: "moved 1 w (w\<lparr>w_segment := Suc (w_segment w), w_file := True, w_offset := off\<rparr>)" for off
    unfolding moved_def by (intro conjI exI [of _ "Suc (w_segment w)"] exI [of _ off]) simp_all
  have closing: "wp (seq other_io (seq (assigns (\<lambda>w. w\<lparr>w_file := False\<rparr>)) (createNewSegment (add64 (w_segment w) 1))))
      (leaves d1 R new (\<lambda>w1 d1. writing (w1, d1) R new \<and> moved 1 w w1)) (w, d1)"
    if "writing (w, d1) (R @ new) []" for d1
  proof (rule leaves_mono [OF leaves_seq])
    show "wp other_io (leaves d1 (R @ new) [] (\<lambda>w1 d1. w1 = w \<and> writing (w1, d1) (R @ new) [])) (w, d1)"
      using that writing_leftover [of w _ "R @ new" "[]" "[]"] by (intro other_io_leaves) (simp_all add: writing_same)
    show "wp (seq (assigns (\<lambda>w. w\<lparr>w_file := False\<rparr>)) (createNewSegment (add64 (w_segment w) 1)))
        (leaves d2 (R @ new) [] (\<lambda>w2 d2. writing (w2, d2) (R @ new) [] \<and>
           w2 = w\<lparr>w_segment := Suc (w_segment w), w_file := True, w_offset := segmentHeaderSize\<rparr>)) (w1, d2)"
      if "w1 = w \<and> writing (w1, d2) (R @ new) []" for w1 d2
      using createNewSegment_leaves [of w d2 "R @ new"] nxt that by (intro wp_seq) auto
  qed (use writing_synced leftover_synced mvd in auto)
  have "wp (seq syncActive (seq other_io (seq (assigns (\<lambda>w. w\<lparr>w_file := False\<rparr>)) (createNewSegment (add64 (w_segment w) 1)))))
      (leaves d R new (\<lambda>w1 d1. writing (w1, d1) R new \<and> moved 1 w w1)) (w, d)"
    by (rule leaves_seq [OF sync_leaves [OF assms(1)]]) (use closing in auto)
  then show ?thesis using True
    by (simp add: stepped_leaves prepareRecordBatch_def wp_def seq_def and_then_def reads_def syncActive_def split: prod.splits)
qed

lemma moved_trans: "moved j w w' \<Longrightarrow> moved k w' w'' \<Longrightarrow> moved (j + k) w w''"
  unfolding moved_def by (elim conjE exE) (intro conjI exI, auto)

lemma moved_fields:
  "moved j w w' \<Longrightarrow> w_lastLogIndex w' = w_lastLogIndex w \<and> w_commitIndex w' = w_commitIndex w \<and> w_hardState w' = w_hardState w
     \<and> w_identity w' = w_identity w \<and> w_snapshotIndex w' = w_snapshotIndex w \<and> w_snapshotTerm w' = w_snapshotTerm w
     \<and> w_entryBytes w' = w_entryBytes w \<and> w_segment w' \<le> w_segment w + j"
  by (auto simp: moved_def)

text \<open>The position of the log in its files decides whether it is being written properly.\<close>

lemma writing_cong:
  "w_file w' = w_file w \<Longrightarrow> w_segment w' = w_segment w \<Longrightarrow> w_offset w' = w_offset w \<Longrightarrow> writing (w', d) R new = writing (w, d) R new"
  by (simp add: writing_def)

lemma appendRecord_leaves:
  assumes "writing (w, d) R new" "record_ok r" "w_segment w + 1 < W64"
  shows "wp (appendRecord (fst r) (snd r)) (leaves d R (new @ [r]) (\<lambda>w1 d1. writing (w1, d1) R (new @ [r]) \<and> moved 1 w w1)) (w, d)"
proof -
  have "wp (seq (prepareRecordBatch (frameHeaderSize + length (frame_body (fst r) (snd r)))) (appendRecordInSegment (fst r) (snd r)))
    (leaves d R (new @ [r]) (\<lambda>w1 d1. writing (w1, d1) R (new @ [r]) \<and> moved 1 w w1)) (w, d)"
  proof (rule leaves_seq)
    show "wp (prepareRecordBatch (frameHeaderSize + length (frame_body (fst r) (snd r))))
        (leaves d R (new @ [r]) (\<lambda>w1 d1. writing (w1, d1) R new \<and> moved 1 w w1)) (w, d)"
      using prepareRecordBatch_wp [OF assms(1,3)] unfolding stepped_leaves
      by (rule leaves_mono) (auto intro: leftover_more)
    show "wp (appendRecordInSegment (fst r) (snd r))
        (leaves d1 R (new @ [r]) (\<lambda>w1 d1. writing (w1, d1) R (new @ [r]) \<and> moved 1 w w1)) (w1, d1)"
      if "writing (w1, d1) R new \<and> moved 1 w w1" for w1 d1
      using appendRecordInSegment_wp [OF _ assms(2), of w1 d1 R new] that unfolding stepped_leaves
      using moved_trans [of 1 w w1 0] by (auto elim!: leaves_mono)
  qed
  moreover have "length (frame_body (fst r) (snd r)) \<le> maxRecordSize" using assms(2) by (simp add: record_ok_def frame_body_def)
  ultimately show ?thesis by (simp add: appendRecord_def Let_def)
qed

definition entry_record :: "WalEntry \<Rightarrow> wal_record" where
  "entry_record e = (recordLogEntryV3, entry_payload e)"

definition note_entries :: "WalEntry list \<Rightarrow> WAL \<Rightarrow> WAL" where
  "note_entries es w = w\<lparr>w_entryBytes := w_entryBytes w ++
     map_of (rev (map (\<lambda>e. (we_Index e, frameHeaderSize + 1 + length (entry_payload e))) es))\<rparr>"

lemma note_entries_Cons: "note_entries (e # es) w = note_entries es (w\<lparr>w_entryBytes :=
    (w_entryBytes w)(we_Index e \<mapsto> frameHeaderSize + 1 + length (entry_payload e))\<rparr>)"
  by (simp add: note_entries_def)

lemma note_entries_fields:
  "w_segment (note_entries es w) = w_segment w" "w_offset (note_entries es w) = w_offset w" "w_file (note_entries es w) = w_file w"
  "w_lastLogIndex (note_entries es w) = w_lastLogIndex w" "w_commitIndex (note_entries es w) = w_commitIndex w"
  "w_hardState (note_entries es w) = w_hardState w" "w_identity (note_entries es w) = w_identity w"
  "w_snapshotIndex (note_entries es w) = w_snapshotIndex w" "w_snapshotTerm (note_entries es w) = w_snapshotTerm w"
  by (simp_all add: note_entries_def)

lemma moved_entryBytes:
  assumes "moved j w w1"
  shows "moved j (w\<lparr>w_entryBytes := f (w_entryBytes w)\<rparr>) (w1\<lparr>w_entryBytes := f (w_entryBytes w1)\<rparr>)"
proof -
  obtain n off where w1: "w1 = w\<lparr>w_segment := n, w_offset := off, w_file := True\<rparr>" "n \<le> w_segment w + j"
    using assms by (auto simp: moved_def)
  show ?thesis unfolding moved_def w1(1)
    by (intro conjI exI [of _ n] exI [of _ off] WAL.equality) (use w1(2) in simp_all)
qed

lemma moved_note_entries: "moved j w w1 \<Longrightarrow> moved j (note_entries es w) (note_entries es w1)"
  unfolding note_entries_def by (rule moved_entryBytes)

lemma appendEntryRecords_leaves:
  assumes "writing (w, d) R new" "list_all record_ok (map entry_record es)" "w_segment w + length es < W64"
  shows "wp (appendEntryRecords es) (leaves d R (new @ map entry_record es) (\<lambda>w1 d1.
    writing (w1, d1) R (new @ map entry_record es) \<and> moved (length es) (note_entries es w) w1)) (w, d)"
  using assms
proof (induction es arbitrary: w d new)
  case Nil
  have "moved 0 (note_entries [] w) w" using Nil(1) unfolding moved_def note_entries_def
    by (intro conjI exI [of _ "w_segment w"] exI [of _ "w_offset w"]) (auto simp: writing_def)
  then show ?case using Nil by (simp add: leaves_def)
next
  case (Cons e es)
  let ?new = "new @ map entry_record (e # es)"
  let ?note = "\<lambda>w. w\<lparr>w_entryBytes := (w_entryBytes w)(we_Index e \<mapsto> frameHeaderSize + 1 + length (entry_payload e))\<rparr>"
  have first: "wp (appendRecord recordLogEntryV3 (entry_payload e))
      (leaves d R ?new (\<lambda>w1 d1. writing (w1, d1) R (new @ [entry_record e]) \<and> moved 1 w w1)) (w, d)"
  proof -
    have "wp (appendRecord recordLogEntryV3 (entry_payload e))
      (leaves d R (new @ [entry_record e]) (\<lambda>w1 d1. writing (w1, d1) R (new @ [entry_record e]) \<and> moved 1 w w1)) (w, d)"
      using appendRecord_leaves [OF Cons.prems(1), of "entry_record e"] Cons.prems(2,3) by (simp add: entry_record_def)
    then show ?thesis
      by (rule leaves_mono) (use leftover_more [of _ R "new @ [entry_record e]" "map entry_record es"] in auto)
  qed
  show ?case unfolding appendEntryRecords.simps
  proof (rule leaves_seq [OF first], rule wp_seq)
    fix w1 d1 assume w1: "writing (w1, d1) R (new @ [entry_record e]) \<and> moved 1 w w1"
    have "writing (?note w1, d1) R (new @ [entry_record e])" using w1 writing_cong [of "?note w1" w1] by simp
    moreover have "w_segment (?note w1) + length es < W64" using w1 Cons.prems(3) moved_fields [of 1 w w1] by simp
    ultimately have "wp (appendEntryRecords es) (leaves d1 R ?new (\<lambda>w2 d2. writing (w2, d2) R ?new
        \<and> moved (length es) (note_entries es (?note w1)) w2)) (?note w1, d1)"
      using Cons.IH [of "?note w1" d1 "new @ [entry_record e]"] Cons.prems(2) by simp
    moreover have "moved (length (e # es)) (note_entries (e # es) w) w2" if "moved (length es) (note_entries es (?note w1)) w2" for w2
    proof -
      have "moved 1 (?note w) (?note w1)" using w1 moved_entryBytes [of 1 w w1 "\<lambda>m. m(we_Index e \<mapsto> frameHeaderSize + 1 + length (entry_payload e))"] by blast
      from moved_trans [OF moved_note_entries [OF this] that] show ?thesis by (simp add: note_entries_Cons)
    qed
    ultimately show "wp (assigns ?note) (\<lambda>r s'. case r of
        Inl e' \<Rightarrow> leaves d1 R ?new (\<lambda>w2 d2. writing (w2, d2) R ?new \<and> moved (length (e # es)) (note_entries (e # es) w) w2) (Inl e') s'
      | Inr x \<Rightarrow> wp (appendEntryRecords es) (leaves d1 R ?new (\<lambda>w2 d2. writing (w2, d2) R ?new
          \<and> moved (length (e # es)) (note_entries (e # es) w) w2)) s') (w1, d1)"
      by (auto elim!: leaves_mono)
  qed
qed

end
