(* ===== verification/Wal_Crash.thy ===== *)
theory Wal_Crash
  imports Wal_Writes
begin

text \<open>
  The write-ahead log as a durable store: the operations against an abstract specification of the
  contents, what a crash can take away, and what opening the log recovers from the rest.
\<close>

section \<open>The contents as an abstract store\<close>

text \<open>
  The operations on the durable contents: what each of them promises to do, and when it is refused.
\<close>

datatype wal_command = PutHardState WalHardState | PutEntries "WalEntry list" | CutLog u64 | PutCommit u64

fun run_command :: "wal_command \<Rightarrow> unit wal" where
  "run_command (PutHardState h) = SaveHardState h"
| "run_command (PutEntries es) = SaveLogEntries es"
| "run_command (CutLog i) = TruncateLog i"
| "run_command (PutCommit i) = SaveCommitIndex i"

fun perform :: "wal_command \<Rightarrow> WalState \<Rightarrow> WalState" where
  "perform (PutHardState h) st = st\<lparr>ws_HardState := h\<rparr>"
| "perform (PutEntries es) st = st\<lparr>ws_Log := ws_Log st @ es\<rparr>"
| "perform (CutLog i) st = st\<lparr>ws_Log := take (i - ws_SnapshotIndex st - 1) (ws_Log st)\<rparr>"
| "perform (PutCommit i) st = st\<lparr>ws_CommitIndex := i\<rparr>"

fun refuses :: "wal_command \<Rightarrow> WalState \<Rightarrow> wal_error option" where
  "refuses (PutHardState h) st = None"
| "refuses (PutEntries es) st = (if es = [] then Some NoEntries else checkIndexes (lastRecovered st) 0 es)"
| "refuses (CutLog i) st = (if i = 0 \<or> i > lastRecovered st + 1 then Some (TruncateOutside i (lastRecovered st))
     else if i \<le> ws_CommitIndex st then Some (TruncateCommitted i (ws_CommitIndex st)) else None)"
| "refuses (PutCommit i) st = (if i < ws_CommitIndex st then Some (CommitDecreased (ws_CommitIndex st) i)
     else if i > lastRecovered st then Some (CommitBeyondLog i (lastRecovered st)) else None)"

text \<open>
  The callers' side: values fit their fields and a record fits its frame; a Hard State moves to a
  later term, or votes where no vote has been cast, or is the present one.
\<close>

definition hard_follows :: "WalHardState \<Rightarrow> WalHardState \<Rightarrow> bool" where
  "hard_follows h h' \<longleftrightarrow> h' = h \<or> wh_Term h < wh_Term h' \<or> (wh_Term h = wh_Term h' \<and> wh_VotedFor h = [])"

fun command_ok :: "wal_command \<Rightarrow> WalState \<Rightarrow> bool" where
  "command_ok (PutHardState h) st \<longleftrightarrow> wh_Term h < W64 \<and> 9 + length (wh_VotedFor h) \<le> maxRecordSize \<and> hard_follows (ws_HardState st) h"
| "command_ok (PutEntries es) st \<longleftrightarrow> list_all (\<lambda>e. entry_ok e \<and> record_ok (entry_record e)) es \<and> lastRecovered st + length es + 1 < W64"
| "command_ok (CutLog i) st \<longleftrightarrow> True"
| "command_ok (PutCommit i) st \<longleftrightarrow> True"

fun command_records :: "wal_command \<Rightarrow> WalState \<Rightarrow> wal_record list" where
  "command_records (PutHardState h) st = [(recordHardState, hardState_payload h)]"
| "command_records (PutEntries es) st = map entry_record es"
| "command_records (CutLog i) st = [(recordLogTruncation, putUint64 i)]"
| "command_records (PutCommit i) st = (if i = ws_CommitIndex st then [] else [(recordCommitIndex, putUint64 i)])"

definition state_ok :: "WalState \<Rightarrow> bool" where
  "state_ok st \<longleftrightarrow> wi_ClusterID (ws_Identity st) \<noteq> [] \<and> wi_NodeID (ws_Identity st) \<noteq> []
     \<and> ws_SnapshotIndex st \<le> ws_CommitIndex st \<and> ws_CommitIndex st \<le> ws_SnapshotIndex st + length (ws_Log st)
     \<and> ws_SnapshotIndex st + length (ws_Log st) + 1 < W64"

lemma lastRecovered_ok: "state_ok st \<Longrightarrow> lastRecovered st = ws_SnapshotIndex st + length (ws_Log st)"
  by (simp add: state_ok_def lastRecovered_def)

lemma checkIndexes_Cons:
  assumes "checkIndexes lst k (e # es) = None" "lst + k + 1 < W64"
  shows "we_Index e = lst + k + 1" "checkIndexes lst (k + 1) es = None"
  using assms by (auto simp: Let_def split: if_splits)

lemma replay_entries:
  assumes "checkIndexes lst k es = None" "list_all entry_ok es" "lst + k + length es + 1 < W64"
    "lastRecovered st = lst + k" "ws_SnapshotIndex st + length (ws_Log st) = lst + k"
  shows "replay (map entry_record es) st = Inr (st\<lparr>ws_Log := ws_Log st @ es\<rparr>)"
  using assms
proof (induction es arbitrary: k st)
  case Nil
  then show ?case by simp
next
  case (Cons e es)
  have idx: "we_Index e = lst + k + 1" "checkIndexes lst (k + 1) es = None"
    using checkIndexes_Cons [OF Cons.prems(1)] Cons.prems(3) by simp_all
  have "decode_entry (entry_payload e) = Some e" using decode_entry_payload Cons.prems(2) by simp
  then have "applyEntryV3 (entry_payload e) st = recoverEntry e st"
    by (auto simp: decode_entry_def applyEntryV3_def Let_def split: if_splits)
  also have "\<dots> = Inr (st\<lparr>ws_Log := ws_Log st @ [e]\<rparr>)"
    using idx(1) Cons.prems(3-5) by (simp add: recoverEntry_def)
  finally have first: "applyRecord (fst (entry_record e)) (snd (entry_record e)) st = Inr (st\<lparr>ws_Log := ws_Log st @ [e]\<rparr>)"
    by (simp add: applyRecord_def entry_record_def)
  have "replay (map entry_record es) (st\<lparr>ws_Log := ws_Log st @ [e]\<rparr>)
      = Inr ((st\<lparr>ws_Log := ws_Log st @ [e]\<rparr>)\<lparr>ws_Log := ws_Log (st\<lparr>ws_Log := ws_Log st @ [e]\<rparr>) @ es\<rparr>)"
    using Cons.prems(2-5) idx(2) by (intro Cons.IH [of "k + 1"]) (simp_all add: lastRecovered_def)
  then show ?case using first by simp
qed

text \<open>An operation cut short after \<open>k\<close> of its records.\<close>

fun first_part :: "nat \<Rightarrow> wal_command \<Rightarrow> wal_command" where
  "first_part k (PutEntries es) = PutEntries (take k es)"
| "first_part k c = c"

definition performed :: "nat \<Rightarrow> wal_command \<Rightarrow> WalState \<Rightarrow> WalState" where
  "performed k c st = (if k = 0 then st else perform (first_part k c) st)"

lemma checkIndexes_take: "checkIndexes lst j es = None \<Longrightarrow> checkIndexes lst j (take k es) = None"
  by (induction es arbitrary: j k) (auto simp: Let_def take_Cons split: nat.splits if_splits)

lemma list_all_take: "list_all P xs \<Longrightarrow> list_all P (take k xs)"
  by (auto simp: list_all_iff dest: in_set_takeD)

lemma replay_command:
  assumes "state_ok st" "refuses c st = None" "command_ok c st"
  shows "replay (take k (command_records c st)) st = Inr (performed k c st)"
proof (cases "k = 0")
  case True
  then show ?thesis by (simp add: performed_def)
next
  case False
  then obtain j where k: "k = Suc j" by (cases k) auto
  have last: "lastRecovered st = ws_SnapshotIndex st + length (ws_Log st)" by (rule lastRecovered_ok [OF assms(1)])
  show ?thesis
  proof (cases c)
    case (PutHardState h)
    have "decode_hardState (hardState_payload h) = Some h" using assms(3) PutHardState hardState.decode_encode by simp
    then have "get_be (take 8 (hardState_payload h)) = wh_Term h" "drop 8 (hardState_payload h) = wh_VotedFor h"
      "\<not> length (hardState_payload h) < 8"
      by (cases h; auto simp: decode_hardState_def split: if_splits)+
    then show ?thesis using assms(1,3) PutHardState k
      by (auto simp: applyRecord_def applyHardState_def performed_def state_ok_def hard_follows_def Let_def)
  next
    case (PutEntries es)
    then have "es \<noteq> []" "checkIndexes (lastRecovered st) 0 (take k es) = None" "list_all entry_ok (take k es)"
      using assms(2,3) by (auto intro!: checkIndexes_take list_all_take split: if_splits simp: list_all_iff dest: in_set_takeD)
    then have "replay (map entry_record (take k es)) st = Inr (st\<lparr>ws_Log := ws_Log st @ take k es\<rparr>)"
      using assms(3) last PutEntries by (intro replay_entries [of "lastRecovered st" 0]) auto
    then show ?thesis using PutEntries False by (simp add: performed_def take_map)
  next
    case (CutLog i)
    then have i: "i \<noteq> 0" "i \<le> lastRecovered st + 1" "ws_CommitIndex st < i" using assms(2) by (auto split: if_splits)
    then have "i < W64" "ws_SnapshotIndex st < i" "lastRecovered st + 1 < W64" using last assms(1) by (auto simp: state_ok_def)
    then have "applyTruncation (put_be 8 i) st = Inr (perform c st)"
      using i CutLog by (simp add: applyTruncation_def Let_def W64_bytes)
    then show ?thesis using CutLog k by (simp add: applyRecord_def performed_def)
  next
    case (PutCommit i)
    then have i: "ws_CommitIndex st \<le> i" "i \<le> lastRecovered st" using assms(2) by (auto split: if_splits)
    then have "i < W64" using last assms(1) by (auto simp: state_ok_def)
    then have "applyCommit (put_be 8 i) st = Inr (perform c st)"
      using i PutCommit by (simp add: applyCommit_def Let_def W64_bytes)
    then show ?thesis using PutCommit k by (auto simp: applyRecord_def performed_def)
  qed
qed

section \<open>Commands against an open log\<close>

text \<open>The struct's cached fields are those of the durable contents.\<close>

definition agrees :: "WAL \<Rightarrow> WalState \<Rightarrow> bool" where
  "agrees w st \<longleftrightarrow> w_lastLogIndex w = lastRecovered st \<and> w_commitIndex w = ws_CommitIndex st \<and> w_hardState w = ws_HardState st
     \<and> w_identity w = ws_Identity st \<and> w_snapshotIndex w = ws_SnapshotIndex st \<and> w_snapshotTerm w = ws_SnapshotTerm st"

definition stores :: "store \<Rightarrow> wal_record list \<Rightarrow> WalState \<Rightarrow> bool" where
  "stores s R st \<longleftrightarrow> writing s R [] \<and> recovered R = Inr st \<and> agrees (fst s) st \<and> state_ok st"

lemma moved_agrees: "moved j w w' \<Longrightarrow> agrees w' st = agrees w st"
  using moved_fields [of j w w'] by (simp add: agrees_def)

lemma command_refused:
  assumes "agrees w st" "w_file w" "state_ok st" "refuses c st = Some e"
  shows "run_command c (w, d) = (Inl e, (w, d))"
proof -
  have "lastRecovered st + 1 < W64" using lastRecovered_ok [OF assms(3)] assms(3) by (auto simp: state_ok_def)
  then show ?thesis using assms
    by (cases c) (auto simp: agrees_def SaveLogEntries_def TruncateLog_def SaveCommitIndex_def reads_def check_def fails_def
      split: if_splits option.splits)
qed

lemma perform_ok:
  assumes "state_ok st" "refuses c st = None" "command_ok c st"
  shows "state_ok (perform c st)" "ws_Identity (perform c st) = ws_Identity st" "ws_SnapshotIndex (perform c st) = ws_SnapshotIndex st"
    "ws_SnapshotTerm (perform c st) = ws_SnapshotTerm st"
  using assms lastRecovered_ok [OF assms(1)] by (cases c; auto simp: state_ok_def split: if_splits)+

lemma performed_ok:
  assumes "state_ok st" "refuses c st = None" "command_ok c st"
  shows "state_ok (performed k c st)" "ws_Identity (performed k c st) = ws_Identity st"
  using assms lastRecovered_ok [OF assms(1)]
  by (cases c; auto simp: performed_def state_ok_def split: if_splits)+

text \<open>Write the records, sync them, update the struct: the pattern of every operation.\<close>

lemma write_sync_assign:
  assumes "wp m (leaves d R new (\<lambda>w1 d1. writing (w1, d1) R new \<and> moved (length new) v w1)) (w, d)"
    "\<And>w1. moved (length new) v w1 \<Longrightarrow> agrees (f w1) st' \<and> w_segment (f w1) = w_segment w1 \<and> w_file (f w1) = w_file w1 \<and> w_offset (f w1) = w_offset w1"
  shows "wp (seq m (seq syncActive (assigns f)))
    (leaves d R new (\<lambda>w1 d1. writing (w1, d1) (R @ new) [] \<and> agrees w1 st' \<and> w_segment w1 \<le> w_segment v + length new)) (w, d)"
proof (rule leaves_seq [OF assms(1)], rule leaves_seq)
  fix w1 d1 assume w1: "writing (w1, d1) R new \<and> moved (length new) v w1"
  then show "wp syncActive (leaves d1 R new (\<lambda>w2 d2. w2 = w1 \<and> writing (w2, d2) (R @ new) [])) (w1, d1)"
    by (intro sync_leaves) simp
  show "wp (assigns f) (leaves d2 R new (\<lambda>w1 d1. writing (w1, d1) (R @ new) [] \<and> agrees w1 st'
      \<and> w_segment w1 \<le> w_segment v + length new)) (w2, d2)"
    if "w2 = w1 \<and> writing (w2, d2) (R @ new) []" for w2 d2
    using that w1 assms(2) [of w1] moved_fields [of "length new" v w1] writing_cong [of "f w1" w1]
    by (intro leaves_assigns) auto
qed

lemma command_leaves:
  assumes "stores (w, d) R st" "refuses c st = None" "command_ok c st" "w_segment w + length (command_records c st) < W64"
  shows "wp (run_command c) (leaves d R (command_records c st) (\<lambda>w1 d1. writing (w1, d1) (R @ command_records c st) []
    \<and> agrees w1 (perform c st) \<and> w_segment w1 \<le> w_segment w + length (command_records c st))) (w, d)"
proof -
  let ?new = "command_records c st"
  have w: "writing (w, d) R []" "agrees w st" "state_ok st" "w_file w" using assms(1) by (auto simp: stores_def writing_def)
  have last: "lastRecovered st = ws_SnapshotIndex st + length (ws_Log st)" by (rule lastRecovered_ok [OF w(3)])
  have fit: "lastRecovered st + 1 < W64" using last w(3) by (auto simp: state_ok_def)
  have one: "wp (appendRecord kind payload) (leaves d R [(kind, payload)] (\<lambda>w1 d1. writing (w1, d1) R [(kind, payload)]
      \<and> moved (length [(kind, payload)]) w w1)) (w, d)" if "record_ok (kind, payload)" "w_segment w + 1 < W64" for kind payload
    using appendRecord_leaves [OF w(1) that] by simp
  have small: "17 \<le> maxRecordSize" by (simp add: maxRecordSize_def)
  show ?thesis
  proof (cases c)
    case (PutHardState h)
    have "record_ok (recordHardState, hardState_payload h)"
      using assms(3) PutHardState by (simp add: record_ok_def hardState_payload_def)
    then have "wp (seq (appendRecord recordHardState (hardState_payload h)) (seq syncActive (assigns (\<lambda>w. w\<lparr>w_hardState := h\<rparr>))))
      (leaves d R [(recordHardState, hardState_payload h)] (\<lambda>w1 d1. writing (w1, d1) (R @ [(recordHardState, hardState_payload h)]) []
        \<and> agrees w1 (perform c st) \<and> w_segment w1 \<le> w_segment w + length [(recordHardState, hardState_payload h)])) (w, d)"
      using assms(4) PutHardState w(2)
      by (intro write_sync_assign one) (auto simp: moved_agrees agrees_def lastRecovered_def dest!: moved_fields)
    then show ?thesis using PutHardState w(4) by (simp add: SaveHardState_def)
  next
    case (PutEntries es)
    have "list_all record_ok (map entry_record es)" using assms(3) PutEntries by (simp add: list_all_iff)
    then have "wp (appendEntryRecords es) (leaves d R (map entry_record es) (\<lambda>w1 d1. writing (w1, d1) R (map entry_record es)
        \<and> moved (length (map entry_record es)) (note_entries es w) w1)) (w, d)"
      using appendEntryRecords_leaves [OF w(1), of es] assms(4) PutEntries by simp
    then have "wp (seq (appendEntryRecords es) (seq syncActive (assigns (\<lambda>w. w\<lparr>w_lastLogIndex := add64 (w_lastLogIndex w) (length es)\<rparr>))))
      (leaves d R (map entry_record es) (\<lambda>w1 d1. writing (w1, d1) (R @ map entry_record es) []
        \<and> agrees w1 (perform c st) \<and> w_segment w1 \<le> w_segment (note_entries es w) + length (map entry_record es))) (w, d)"
    proof (rule write_sync_assign)
      fix w1 assume "moved (length (map entry_record es)) (note_entries es w) w1"
      then show "agrees (w1\<lparr>w_lastLogIndex := add64 (w_lastLogIndex w1) (length es)\<rparr>) (perform c st)
        \<and> w_segment (w1\<lparr>w_lastLogIndex := add64 (w_lastLogIndex w1) (length es)\<rparr>) = w_segment w1
        \<and> w_file (w1\<lparr>w_lastLogIndex := add64 (w_lastLogIndex w1) (length es)\<rparr>) = w_file w1
        \<and> w_offset (w1\<lparr>w_lastLogIndex := add64 (w_lastLogIndex w1) (length es)\<rparr>) = w_offset w1"
        using w(2) assms(3) PutEntries last by (auto simp: agrees_def lastRecovered_def note_entries_fields dest!: moved_fields)
    qed
    then show ?thesis using PutEntries w(2,4) assms(2)
      by (auto simp: SaveLogEntries_def agrees_def note_entries_fields split: if_splits)
  next
    case (CutLog i)
    then have i: "i \<noteq> 0" "i \<le> lastRecovered st + 1" "ws_CommitIndex st < i" using assms(2) by (auto split: if_splits)
    then have fit_i: "i < W64" "ws_SnapshotIndex st < i" using last w(3) by (auto simp: state_ok_def)
    have "record_ok (recordLogTruncation, putUint64 i)" using small by (simp add: record_ok_def)
    then have "wp (seq (appendRecord recordLogTruncation (putUint64 i)) (seq syncActive
        (assigns (\<lambda>w. (dropEntryBytes i w)\<lparr>w_lastLogIndex := sub64 i 1\<rparr>))))
      (leaves d R [(recordLogTruncation, putUint64 i)] (\<lambda>w1 d1. writing (w1, d1) (R @ [(recordLogTruncation, putUint64 i)]) []
        \<and> agrees w1 (perform c st) \<and> w_segment w1 \<le> w_segment w + length [(recordLogTruncation, putUint64 i)])) (w, d)"
      using assms(4) CutLog w(2) fit_i i last
      by (intro write_sync_assign one) (auto simp: moved_agrees agrees_def lastRecovered_def dropEntryBytes_def dest!: moved_fields)
    then show ?thesis using CutLog w(2,4) i fit by (simp add: TruncateLog_def agrees_def)
  next
    case (PutCommit i)
    then have i: "ws_CommitIndex st \<le> i" "i \<le> lastRecovered st" using assms(2) by (auto split: if_splits)
    show ?thesis
    proof (cases "i = ws_CommitIndex st")
      case True
      then show ?thesis using PutCommit w i by (simp add: SaveCommitIndex_def agrees_def leaves_def)
    next
      case False
      have "record_ok (recordCommitIndex, putUint64 i)" using small by (simp add: record_ok_def)
      then have "wp (seq (appendRecord recordCommitIndex (putUint64 i)) (seq syncActive (assigns (\<lambda>w. w\<lparr>w_commitIndex := i\<rparr>))))
        (leaves d R [(recordCommitIndex, putUint64 i)] (\<lambda>w1 d1. writing (w1, d1) (R @ [(recordCommitIndex, putUint64 i)]) []
          \<and> agrees w1 (perform c st) \<and> w_segment w1 \<le> w_segment w + length [(recordCommitIndex, putUint64 i)])) (w, d)"
        using assms(4) PutCommit w(2) False
        by (intro write_sync_assign one) (auto simp: moved_agrees agrees_def lastRecovered_def dest!: moved_fields)
      then show ?thesis using PutCommit w(2,4) i False by (simp add: SaveCommitIndex_def agrees_def)
    qed
  qed
qed

section \<open>Crashes\<close>

text \<open>
  A crash keeps of every file its synced bytes and any number of the bytes written after them
  (\<open>cuts\<close>); what is left is on stable storage.
\<close>

definition kept :: "(u64 \<Rightarrow> nat) \<Rightarrow> Disk \<Rightarrow> u64 \<Rightarrow> nat" where
  "kept cuts d n = max (cuts n) (lookup_default 0 (dk_synced d) n)"

definition crashed :: "(u64 \<Rightarrow> nat) \<Rightarrow> Disk \<Rightarrow> Disk" where
  "crashed cuts d = (let files = fmmap_keys (\<lambda>n bs. take (kept cuts d n) bs) (dk_files d)
     in \<lparr>dk_files = files, dk_synced = (\<lambda>n. map_option length (fmlookup files n)), dk_plan = []\<rparr>)"

lemma crashed_fields [simp]:
  "dk_plan (crashed cuts d) = []" "fmdom (dk_files (crashed cuts d)) = fmdom (dk_files d)"
  by (simp_all add: crashed_def Let_def)

lemma contents_crashed [simp]: "contents (crashed cuts d) n = take (kept cuts d n) (contents d n)"
  by (simp add: contents_def crashed_def Let_def split: option.split)

lemma synced_crashed: "n |\<in>| fmdom (dk_files d) \<Longrightarrow> synced_to (crashed cuts d) n (length (contents (crashed cuts d) n))"
  by (auto simp: synced_to_def crashed_def Let_def contents_def fmlookup_dom_iff split: option.split)

definition stable :: "Disk \<Rightarrow> bool" where
  "stable d \<longleftrightarrow> (\<forall>n \<in> fset (fmdom (dk_files d)). synced_to d n (length (contents d n)))"

lemma stable_crashed [simp]: "stable (crashed cuts d)"
  using synced_crashed [of _ d cuts] by (simp add: stable_def del: contents_crashed)

lemma synced_kept: "synced_to d n k \<Longrightarrow> k \<le> kept cuts d n"
  by (auto simp: synced_to_def kept_def lookup_default_def)

lemma synced_to_mono: "synced_to d n k \<Longrightarrow> j \<le> k \<Longrightarrow> synced_to d n j"
  by (auto simp: synced_to_def)

lemma crashed_old:
  assumes "\<forall>(m, ss) \<in> set old. list_all record_ok ss \<and> contents d m = file_of ss" "old_synced d old"
    "fst ` set old \<subseteq> fset (fmdom (dk_files d))"
  shows "\<forall>(m, ss) \<in> set old. list_all record_ok ss \<and> contents (crashed cuts d) m = file_of ss" "old_synced (crashed cuts d) old"
proof -
  show same: "\<forall>(m, ss) \<in> set old. list_all record_ok ss \<and> contents (crashed cuts d) m = file_of ss"
    using assms(1,2) by (force simp: old_synced_def dest: synced_kept)
  have "synced_to (crashed cuts d) m (length (file_of ss))" if "(m, ss) \<in> set old" for m ss
  proof -
    have "m |\<in>| fmdom (dk_files d)" using assms(3) that by force
    moreover have "contents (crashed cuts d) m = file_of ss" using same that by (auto simp del: contents_crashed)
    ultimately show ?thesis using synced_crashed [of m d cuts] by simp
  qed
  then show "old_synced (crashed cuts d) old" by (auto simp: old_synced_def)
qed

lemma torn_take: "torn t \<Longrightarrow> torn (take j t)"
  unfolding torn_def by (metis (no_types, lifting) min.strict_coboundedI2 take_take)

lemma grown_take:
  assumes "grown R new (xs @ ys)" "length R \<le> length xs + c"
  shows "grown R new (xs @ take c ys)"
proof -
  obtain k where k: "k \<le> length new" "xs @ ys = R @ take k new" using assms(1) by (auto simp: grown_def)
  have "xs @ take c ys = take (length xs + c) (xs @ ys)" by simp
  also have "\<dots> = R @ take (min k (length xs + c - length R)) new" using k assms(2) by (simp add: min.commute)
  finally show ?thesis unfolding grown_def using k(1) by (meson min.coboundedI1)
qed

lemma prefix_of_file:
  assumes "list_all record_ok rs" "torn t" "b \<le> length rs" "length (file_of (take b rs)) \<le> j"
  obtains c t' where "b \<le> c" "c \<le> length rs" "torn t'" "take j (file_of rs @ t) = file_of (take c rs) @ t'"
proof (cases "length (file_of rs) \<le> j")
  case True
  then show ?thesis using that [of "length rs" "take (j - length (file_of rs)) t"] assms torn_take by simp
next
  case False
  have "list_all record_ok (take b rs @ drop b rs)" "length (frames (take b rs)) \<le> j - segmentHeaderSize"
    "j - segmentHeaderSize \<le> length (frames (take b rs @ drop b rs))" "segmentHeaderSize \<le> j"
    using assms False by (auto simp: file_of_def)
  then obtain k t' where *: "k \<le> length (drop b rs)" "torn t'"
    "take (j - segmentHeaderSize) (frames rs) = frames (take b rs @ take k (drop b rs)) @ t'"
    using frames_prefix_from [of "take b rs" "drop b rs" "j - segmentHeaderSize"] by auto
  have "take b rs @ take k (drop b rs) = take (b + k) rs" by (simp add: take_add)
  then have "take j (file_of rs @ t) = file_of (take (b + k) rs) @ t'"
    using * False \<open>segmentHeaderSize \<le> j\<close> by (simp add: file_of_def)
  then show ?thesis using that [of "b + k" t'] * assms(3) by simp
qed

lemma crashed_whole:
  assumes "whole_header d R new"
  shows "whole_header (crashed cuts d) R new"
proof -
  obtain old n rs t b where *: "on_disk d old n rs t" "torn t" "old_synced d old" "synced_to d n (length (file_of (take b rs)))"
    "b \<le> length rs" "grown R new (records old @ rs)" "length R \<le> length (records old) + b"
    using assms unfolding whole_header_def by blast
  have rs: "list_all record_ok rs" and dom: "fset (fmdom (dk_files d)) = insert n (fst ` set old)"
    and old: "\<forall>(m, ss) \<in> set old. list_all record_ok ss \<and> contents d m = file_of ss"
    using *(1) by (auto simp: on_disk_def)
  obtain c t' where c: "b \<le> c" "c \<le> length rs" "torn t'" "take (kept cuts d n) (file_of rs @ t) = file_of (take c rs) @ t'"
    using prefix_of_file [OF rs *(2,5) synced_kept [OF *(4)]] by blast
  have disk: "on_disk (crashed cuts d) old n (take c rs) t'"
    using *(1) c(4) crashed_old(1) [OF old *(3), of cuts] dom rs by (auto simp: on_disk_def list_all_take)
  have "n |\<in>| fmdom (dk_files d)" using dom by simp
  then have "synced_to (crashed cuts d) n (length (file_of (take c rs)))"
    using synced_crashed [of n d cuts] disk by (auto simp: on_disk_def simp del: contents_crashed intro: synced_to_mono)
  moreover have "grown R new (records old @ take c rs)" using *(6,7) c(1) by (intro grown_take) auto
  ultimately show ?thesis using disk c *(7) crashed_old(2) [OF old *(3), of cuts] dom unfolding whole_header_def
    by (intro exI [of _ old] exI [of _ n] exI [of _ "take c rs"] exI [of _ t'] exI [of _ c]) auto
qed

lemma crashed_headless:
  assumes "headless d R new"
  shows "headless (crashed cuts d) R new"
proof -
  obtain old n j where *: "sorted_wrt (<) (map fst old @ [n])" "old \<noteq> []" "fset (fmdom (dk_files d)) = insert n (fst ` set old)"
    "\<forall>(m, ss) \<in> set old. list_all record_ok ss \<and> contents d m = file_of ss" "old_synced d old"
    "contents d n = take j segmentHeader" "grown R new (records old)"
    using assms unfolding headless_def by blast
  have "contents (crashed cuts d) n = take (min (kept cuts d n) j) segmentHeader" using *(6) by simp
  then show ?thesis unfolding headless_def using *(1-3,7) crashed_old [OF *(4,5), of cuts]
    by (intro exI [of _ old] exI [of _ n]) auto
qed

section \<open>Opening the log again\<close>

definition no_checkpoint :: "wal_record list \<Rightarrow> bool" where
  "no_checkpoint rs \<longleftrightarrow> list_all (\<lambda>r. fst r \<noteq> recordCompactionCheckpoint) rs"

lemma visit_no_checkpoint: "no_checkpoint rs \<Longrightarrow> fold_records visitCheckpoint rs c = Inr c"
  by (induction rs) (auto simp: no_checkpoint_def visitCheckpoint_def)

lemma recovered_append:
  assumes "recovered R = Inr st" "no_checkpoint new" "replay new st = Inr st'" "ws_Identity st' = ws_Identity st"
  shows "recovered (R @ new) = Inr st'"
  using assms by (auto simp: recovered_def fold_records_append visit_no_checkpoint split: sum.splits if_splits)

lemma command_records_no_checkpoint: "no_checkpoint (take k (command_records c st))"
  by (cases c) (auto simp: no_checkpoint_def entry_record_def list_all_iff dest!: in_set_takeD)

lemma recovered_command:
  assumes "recovered R = Inr st" "state_ok st" "refuses c st = None" "command_ok c st"
  shows "recovered (R @ take k (command_records c st)) = Inr (performed k c st)"
  using assms replay_command [OF assms(2-4)] performed_ok [OF assms(2-4)]
  by (intro recovered_append [OF assms(1) command_records_no_checkpoint]) auto

lemma performed_all:
  assumes "refuses c st = None"
  shows "performed (length (command_records c st)) c st = perform c st"
  using assms by (cases c) (auto simp: performed_def split: if_splits)

lemma reopen_whole:
  assumes "whole_header d R new" "dk_plan d = []" "stable d" "can_open i limit"
    "\<And>k. k \<le> length new \<Longrightarrow> recovered (R @ take k new) = Inr (st k) \<and> ws_Identity (st k) = i \<and> state_ok (st k)"
  obtains k s where "k \<le> length new" "openWAL i limit d = (Inr (st k), s)" "stores s (R @ take k new) (st k)"
    "fst s = recoveredWAL (newWAL i limit) (w_segment (fst s)) (w_offset (fst s)) (st k)"
proof -
  obtain old n rs t b where *: "on_disk d old n rs t" "torn t" "old_synced d old" "synced_to d n (length (file_of (take b rs)))"
    "b \<le> length rs" "grown R new (records old @ rs)" "length R \<le> length (records old) + b"
    using assms(1) unfolding whole_header_def by blast
  obtain k where k: "k \<le> length new" "records old @ rs = R @ take k new" using *(6) by (auto simp: grown_def)
  have rec: "recovered (records old @ rs) = Inr (st k)" "ws_Identity (st k) = i" "state_ok (st k)" using assms(5) [OF k(1)] k(2) by auto
  let ?w = "recoveredWAL (newWAL i limit) n (length (file_of rs)) (st k)"
  have "writing (?w, trimmed d n rs t) (R @ take k new) []"
  proof (rule writingI)
    show "on_disk (trimmed d n rs t) old (w_segment ?w) rs []" using trimmed_on_disk [OF *(1)] by (simp add: recoveredWAL_def)
    have "\<forall>(m, ss) \<in> set old. m \<noteq> n" using on_disk_fresh [OF *(1)] by fastforce
    then show "old_synced (trimmed d n rs t) old"
      using *(3) synced_upd(1) [of "set_contents d n (file_of rs)" old n] by (simp add: trimmed_def)
    have "synced_to d n (length (contents d n))" using assms(3) *(1) by (simp add: stable_def on_disk_def)
    then have "t = [] \<longrightarrow> synced_to d n (length (file_of rs))" using *(1) by (auto simp: on_disk_def)
    then show "synced_to (trimmed d n rs t) (w_segment ?w) (length (file_of (take (length rs) rs)))"
      using *(1) synced_upd(2) [of "set_contents d n (file_of rs)"] by (simp add: trimmed_def recoveredWAL_def on_disk_def)
    show "length (R @ take k new) \<le> length (records old) + length rs" using k(2) by (metis length_append order_refl)
  qed (use k(2) in \<open>simp_all add: recoveredWAL_def\<close>)
  then have "stores (?w, trimmed d n rs t) (R @ take k new) (st k)"
    using rec k(2) by (simp add: stores_def agrees_def recoveredWAL_def newWAL_def)
  then show ?thesis using that [OF k(1) openWAL_on_disk(3) [OF *(1,2) assms(2,4) rec(1,2)]]
    by (simp add: recoveredWAL_def newWAL_def)
qed

lemma reopen_headless:
  assumes "headless d R new" "\<not> whole_header d R new" "can_open i limit" "stable d"
    "\<And>k. k \<le> length new \<Longrightarrow> \<exists>st. recovered (R @ take k new) = Inr st"
  shows "fst (openWAL i limit d) = Inl ShortHeader"
proof -
  obtain old n j where *: "sorted_wrt (<) (map fst old @ [n])" "old \<noteq> []" "fset (fmdom (dk_files d)) = insert n (fst ` set old)"
    "\<forall>(m, ss) \<in> set old. list_all record_ok ss \<and> contents d m = file_of ss" "old_synced d old"
    "contents d n = take j segmentHeader" "grown R new (records old)"
    using assms(1) unfolding headless_def by blast
  obtain k st where k: "k \<le> length new" "records old = R @ take k new" "recovered (records old) = Inr st"
    using *(7) assms(5) by (fastforce simp: grown_def)
  have short: "length (contents d n) < segmentHeaderSize"
  proof (rule ccontr)
    assume "\<not> length (contents d n) < segmentHeaderSize"
    then have "on_disk d old n [] []" using *(1,3,4,6) by (auto simp: on_disk_def file_of_def)
    moreover have "length R \<le> length (records old)" using k(2) by simp
    moreover have "synced_to d n (length (file_of (take 0 [])))"
      using assms(4) *(3,6) \<open>\<not> length (contents d n) < segmentHeaderSize\<close>
      by (auto simp: stable_def file_of_def intro: synced_to_mono)
    ultimately have "whole_header d R new" using *(5,7) unfolding whole_header_def
      by (intro exI [of _ old] exI [of _ n] exI [of _ "[]"] exI [of _ 0]) auto
    then show False using assms(2) by simp
  qed
  obtain c where "fold_records visitCheckpoint (records old) zeroCheckpoint = Inr c"
    using k(3) by (auto simp: recovered_def split: sum.splits)
  then have "newestCompactionCheckpoint d (findSegments d) = Inl ShortHeader"
    using newestCheckpoint_old [OF *(4), of "[n]" zeroCheckpoint] short
    by (simp add: newestCompactionCheckpoint_def findSegments_sorted [OF *(1,3)] scanSegmentFrames_def checkHeader_def)
  then show ?thesis using assms(3) findSegments_sorted [OF *(1,3)]
    by (auto simp: openWAL_def can_open_def openSegments_def and_then_def recoverSegments_def)
qed

lemma reopen_leftover:
  assumes "leftover d R new" "dk_plan d = []" "stable d" "can_open i limit"
    "\<And>k. k \<le> length new \<Longrightarrow> recovered (R @ take k new) = Inr (st k) \<and> ws_Identity (st k) = i \<and> state_ok (st k)"
  shows "fst (openWAL i limit d) = Inl ShortHeader \<or> (\<exists>k \<le> length new. fst (openWAL i limit d) = Inr (st k))"
proof (cases "whole_header d R new")
  case True
  then show ?thesis using reopen_whole [OF True assms(2-5)] by (metis fst_conv)
next
  case False
  then show ?thesis using assms(1,5) reopen_headless [of d R new i limit] assms(3,4) by (auto simp: leftover_def)
qed

section \<open>A new log\<close>

definition initialState :: "WalIdentity \<Rightarrow> WalState" where
  "initialState i = seededState (zeroCheckpoint\<lparr>cc_Identity := i\<rparr>)"

definition identity_ok :: "WalIdentity \<Rightarrow> bool" where
  "identity_ok i \<longleftrightarrow> length (wi_ClusterID i) < maxRecordSize \<and> length (wi_NodeID i) < maxRecordSize"

definition identity_records :: "WalIdentity \<Rightarrow> wal_record list" where
  "identity_records i = [(recordClusterIdentity, wi_ClusterID i), (recordNodeIdentity, wi_NodeID i)]"

lemma recovered_identity:
  assumes "\<not> blank (wi_ClusterID i)" "\<not> blank (wi_NodeID i)"
  shows "recovered (identity_records i) = Inr (initialState i)" "state_ok (initialState i)" "ws_Identity (initialState i) = i"
proof -
  have "wi_ClusterID i \<noteq> []" "wi_NodeID i \<noteq> []" using assms by auto
  then show "recovered (identity_records i) = Inr (initialState i)" "state_ok (initialState i)" "ws_Identity (initialState i) = i"
    using small_less_W64 [of 1]
    by (auto simp: recovered_def identity_records_def visitCheckpoint_def applyRecord_def applyIdentity_def seededState_def
      zeroCheckpoint_def zeroIdentity_def initialState_def state_ok_def Let_def)
qed

lemma createNewSegment_empty:
  assumes "dk_files d = fmempty" "dk_plan d = []"
  obtains d1 where "createNewSegment 1 (w, d) = (Inr (), (w\<lparr>w_segment := 1, w_file := True, w_offset := segmentHeaderSize\<rparr>, d1))"
    "writing (w\<lparr>w_segment := 1, w_file := True, w_offset := segmentHeaderSize\<rparr>, d1) [] []" "dk_plan d1 = []"
proof -
  let ?d1 = "d\<lparr>dk_files := fmupd 1 segmentHeader (dk_files d), dk_synced := (dk_synced d)(1 \<mapsto> segmentHeaderSize)\<rparr>"
  let ?w = "w\<lparr>w_segment := 1, w_file := True, w_offset := segmentHeaderSize\<rparr>"
  have "createNewSegment 1 (w, d) = (Inr (), (?w, ?d1))"
    using assms by (simp add: createNewSegment_def createSegment_def seq_ok io_call_ok write_file_def sync_file_def other_io_def
      assigns_def set_contents_def contents_def)
  moreover have "writing (?w, ?d1) [] []"
    by (rule writingI [where old = "[]" and rs = "[]" and b = 0])
      (use assms in \<open>simp_all add: on_disk_def file_of_def old_synced_def synced_to_def contents_def\<close>)
  ultimately show thesis using that assms(2) by simp
qed

lemma openWAL_empty:
  assumes "dk_files d = fmempty" "dk_plan d = []" "can_open i limit" "identity_ok i"
  obtains s where "openWAL i limit d = (Inr (initialState i), s)" "stores s (identity_records i) (initialState i)"
    "dk_plan (snd s) = []" "w_segment (fst s) \<le> 3"
proof -
  obtain w d1 where create: "createNewSegment 1 (newWAL i limit, d) = (Inr (), (w, d1))" "writing (w, d1) [] []" "dk_plan d1 = []"
    "w = (newWAL i limit)\<lparr>w_segment := 1, w_file := True, w_offset := segmentHeaderSize\<rparr>"
    using createNewSegment_empty [OF assms(1,2), of "newWAL i limit"] by blast
  have fits: "record_ok (recordClusterIdentity, wi_ClusterID i)" "record_ok (recordNodeIdentity, wi_NodeID i)"
    using assms(4) by (auto simp: record_ok_def identity_ok_def)
  have w64: "3 < W64" using small_less_W64 [of 3] by simp
  let ?P = "\<lambda>w2 d2. writing (w2, d2) (identity_records i) [] \<and> moved 2 w w2"
  have one: "wp (appendRecord recordClusterIdentity (wi_ClusterID i))
    (leaves d1 [] (identity_records i) (\<lambda>w2 d2. writing (w2, d2) [] [(recordClusterIdentity, wi_ClusterID i)] \<and> moved 1 w w2)) (w, d1)"
    using appendRecord_leaves [OF create(2) fits(1)] create(4) w64
      leftover_more [of _ "[]" "[(recordClusterIdentity, wi_ClusterID i)]" "[(recordNodeIdentity, wi_NodeID i)]"]
    by (auto simp: identity_records_def elim!: leaves_mono)
  have two: "wp (appendRecord recordNodeIdentity (wi_NodeID i))
    (leaves d2 [] (identity_records i) (\<lambda>w3 d3. writing (w3, d3) [] (identity_records i) \<and> moved 2 w w3)) (w2, d2)"
    if "writing (w2, d2) [] [(recordClusterIdentity, wi_ClusterID i)] \<and> moved 1 w w2" for w2 d2
    using appendRecord_leaves [OF conjunct1 [OF that] fits(2)] that moved_trans [of 1 w w2 1] moved_fields [of 1 w w2] create(4) w64
    by (auto simp: identity_records_def numeral_2_eq_2 elim!: leaves_mono)
  have three: "wp (seq syncActive (returns (initialState i))) (leaves d3 [] (identity_records i) ?P) (w3, d3)"
    if "writing (w3, d3) [] (identity_records i) \<and> moved 2 w w3" for w3 d3
    by (rule leaves_seq [OF sync_leaves [OF conjunct1 [OF that]]]) (use that in \<open>auto simp: leaves_def\<close>)
  have "wp (seq (appendRecord recordClusterIdentity (wi_ClusterID i)) (seq (appendRecord recordNodeIdentity (wi_NodeID i))
      (seq syncActive (returns (initialState i))))) (leaves d1 [] (identity_records i) ?P) (w, d1)"
    by (intro leaves_seq [OF one] leaves_seq [OF two] three)
  then obtain x w2 d2 where run: "seq (appendRecord recordClusterIdentity (wi_ClusterID i)) (seq (appendRecord recordNodeIdentity (wi_NodeID i))
      (seq syncActive (returns (initialState i)))) (w, d1) = (Inr x, (w2, d2))" "?P w2 d2" "dk_plan d2 = []"
    using create(3) by (auto simp: wp_def leaves_def split: prod.splits)
  then have "x = initialState i" by (auto simp: seq_def and_then_def returns_def split: prod.splits sum.splits)
  moreover have "findSegments d = []" using assms(1) by (simp add: findSegments_def sorted_list_of_fset.rep_eq)
  ultimately have "openWAL i limit d = (Inr (initialState i), (w2, d2))"
    using assms(3) create(1) run(1) by (auto simp: openWAL_def can_open_def openSegments_def seq_ok initialState_def)
  moreover have "agrees w2 (initialState i)"
    using run(2) create(4) moved_fields [of 2 w w2]
    by (auto simp: agrees_def newWAL_def initialState_def seededState_def zeroCheckpoint_def lastRecovered_def)
  then have "stores (w2, d2) (identity_records i) (initialState i)"
    using run(2) recovered_identity assms(3) by (auto simp: stores_def can_open_def)
  ultimately show thesis using that [of "(w2, d2)"] run create(4) moved_fields [of 2 w w2] by auto
qed

section \<open>Sequences of commands\<close>

primrec run_commands :: "wal_command list \<Rightarrow> unit wal" where
  "run_commands [] = returns ()"
| "run_commands (c # cs) = seq (run_command c) (run_commands cs)"

fun accepted :: "wal_command list \<Rightarrow> WalState \<Rightarrow> bool" where
  "accepted [] st \<longleftrightarrow> True"
| "accepted (c # cs) st \<longleftrightarrow> refuses c st = None \<and> command_ok c st \<and> accepted cs (perform c st)"

definition weight :: "wal_command \<Rightarrow> nat" where
  "weight c = (case c of PutEntries es \<Rightarrow> length es | _ \<Rightarrow> 1)"

lemma weight_records: "length (command_records c st) \<le> weight c"
  by (cases c) (auto simp: weight_def)

lemma run_command_stores:
  assumes "stores (w, d) R st" "refuses c st = None" "command_ok c st" "w_segment w + weight c < W64"
    "run_command c (w, d) = (r, (w1, d1))"
  shows "r = Inr () \<Longrightarrow> stores (w1, d1) (R @ command_records c st) (perform c st) \<and> w_segment w1 \<le> w_segment w + weight c"
    "r = Inl e \<Longrightarrow> leftover d1 R (command_records c st)"
    "dk_plan d = [] \<Longrightarrow> r = Inr () \<and> dk_plan d1 = []"
proof -
  have st: "recovered R = Inr st" "state_ok st" using assms(1) by (simp_all add: stores_def)
  have "recovered (R @ command_records c st) = Inr (perform c st)"
    using recovered_command [OF st assms(2,3), of "length (command_records c st)"] performed_all [OF assms(2)] by simp
  moreover have "wp (run_command c) (leaves d R (command_records c st) (\<lambda>w1 d1. writing (w1, d1) (R @ command_records c st) []
      \<and> agrees w1 (perform c st) \<and> w_segment w1 \<le> w_segment w + length (command_records c st))) (w, d)"
    using assms(4) weight_records [of c st] by (intro command_leaves [OF assms(1-3)]) simp
  ultimately show "r = Inr () \<Longrightarrow> stores (w1, d1) (R @ command_records c st) (perform c st) \<and> w_segment w1 \<le> w_segment w + weight c"
    "r = Inl e \<Longrightarrow> leftover d1 R (command_records c st)" "dk_plan d = [] \<Longrightarrow> r = Inr () \<and> dk_plan d1 = []"
    using assms(5) perform_ok(1) [OF st(2) assms(2,3)] weight_records [of c st]
    by (auto simp: wp_def leaves_def stores_def)
qed

lemma run_commands_stores:
  assumes "stores (w, d) R st" "accepted cs st" "w_segment w + sum_list (map weight cs) < W64" "dk_plan d = []"
  shows "\<exists>w1 d1 R1. run_commands cs (w, d) = (Inr (), (w1, d1)) \<and> stores (w1, d1) R1 (fold perform cs st) \<and> dk_plan d1 = []
    \<and> w_segment w1 \<le> w_segment w + sum_list (map weight cs)"
  using assms
proof (induction cs arbitrary: w d R st)
  case Nil
  then show ?case by (auto simp: returns_def)
next
  case (Cons c cs)
  obtain r w1 d1 where run: "run_command c (w, d) = (r, (w1, d1))" by (metis surj_pair)
  have "stores (w1, d1) (R @ command_records c st) (perform c st)" "w_segment w1 \<le> w_segment w + weight c" "r = Inr ()" "dk_plan d1 = []"
    using run_command_stores [OF Cons.prems(1) _ _ _ run] Cons.prems(2-4) by auto
  moreover from this obtain w2 d2 R2 where "run_commands cs (w1, d1) = (Inr (), (w2, d2))" "stores (w2, d2) R2 (fold perform cs (perform c st))"
    "dk_plan d2 = []" "w_segment w2 \<le> w_segment w1 + sum_list (map weight cs)"
    using Cons.IH [of w1 d1 _ "perform c st"] Cons.prems(2,3) by fastforce
  ultimately show ?case using run seq_ok [of "run_command c" "(w, d)" "()" "(w1, d1)" "run_commands cs"] by auto
qed

lemma perform_identity: "ws_Identity (fold perform cs st) = ws_Identity st"
proof (induction cs arbitrary: st)
  case (Cons c cs)
  have "ws_Identity (perform c st) = ws_Identity st" by (cases c) simp_all
  then show ?case using Cons by simp
qed simp

lemma stores_reopen:
  assumes "stores (w, d) R st" "can_open (ws_Identity st) limit"
  shows "fst (openWAL (ws_Identity st) limit (crashed cuts d)) = Inr st"
proof -
  obtain old rs where "on_disk d old (w_segment w) rs []" "old_synced d old" "synced_to d (w_segment w) (length (file_of rs))"
    "records old @ rs = R"
    using assms(1) unfolding stores_def by (auto elim: writing_fullE)
  then have "whole_header d R []" unfolding whole_header_def
    by (intro exI [of _ old] exI [of _ "w_segment w"] exI [of _ rs] exI [of _ "[]"] exI [of _ "length rs"]) (auto simp: grown_def)
  then show ?thesis using assms(1)
    by (elim reopen_whole [OF crashed_whole crashed_fields(1) stable_crashed assms(2), of d R "[]" "\<lambda>_. st" cuts]) (auto simp: stores_def)
qed

text \<open>A log from its creation through a list of accepted commands.\<close>

lemma log_run:
  assumes "dk_files d = fmempty" "dk_plan d = []" "can_open i limit" "identity_ok i" "accepted cs (initialState i)"
    "sum_list (map weight cs) + 4 \<le> k" "k < W64"
  obtains w0 d0 w1 d1 R where "openWAL i limit d = (Inr (initialState i), (w0, d0))" "run_commands cs (w0, d0) = (Inr (), (w1, d1))"
    "stores (w1, d1) R (fold perform cs (initialState i))" "w_segment w1 + (k - sum_list (map weight cs) - 4) < W64" "dk_plan d1 = []"
proof -
  obtain w0 d0 where open': "openWAL i limit d = (Inr (initialState i), (w0, d0))" "stores (w0, d0) (identity_records i) (initialState i)"
    "dk_plan d0 = []" "w_segment w0 \<le> 3"
    using openWAL_empty [OF assms(1-4)] by (metis prod.collapse snd_conv fst_conv)
  then show thesis using run_commands_stores [OF open'(2) assms(5) _ open'(3)] that [OF open'(1)] assms(6,7) by fastforce
qed

definition sample_identity :: WalIdentity where
  "sample_identity = \<lparr>wi_ClusterID = ''c'', wi_NodeID = ''n1''\<rparr>"

definition sample_commands :: "wal_command list" where
  "sample_commands = [PutHardState \<lparr>wh_Term = 1, wh_VotedFor = ''n1''\<rparr>, PutEntries [sample_entry 1 1], PutCommit 1]"

definition empty_disk :: Disk where
  "empty_disk = \<lparr>dk_files = fmempty, dk_synced = Map.empty, dk_plan = []\<rparr>"

lemma sample_entry_record_ok: "record_ok (entry_record (sample_entry i t))"
  by (simp add: record_ok_def entry_record_def sample_entry_def entry_payload_def maxRecordSize_def)

lemma sample_run:
  "dk_files empty_disk = fmempty" "dk_plan empty_disk = []" "can_open sample_identity 100" "identity_ok sample_identity"
  "accepted sample_commands (initialState sample_identity)" "sum_list (map weight sample_commands) + 4 < W64"
proof -
  have "add64 0 1 = 1" "n \<le> 100 \<Longrightarrow> n < W64" for n using small_less_W64 [of 1] small_less_W64 [of n] by simp_all
  then show "accepted sample_commands (initialState sample_identity)" "sum_list (map weight sample_commands) + 4 < W64"
    using sample_entry_ok [of 1 1] sample_entry_record_ok [of 1 1]
    by (simp_all add: sample_commands_def initialState_def seededState_def zeroCheckpoint_def zeroHardState_def hard_follows_def
      lastRecovered_def maxRecordSize_def weight_def Let_def) (simp_all add: sample_entry_def)
qed (simp_all add: empty_disk_def can_open_def sample_identity_def identity_ok_def maxRecordSize_def blank_def segmentHeaderSize_def
  segmentMagic_def frameHeaderSize_def)

text \<open>
  C15: What the log has acknowledged survives a crash. A new log is opened and any accepted sequence of
  Hard State, entry, truncation and commit operations runs on it; all of them return without an error.
  Whatever unsynced bytes a crash then takes from the files, opening the log again recovers exactly the
  contents that the operations promise.
\<close>

theorem acknowledged_operations_survive_crash:
  assumes "dk_files d = fmempty" "dk_plan d = []" "can_open i limit" "identity_ok i"
    "accepted cs (initialState i)" "sum_list (map weight cs) + 4 < W64" "can_open i limit'"
  shows "case openWAL i limit d of (opened, s) \<Rightarrow> opened = Inr (initialState i) \<and>
    (case run_commands cs s of (result, (w, d')) \<Rightarrow> result = Inr () \<and>
      fst (openWAL i limit' (crashed cuts d')) = Inr (fold perform cs (initialState i)))"
proof -
  obtain w0 d0 w1 d1 R where *: "openWAL i limit d = (Inr (initialState i), (w0, d0))" "run_commands cs (w0, d0) = (Inr (), (w1, d1))"
    "stores (w1, d1) R (fold perform cs (initialState i))"
    by (rule log_run [OF assms(1-5) order_refl assms(6)]) auto
  have "ws_Identity (fold perform cs (initialState i)) = i"
    using assms(3) by (simp add: perform_identity recovered_identity(3) can_open_def)
  then show ?thesis using * stores_reopen [OF *(3), of limit' cuts] assms(7) by simp
qed

theorem acknowledged_operations_survive_crash_witness:
  "case openWAL sample_identity 100 empty_disk of (opened, s) \<Rightarrow> opened = Inr (initialState sample_identity) \<and>
    (case run_commands sample_commands s of (result, (w, d')) \<Rightarrow> result = Inr () \<and>
      fst (openWAL sample_identity 100 (crashed (\<lambda>_. 0) d')) = Inr (fold perform sample_commands (initialState sample_identity)))"
  by (rule acknowledged_operations_survive_crash [OF sample_run sample_run(3)])

text \<open>
  C16: An operation during which I/O calls fail, or the process dies, is all or nothing up to its
  records. After any accepted history, let the I/O calls of one more operation have arbitrary outcomes
  (success, or failure after any number of written bytes), and let a crash follow. If the operation
  returned without an error, opening the log recovers its full effect. Otherwise opening recovers the
  earlier contents plus a prefix of the operation's records, or it reports a short segment header.
\<close>

theorem interrupted_operation_is_prefix:
  assumes "dk_files d = fmempty" "dk_plan d = []" "can_open i limit" "identity_ok i" "accepted (cs @ [c]) (initialState i)"
    "sum_list (map weight (cs @ [c])) + 4 < W64" "can_open i limit'"
  shows "case run_commands cs (snd (openWAL i limit d)) of (_, (w, d')) \<Rightarrow>
    (case run_command c (w, d'\<lparr>dk_plan := plan\<rparr>) of (result, (w', d'')) \<Rightarrow>
      let before = fold perform cs (initialState i); reopened = fst (openWAL i limit' (crashed cuts d'')) in
      (case result of
         Inr _ \<Rightarrow> reopened = Inr (perform c before)
       | Inl _ \<Rightarrow> reopened = Inl ShortHeader \<or> (\<exists>k \<le> weight c. reopened = Inr (performed k c before))))"
proof -
  let ?st = "fold perform cs (initialState i)"
  have acc: "accepted cs st \<and> refuses c (fold perform cs st) = None \<and> command_ok c (fold perform cs st)" if "accepted (cs @ [c]) st" for st
    using that by (induction cs arbitrary: st) auto
  note acc = acc [OF assms(5)]
  obtain w0 d0 w1 d1 R where *: "openWAL i limit d = (Inr (initialState i), (w0, d0))" "run_commands cs (w0, d0) = (Inr (), (w1, d1))"
    "stores (w1, d1) R ?st" "w_segment w1 + weight c < W64"
    by (rule log_run [OF assms(1-4) conjunct1 [OF acc] _ assms(6)]) auto
  have ident: "ws_Identity ?st = i" using assms(3) by (simp add: perform_identity recovered_identity(3) can_open_def)
  have st: "stores (w1, d1\<lparr>dk_plan := plan\<rparr>) R ?st"
    using *(3) by (simp add: stores_def writing_def old_synced_def synced_to_def)
  obtain r w2 d2 where run: "run_command c (w1, d1\<lparr>dk_plan := plan\<rparr>) = (r, (w2, d2))" by (metis surj_pair)
  note step = run_command_stores [OF st _ _ *(4) run]
  show ?thesis
  proof (cases r)
    case (Inr x)
    then have "stores (w2, d2) (R @ command_records c ?st) (perform c ?st)" using step(1) acc by simp
    moreover have "ws_Identity (perform c ?st) = i" using ident by (cases c) simp_all
    ultimately show ?thesis using * run Inr stores_reopen [of w2 d2 _ "perform c ?st" limit' cuts] assms(7) by (simp add: Let_def)
  next
    case (Inl e)
    then have "leftover d2 R (command_records c ?st)" using step(2) acc by simp
    then have "leftover (crashed cuts d2) R (command_records c ?st)" using crashed_whole crashed_headless by (auto simp: leftover_def)
    from reopen_leftover [OF this crashed_fields(1) stable_crashed assms(7), of "\<lambda>k. performed k c ?st"]
    have "fst (openWAL i limit' (crashed cuts d2)) = Inl ShortHeader
      \<or> (\<exists>k \<le> length (command_records c ?st). fst (openWAL i limit' (crashed cuts d2)) = Inr (performed k c ?st))"
      using recovered_command [of R ?st c] performed_ok [of ?st c] *(3) acc ident by (auto simp: stores_def)
    moreover have "k \<le> weight c" if "k \<le> length (command_records c ?st)" for k using that weight_records [of c ?st] by simp
    ultimately show ?thesis using * run Inl by (auto simp: Let_def)
  qed
qed

theorem interrupted_operation_is_prefix_witness:
  "case run_commands (butlast sample_commands) (snd (openWAL sample_identity 100 empty_disk)) of (_, (w, d')) \<Rightarrow>
    (case run_command (PutCommit 1) (w, d'\<lparr>dk_plan := [IoOk, IoFail 3]\<rparr>) of (result, (w', d'')) \<Rightarrow>
      let before = fold perform (butlast sample_commands) (initialState sample_identity);
          reopened = fst (openWAL sample_identity 100 (crashed (\<lambda>_. 0) d'')) in
      (case result of
         Inr _ \<Rightarrow> reopened = Inr (perform (PutCommit 1) before)
       | Inl _ \<Rightarrow> reopened = Inl ShortHeader \<or> (\<exists>k \<le> weight (PutCommit 1). reopened = Inr (performed k (PutCommit 1) before))))"
proof -
  have "butlast sample_commands @ [PutCommit 1] = sample_commands" by (simp add: sample_commands_def)
  then show ?thesis using sample_run
    by (intro interrupted_operation_is_prefix [of empty_disk sample_identity 100 "butlast sample_commands" "PutCommit 1" 100]) simp_all
qed

text \<open>
  C17: An operation that breaks the log's contract (no entries, entries that do not continue the log, a
  truncation outside the log or of committed entries, a Commit Index that decreases or exceeds the log)
  is refused with the error of the violated rule; the struct and the disk stay as they are.
\<close>

theorem refused_operation_changes_nothing:
  assumes "dk_files d = fmempty" "dk_plan d = []" "can_open i limit" "identity_ok i" "accepted cs (initialState i)"
    "sum_list (map weight cs) + 4 < W64" "refuses c (fold perform cs (initialState i)) = Some e"
  shows "case run_commands cs (snd (openWAL i limit d)) of (_, s) \<Rightarrow> run_command c s = (Inl e, s)"
proof -
  obtain w0 d0 w1 d1 R where *: "openWAL i limit d = (Inr (initialState i), (w0, d0))" "run_commands cs (w0, d0) = (Inr (), (w1, d1))"
    "stores (w1, d1) R (fold perform cs (initialState i))"
    by (rule log_run [OF assms(1-5) order_refl assms(6)]) auto
  then show ?thesis using command_refused [OF _ _ _ assms(7), of w1 d1] by (auto simp: stores_def writing_def)
qed

theorem refused_operation_changes_nothing_witness:
  "case run_commands sample_commands (snd (openWAL sample_identity 100 empty_disk)) of (_, s) \<Rightarrow>
    run_command (CutLog 1) s = (Inl (TruncateCommitted 1 1), s)"
proof -
  have "add64 0 1 = 1" using small_less_W64 [of 1] by simp
  then have "refuses (CutLog 1) (fold perform sample_commands (initialState sample_identity)) = Some (TruncateCommitted 1 1)"
    by (simp add: sample_commands_def initialState_def seededState_def zeroCheckpoint_def lastRecovered_def)
  then show ?thesis by (rule refused_operation_changes_nothing [OF sample_run])
qed

end
