(* ===== verification/Node_Config.thy ===== *)
theory Node_Config
  imports Snapshot_State
begin

text \<open>
  The static configuration of a Node (\<open>src/internal/config/config.go\<close>): the settings, \<open>Validate\<close>
  with every problem it collects, and the effective Snapshot threshold. \<open>Validate\<close> ranges over two
  Go maps, whose iteration order is not fixed: the order of the members and, for every member, of its
  two addresses is a parameter. \<open>net.SplitHostPort\<close> is the function of Go's standard library.
\<close>

section \<open>Data\<close>

record Member =
  mb_PeerAddress :: string
  mb_ClientAddress :: string

record NodeSettings =
  ns_ID :: string
  ns_DataDir :: string
  ns_MetricsAddress :: string

record Config =
  cfg_Version :: int
  cfg_ClusterID :: string
  cfg_ActiveSessionLimit :: int
  cfg_SnapshotThresholdBytes :: int
  cfg_Node :: NodeSettings
  cfg_Members :: "(string, Member) fmap"

definition DefaultSnapshotThresholdBytes :: int where
  "DefaultSnapshotThresholdBytes = 64 * 2 ^ 20"

definition zeroMember :: Member where
  "zeroMember = \<lparr>mb_PeerAddress = [], mb_ClientAddress = []\<rparr>"

definition LocalMember :: "Config \<Rightarrow> Member" where
  "LocalMember c = (case fmlookup (cfg_Members c) (ns_ID (cfg_Node c)) of None \<Rightarrow> zeroMember | Some m \<Rightarrow> m)"

definition EffectiveSnapshotThresholdBytes :: "Config \<Rightarrow> int" where
  "EffectiveSnapshotThresholdBytes c =
    (if cfg_SnapshotThresholdBytes c = 0 then DefaultSnapshotThresholdBytes else cfg_SnapshotThresholdBytes c)"

section \<open>Addresses\<close>

text \<open>\<open>strings.IndexByte\<close> and \<open>strings.LastIndexByte\<close>; \<open>None\<close> is the result -1.\<close>

fun index_byte :: "byte \<Rightarrow> bytes \<Rightarrow> nat option" where
  "index_byte b [] = None"
| "index_byte b (c # cs) = (if c = b then Some 0 else map_option Suc (index_byte b cs))"

definition last_index_byte :: "byte \<Rightarrow> bytes \<Rightarrow> nat option" where
  "last_index_byte b cs = map_option (\<lambda>i. length cs - 1 - i) (index_byte b (rev cs))"

datatype address_error = MissingPort | TooManyColons | MissingBracket | UnexpectedOpen | UnexpectedClose

text \<open>The two tail checks of \<open>net.SplitHostPort\<close>: no further bracket from the given positions on.\<close>

definition no_brackets :: "bytes \<Rightarrow> nat \<Rightarrow> nat \<Rightarrow> string \<Rightarrow> string \<Rightarrow> address_error + (string \<times> string)" where
  "no_brackets hostport j k host port =
    (if index_byte (CHR ''['') (drop j hostport) \<noteq> None then Inl UnexpectedOpen
     else if index_byte (CHR '']'') (drop k hostport) \<noteq> None then Inl UnexpectedClose
     else Inr (host, port))"

definition splitHostPort :: "string \<Rightarrow> address_error + (string \<times> string)" where
  "splitHostPort hostport =
    (case last_index_byte (CHR '':'') hostport of
       None \<Rightarrow> Inl MissingPort
     | Some i \<Rightarrow>
         let port = drop (i + 1) hostport in
         if hd hostport = CHR ''['' then
           (case index_byte (CHR '']'') hostport of
              None \<Rightarrow> Inl MissingBracket
            | Some e \<Rightarrow>
                if e + 1 = length hostport then Inl MissingPort
                else if e + 1 = i then no_brackets hostport 1 (e + 1) (take (e - 1) (drop 1 hostport)) port
                else if hostport ! (e + 1) = CHR '':'' then Inl TooManyColons
                else Inl MissingPort)
         else if index_byte (CHR '':'') (take i hostport) \<noteq> None then Inl TooManyColons
         else no_brackets hostport 0 0 (take i hostport) port)"

datatype config_problem =
  BadVersion int | ClusterIDRequired | SessionLimitTooSmall | SessionLimitTooLarge | ThresholdNegative
| NodeIDRequired | DataDirRequired | MemberCountNot3 nat | NodeNotInMembers string | EmptyMemberID
| AddressRequired string | AddressMalformed string address_error | HostRequired string | PortZero string
| AddressDuplicate string string string

definition validateAddress :: "string \<Rightarrow> string \<Rightarrow> config_problem option" where
  "validateAddress name address =
    (if blank address then Some (AddressRequired name)
     else case splitHostPort address of
       Inl e \<Rightarrow> Some (AddressMalformed name e)
     | Inr (host, port) \<Rightarrow>
         if host = [] then Some (HostRequired name)
         else if port = [] \<or> port = ''0'' then Some (PortZero name)
         else None)"

section \<open>Validation\<close>

text \<open>
  The field name \<open>members[%q].name\<close> of a problem; the Go quotation of the identity is kept as the
  identity itself.
\<close>

definition member_field :: "string \<Rightarrow> string \<Rightarrow> string" where
  "member_field ident name = ''members['' @ ident @ ''].'' @ name"

text \<open>The inner loop: the addresses seen so far with their owners, and the problems found.\<close>

fun checkAddresses :: "string \<Rightarrow> (string \<times> string) list \<Rightarrow> (string \<rightharpoonup> string)
    \<Rightarrow> config_problem list \<times> (string \<rightharpoonup> string)" where
  "checkAddresses ident [] seen = ([], seen)"
| "checkAddresses ident ((name, address) # rest) seen =
    (let field = member_field ident name in
     case validateAddress field address of
       Some p \<Rightarrow> (let (ps, seen') = checkAddresses ident rest seen in (p # ps, seen'))
     | None \<Rightarrow>
         (case seen address of
            Some owner \<Rightarrow> (let (ps, seen') = checkAddresses ident rest seen
                           in (AddressDuplicate field owner address # ps, seen'))
          | None \<Rightarrow> checkAddresses ident rest (seen(address \<mapsto> field))))"

definition member_addresses :: "bool \<Rightarrow> Member \<Rightarrow> (string \<times> string) list" where
  "member_addresses clientFirst m =
    (let peer = (''peer_address'', mb_PeerAddress m); client = (''client_address'', mb_ClientAddress m)
     in if clientFirst then [client, peer] else [peer, client])"

fun checkMembers :: "(string \<Rightarrow> bool) \<Rightarrow> (string \<times> Member) list \<Rightarrow> (string \<rightharpoonup> string) \<Rightarrow> config_problem list" where
  "checkMembers clientFirst [] seen = []"
| "checkMembers clientFirst ((ident, m) # rest) seen =
    (let (ps, seen') = checkAddresses ident (member_addresses (clientFirst ident) m) seen
     in (if blank ident then [EmptyMemberID] else []) @ ps @ checkMembers clientFirst rest seen')"

text \<open>
  \<open>Validate\<close>: all problems, in the order in which they are joined. \<open>order\<close> lists the member identities
  as the range over the map visits them, \<open>clientFirst\<close> says which address of a member comes first.
\<close>

definition Validate :: "string list \<Rightarrow> (string \<Rightarrow> bool) \<Rightarrow> Config \<Rightarrow> config_problem list" where
  "Validate order clientFirst c =
    (if cfg_Version c \<noteq> 1 then [BadVersion (cfg_Version c)] else []) @
    (if blank (cfg_ClusterID c) then [ClusterIDRequired] else []) @
    (if cfg_ActiveSessionLimit c < 1 then [SessionLimitTooSmall]
     else if cfg_ActiveSessionLimit c > 2 ^ 32 - 1 then [SessionLimitTooLarge] else []) @
    (if cfg_SnapshotThresholdBytes c < 0 then [ThresholdNegative] else []) @
    (if blank (ns_ID (cfg_Node c)) then [NodeIDRequired] else []) @
    (if blank (ns_DataDir (cfg_Node c)) then [DataDirRequired] else []) @
    (if ns_MetricsAddress (cfg_Node c) \<noteq> [] then
       (case validateAddress ''node.metrics_address'' (ns_MetricsAddress (cfg_Node c)) of
          Some p \<Rightarrow> [p] | None \<Rightarrow> []) else []) @
    (if fcard (fmdom (cfg_Members c)) \<noteq> 3 then [MemberCountNot3 (fcard (fmdom (cfg_Members c)))] else []) @
    (if ns_ID (cfg_Node c) \<noteq> [] \<and> fmlookup (cfg_Members c) (ns_ID (cfg_Node c)) = None
     then [NodeNotInMembers (ns_ID (cfg_Node c))] else []) @
    checkMembers clientFirst (map (\<lambda>i. (i, the (fmlookup (cfg_Members c) i))) order) Map.empty"

section \<open>What validation guarantees\<close>

text \<open>An address that the listeners can be given: a host and a port other than 0.\<close>

definition good_address :: "string \<Rightarrow> bool" where
  "good_address a \<longleftrightarrow> \<not> blank a \<and> (\<exists>host port. splitHostPort a = Inr (host, port) \<and> host \<noteq> [] \<and> port \<noteq> [] \<and> port \<noteq> ''0'')"

definition member_ok :: "Member \<Rightarrow> bool" where
  "member_ok m \<longleftrightarrow> good_address (mb_PeerAddress m) \<and> good_address (mb_ClientAddress m)"

text \<open>All addresses of the given members.\<close>

fun addresses_of :: "(string \<times> Member) list \<Rightarrow> string list" where
  "addresses_of [] = []"
| "addresses_of ((i, m) # rest) = mb_PeerAddress m # mb_ClientAddress m # addresses_of rest"

lemma validateAddress_None: "validateAddress name a = None \<longleftrightarrow> good_address a"
  by (auto simp: validateAddress_def good_address_def split: if_splits sum.splits)

lemma checkAddresses_spec:
  assumes "checkAddresses ident as seen = (ps, seen')"
  shows "(ps = [] \<longleftrightarrow> (\<forall>(n, a) \<in> set as. good_address a \<and> a \<notin> dom seen) \<and> distinct (map snd as))
    \<and> (ps = [] \<longrightarrow> dom seen' = dom seen \<union> snd ` set as)"
  using assms
proof (induction as arbitrary: seen seen' ps)
  case (Cons x as)
  obtain n a where x: "x = (n, a)" by (cases x)
  obtain qs t where q: "checkAddresses ident as (seen(a \<mapsto> member_field ident n)) = (qs, t)" by (metis surj_pair)
  have step: "ps = [] \<longleftrightarrow> good_address a \<and> seen a = None \<and> qs = []" "ps = [] \<Longrightarrow> seen' = t"
    using Cons.prems x q unfolding validateAddress_None [of "member_field ident n" a, symmetric]
    by (auto simp: Let_def split: option.splits prod.splits)
  have IH: "(qs = [] \<longleftrightarrow> (\<forall>(n, b) \<in> set as. good_address b \<and> b \<noteq> a \<and> b \<notin> dom seen) \<and> distinct (map snd as))
      \<and> (qs = [] \<longrightarrow> dom t = insert a (dom seen) \<union> snd ` set as)"
    using Cons.IH [OF q] unfolding dom_fun_upd by simp
  have mem: "a \<notin> snd ` set as \<longleftrightarrow> (\<forall>(n, b) \<in> set as. b \<noteq> a)" by force
  show ?case
  proof
    show "ps = [] \<longleftrightarrow> (\<forall>(n, b) \<in> set (x # as). good_address b \<and> b \<notin> dom seen) \<and> distinct (map snd (x # as))"
      unfolding step(1) using IH mem by (simp add: x domIff) blast
    show "ps = [] \<longrightarrow> dom seen' = dom seen \<union> snd ` set (x # as)" using step IH x by simp
  qed
qed auto

lemma addresses_of_set: "set (addresses_of ms) = (\<Union>(i, m) \<in> set ms. {mb_PeerAddress m, mb_ClientAddress m})"
  by (induction ms rule: addresses_of.induct) auto

lemma checkMembers_Nil:
  "checkMembers clientFirst ms seen = [] \<longleftrightarrow>
    (\<forall>(i, m) \<in> set ms. \<not> blank i \<and> member_ok m) \<and> distinct (addresses_of ms) \<and> set (addresses_of ms) \<inter> dom seen = {}"
proof (induction clientFirst ms seen rule: checkMembers.induct)
  case (2 clientFirst ident m rest seen)
  obtain ps seen' where c: "checkAddresses ident (member_addresses (clientFirst ident) m) seen = (ps, seen')" by (metis surj_pair)
  note spec = checkAddresses_spec [OF c]
  have ps: "ps = [] \<longleftrightarrow> member_ok m \<and> mb_PeerAddress m \<notin> dom seen \<and> mb_ClientAddress m \<notin> dom seen
      \<and> mb_PeerAddress m \<noteq> mb_ClientAddress m"
    using spec by (auto simp: member_addresses_def member_ok_def Let_def)
  have dom: "dom seen' = insert (mb_PeerAddress m) (insert (mb_ClientAddress m) (dom seen))" if "ps = []"
    using spec that by (auto simp: member_addresses_def Let_def)
  have "checkMembers clientFirst ((ident, m) # rest) seen = [] \<longleftrightarrow>
      \<not> blank ident \<and> ps = [] \<and> checkMembers clientFirst rest seen' = []"
    using c by simp
  also have "\<dots> \<longleftrightarrow> \<not> blank ident \<and> ps = [] \<and> (\<forall>(i, m) \<in> set rest. \<not> blank i \<and> member_ok m) \<and> distinct (addresses_of rest)
      \<and> set (addresses_of rest) \<inter> dom seen' = {}"
    using "2" [OF c [symmetric] refl] by auto
  also have "\<dots> \<longleftrightarrow> (\<forall>(i, m) \<in> set ((ident, m) # rest). \<not> blank i \<and> member_ok m) \<and> distinct (addresses_of ((ident, m) # rest))
      \<and> set (addresses_of ((ident, m) # rest)) \<inter> dom seen = {}"
    using ps dom by (cases "ps = []") (auto simp del: domIff)
  finally show ?case .
qed simp

text \<open>
  The addresses of the members as a family: every member has two, and no two of them are equal.
\<close>

definition addresses_differ :: "(string \<Rightarrow> Member) \<Rightarrow> string set \<Rightarrow> bool" where
  "addresses_differ f I \<longleftrightarrow> (\<forall>i \<in> I. \<forall>j \<in> I. mb_PeerAddress (f i) \<noteq> mb_ClientAddress (f j)
     \<and> (i \<noteq> j \<longrightarrow> mb_PeerAddress (f i) \<noteq> mb_PeerAddress (f j) \<and> mb_ClientAddress (f i) \<noteq> mb_ClientAddress (f j)))"

lemma distinct_addresses:
  "distinct is \<Longrightarrow> distinct (addresses_of (map (\<lambda>i. (i, f i)) is)) \<longleftrightarrow> addresses_differ f (set is)"
proof (induction "is")
  case (Cons i "is")
  have "set (addresses_of (map (\<lambda>i. (i, f i)) is)) = (\<Union>j \<in> set is. {mb_PeerAddress (f j), mb_ClientAddress (f j)})"
    by (auto simp: addresses_of_set)
  then show ?case using Cons by (auto simp: addresses_differ_def)
qed (simp add: addresses_differ_def)

definition config_ok :: "Config \<Rightarrow> bool" where
  "config_ok c \<longleftrightarrow> cfg_Version c = 1 \<and> \<not> blank (cfg_ClusterID c)
     \<and> 1 \<le> cfg_ActiveSessionLimit c \<and> cfg_ActiveSessionLimit c < 2 ^ 32 \<and> 0 \<le> cfg_SnapshotThresholdBytes c
     \<and> \<not> blank (ns_ID (cfg_Node c)) \<and> \<not> blank (ns_DataDir (cfg_Node c))
     \<and> (ns_MetricsAddress (cfg_Node c) = [] \<or> good_address (ns_MetricsAddress (cfg_Node c)))
     \<and> card (fmdom' (cfg_Members c)) = 3 \<and> ns_ID (cfg_Node c) \<in> fmdom' (cfg_Members c)
     \<and> (\<forall>i \<in> fmdom' (cfg_Members c). \<not> blank i \<and> member_ok (the (fmlookup (cfg_Members c) i)))
     \<and> addresses_differ (\<lambda>i. the (fmlookup (cfg_Members c) i)) (fmdom' (cfg_Members c))"

text \<open>
  C40: A configuration is accepted exactly when it is complete and unambiguous: version 1, named
  Cluster and Node, a session limit that fits the wire format, exactly three members that include the
  local Node, a usable host and port for every address, and no address used twice. The verdict does
  not depend on the order in which the member maps are visited.
\<close>

theorem Validate_accepts_iff:
  assumes "distinct order" "set order = fmdom' (cfg_Members c)"
  shows "Validate order clientFirst c = [] \<longleftrightarrow> config_ok c"
proof -
  let ?f = "\<lambda>i. the (fmlookup (cfg_Members c) i)"
  have "checkMembers clientFirst (map (\<lambda>i. (i, ?f i)) order) Map.empty = [] \<longleftrightarrow>
      (\<forall>i \<in> fmdom' (cfg_Members c). \<not> blank i \<and> member_ok (?f i)) \<and> addresses_differ ?f (fmdom' (cfg_Members c))"
    unfolding checkMembers_Nil using distinct_addresses [OF assms(1), of ?f] assms(2) by auto
  moreover have "fcard (fmdom (cfg_Members c)) = card (fmdom' (cfg_Members c))"
    by (simp add: fcard.rep_eq fmdom'_alt_def)
  moreover have "fmlookup (cfg_Members c) i = None \<longleftrightarrow> i \<notin> fmdom' (cfg_Members c)" for i by (meson fmdom'_notD fmdom'_notI)
  moreover have "(case validateAddress n a of Some p \<Rightarrow> [p] | None \<Rightarrow> []) = [] \<longleftrightarrow> good_address a" for n a
    by (cases "validateAddress n a") (use validateAddress_None [of n a] in auto)
  ultimately show ?thesis by (auto simp: Validate_def config_ok_def)
qed

definition sample_config :: Config where
  "sample_config = \<lparr>cfg_Version = 1, cfg_ClusterID = ''c'', cfg_ActiveSessionLimit = 8, cfg_SnapshotThresholdBytes = 0,
     cfg_Node = \<lparr>ns_ID = ''n1'', ns_DataDir = ''d'', ns_MetricsAddress = []\<rparr>,
     cfg_Members = fmap_of_list [(''n1'', \<lparr>mb_PeerAddress = ''h:1'', mb_ClientAddress = ''h:2''\<rparr>),
       (''n2'', \<lparr>mb_PeerAddress = ''h:3'', mb_ClientAddress = ''h:4''\<rparr>),
       (''n3'', \<lparr>mb_PeerAddress = ''[::1]:5'', mb_ClientAddress = ''h:6''\<rparr>)]\<rparr>"

lemma sample_members: "fmdom' (cfg_Members sample_config) = {''n1'', ''n2'', ''n3''}"
  by (simp add: sample_config_def fmdom'_alt_def fmdom_fmap_of_list)

theorem Validate_accepts_iff_witness:
  "Validate [''n2'', ''n1'', ''n3''] (\<lambda>_. False) sample_config = [] \<and> config_ok sample_config"
proof -
  have "Validate [''n2'', ''n1'', ''n3''] (\<lambda>_. False) sample_config = []"
    by code_simp
  then show ?thesis using Validate_accepts_iff [of "[''n2'', ''n1'', ''n3'']" sample_config "\<lambda>_. False"] sample_members by auto
qed

end
