(* ===== verification/Node_Api.thy ===== *)
theory Node_Api
  imports Session_Machine Raft_Node Node_Config Bytes
begin

text \<open>
  The client-facing RPC handlers of a Node: request validation (\<open>src/internal/node/validation.go\<close>),
  \<open>Set\<close>, \<open>Delete\<close>, \<open>Get\<close>, \<open>OpenSession\<close>, \<open>CloseSession\<close> and \<open>GetStatus\<close> with the translation of
  results into gRPC statuses (\<open>set.go\<close>, \<open>delete.go\<close>, \<open>get.go\<close>, \<open>session.go\<close>, \<open>node.go\<close>).

  A handler hands one event to the Raft owner and waits. The two \<open>select\<close> statements of the wait are
  resolved by the environment, so their outcomes are arguments; a handler returns its status or
  response together with the event that it put into the owner's queue, if it did. Whether gRPC can
  attach a detail message to a status is the parameter \<open>attach\<close>. The text of messages is left out.
\<close>

section \<open>Statuses\<close>

datatype code = InvalidArgument | FailedPrecondition | Unavailable | NotFound | ResourceExhausted
  | AlreadyExists | Internal | ContextEnded

datatype invalidSessionReason = ReasonUnknown | ReasonClosed

datatype detail =
  ValidationError string
| NotLeader string string
| InvalidSession SessionID invalidSessionReason
| StaleSequence u64 u64
| OutOfOrderSequence u64 u64
| KeyNotFound string

record status =
  sts_code :: code
  sts_detail :: "detail option"

definition plain_status :: "code \<Rightarrow> status" where
  "plain_status c = \<lparr>sts_code = c, sts_detail = None\<rparr>"

definition withDetails :: "(detail \<Rightarrow> bool) \<Rightarrow> code \<Rightarrow> detail \<Rightarrow> status" where
  "withDetails attach c d = (if attach d then \<lparr>sts_code = c, sts_detail = Some d\<rparr> else plain_status c)"

section \<open>Validation\<close>

definition maxKeyBytes :: nat where
  "maxKeyBytes = 1024"

definition maxValueBytes :: nat where
  "maxValueBytes = 2 ^ 20"

definition validationError :: "(detail \<Rightarrow> bool) \<Rightarrow> string \<Rightarrow> status" where
  "validationError attach field = withDetails attach InvalidArgument (ValidationError field)"

definition validateKey :: "(detail \<Rightarrow> bool) \<Rightarrow> string \<Rightarrow> status option" where
  "validateKey attach key =
    (if key = [] then Some (validationError attach ''key'')
     else if \<not> validUTF8 key then Some (validationError attach ''key'')
     else if length key > maxKeyBytes then Some (validationError attach ''key'')
     else None)"

definition validateMutation :: "(detail \<Rightarrow> bool) \<Rightarrow> bytes \<Rightarrow> u64 \<Rightarrow> string \<Rightarrow> status option" where
  "validateMutation attach sessionID sequence key =
    (if length sessionID \<noteq> 16 then Some (validationError attach ''session_id'')
     else if sequence = 0 then Some (validationError attach ''sequence'')
     else validateKey attach key)"

section \<open>Results as statuses\<close>

definition rejectIfNotLeader :: "Role \<Rightarrow> NodeID \<Rightarrow> proposalResult option" where
  "rejectIfNotLeader role leader =
    (if role = Leader then None
     else Some ((zeroResult zeroSessionID 0)\<lparr>pr_leaderID := leader, pr_rejected := True\<rparr>))"

definition proposalError :: "(detail \<Rightarrow> bool) \<Rightarrow> Config \<Rightarrow> proposalResult \<Rightarrow> status option" where
  "proposalError attach cfg result =
    (if pr_rejected result then
       (if pr_leaderID result = [] then Some (plain_status Unavailable)
        else case fmlookup (cfg_Members cfg) (pr_leaderID result) of
          None \<Rightarrow> Some (plain_status Unavailable)
        | Some leader \<Rightarrow>
            Some (withDetails attach FailedPrecondition (NotLeader (pr_leaderID result) (mb_ClientAddress leader))))
     else case pr_failure result of
       sessionSucceeded \<Rightarrow> None
     | sessionLimitReached \<Rightarrow> Some (plain_status ResourceExhausted)
     | sessionUnknown \<Rightarrow> Some (withDetails attach NotFound (InvalidSession (pr_sessionID result) ReasonUnknown))
     | sessionClosed \<Rightarrow> Some (withDetails attach FailedPrecondition (InvalidSession (pr_sessionID result) ReasonClosed))
     | sessionAlreadyExists \<Rightarrow> Some (plain_status AlreadyExists)
     | sessionStaleSequence \<Rightarrow>
         Some (withDetails attach FailedPrecondition (StaleSequence (pr_sequence result) (pr_wantSequence result)))
     | sessionOutOfOrderSequence \<Rightarrow>
         Some (withDetails attach FailedPrecondition (OutOfOrderSequence (pr_sequence result) (pr_wantSequence result))))"

section \<open>Proposals\<close>

text \<open>How a \<open>select\<close> over the queue or the result channel, the end of the runtime and the context ends.\<close>

datatype 'a waited = Ready 'a | RuntimeDone | ContextDone

text \<open>The record of what a handler has sent to the owner: \<open>None\<close> when nothing was queued.\<close>

type_synonym 'a reply = "(status + 'a) \<times> Event option"

definition propose :: "unit waited \<Rightarrow> proposalResult waited \<Rightarrow> Event \<Rightarrow> proposalResult reply" where
  "propose queued waited event =
    (case queued of
       RuntimeDone \<Rightarrow> (Inl (plain_status Unavailable), None)
     | ContextDone \<Rightarrow> (Inl (plain_status ContextEnded), None)
     | Ready _ \<Rightarrow>
         (case waited of
            Ready result \<Rightarrow> Inr result
          | RuntimeDone \<Rightarrow> Inl (plain_status Unavailable)
          | ContextDone \<Rightarrow> Inl (plain_status ContextEnded), Some event))"

record NodeServer =
  nd_config :: Config
  nd_ready :: bool
  nd_raftState :: NodeState
  nd_nextProposal :: u64
  nd_nextRead :: u64

record SetRequest =
  srq_SessionId :: bytes
  srq_Sequence :: u64
  srq_Key :: string
  srq_Value :: bytes

record DeleteRequest =
  drq_SessionId :: bytes
  drq_Sequence :: u64
  drq_Key :: string

text \<open>\<open>n.nextProposal.Add(1)\<close>: the new value of the counter is the identity of the proposal.\<close>

definition nextProposalID :: "NodeServer \<Rightarrow> u64" where
  "nextProposalID n = add64 (nd_nextProposal n) 1"

definition answer :: "(detail \<Rightarrow> bool) \<Rightarrow> Config \<Rightarrow> (proposalResult \<Rightarrow> 'a) \<Rightarrow> proposalResult reply \<Rightarrow> 'a reply" where
  "answer attach cfg f r =
    (case r of
       (Inl s, ev) \<Rightarrow> (Inl s, ev)
     | (Inr result, ev) \<Rightarrow>
         (case proposalError attach cfg result of Some s \<Rightarrow> Inl s | None \<Rightarrow> Inr (f result), ev))"

text \<open>
  The check that every handler makes before it proposes. \<open>proposalError\<close> of a rejected result is
  always an error (\<open>rejected_is_error\<close> below), so the \<open>None\<close> branch is never taken.
\<close>

definition ifLeader :: "(detail \<Rightarrow> bool) \<Rightarrow> NodeServer \<Rightarrow> NodeServer \<times> 'a reply \<Rightarrow> NodeServer \<times> 'a reply" where
  "ifLeader attach n k =
    (case rejectIfNotLeader (s_Role (nd_raftState n)) (s_LeaderID (nd_raftState n)) of
       Some result \<Rightarrow>
         (n, (case proposalError attach (nd_config n) result of Some s \<Rightarrow> Inl s | None \<Rightarrow> Inl (plain_status Internal), None))
     | None \<Rightarrow> k)"

definition api_Set ::
    "(detail \<Rightarrow> bool) \<Rightarrow> unit waited \<Rightarrow> proposalResult waited \<Rightarrow> NodeServer \<Rightarrow> SetRequest \<Rightarrow> NodeServer \<times> unit reply" where
  "api_Set attach queued waited n rq =
    (case validateMutation attach (srq_SessionId rq) (srq_Sequence rq) (srq_Key rq) of
       Some s \<Rightarrow> (n, (Inl s, None))
     | None \<Rightarrow>
         if length (srq_Value rq) > maxValueBytes then (n, (Inl (validationError attach ''value''), None))
         else ifLeader attach n
           (n\<lparr>nd_nextProposal := nextProposalID n\<rparr>,
            answer attach (nd_config n) (\<lambda>_. ()) (propose queued waited
              (EvProposeSet \<lparr>pset_ProposalID = nextProposalID n, pset_SessionID = srq_SessionId rq,
                 pset_Sequence = srq_Sequence rq, pset_Key = srq_Key rq, pset_Value = srq_Value rq\<rparr>))))"

definition api_Delete ::
    "(detail \<Rightarrow> bool) \<Rightarrow> unit waited \<Rightarrow> proposalResult waited \<Rightarrow> NodeServer \<Rightarrow> DeleteRequest \<Rightarrow> NodeServer \<times> bool reply" where
  "api_Delete attach queued waited n rq =
    (case validateMutation attach (drq_SessionId rq) (drq_Sequence rq) (drq_Key rq) of
       Some s \<Rightarrow> (n, (Inl s, None))
     | None \<Rightarrow>
         ifLeader attach n
           (n\<lparr>nd_nextProposal := nextProposalID n\<rparr>,
            answer attach (nd_config n) pr_existed (propose queued waited
              (EvProposeDelete \<lparr>pdel_ProposalID = nextProposalID n, pdel_SessionID = drq_SessionId rq,
                 pdel_Sequence = drq_Sequence rq, pdel_Key = drq_Key rq\<rparr>))))"

definition api_proposeSession ::
    "(detail \<Rightarrow> bool) \<Rightarrow> unit waited \<Rightarrow> proposalResult waited \<Rightarrow> NodeServer \<Rightarrow> EntryType \<Rightarrow> SessionID
      \<Rightarrow> NodeServer \<times> SessionID reply" where
  "api_proposeSession attach queued waited n entryType sessionID =
    (n\<lparr>nd_nextProposal := nextProposalID n\<rparr>,
     answer attach (nd_config n) pr_sessionID (propose queued waited
       (EvProposeSession \<lparr>ps_ProposalID = nextProposalID n, ps_Type = entryType, ps_SessionID = sessionID\<rparr>)))"

text \<open>\<open>random\<close> is the outcome of \<open>rand.Read\<close>: sixteen fresh bytes, or an error.\<close>

definition api_OpenSession ::
    "(detail \<Rightarrow> bool) \<Rightarrow> SessionID option \<Rightarrow> unit waited \<Rightarrow> proposalResult waited \<Rightarrow> NodeServer
      \<Rightarrow> NodeServer \<times> SessionID reply" where
  "api_OpenSession attach random queued waited n =
    ifLeader attach n
      (case random of
         None \<Rightarrow> (n, (Inl (plain_status Internal), None))
       | Some sessionID \<Rightarrow> api_proposeSession attach queued waited n EntryOpenSession sessionID)"

definition api_CloseSession ::
    "(detail \<Rightarrow> bool) \<Rightarrow> unit waited \<Rightarrow> proposalResult waited \<Rightarrow> NodeServer \<Rightarrow> bytes \<Rightarrow> NodeServer \<times> unit reply" where
  "api_CloseSession attach queued waited n sessionID =
    (if length sessionID \<noteq> 16 then (n, (Inl (validationError attach ''session_id''), None))
     else ifLeader attach n
       (case api_proposeSession attach queued waited n EntryCloseSession sessionID of
          (n', (r, ev)) \<Rightarrow> (n', (case r of Inl s \<Rightarrow> Inl s | Inr _ \<Rightarrow> Inr (), ev))))"

section \<open>Reads and status\<close>

record readResult =
  rr_value :: bytes
  rr_found :: bool
  rr_leaderID :: NodeID
  rr_rejected :: bool

definition nextReadID :: "NodeServer \<Rightarrow> u64" where
  "nextReadID n = add64 (nd_nextRead n) 1"

definition api_Get ::
    "(detail \<Rightarrow> bool) \<Rightarrow> unit waited \<Rightarrow> readResult waited \<Rightarrow> NodeServer \<Rightarrow> string \<Rightarrow> NodeServer \<times> bytes reply" where
  "api_Get attach queued waited n key =
    (case validateKey attach key of
       Some s \<Rightarrow> (n, (Inl s, None))
     | None \<Rightarrow>
         ifLeader attach n
           (n\<lparr>nd_nextRead := nextReadID n\<rparr>,
            (case queued of
               RuntimeDone \<Rightarrow> (Inl (plain_status Unavailable), None)
             | ContextDone \<Rightarrow> (Inl (plain_status ContextEnded), None)
             | Ready _ \<Rightarrow>
                 (case waited of
                    RuntimeDone \<Rightarrow> Inl (plain_status Unavailable)
                  | ContextDone \<Rightarrow> Inl (plain_status ContextEnded)
                  | Ready result \<Rightarrow>
                      if rr_rejected result then
                        (case proposalError attach (nd_config n)
                            ((zeroResult zeroSessionID 0)\<lparr>pr_leaderID := rr_leaderID result, pr_rejected := True\<rparr>) of
                           Some s \<Rightarrow> Inl s | None \<Rightarrow> Inr [])
                      else if \<not> rr_found result then Inl (withDetails attach NotFound (KeyNotFound key))
                      else Inr (rr_value result),
                  Some (ConfirmRead (nextReadID n))))))"

datatype RaftRole = RAFT_ROLE_FOLLOWER | RAFT_ROLE_PRE_CANDIDATE | RAFT_ROLE_CANDIDATE | RAFT_ROLE_LEADER

fun encodeRole :: "Role \<Rightarrow> RaftRole" where
  "encodeRole Follower = RAFT_ROLE_FOLLOWER"
| "encodeRole PreCandidate = RAFT_ROLE_PRE_CANDIDATE"
| "encodeRole Candidate = RAFT_ROLE_CANDIDATE"
| "encodeRole Leader = RAFT_ROLE_LEADER"

datatype NodeState_pb = NODE_STATE_STARTING | NODE_STATE_READY

record GetStatusResponse =
  gs_ClusterId :: string
  gs_NodeId :: string
  gs_State :: NodeState_pb
  gs_PeerAddress :: string
  gs_ClientAddress :: string
  gs_Role :: RaftRole
  gs_LeaderId :: string
  gs_Term :: u64
  gs_LastLogIndex :: u64
  gs_CommitIndex :: u64
  gs_LastApplied :: u64
  gs_SnapshotIndex :: u64

definition GetStatus :: "NodeServer \<Rightarrow> GetStatusResponse" where
  "GetStatus n =
    (let st = nd_raftState n; local = LocalMember (nd_config n) in
     \<lparr>gs_ClusterId = cfg_ClusterID (nd_config n), gs_NodeId = ns_ID (cfg_Node (nd_config n)),
      gs_State = (if nd_ready n then NODE_STATE_READY else NODE_STATE_STARTING),
      gs_PeerAddress = mb_PeerAddress local, gs_ClientAddress = mb_ClientAddress local,
      gs_Role = encodeRole (s_Role st), gs_LeaderId = s_LeaderID st, gs_Term = s_Term st,
      gs_LastLogIndex = s_LastLogIndex st, gs_CommitIndex = s_CommitIndex st,
      gs_LastApplied = s_LastApplied st, gs_SnapshotIndex = s_SnapshotIndex st\<rparr>)"

section \<open>What the handlers promise\<close>

lemma rejected_is_error: "pr_rejected r \<Longrightarrow> proposalError attach cfg r \<noteq> None"
  by (auto simp: proposalError_def split: option.splits)

lemma proposalError_None: "proposalError attach cfg r = None \<longleftrightarrow> \<not> pr_rejected r \<and> pr_failure r = sessionSucceeded"
  by (auto simp: proposalError_def split: option.splits sessionFailure.splits)

lemma validateKey_None: "validateKey attach key = None \<longleftrightarrow> key \<noteq> [] \<and> validUTF8 key \<and> length key \<le> maxKeyBytes"
  by (auto simp: validateKey_def)

lemma validateMutation_None:
  "validateMutation attach sid q key = None \<longleftrightarrow>
    length sid = 16 \<and> q \<noteq> 0 \<and> key \<noteq> [] \<and> validUTF8 key \<and> length key \<le> maxKeyBytes"
  by (auto simp: validateMutation_def validateKey_None)

lemma ifLeader_cases:
  "ifLeader attach n k = (if s_Role (nd_raftState n) = Leader then k
     else (n, Inl (the (proposalError attach (nd_config n) ((zeroResult zeroSessionID 0)\<lparr>pr_leaderID := s_LeaderID (nd_raftState n),
        pr_rejected := True\<rparr>))), None))"
  using rejected_is_error [of "(zeroResult zeroSessionID 0)\<lparr>pr_leaderID := s_LeaderID (nd_raftState n), pr_rejected := True\<rparr>" attach "nd_config n"]
  by (auto simp: ifLeader_def rejectIfNotLeader_def)

lemma answer_Inr:
  "answer attach cfg f (propose queued waited ev) = (Inr x, e) \<longleftrightarrow>
    queued = Ready () \<and> e = Some ev \<and> (\<exists>r. waited = Ready r \<and> \<not> pr_rejected r \<and> pr_failure r = sessionSucceeded \<and> x = f r)"
  using proposalError_None [of attach cfg]
  by (cases queued; cases waited) (auto simp: answer_def propose_def split: option.splits, metis option.distinct(1))

text \<open>
  C36: \<open>Set\<close> acknowledges a write exactly when it was valid, this Node believed itself the Leader, the
  command reached the Raft owner, and the owner reported that it was applied with success. A valid
  request names a 16-byte session, a positive sequence, a non-empty UTF-8 key of at most 1024 bytes and
  a value of at most 1 MiB, and the command that was queued is exactly the one that was requested.
\<close>

theorem Set_succeeds_iff:
  "snd (api_Set attach queued waited n rq) = (Inr (), ev) \<longleftrightarrow>
    length (srq_SessionId rq) = 16 \<and> srq_Sequence rq \<noteq> 0 \<and> srq_Key rq \<noteq> [] \<and> validUTF8 (srq_Key rq)
    \<and> length (srq_Key rq) \<le> maxKeyBytes \<and> length (srq_Value rq) \<le> maxValueBytes
    \<and> s_Role (nd_raftState n) = Leader \<and> queued = Ready ()
    \<and> ev = Some (EvProposeSet \<lparr>pset_ProposalID = add64 (nd_nextProposal n) 1, pset_SessionID = srq_SessionId rq,
        pset_Sequence = srq_Sequence rq, pset_Key = srq_Key rq, pset_Value = srq_Value rq\<rparr>)
    \<and> (\<exists>r. waited = Ready r \<and> \<not> pr_rejected r \<and> pr_failure r = sessionSucceeded)"
  unfolding api_Set_def using validateMutation_None [of attach "srq_SessionId rq" "srq_Sequence rq" "srq_Key rq"]
  by (cases "validateMutation attach (srq_SessionId rq) (srq_Sequence rq) (srq_Key rq)")
    (auto simp: ifLeader_cases answer_Inr nextProposalID_def)

text \<open>
  What a client is told by a Node that does not lead: nothing to retry at while the Leader is unknown or
  not a configured member, and otherwise the Leader's name and client address, as far as gRPC can attach
  them.
\<close>

definition redirection :: "(detail \<Rightarrow> bool) \<Rightarrow> NodeServer \<Rightarrow> status" where
  "redirection attach n =
    (let leader = s_LeaderID (nd_raftState n) in
     case if leader = [] then None else fmlookup (cfg_Members (nd_config n)) leader of
       None \<Rightarrow> \<lparr>sts_code = Unavailable, sts_detail = None\<rparr>
     | Some m \<Rightarrow> \<lparr>sts_code = FailedPrecondition,
         sts_detail = (if attach (NotLeader leader (mb_ClientAddress m)) then Some (NotLeader leader (mb_ClientAddress m)) else None)\<rparr>)"

definition valid_key :: "string \<Rightarrow> bool" where
  "valid_key key \<longleftrightarrow> key \<noteq> [] \<and> validUTF8 key \<and> length key \<le> 1024"

definition malformed :: "(detail \<Rightarrow> bool) \<Rightarrow> string \<Rightarrow> status" where
  "malformed attach field = \<lparr>sts_code = InvalidArgument,
     sts_detail = (if attach (ValidationError field) then Some (ValidationError field) else None)\<rparr>"

lemma ifLeader_redirects: "s_Role (nd_raftState n) \<noteq> Leader \<Longrightarrow> ifLeader attach n k = (n, Inl (redirection attach n), None)"
  by (auto simp: ifLeader_cases redirection_def proposalError_def withDetails_def plain_status_def Let_def split: option.splits)

lemma validateKey_cases: "validateKey attach key = (if valid_key key then None else Some (malformed attach ''key''))"
  by (auto simp: validateKey_def valid_key_def malformed_def validationError_def withDetails_def plain_status_def maxKeyBytes_def)

lemma validateMutation_cases:
  "validateMutation attach sid q key =
    (if length sid \<noteq> 16 then Some (malformed attach ''session_id'') else if q = 0 then Some (malformed attach ''sequence'')
     else if valid_key key then None else Some (malformed attach ''key''))"
  by (simp add: validateMutation_def validateKey_cases malformed_def validationError_def withDetails_def plain_status_def)

text \<open>
  C37: A Node that is not the Leader proposes nothing: every client operation ends without an event for
  the Raft owner and without using up an identifier. A request that is not well-formed is refused with the
  field that is wrong. Every other request, of each of the five operations, is redirected: the error is
  \<open>FailedPrecondition\<close> with the Leader's name and client address when the Leader is known and a configured
  member, without them if gRPC cannot attach a detail, and \<open>Unavailable\<close> when the Leader is not known or
  not a member.
\<close>

theorem follower_proposes_nothing:
  assumes "s_Role (nd_raftState n) \<noteq> Leader"
  shows "api_Set attach queued waited n rq =
      (n, Inl (if length (srq_SessionId rq) \<noteq> 16 then malformed attach ''session_id''
               else if srq_Sequence rq = 0 then malformed attach ''sequence''
               else if \<not> valid_key (srq_Key rq) then malformed attach ''key''
               else if length (srq_Value rq) > 2 ^ 20 then malformed attach ''value''
               else redirection attach n), None)
    \<and> api_Delete attach queued waited n drq =
      (n, Inl (if length (drq_SessionId drq) \<noteq> 16 then malformed attach ''session_id''
               else if drq_Sequence drq = 0 then malformed attach ''sequence''
               else if \<not> valid_key (drq_Key drq) then malformed attach ''key''
               else redirection attach n), None)
    \<and> api_OpenSession attach random queued waited n = (n, Inl (redirection attach n), None)
    \<and> api_CloseSession attach queued waited n sid =
      (n, Inl (if length sid \<noteq> 16 then malformed attach ''session_id'' else redirection attach n), None)
    \<and> api_Get attach queued rwaited n key =
      (n, Inl (if \<not> valid_key key then malformed attach ''key'' else redirection attach n), None)"
  using assms
  by (simp add: api_Set_def api_Delete_def api_OpenSession_def api_CloseSession_def api_Get_def ifLeader_redirects
    validateMutation_cases validateKey_cases maxValueBytes_def validationError_def withDetails_def plain_status_def malformed_def)

definition sample_server :: "Role \<Rightarrow> NodeServer" where
  "sample_server role = \<lparr>nd_config = sample_config, nd_ready = True,
     nd_raftState = \<lparr>s_ID = ''n1'', s_Role = role, s_Term = 1, s_VotedFor = ''n2'', s_LeaderID = ''n2'', s_LastLogIndex = 1,
       s_LastLogTerm = 1, s_CommitIndex = 1, s_LastApplied = 1, s_LastAppliedTerm = 1, s_SnapshotIndex = 0, s_ReadReady = False\<rparr>,
     nd_nextProposal = 0, nd_nextRead = 0\<rparr>"

theorem follower_proposes_nothing_witness:
  "api_Get (\<lambda>_. True) (Ready ()) RuntimeDone (sample_server Follower) ''k'' =
      (sample_server Follower, Inl \<lparr>sts_code = FailedPrecondition, sts_detail = Some (NotLeader ''n2'' ''h:4'')\<rparr>, None)
    \<and> api_CloseSession (\<lambda>_. True) (Ready ()) RuntimeDone (sample_server Follower) [] =
      (sample_server Follower, Inl \<lparr>sts_code = InvalidArgument, sts_detail = Some (ValidationError ''session_id'')\<rparr>, None)"
proof -
  have "s_Role (nd_raftState (sample_server Follower)) \<noteq> Leader" by (simp add: sample_server_def)
  moreover have "redirection (\<lambda>_. True) (sample_server Follower) = \<lparr>sts_code = FailedPrecondition, sts_detail = Some (NotLeader ''n2'' ''h:4'')\<rparr>"
    by (simp add: redirection_def sample_server_def sample_config_def fmlookup_of_list)
  moreover have "valid_key ''k''" by (simp add: valid_key_def validUTF8_ascii)
  ultimately show ?thesis using follower_proposes_nothing [of "sample_server Follower" "\<lambda>_. True" "Ready ()" RuntimeDone undefined undefined None "[]" RuntimeDone "''k''"]
    by (simp add: malformed_def)
qed

end
