(* ===== verification/Client.thy ===== *)
theory Client
  imports Node_Api
begin

text \<open>
  The official client (\<open>src/client/client.go\<close>): its connection cache and the loop \<open>withLeader\<close> that
  finds the Leader by following typed hints, falling back across the configured addresses with bounded
  exponential backoff.

  What the environment decides is an argument: \<open>dial\<close> tells whether \<open>grpc.NewClient\<close> succeeds for
  an address, \<open>rpc\<close> the error (if any) of the call of an attempt at an address, \<open>jitter\<close> the random
  part of a pause and \<open>cancelled\<close> whether the context ends during it. Times are in nanoseconds.
\<close>

section \<open>Data\<close>

definition maxAttempts :: nat where "maxAttempts = 128"
definition maxLeaderHints :: nat where "maxLeaderHints = 8"
definition initialBackoff :: nat where "initialBackoff = 25 * 10 ^ 6"
definition maximumBackoff :: nat where "maximumBackoff = 200 * 10 ^ 6"

record Client =
  cl_addresses :: "string list"
  cl_connections :: "string fset"
  cl_closed :: bool

text \<open>An error of a call: its status code, \<open>None\<close> for an error that is no status, and the details.\<close>

record rpc_error =
  re_code :: "code option"
  re_details :: "detail list"

record environment =
  env_dial :: "string \<Rightarrow> bool"
  env_rpc :: "nat \<Rightarrow> string \<Rightarrow> rpc_error option"
  env_jitter :: "nat \<Rightarrow> nat"
  env_cancelled :: "nat \<Rightarrow> bool"

datatype outcome_of_command = Succeeded | NoAddresses | NotConnected | Refused rpc_error | Cancelled | GaveUp

text \<open>The visible steps of a command: calls to addresses and pauses.\<close>

datatype client_step = Called string | Paused nat

section \<open>Connections\<close>

definition newClient :: "string list \<Rightarrow> Client" where
  "newClient addresses = \<lparr>cl_addresses = addresses, cl_connections = {||}, cl_closed = False\<rparr>"

definition client_Close :: "Client \<Rightarrow> Client" where
  "client_Close c = c\<lparr>cl_closed := True, cl_connections := {||}\<rparr>"

text \<open>The result is whether a connection is at hand.\<close>

definition connection :: "(string \<Rightarrow> bool) \<Rightarrow> string \<Rightarrow> Client \<Rightarrow> bool \<times> Client" where
  "connection dial address c =
    (if cl_closed c then (False, c)
     else if address |\<in>| cl_connections c then (True, c)
     else if \<not> dial address then (False, c)
     else (True, c\<lparr>cl_connections := finsert address (cl_connections c)\<rparr>))"

section \<open>Finding the Leader\<close>

fun leaderHint :: "detail list \<Rightarrow> string option" where
  "leaderHint [] = None"
| "leaderHint (d # ds) =
    (case d of NotLeader _ address \<Rightarrow> if address \<noteq> [] then Some address else leaderHint ds | _ \<Rightarrow> leaderHint ds)"

text \<open>The pause before attempt \<open>n + 1\<close>; \<open>rand.Int64N(backoff/2 + 1)\<close> is the jitter modulo its bound.\<close>

definition pause :: "environment \<Rightarrow> nat \<Rightarrow> nat \<Rightarrow> nat" where
  "pause env n backoff = backoff div 2 + env_jitter env n mod (backoff div 2 + 1)"

text \<open>
  The loop with \<open>k\<close> attempts left at attempt \<open>n\<close>. \<open>i\<close> is \<open>configuredIndex\<close>, \<open>hints\<close> is
  \<open>hintsFollowed\<close>.
\<close>

primrec leaderLoop ::
    "nat \<Rightarrow> environment \<Rightarrow> nat \<Rightarrow> nat \<Rightarrow> string \<Rightarrow> nat \<Rightarrow> nat \<Rightarrow> Client \<Rightarrow> outcome_of_command \<times> client_step list \<times> Client" where
  "leaderLoop 0 env n i address backoff hints c = (GaveUp, [], c)"
| "leaderLoop (Suc k) env n i address backoff hints c =
    (case connection (env_dial env) address c of
       (False, c) \<Rightarrow> (NotConnected, [], c)
     | (True, c) \<Rightarrow>
         (case env_rpc env n address of
            None \<Rightarrow> (Succeeded, [Called address], c)
          | Some err \<Rightarrow>
              let hint = leaderHint (re_details err) in
              if hint \<noteq> None \<and> hints < maxLeaderHints then
                (case leaderLoop k env (n + 1) i (the hint) backoff (hints + 1) c of
                   (r, tr, c) \<Rightarrow> (r, Called address # tr, c))
              else if hint \<noteq> None \<or> re_code err = Some Unavailable then
                let i = (i + 1) mod length (cl_addresses c); delay = pause env n backoff in
                if env_cancelled env n then (Cancelled, [Called address, Paused delay], c)
                else
                  (case leaderLoop k env (n + 1) i (cl_addresses c ! i) (min (backoff * 2) maximumBackoff) 0 c of
                     (r, tr, c) \<Rightarrow> (r, Called address # Paused delay # tr, c))
              else (Refused err, [Called address], c)))"

definition withLeader :: "environment \<Rightarrow> Client \<Rightarrow> outcome_of_command \<times> client_step list \<times> Client" where
  "withLeader env c =
    (if cl_addresses c = [] then (NoAddresses, [], c)
     else leaderLoop maxAttempts env 1 0 (hd (cl_addresses c)) initialBackoff 0 c)"

section \<open>Retries are bounded and only for errors that another Node may cure\<close>

fun calls :: "client_step list \<Rightarrow> string list" where
  "calls [] = []"
| "calls (Called a # tr) = a # calls tr"
| "calls (Paused d # tr) = calls tr"

fun pauses :: "client_step list \<Rightarrow> nat list" where
  "pauses [] = []"
| "pauses (Called a # tr) = pauses tr"
| "pauses (Paused d # tr) = d # pauses tr"

definition retryable :: "rpc_error \<Rightarrow> bool" where
  "retryable err \<longleftrightarrow> leaderHint (re_details err) \<noteq> None \<or> re_code err = Some Unavailable"

text \<open>
  The calls of a command against their answers, from attempt \<open>n\<close> on: a successful call is the last one
  and makes the command succeed, an error that is not retryable is the last answer and the result.
\<close>

fun tried :: "environment \<Rightarrow> nat \<Rightarrow> string list \<Rightarrow> outcome_of_command \<Rightarrow> bool" where
  "tried env n [] r \<longleftrightarrow> r \<noteq> Succeeded \<and> (\<forall>e. r \<noteq> Refused e)"
| "tried env n (a # as) r \<longleftrightarrow>
    (case env_rpc env n a of
       None \<Rightarrow> as = [] \<and> r = Succeeded
     | Some e \<Rightarrow> if retryable e then tried env (Suc n) as r else as = [] \<and> r = Refused e)"

lemma pause_bounds:
  assumes "backoff \<le> maximumBackoff"
  shows "backoff div 2 \<le> pause env n backoff \<and> pause env n backoff \<le> maximumBackoff"
proof -
  have "env_jitter env n mod (backoff div 2 + 1) < backoff div 2 + 1" by (rule mod_less_divisor) simp
  then show ?thesis using assms unfolding pause_def by linarith
qed

lemma leaderLoop_spec:
  assumes "leaderLoop k env n i address backoff hints c = (r, tr, c')" "backoff \<le> maximumBackoff" "initialBackoff \<le> backoff"
  shows "length (calls tr) \<le> k \<and> tried env n (calls tr) r
    \<and> list_all (\<lambda>d. initialBackoff div 2 \<le> d \<and> d \<le> maximumBackoff) (pauses tr)"
  using assms
proof (induction k arbitrary: n i address backoff hints c r tr c')
  case 0
  then show ?case by simp
next
  case (Suc k)
  obtain ok c1 where con: "connection (env_dial env) address c = (ok, c1)" by (metis surj_pair)
  show ?case
  proof (cases "ok \<and> env_rpc env n address \<noteq> None")
    case False
    then show ?thesis using Suc.prems con by (cases ok) auto
  next
    case True
    then obtain err where err: "env_rpc env n address = Some err" and ok: "ok" by auto
    let ?hint = "leaderHint (re_details err)"
    have half: "initialBackoff div 2 \<le> pause env n backoff" "pause env n backoff \<le> maximumBackoff"
      using pause_bounds [OF Suc.prems(2), of env n] div_le_mono [OF Suc.prems(3), of 2] by linarith+
    have next_backoff: "min (backoff * 2) maximumBackoff \<le> maximumBackoff" "initialBackoff \<le> min (backoff * 2) maximumBackoff"
      using Suc.prems(2,3) by auto
    consider (hinted) "?hint \<noteq> None" "hints < maxLeaderHints" | (pausing) "\<not> (?hint \<noteq> None \<and> hints < maxLeaderHints)" "retryable err"
      | (refused) "\<not> retryable err"
      by (metis retryable_def)
    then show ?thesis
    proof cases
      case hinted
      obtain r2 tr2 c2 where rest: "leaderLoop k env (n + 1) i (the ?hint) backoff (hints + 1) c1 = (r2, tr2, c2)" by (metis prod_cases3)
      have "r = r2" "tr = Called address # tr2" using Suc.prems(1) con ok err hinted rest by (auto simp: Let_def)
      then show ?thesis using Suc.IH [OF rest Suc.prems(2,3)] err hinted(1) by (auto simp: retryable_def)
    next
      case pausing
      let ?i = "(i + 1) mod length (cl_addresses c1)"
      obtain r2 tr2 c2 where rest: "leaderLoop k env (n + 1) ?i (cl_addresses c1 ! ?i) (min (backoff * 2) maximumBackoff) 0 c1 = (r2, tr2, c2)"
        by (metis prod_cases3)
      have branch: "(r, tr) = (if env_cancelled env n then (Cancelled, [Called address, Paused (pause env n backoff)])
          else (r2, Called address # Paused (pause env n backoff) # tr2))"
        using Suc.prems(1) con ok err pausing rest by (auto simp: Let_def retryable_def split: if_splits)
      then show ?thesis using Suc.IH [OF rest next_backoff] err pausing(2) half by (auto split: if_splits)
    next
      case refused
      then have "r = Refused err" "tr = [Called address]" using Suc.prems(1) con ok err by (auto simp: Let_def retryable_def)
      then show ?thesis using err refused by simp
    qed
  qed
qed

text \<open>
  C35: A command makes at most 128 calls and pauses between 12.5 and 200 milliseconds each time it
  pauses. Every call but the last one failed with a Leader hint or with \<open>Unavailable\<close>; success is
  reported exactly when the last call succeeded, and an error that no other Node can cure is returned
  at once.
\<close>

theorem withLeader_retry_discipline:
  "case withLeader env c of (r, tr, c') \<Rightarrow> length (calls tr) \<le> maxAttempts \<and> tried env 1 (calls tr) r
    \<and> list_all (\<lambda>d. 12500000 \<le> d \<and> d \<le> 200000000) (pauses tr)"
proof (cases "cl_addresses c = []")
  case True
  then show ?thesis by (simp add: withLeader_def)
next
  case False
  obtain r tr c' where run: "leaderLoop maxAttempts env 1 0 (hd (cl_addresses c)) initialBackoff 0 c = (r, tr, c')"
    by (metis prod_cases3)
  then show ?thesis using False leaderLoop_spec [OF run] by (simp add: withLeader_def initialBackoff_def maximumBackoff_def)
qed

section \<open>A stable Leader is found\<close>

text \<open>
  A settled Cluster as the client sees it: connections can be made, the context does not end, the
  Leader \<open>L\<close> serves every call, and every other Node is unavailable or points at the Leader.
\<close>

definition settled :: "environment \<Rightarrow> string \<Rightarrow> bool" where
  "settled env L \<longleftrightarrow> (\<forall>a. env_dial env a) \<and> (\<forall>n. \<not> env_cancelled env n) \<and> (\<forall>n. env_rpc env n L = None)
    \<and> (\<forall>n a. a \<noteq> L \<longrightarrow> (\<exists>e. env_rpc env n a = Some e \<and>
         (leaderHint (re_details e) = Some L \<or> leaderHint (re_details e) = None \<and> re_code e = Some Unavailable)))"

lemma connection_open:
  "settled env L \<Longrightarrow> \<not> cl_closed c \<Longrightarrow>
    \<exists>c'. connection (env_dial env) a c = (True, c') \<and> cl_addresses c' = cl_addresses c \<and> \<not> cl_closed c'"
  by (auto simp: connection_def settled_def)

lemma leaderLoop_at_leader:
  assumes "settled env L" "\<not> cl_closed c" "0 < k"
  shows "fst (leaderLoop k env n i L backoff hints c) = Succeeded"
  using assms connection_open [OF assms(1,2), of L] by (cases k) (auto simp: settled_def)

lemma leaderLoop_reaches:
  assumes "settled env L" "\<not> cl_closed c" "i \<le> j" "j < length (cl_addresses c)" "cl_addresses c ! j = L" "j - i < k"
  shows "fst (leaderLoop k env n i (cl_addresses c ! i) backoff 0 c) = Succeeded"
  using assms
proof (induction k arbitrary: n i backoff c)
  case (Suc k)
  let ?a = "cl_addresses c ! i"
  show ?case
  proof (cases "?a = L")
    case True
    then show ?thesis using leaderLoop_at_leader [OF Suc.prems(1,2), of "Suc k"] by simp
  next
    case False
    obtain c1 where c1: "connection (env_dial env) ?a c = (True, c1)" "cl_addresses c1 = cl_addresses c" "\<not> cl_closed c1"
      using connection_open [OF Suc.prems(1,2)] by blast
    obtain e where e: "env_rpc env n ?a = Some e"
      "leaderHint (re_details e) = Some L \<or> leaderHint (re_details e) = None \<and> re_code e = Some Unavailable"
      using Suc.prems(1) False unfolding settled_def by blast
    have i: "i < j" using False Suc.prems(3,5) by (cases "i = j") auto
    have k: "0 < k" "j - Suc i < k" "Suc i \<le> j" using i Suc.prems(6) by auto
    have nxt: "(i + 1) mod length (cl_addresses c1) = Suc i" using i Suc.prems(4) c1(2) by simp
    show ?thesis
    proof (cases "leaderHint (re_details e)")
      case None
      then have "re_code e = Some Unavailable" "\<not> env_cancelled env n" using e(2) Suc.prems(1) by (auto simp: settled_def)
      then have "fst (leaderLoop (Suc k) env n i ?a backoff 0 c) =
          fst (leaderLoop k env (n + 1) (Suc i) (cl_addresses c1 ! Suc i) (min (backoff * 2) maximumBackoff) 0 c1)"
        using c1(1) e(1) None nxt by (simp add: Let_def split: prod.split)
      then show ?thesis using Suc.IH [OF Suc.prems(1) c1(3) k(3), where backoff = "min (backoff * 2) maximumBackoff" and n = "n + 1"]
        Suc.prems(4,5) c1(2) k(2) by simp
    next
      case (Some h)
      then have "fst (leaderLoop (Suc k) env n i ?a backoff 0 c) = fst (leaderLoop k env (n + 1) i L backoff 1 c1)"
        using c1(1) e by (simp add: Let_def maxLeaderHints_def split: prod.split)
      then show ?thesis using leaderLoop_at_leader [OF Suc.prems(1) c1(3) k(1)] by simp
    qed
  qed
qed simp

text \<open>
  C34: In a settled Cluster a command succeeds: when one of the configured addresses (at most 128) is
  the Leader's and every other Node is unavailable or points at it, an open client reaches the Leader
  within its attempts and the command completes.
\<close>

theorem withLeader_reaches_leader:
  assumes "settled env L" "L \<in> set (cl_addresses c)" "length (cl_addresses c) \<le> maxAttempts" "\<not> cl_closed c"
  shows "fst (withLeader env c) = Succeeded"
proof -
  obtain j where j: "j < length (cl_addresses c)" "cl_addresses c ! j = L" using assms(2) by (metis in_set_conv_nth)
  have "hd (cl_addresses c) = cl_addresses c ! 0" "cl_addresses c \<noteq> []" using j(1) by (cases "cl_addresses c"; simp)+
  then show ?thesis using leaderLoop_reaches [OF assms(1,4) _ j, of 0 maxAttempts] j(1) assms(3) by (simp add: withLeader_def)
qed

definition sample_environment :: environment where
  "sample_environment = \<lparr>env_dial = (\<lambda>_. True),
     env_rpc = (\<lambda>n a. if a = ''h:4'' then None
        else if a = ''h:2'' then Some \<lparr>re_code = Some Unavailable, re_details = []\<rparr>
        else Some \<lparr>re_code = Some FailedPrecondition, re_details = [NotLeader ''n2'' ''h:4'']\<rparr>),
     env_jitter = (\<lambda>_. 0), env_cancelled = (\<lambda>_. False)\<rparr>"

theorem withLeader_reaches_leader_witness:
  "settled sample_environment ''h:4'' \<and> fst (withLeader sample_environment (newClient [''h:2'', ''h:6'', ''h:4''])) = Succeeded"
proof -
  have "settled sample_environment ''h:4''" by (simp add: settled_def sample_environment_def)
  moreover from this have "fst (withLeader sample_environment (newClient [''h:2'', ''h:6'', ''h:4''])) = Succeeded"
    by (rule withLeader_reaches_leader) (simp_all add: newClient_def maxAttempts_def)
  ultimately show ?thesis by simp
qed

end
