(* ===== verification/Base64.thy ===== *)
theory Base64
  imports Bytes
begin

text \<open>
  \<open>base64.StdEncoding\<close> of Go's standard library, which \<open>encoding/json\<close> uses for byte slices: three
  bytes become four letters, the last group is padded with \<open>=\<close>. Decoding skips line breaks, wants
  whole groups, accepts padding only at the end and ignores the unused bits of the last letter.
\<close>

definition b64_char :: "nat \<Rightarrow> byte" where
  "b64_char n = (if n < 26 then char_of (65 + n) else if n < 52 then char_of (97 + (n - 26))
     else if n < 62 then char_of (48 + (n - 52)) else if n = 62 then CHR ''+'' else CHR ''/'')"

definition b64_value :: "byte \<Rightarrow> nat option" where
  "b64_value c = (let n = of_char c in
     if 65 \<le> n \<and> n < 91 then Some (n - 65) else if 97 \<le> n \<and> n < 123 then Some (n - 71)
     else if 48 \<le> n \<and> n < 58 then Some (n + 4) else if c = CHR ''+'' then Some 62
     else if c = CHR ''/'' then Some 63 else None)"

fun encode64 :: "bytes \<Rightarrow> bytes" where
  "encode64 [] = []"
| "encode64 [a] = (let x = of_char a in [b64_char (x div 4), b64_char (x mod 4 * 16), CHR ''='', CHR ''=''])"
| "encode64 [a, b] = (let x = of_char a; y = of_char b in
     [b64_char (x div 4), b64_char (x mod 4 * 16 + y div 16), b64_char (y mod 16 * 4), CHR ''=''])"
| "encode64 (a # b # c # rest) = (let x = of_char a; y = of_char b; z = of_char c in
     [b64_char (x div 4), b64_char (x mod 4 * 16 + y div 16), b64_char (y mod 16 * 4 + z div 64), b64_char (z mod 64)]
     @ encode64 rest)"

fun decode_groups :: "bytes \<Rightarrow> bytes option" where
  "decode_groups [] = Some []"
| "decode_groups (p # q # r # s # rest) =
     (case (b64_value p, b64_value q) of
        (Some x, Some y) \<Rightarrow>
          if r = CHR ''='' then
            (if s = CHR ''='' \<and> rest = [] then Some [char_of (x * 4 + y div 16)] else None)
          else (case b64_value r of
            None \<Rightarrow> None
          | Some z \<Rightarrow>
              if s = CHR ''='' then
                (if rest = [] then Some [char_of (x * 4 + y div 16), char_of (y mod 16 * 16 + z div 4)] else None)
              else (case b64_value s of
                None \<Rightarrow> None
              | Some w \<Rightarrow> map_option (\<lambda>bs. char_of (x * 4 + y div 16) # char_of (y mod 16 * 16 + z div 4)
                             # char_of (z mod 4 * 64 + w) # bs) (decode_groups rest)))
      | _ \<Rightarrow> None)"
| "decode_groups _ = None"

definition decode64 :: "bytes \<Rightarrow> bytes option" where
  "decode64 bs = decode_groups (filter (\<lambda>c. c \<noteq> CHR 0x0A \<and> c \<noteq> CHR 0x0D) bs)"

lemma b64_code: "n < 64 \<Longrightarrow> (of_char (b64_char n) :: nat) = (if n < 26 then 65 + n else if n < 52 then 71 + n
    else if n < 62 then n - 4 else if n = 62 then 43 else 47)"
  by (auto simp: b64_char_def)

lemma b64_value_char [simp]: "n < 64 \<Longrightarrow> b64_value (b64_char n) = Some n"
proof -
  assume n: "n < 64"
  consider "n < 26" | "26 \<le> n" "n < 52" | "52 \<le> n" "n < 62" | "n = 62" | "n = 63" using n by linarith
  then show ?thesis using b64_code [OF n] by cases (auto simp: b64_value_def Let_def b64_char_def)
qed

lemma b64_char_plain [simp]:
  "n < 64 \<Longrightarrow> b64_char n \<noteq> CHR ''=''" "n < 64 \<Longrightarrow> b64_char n \<noteq> CHR 0x0A" "n < 64 \<Longrightarrow> b64_char n \<noteq> CHR 0x0D"
proof -
  assume n: "n < 64"
  have "c \<noteq> b64_char n" if "(of_char c :: nat) \<noteq> of_char (b64_char n)" for c using that by auto
  moreover have "(of_char (b64_char n) :: nat) \<noteq> 61" "(of_char (b64_char n) :: nat) \<noteq> 10" "(of_char (b64_char n) :: nat) \<noteq> 13"
    using b64_code [OF n] by (auto split: if_splits)
  ultimately show "b64_char n \<noteq> CHR ''=''" "b64_char n \<noteq> CHR 0x0A" "b64_char n \<noteq> CHR 0x0D" by force+
qed

lemma byte_code_bound: "(of_char b :: nat) < 256"
  by simp

lemma group_bounds [simp]:
  "(of_char a :: nat) div 4 < 64" "(of_char a :: nat) mod 4 * 16 < 64" "(of_char a :: nat) mod 4 * 16 + of_char b div 16 < 64"
  "(of_char b :: nat) mod 16 * 4 < 64" "(of_char b :: nat) mod 16 * 4 + of_char c div 64 < 64"
proof -
  have d: "(of_char x :: nat) div 4 < 64" "(of_char x :: nat) div 16 < 16" "(of_char x :: nat) div 64 < 4"
    "(of_char x :: nat) mod 4 < 4" "(of_char x :: nat) mod 16 < 16" for x
    using byte_code_bound [of x] by (auto simp: div_less_iff_less_mult)
  show "(of_char a :: nat) div 4 < 64" "(of_char a :: nat) mod 4 * 16 < 64" "(of_char a :: nat) mod 4 * 16 + of_char b div 16 < 64"
    "(of_char b :: nat) mod 16 * 4 < 64" "(of_char b :: nat) mod 16 * 4 + of_char c div 64 < 64"
    using d [of a] d [of b] d [of c] by linarith+
qed

lemma group_parts:
  "(of_char b :: nat) div 16 div 16 = 0" "(of_char b :: nat) div 16 mod 16 = of_char b div 16"
  "(of_char b :: nat) div 64 div 4 = 0" "(of_char b :: nat) div 64 mod 4 = of_char b div 64"
proof -
  have "(of_char b :: nat) div 16 < 16" "(of_char b :: nat) div 64 < 4"
    using byte_code_bound [of b] by (auto simp: div_less_iff_less_mult)
  then show "(of_char b :: nat) div 16 div 16 = 0" "(of_char b :: nat) div 16 mod 16 = of_char b div 16"
    "(of_char b :: nat) div 64 div 4 = 0" "(of_char b :: nat) div 64 mod 4 = of_char b div 64"
    by simp_all
qed

lemma encode64_plain: "filter (\<lambda>c. c \<noteq> CHR 0x0A \<and> c \<noteq> CHR 0x0D) (encode64 bs) = encode64 bs"
  by (induction bs rule: encode64.induct) (simp_all add: Let_def)

lemma decode_groups_encode64: "decode_groups (encode64 bs) = Some bs"
  by (induction bs rule: encode64.induct) (simp_all add: Let_def group_parts)

lemma decode64_encode64: "decode64 (encode64 bs) = Some bs"
  by (simp add: decode64_def encode64_plain decode_groups_encode64)

lemma encode64_ascii: "validUTF8 (encode64 bs)"
proof -
  have ascii: "(of_char (b64_char n) :: nat) < 0x80" if "n < 64" for n using b64_code [OF that] that by auto
  show ?thesis
    by (induction bs rule: encode64.induct)
      (simp_all add: Let_def validUTF8_ascii ascii)
qed

end
