(* ===== verification/Snapshot_File.thy ===== *)
theory Snapshot_File
  imports Snapshot_State Json Base64
begin

text \<open>
  Snapshot files (\<open>src/internal/snapshot/snapshot.go\<close>): the JSON payload with its checksummed header,
  \<open>decode\<close> and the streaming \<open>validateFile\<close>, the atomic installation by \<open>Save\<close>, the lookups \<open>Open\<close>,
  \<open>Encoded\<close>, \<open>LoadNewest\<close> and \<open>requireCheckpointSnapshot\<close>, and the bounded reads of a \<open>Handle\<close>.

  A directory is a map from file names to contents. An empty value of the replicated map is a nil
  slice in the source, which \<open>encoding/json\<close> writes as \<open>null\<close>.
\<close>

section \<open>Encoding\<close>

definition magic :: bytes where
  "magic = ''QKVSNP01''"

definition snapFormatVersion :: u32 where
  "snapFormatVersion = 1"

definition headerSize :: nat where
  "headerSize = length magic + 4 + 8 + 4"

definition maxPayloadSize :: nat where
  "maxPayloadSize = 4 * 2 ^ 30"

definition identity_json :: "Identity \<Rightarrow> json" where
  "identity_json i = JObj [(''cluster_id'', JStr (id_ClusterID i)), (''node_id'', JStr (id_NodeID i)),
     (''member_ids'', JArr (map JStr (id_MemberIDs i)))]"

definition session_json :: "Session \<Rightarrow> json" where
  "session_json s = JObj
    [(''id'', JArr (map (\<lambda>b. JNum (decimal (of_char b))) (ses_ID s))), (''closed'', JBool (ses_Closed s)),
     (''last_sequence'', JNum (decimal (ses_LastSequence s))), (''last_result'', JNum (decimal (ses_LastResult s))),
     (''last_delete_existed'', JBool (ses_LastDeleteExisted s))]"

definition value_json :: "bytes \<Rightarrow> json" where
  "value_json v = (if v = [] then JNull else JStr (encode64 v))"

text \<open>\<open>encoding/json\<close> writes the keys of a map in increasing order.\<close>

definition values_json :: "(string, bytes) fmap \<Rightarrow> json" where
  "values_json m = JObj (map (\<lambda>k. (k, value_json (the (fmlookup m k)))) (sorted_list_of_fset (fmdom m)))"

definition state_json :: "SnapState \<Rightarrow> json" where
  "state_json st = JObj
    [(''identity'', identity_json (st_Identity st)), (''included_index'', JNum (decimal (st_IncludedIndex st))),
     (''included_term'', JNum (decimal (st_IncludedTerm st))), (''values'', values_json (st_Values st)),
     (''sessions'', JArr (map session_json (st_Sessions st)))]"

text \<open>The header and the payload that \<open>Save\<close> writes.\<close>

definition snapshot_payload :: "SnapState \<Rightarrow> bytes" where
  "snapshot_payload st = render (state_json st)"

definition snapshot_header :: "bytes \<Rightarrow> bytes" where
  "snapshot_header payload = magic @ putUint32 snapFormatVersion @ putUint64 (length payload) @ putUint32 (checksumIEEE payload)"

section \<open>Decoding\<close>

text \<open>
  Decoding a JSON array into a slice that holds \<open>old\<close>: element by element, an element that is
  already there is decoded into; \<open>null\<close> makes the slice nil.
\<close>

fun to_elems :: "('a \<Rightarrow> json \<Rightarrow> 'a option) \<Rightarrow> 'a \<Rightarrow> 'a list \<Rightarrow> json list \<Rightarrow> 'a list option" where
  "to_elems f z old [] = Some []"
| "to_elems f z old (v # vs) =
    (case f (case old of [] \<Rightarrow> z | x # _ \<Rightarrow> x) v of
       None \<Rightarrow> None
     | Some x \<Rightarrow> map_option ((#) x) (to_elems f z (tl old) vs))"

definition to_slice :: "('a \<Rightarrow> json \<Rightarrow> 'a option) \<Rightarrow> 'a \<Rightarrow> 'a list \<Rightarrow> json \<Rightarrow> 'a list option" where
  "to_slice f z old v = (case v of JArr vs \<Rightarrow> to_elems f z old vs | JNull \<Rightarrow> Some [] | _ \<Rightarrow> None)"

text \<open>\<open>[16]byte\<close>: further elements are dropped, missing ones are zero, \<open>null\<close> changes nothing.\<close>

definition to_array16 :: "bytes \<Rightarrow> json \<Rightarrow> bytes option" where
  "to_array16 old v =
    (case v of
       JArr vs \<Rightarrow> map_option (\<lambda>xs. map char_of xs @ replicate (16 - length xs) (char_of (0 :: nat)))
                   (to_elems (to_uint 256) 0 (map of_char old) (take 16 vs))
     | JNull \<Rightarrow> Some old
     | _ \<Rightarrow> None)"

text \<open>\<open>[]byte\<close>: base64 text, or an array of numbers.\<close>

definition to_bytes :: "json \<Rightarrow> bytes option" where
  "to_bytes v =
    (case v of
       JStr s \<Rightarrow> decode64 s
     | JNull \<Rightarrow> Some []
     | JArr vs \<Rightarrow> map_option (map char_of) (to_elems (to_uint 256) 0 [] vs)
     | _ \<Rightarrow> None)"

fun to_entries :: "(string, bytes) fmap \<Rightarrow> (bytes \<times> json) list \<Rightarrow> (string, bytes) fmap option" where
  "to_entries m [] = Some m"
| "to_entries m ((k, v) # kvs) = (case to_bytes v of None \<Rightarrow> None | Some b \<Rightarrow> to_entries (fmupd k b m) kvs)"

definition to_values :: "(string, bytes) fmap \<Rightarrow> json \<Rightarrow> (string, bytes) fmap option" where
  "to_values old v = (case v of JObj kvs \<Rightarrow> to_entries old kvs | JNull \<Rightarrow> Some fmempty | _ \<Rightarrow> None)"

text \<open>The decoder refuses unknown fields.\<close>

definition snap_identity_field :: "bytes \<Rightarrow> json \<Rightarrow> Identity \<Rightarrow> Identity option" where
  "snap_identity_field key v i =
    (case find_field [''cluster_id'', ''node_id'', ''member_ids''] key of
       None \<Rightarrow> None
     | Some k \<Rightarrow>
         if k = 0 then map_option (\<lambda>s. i\<lparr>id_ClusterID := s\<rparr>) (to_string (id_ClusterID i) v)
         else if k = 1 then map_option (\<lambda>s. i\<lparr>id_NodeID := s\<rparr>) (to_string (id_NodeID i) v)
         else map_option (\<lambda>xs. i\<lparr>id_MemberIDs := xs\<rparr>) (to_slice to_string [] (id_MemberIDs i) v))"

definition zeroSession :: Session where
  "zeroSession = \<lparr>ses_ID = replicate 16 (char_of (0 :: nat)), ses_Closed = False, ses_LastSequence = 0,
     ses_LastResult = 0, ses_LastDeleteExisted = False\<rparr>"

definition session_field :: "bytes \<Rightarrow> json \<Rightarrow> Session \<Rightarrow> Session option" where
  "session_field key v s =
    (case find_field [''id'', ''closed'', ''last_sequence'', ''last_result'', ''last_delete_existed''] key of
       None \<Rightarrow> None
     | Some k \<Rightarrow>
         if k = 0 then map_option (\<lambda>x. s\<lparr>ses_ID := x\<rparr>) (to_array16 (ses_ID s) v)
         else if k = 1 then map_option (\<lambda>x. s\<lparr>ses_Closed := x\<rparr>) (to_bool (ses_Closed s) v)
         else if k = 2 then map_option (\<lambda>x. s\<lparr>ses_LastSequence := x\<rparr>) (to_uint W64 (ses_LastSequence s) v)
         else if k = 3 then map_option (\<lambda>x. s\<lparr>ses_LastResult := x\<rparr>) (to_uint 256 (ses_LastResult s) v)
         else map_option (\<lambda>x. s\<lparr>ses_LastDeleteExisted := x\<rparr>) (to_bool (ses_LastDeleteExisted s) v))"

definition zeroState :: SnapState where
  "zeroState = \<lparr>st_Identity = \<lparr>id_ClusterID = [], id_NodeID = [], id_MemberIDs = []\<rparr>, st_IncludedIndex = 0,
     st_IncludedTerm = 0, st_Values = fmempty, st_Sessions = []\<rparr>"

definition state_field :: "bytes \<Rightarrow> json \<Rightarrow> SnapState \<Rightarrow> SnapState option" where
  "state_field key v st =
    (case find_field [''identity'', ''included_index'', ''included_term'', ''values'', ''sessions''] key of
       None \<Rightarrow> None
     | Some k \<Rightarrow>
         if k = 0 then map_option (\<lambda>x. st\<lparr>st_Identity := x\<rparr>) (to_object snap_identity_field (st_Identity st) v)
         else if k = 1 then map_option (\<lambda>x. st\<lparr>st_IncludedIndex := x\<rparr>) (to_uint W64 (st_IncludedIndex st) v)
         else if k = 2 then map_option (\<lambda>x. st\<lparr>st_IncludedTerm := x\<rparr>) (to_uint W64 (st_IncludedTerm st) v)
         else if k = 3 then map_option (\<lambda>x. st\<lparr>st_Values := x\<rparr>) (to_values (st_Values st) v)
         else map_option (\<lambda>x. st\<lparr>st_Sessions := x\<rparr>)
                (to_slice (to_object session_field) zeroSession (st_Sessions st) v))"

datatype snap_error =
  TooLarge nat | ShorterThanHeader | BadMagic | BadFormatVersion u32 | PayloadTooLong nat | LengthDiffers nat nat
| SnapChecksumMismatch | Undecodable | TrailingData | InvalidState validation_error
| NotInstalled u64 u64 | WrongPosition u64 u64 u64 u64 | IdentityDiffers string | NoCompatible | SnapIoError
| AlreadyInstalled string | RangeExceeds nat nat nat

text \<open>The two \<open>Decode\<close> calls: one value into the state, then nothing but the end of the payload.\<close>

definition decode_payload :: "bytes \<Rightarrow> snap_error + SnapState" where
  "decode_payload payload =
    (case parse_value (length payload) payload of
       None \<Rightarrow> Inl Undecodable
     | Some (v, rest) \<Rightarrow>
         (case to_object state_field zeroState v of
            None \<Rightarrow> Inl Undecodable
          | Some st \<Rightarrow> if skip_ws rest = [] then Inr st else Inl TrailingData))"

definition snap_decode :: "bytes \<Rightarrow> snap_error + SnapState" where
  "snap_decode contents =
    (if length contents > maxPayloadSize + headerSize then Inl (TooLarge (length contents))
     else if length contents < headerSize then Inl ShorterThanHeader
     else if take (length magic) contents \<noteq> magic then Inl BadMagic
     else
       let version = get_be (take 4 (drop (length magic) contents));
           len = get_be (take 8 (drop (length magic + 4) contents)) in
       if version \<noteq> snapFormatVersion then Inl (BadFormatVersion version)
       else if len > maxPayloadSize then Inl (PayloadTooLong len)
       else if len \<noteq> length contents - headerSize then Inl (LengthDiffers (length contents - headerSize) len)
       else
         let payload = drop headerSize contents; want = get_be (take 4 (drop (length magic + 12) contents)) in
         if checksumIEEE payload \<noteq> want then Inl SnapChecksumMismatch
         else case decode_payload payload of
           Inl e \<Rightarrow> Inl e
         | Inr st \<Rightarrow> (case validateState st of Inl e \<Rightarrow> Inl (InvalidState e) | Inr _ \<Rightarrow> Inr st))"

section \<open>Handles\<close>

record Handle =
  h_file :: bytes
  h_length :: u64
  h_checksum :: u32

definition handle_ReadAt :: "Handle \<Rightarrow> nat \<Rightarrow> int \<Rightarrow> snap_error + bytes" where
  "handle_ReadAt h n offset =
    (if offset < 0 \<or> nat offset > h_length h \<or> n > h_length h - nat offset
     then Inl (RangeExceeds (nat offset) n (h_length h))
     else Inr (take n (drop (nat offset) (h_file h))))"

text \<open>
  The streaming check of \<open>Open\<close>: two checksums are fed while the decoder reads the payload; the decoding
  error is reported only after the checksum has been compared.
\<close>

definition validateFile :: "bytes \<Rightarrow> snap_error + (Handle \<times> SnapState)" where
  "validateFile file =
    (let size = length file in
     if size > maxPayloadSize + headerSize then Inl (TooLarge size)
     else if size < headerSize then Inl ShorterThanHeader
     else
       let header = take headerSize file in
       if take (length magic) header \<noteq> magic then Inl BadMagic
       else
         let version = get_be (take 4 (drop (length magic) header)) in
         if version \<noteq> snapFormatVersion then Inl (BadFormatVersion version)
         else
           let payloadLength = get_be (take 8 (drop (length magic + 4) header)) in
           if payloadLength > maxPayloadSize then Inl (PayloadTooLong payloadLength)
           else if payloadLength \<noteq> size - headerSize then Inl (LengthDiffers (size - headerSize) payloadLength)
           else
             let payload = take payloadLength (drop headerSize file);
                 decoded = decode_payload payload;
                 fileChecksum = checksumIEEE (header @ payload);
                 wantChecksum = get_be (take 4 (drop (length magic + 12) header)) in
             if checksumIEEE payload \<noteq> wantChecksum then Inl SnapChecksumMismatch
             else case decoded of
               Inl e \<Rightarrow> Inl e
             | Inr st \<Rightarrow>
                 (case validateState st of
                    Inl e \<Rightarrow> Inl (InvalidState e)
                  | Inr _ \<Rightarrow> Inr (\<lparr>h_file = file, h_length = size, h_checksum = fileChecksum\<rparr>, st)))"

lemma validateFile_decode:
  "validateFile file = (case snap_decode file of
     Inl e \<Rightarrow> Inl e
   | Inr st \<Rightarrow> Inr (\<lparr>h_file = file, h_length = length file, h_checksum = checksumIEEE file\<rparr>, st))"
proof -
  let ?n = "length magic"
  have fields: "take ?n (take headerSize file) = take ?n file"
    "take 4 (drop ?n (take headerSize file)) = take 4 (drop ?n file)"
    "take 8 (drop (?n + 4) (take headerSize file)) = take 8 (drop (?n + 4) file)"
    "take 4 (drop (?n + 12) (take headerSize file)) = take 4 (drop (?n + 12) file)"
    by (simp_all add: drop_take headerSize_def)
  have payload: "take (length file - headerSize) (drop headerSize file) = drop headerSize file" by simp
  define len where "len = get_be (take 8 (drop (?n + 4) file))"
  define want where "want = get_be (take 4 (drop (?n + 12) file))"
  define version where "version = get_be (take 4 (drop ?n file))"
  show ?thesis
  proof (cases "len = length file - headerSize")
    case True
    show ?thesis
      unfolding validateFile_def snap_decode_def Let_def fields len_def [symmetric] want_def [symmetric] version_def [symmetric]
      unfolding True payload append_take_drop_id if_distrib [of "case_sum f g" for f g] sum.case
      by (cases "decode_payload (drop headerSize file)"; cases "validateState (projr (decode_payload (drop headerSize file)))")
        (simp_all only: sum.case sum.sel)
  next
    case False
    then show ?thesis
      unfolding validateFile_def snap_decode_def Let_def fields len_def [symmetric] version_def [symmetric] by (simp only: if_distrib [of "case_sum f g" for f g] sum.case not_True_eq_False not_False_eq_True if_True)
  qed
qed

text \<open>
  C30: The streaming validation accepts exactly the files that the in-memory decoder accepts, with the
  same state and the same error otherwise; the handle it returns reports the length and the checksum of
  the whole file.
\<close>

theorem validateFile_eq_decode:
  "validateFile file = (case snap_decode file of
     Inl e \<Rightarrow> Inl e
   | Inr st \<Rightarrow> Inr (\<lparr>h_file = file, h_length = length file, h_checksum = checksumIEEE file\<rparr>, st))"
  by (rule validateFile_decode)

lemma length_escape_rune: "r \<noteq> [] \<Longrightarrow> length (escape_rune r) \<le> 6 * length r"
  by (cases r) (auto simp: escape_rune_def escape_ascii_def Let_def)

lemma length_escape: "length (escape bs) \<le> 6 * length bs"
proof (induction bs rule: escape.induct)
  case (1 bs)
  show ?case
  proof (cases "bs = []")
    case False
    show ?thesis
    proof (cases "rune_size bs")
      case None
      have "length (escape (tl bs)) \<le> 6 * length (tl bs)" using 1 False None by simp
      then show ?thesis using False None by (cases bs) (simp_all add: escape.simps [of "x # xs" for x xs])
    next
      case (Some k)
      have k: "0 < k" "k \<le> length bs" using rune_size_bounds [OF Some] by auto
      have "length (escape (drop k bs)) \<le> 6 * length (drop k bs)" using 1 False Some by simp
      moreover have "length (escape_rune (take k bs)) \<le> 6 * length (take k bs)"
        using length_escape_rune [of "take k bs"] False k by simp
      ultimately show ?thesis using False Some k by (subst escape.simps) simp
    qed
  qed (simp add: escape.simps)
qed

lemma length_quote: "length (quote bs) \<le> 6 * length bs + 2"
  using length_escape [of bs] by (simp add: quote_def)

section \<open>Round trip\<close>

definition session_fits :: "Session \<Rightarrow> bool" where
  "session_fits s \<longleftrightarrow> length (ses_ID s) = 16 \<and> ses_LastSequence s < W64 \<and> ses_LastResult s < 256"

text \<open>Values that fit their fields; names and keys are UTF-8 text.\<close>

definition snapshot_fits :: "SnapState \<Rightarrow> bool" where
  "snapshot_fits st \<longleftrightarrow> validUTF8 (id_ClusterID (st_Identity st)) \<and> validUTF8 (id_NodeID (st_Identity st))
     \<and> list_all validUTF8 (id_MemberIDs (st_Identity st)) \<and> st_IncludedIndex st < W64 \<and> st_IncludedTerm st < W64
     \<and> (\<forall>k |\<in>| fmdom (st_Values st). validUTF8 k) \<and> list_all session_fits (st_Sessions st)"

lemma to_elems_map:
  assumes "\<And>x y. x \<in> set xs \<Longrightarrow> f y (g x) = Some x"
  shows "to_elems f z old (map g xs) = Some xs"
  using assms by (induction xs arbitrary: old) auto

lemma to_uint_decimal: "n < bound \<Longrightarrow> to_uint bound old (JNum (decimal n)) = Some n"
  by (simp add: to_uint_def parse_uint_decimal)

lemma to_bytes_value [simp]: "to_bytes (value_json v) = Some v"
  by (simp add: to_bytes_def value_json_def decode64_encode64)

lemma to_array16_id:
  assumes "length i = 16"
  shows "to_array16 old (JArr (map (\<lambda>b. JNum (decimal (of_char b))) i)) = Some i"
proof -
  have "to_elems (to_uint 256) 0 (map of_char old) (map (\<lambda>n. JNum (decimal n)) (map of_char i)) = Some (map of_char i)"
    by (rule to_elems_map) (auto simp: to_uint_decimal byte_code_bound)
  moreover have "map (\<lambda>n. JNum (decimal n)) (map of_char i) = take 16 (map (\<lambda>b. JNum (decimal (of_char b))) i)"
    using assms by simp
  ultimately have "to_elems (to_uint 256) 0 (map of_char old) (take 16 (map (\<lambda>b. JNum (decimal (of_char b))) i)) = Some (map of_char i)"
    by metis
  moreover have "map char_of (map of_char i :: nat list) = i" by (simp add: map_idI)
  ultimately show ?thesis unfolding to_array16_def json.case using assms by (simp only: option.map length_map diff_self_eq_0 replicate_0 append_Nil2)
qed

lemma to_entries_map:
  "to_entries m (map (\<lambda>k. (k, value_json (g k))) ks) = Some (fold (\<lambda>k. fmupd k (g k)) ks m)"
  by (induction ks arbitrary: m) auto

lemma fold_fmupd_lookup: "fmlookup (fold (\<lambda>k. fmupd k (g k)) ks m) k = (if k \<in> set ks then Some (g k) else fmlookup m k)"
  by (induction ks arbitrary: m) auto

lemma to_values_json: "to_values fmempty (values_json m) = Some m"
proof -
  have "fold (\<lambda>k. fmupd k (the (fmlookup m k))) (sorted_list_of_fset (fmdom m)) fmempty = m"
  proof (rule fmap_ext)
    fix k
    show "fmlookup (fold (\<lambda>k. fmupd k (the (fmlookup m k))) (sorted_list_of_fset (fmdom m)) fmempty) k = fmlookup m k"
      unfolding fold_fmupd_lookup by (cases "fmlookup m k") (simp_all add: fmlookup_dom_iff)
  qed
  then show ?thesis by (simp add: to_values_def values_json_def to_entries_map)
qed

lemma snapshot_names:
  "find_field [''cluster_id'', ''node_id'', ''member_ids''] ''cluster_id'' = Some 0"
  "find_field [''cluster_id'', ''node_id'', ''member_ids''] ''node_id'' = Some 1"
  "find_field [''cluster_id'', ''node_id'', ''member_ids''] ''member_ids'' = Some 2"
  "find_field [''id'', ''closed'', ''last_sequence'', ''last_result'', ''last_delete_existed''] ''id'' = Some 0"
  "find_field [''id'', ''closed'', ''last_sequence'', ''last_result'', ''last_delete_existed''] ''closed'' = Some 1"
  "find_field [''id'', ''closed'', ''last_sequence'', ''last_result'', ''last_delete_existed''] ''last_sequence'' = Some 2"
  "find_field [''id'', ''closed'', ''last_sequence'', ''last_result'', ''last_delete_existed''] ''last_result'' = Some 3"
  "find_field [''id'', ''closed'', ''last_sequence'', ''last_result'', ''last_delete_existed''] ''last_delete_existed'' = Some 4"
  "find_field [''identity'', ''included_index'', ''included_term'', ''values'', ''sessions''] ''identity'' = Some 0"
  "find_field [''identity'', ''included_index'', ''included_term'', ''values'', ''sessions''] ''included_index'' = Some 1"
  "find_field [''identity'', ''included_index'', ''included_term'', ''values'', ''sessions''] ''included_term'' = Some 2"
  "find_field [''identity'', ''included_index'', ''included_term'', ''values'', ''sessions''] ''values'' = Some 3"
  "find_field [''identity'', ''included_index'', ''included_term'', ''values'', ''sessions''] ''sessions'' = Some 4"
  by (simp_all add: find_field_def)

lemma to_identity:
  "to_object snap_identity_field \<lparr>id_ClusterID = [], id_NodeID = [], id_MemberIDs = []\<rparr> (identity_json i) = Some i"
proof -
  have "to_elems to_string [] [] (map JStr xs) = Some xs" for xs by (rule to_elems_map) (simp add: to_string_def)
  then show ?thesis
    by (cases i) (simp add: identity_json_def to_object_def snap_identity_field_def snapshot_names to_string_def to_slice_def)
qed

lemma to_session: "session_fits s \<Longrightarrow> to_object session_field old (session_json s) = Some s"
  by (cases s) (simp add: session_json_def to_object_def session_field_def snapshot_names to_array16_id to_bool_def
    to_uint_decimal session_fits_def)

lemma to_state:
  assumes "snapshot_fits st"
  shows "to_object state_field zeroState (state_json st) = Some st"
proof -
  have "to_elems (to_object session_field) zeroSession [] (map session_json (st_Sessions st)) = Some (st_Sessions st)"
    using assms by (intro to_elems_map to_session) (auto simp: snapshot_fits_def list_all_iff)
  then show ?thesis using assms
    by (cases st) (simp add: state_json_def to_object_def [of state_field] state_field_def snapshot_names zeroState_def to_identity
      to_uint_decimal to_values_json to_slice_def snapshot_fits_def)
qed

lemma state_json_good:
  assumes "snapshot_fits st"
  shows "good_json (state_json st)"
proof -
  have names: "validUTF8 ''identity''" "validUTF8 ''included_index''" "validUTF8 ''included_term''" "validUTF8 ''values''"
    "validUTF8 ''sessions''" "validUTF8 ''cluster_id''" "validUTF8 ''node_id''" "validUTF8 ''member_ids''" "validUTF8 ''id''"
    "validUTF8 ''closed''" "validUTF8 ''last_sequence''" "validUTF8 ''last_result''" "validUTF8 ''last_delete_existed''"
    by (simp_all add: validUTF8_ascii)
  have "good_json (identity_json (st_Identity st))" "\<forall>s \<in> set (st_Sessions st). good_json (session_json s)"
    using assms names by (auto simp: identity_json_def session_json_def snapshot_fits_def list_all_iff)
  moreover have "good_json (values_json (st_Values st))"
    using assms by (auto simp: values_json_def value_json_def encode64_ascii snapshot_fits_def)
  ultimately show ?thesis using names by (auto simp: state_json_def)
qed

lemma decode_payload_snapshot:
  assumes "snapshot_fits st"
  shows "decode_payload (snapshot_payload st) = Inr st"
proof -
  have "parse_json (snapshot_payload st) = Some (state_json st)"
    unfolding snapshot_payload_def by (rule parse_json_render [OF state_json_good [OF assms]])
  then obtain rest where "parse_value (length (snapshot_payload st)) (snapshot_payload st) = Some (state_json st, rest)" "skip_ws rest = []"
    by (auto simp: parse_json_def split: option.splits if_splits)
  then show ?thesis using to_state [OF assms] by (simp add: decode_payload_def)
qed

lemma header_fields:
  assumes "length p \<le> maxPayloadSize"
  shows "take (length magic) (snapshot_header p @ p) = magic"
    "get_be (take 4 (drop (length magic) (snapshot_header p @ p))) = snapFormatVersion"
    "get_be (take 8 (drop (length magic + 4) (snapshot_header p @ p))) = length p"
    "get_be (take 4 (drop (length magic + 12) (snapshot_header p @ p))) = checksumIEEE p"
    "length (snapshot_header p) = headerSize" "drop headerSize (snapshot_header p @ p) = p"
proof -
  have "length p < 256 ^ 8" using assms by (rule le_less_trans) (simp add: maxPayloadSize_def)
  moreover have "checksumIEEE p < 256 ^ 4" using checksumIEEE_bound [of p] by (simp add: W32_def)
  moreover have "snapFormatVersion < 256 ^ 4" by (simp add: snapFormatVersion_def)
  ultimately show "take (length magic) (snapshot_header p @ p) = magic"
    "get_be (take 4 (drop (length magic) (snapshot_header p @ p))) = snapFormatVersion"
    "get_be (take 8 (drop (length magic + 4) (snapshot_header p @ p))) = length p"
    "get_be (take 4 (drop (length magic + 12) (snapshot_header p @ p))) = checksumIEEE p"
    "length (snapshot_header p) = headerSize" "drop headerSize (snapshot_header p @ p) = p"
    by (simp_all add: snapshot_header_def headerSize_def)
qed

definition snapshot_file :: "SnapState \<Rightarrow> bytes" where
  "snapshot_file st = snapshot_header (snapshot_payload st) @ snapshot_payload st"

lemma decode_snapshot_file:
  assumes "snapshot_fits st" "validateState st = Inr ()" "length (snapshot_payload st) \<le> maxPayloadSize"
  shows "snap_decode (snapshot_file st) = Inr st"
  unfolding snap_decode_def snapshot_file_def Let_def header_fields [OF assms(3)] decode_payload_snapshot [OF assms(1)]
  using assms(2,3) header_fields(5) [OF assms(3)] by simp

end
