(* ===== verification/Snapshot_Store.thy ===== *)
theory Snapshot_Store
  imports Snapshot_File
begin

text \<open>
  The directory of Snapshot files (\<open>src/internal/snapshot/snapshot.go\<close>): \<open>Save\<close>, which installs a file
  by writing a temporary one and renaming it, and the lookups \<open>LoadNewest\<close>,
  \<open>requireCheckpointSnapshot\<close>, \<open>Open\<close> and \<open>Encoded\<close>.

  A directory maps the names of its files to their contents; names contain no separator. The I/O calls
  of \<open>Save\<close> have names; \<open>fail\<close> is the call that fails, if one does, \<open>short\<close> the number
  of bytes that a failing write has written, and \<open>cleanup\<close> says whether the deferred removal of the
  temporary file takes effect. A process that dies in \<open>Save\<close> leaves what a failure without cleanup
  leaves, except that bytes of the unsynced temporary file may be missing.
\<close>

section \<open>Names\<close>

definition pad20 :: "nat \<Rightarrow> bytes" where
  "pad20 n = replicate (20 - length (decimal n)) (CHR ''0'') @ decimal n"

definition position_prefix :: "u64 \<Rightarrow> u64 \<Rightarrow> string" where
  "position_prefix i t = ''snapshot-'' @ pad20 i @ ''-'' @ pad20 t @ ''-''"

definition temporary_name :: "u64 \<Rightarrow> u64 \<Rightarrow> string \<Rightarrow> string" where
  "temporary_name i t suffix = position_prefix i t @ suffix @ ''.tmp''"

definition final_name :: "u64 \<Rightarrow> u64 \<Rightarrow> string \<Rightarrow> string" where
  "final_name i t suffix = position_prefix i t @ suffix @ ''.qsnap''"

text \<open>\<open>filepath.Glob\<close> with one star between a prefix and a suffix.\<close>

definition glob :: "string \<Rightarrow> string \<Rightarrow> string \<Rightarrow> bool" where
  "glob prefix suffix name \<longleftrightarrow> length prefix + length suffix \<le> length name
     \<and> take (length prefix) name = prefix \<and> drop (length name - length suffix) name = suffix"

type_synonym directory = "(string, bytes) fmap"

definition matching :: "string \<Rightarrow> directory \<Rightarrow> string list" where
  "matching prefix d = filter (glob prefix ''.qsnap'') (sorted_list_of_fset (fmdom d))"

section \<open>Saving\<close>

datatype save_call =
  MkdirAll | CreateTemp | Chmod | WriteHeader | WritePayload | SyncTemporary | CloseTemporary | LstatFinal | Rename | SyncDirectory

text \<open>What the temporary file holds when a call on it fails.\<close>

definition written_before :: "save_call \<Rightarrow> nat \<Rightarrow> bytes \<Rightarrow> bytes \<Rightarrow> bytes" where
  "written_before c short header payload =
    (case c of Chmod \<Rightarrow> [] | WriteHeader \<Rightarrow> take short header | WritePayload \<Rightarrow> header @ take short payload
     | _ \<Rightarrow> header @ payload)"

definition Save ::
    "string \<Rightarrow> save_call option \<Rightarrow> nat \<Rightarrow> bool \<Rightarrow> SnapState \<Rightarrow> directory \<Rightarrow> (snap_error + string) \<times> directory" where
  "Save suffix fail short cleanup st d =
    (case validateState st of
       Inl e \<Rightarrow> (Inl (InvalidState e), d)
     | Inr _ \<Rightarrow>
         let payload = snapshot_payload st in
         if length payload > maxPayloadSize then (Inl (PayloadTooLong (length payload)), d)
         else
           let header = snapshot_header payload;
               temporaryName = temporary_name (st_IncludedIndex st) (st_IncludedTerm st) suffix;
               finalName = final_name (st_IncludedIndex st) (st_IncludedTerm st) suffix;
               aborted = (\<lambda>c. if cleanup then d else fmupd temporaryName (written_before c short header payload) d) in
           if fail = Some MkdirAll \<or> fail = Some CreateTemp then (Inl SnapIoError, d)
           else if fail \<in> Some ` {Chmod, WriteHeader, WritePayload, SyncTemporary, CloseTemporary, LstatFinal}
           then (Inl SnapIoError, aborted (the fail))
           else if finalName |\<in>| fmdom d then (Inl (AlreadyInstalled finalName), aborted LstatFinal)
           else if fail = Some Rename then (Inl SnapIoError, aborted Rename)
           else
             let d' = fmupd finalName (header @ payload) d in
             if fail = Some SyncDirectory then (Inl SnapIoError, d') else (Inr finalName, d'))"

section \<open>Lookups\<close>

definition snap_read :: "bytes \<Rightarrow> snap_error + SnapState" where
  "snap_read contents =
    (if length contents > maxPayloadSize + headerSize then Inl (TooLarge (length contents)) else snap_decode contents)"

fun checkRequired :: "directory \<Rightarrow> Compatibility \<Rightarrow> string list \<Rightarrow> snap_error option" where
  "checkRequired d co [] = None"
| "checkRequired d co (name # names) =
    (case snap_read (the (fmlookup d name)) of
       Inl e \<Rightarrow> Some e
     | Inr st \<Rightarrow>
         if st_IncludedIndex st \<noteq> co_SnapshotIndex co \<or> st_IncludedTerm st \<noteq> co_SnapshotTerm co
         then Some (WrongPosition (co_SnapshotIndex co) (co_SnapshotTerm co) (st_IncludedIndex st) (st_IncludedTerm st))
         else if \<not> equalIdentity (st_Identity st) (co_Identity co) then Some (IdentityDiffers name)
         else checkRequired d co names)"

definition requireCheckpointSnapshot :: "directory \<Rightarrow> Compatibility \<Rightarrow> snap_error option" where
  "requireCheckpointSnapshot d co =
    (let names = matching (position_prefix (co_SnapshotIndex co) (co_SnapshotTerm co)) d in
     if names = [] then Some (NotInstalled (co_SnapshotIndex co) (co_SnapshotTerm co)) else checkRequired d co names)"

text \<open>The comparison of a candidate with the newest one so far.\<close>

definition supersedes :: "SnapState \<Rightarrow> string \<Rightarrow> SnapState \<Rightarrow> string \<Rightarrow> bool" where
  "supersedes st name newest newestName \<longleftrightarrow> st_IncludedIndex st > st_IncludedIndex newest \<or>
     (st_IncludedIndex st = st_IncludedIndex newest \<and> (st_IncludedTerm st > st_IncludedTerm newest \<or>
       (st_IncludedTerm st = st_IncludedTerm newest \<and> name > newestName)))"

fun loadCandidates ::
    "directory \<Rightarrow> Compatibility \<Rightarrow> string list \<Rightarrow> (SnapState \<times> string) option \<Rightarrow> snap_error + (SnapState \<times> string) option" where
  "loadCandidates d co [] newest = Inr newest"
| "loadCandidates d co (name # names) newest =
    (case snap_read (the (fmlookup d name)) of
       Inl e \<Rightarrow> Inl e
     | Inr st \<Rightarrow>
         if \<not> equalIdentity (st_Identity st) (co_Identity co) then Inl (IdentityDiffers name)
         else if \<not> matchesWAL st co then loadCandidates d co names newest
         else loadCandidates d co names
           (case newest of
              None \<Rightarrow> Some (st, name)
            | Some (n, nn) \<Rightarrow> if supersedes st name n nn then Some (st, name) else newest))"

definition LoadNewest :: "directory \<Rightarrow> Compatibility \<Rightarrow> snap_error + SnapState option" where
  "LoadNewest d co =
    (case (if co_SnapshotIndex co > 0 then requireCheckpointSnapshot d co else None) of
       Some e \<Rightarrow> Inl e
     | None \<Rightarrow>
         (case loadCandidates d co (rev (matching ''snapshot-'' d)) None of
            Inl e \<Rightarrow> Inl e
          | Inr newest \<Rightarrow>
              if co_SnapshotIndex co > 0 \<and> newest = None then Inl NoCompatible
              else Inr (map_option fst newest)))"



section \<open>Names of installed files\<close>

lemma length_decimal: "n < 10 ^ Suc k \<Longrightarrow> length (decimal n) \<le> Suc k"
proof (induction k arbitrary: n)
  case 0
  then show ?case by (subst decimal.simps) simp
next
  case (Suc k)
  have "n div 10 < 10 ^ Suc k" using Suc.prems by (simp add: less_mult_imp_div_less)
  then have "length (decimal (n div 10)) \<le> Suc k" by (rule Suc.IH)
  then show ?case by (subst decimal.simps) simp
qed

lemma length_pad20: "n < W64 \<Longrightarrow> length (pad20 n) = 20"
proof -
  assume "n < W64"
  then have "n < 10 ^ Suc 19" by (simp add: W64_def)
  then have "length (decimal n) \<le> 20" using length_decimal [of n 19] by simp
  then show ?thesis by (simp add: pad20_def)
qed

lemma digits_value_pad20: "digits_value (pad20 n) = n"
proof -
  have zeros: "foldl (\<lambda>acc d. acc * 10 + (of_char d - 48)) 0 (replicate k (CHR ''0'')) = (0 :: nat)" for k
    by (induction k) simp_all
  show ?thesis using decimal_value [of n] by (simp add: pad20_def digits_value_def zeros)
qed

lemma pad20_inject: "pad20 m = pad20 n \<longleftrightarrow> m = n"
  using digits_value_pad20 by metis

lemma position_prefix_eq:
  assumes "i < W64" "t < W64" "i' < W64" "t' < W64"
  shows "position_prefix i t @ xs = position_prefix i' t' @ ys \<longleftrightarrow> i = i' \<and> t = t' \<and> xs = ys"
  using assms by (auto simp: position_prefix_def length_pad20 pad20_inject)

lemma glob_append: "glob p s (p @ m @ s)"
  by (simp add: glob_def)

lemma final_name_installed: "glob ''snapshot-'' ''.qsnap'' (final_name i t suffix)"
  using glob_append [of "''snapshot-''" "''.qsnap''" "pad20 i @ ''-'' @ pad20 t @ ''-'' @ suffix"]
  by (simp add: final_name_def position_prefix_def)

lemma temporary_name_hidden: "\<not> glob p ''.qsnap'' (temporary_name i t suffix)"
proof
  assume "glob p ''.qsnap'' (temporary_name i t suffix)"
  then have "\<exists>xs. temporary_name i t suffix = xs @ ''.qsnap''"
    unfolding glob_def by (metis append_take_drop_id)
  then obtain xs where "temporary_name i t suffix = xs @ ''.qsnap''" ..
  then have "rev (temporary_name i t suffix) = rev (xs @ ''.qsnap'')" by simp
  then show False by (simp add: temporary_name_def)
qed

lemma glob_position:
  assumes "i < W64" "t < W64" "i' < W64" "t' < W64"
  shows "glob (position_prefix i t) ''.qsnap'' (final_name i' t' suffix) \<longleftrightarrow> i = i' \<and> t = t'"
proof
  assume "glob (position_prefix i t) ''.qsnap'' (final_name i' t' suffix)"
  then have "take (length (position_prefix i t)) (final_name i' t' suffix) = position_prefix i t"
    by (simp add: glob_def)
  then have "\<exists>xs. position_prefix i t @ xs = final_name i' t' suffix" by (metis append_take_drop_id)
  then show "i = i' \<and> t = t'" using assms by (auto simp: final_name_def position_prefix_eq)
next
  assume "i = i' \<and> t = t'"
  then show "glob (position_prefix i t) ''.qsnap'' (final_name i' t' suffix)"
    by (simp add: final_name_def glob_append)
qed

section \<open>Well-kept directories\<close>

definition installed :: "directory \<Rightarrow> directory" where
  "installed d = fmfilter (glob ''snapshot-'' ''.qsnap'') d"

text \<open>Every installed file is complete, belongs to the node and is named after the position it holds.\<close>

definition properly_installed :: "Identity \<Rightarrow> string \<Rightarrow> bytes \<Rightarrow> bool" where
  "properly_installed ident name contents \<longleftrightarrow>
    (\<exists>st suffix. snap_read contents = Inr st \<and> st_Identity st = ident \<and> st_IncludedIndex st < W64 \<and> st_IncludedTerm st < W64
       \<and> name = final_name (st_IncludedIndex st) (st_IncludedTerm st) suffix)"

definition well_kept :: "Identity \<Rightarrow> directory \<Rightarrow> bool" where
  "well_kept ident d \<longleftrightarrow> (\<forall>name contents. fmlookup (installed d) name = Some contents \<longrightarrow> properly_installed ident name contents)"

definition snapshots :: "directory \<Rightarrow> SnapState set" where
  "snapshots d = {st. \<exists>name contents. fmlookup (installed d) name = Some contents \<and> snap_read contents = Inr st}"

lemma well_kept_empty [simp]: "well_kept ident fmempty"
  by (simp add: well_kept_def installed_def)

lemma snapshots_empty [simp]: "snapshots fmempty = {}"
  by (simp add: snapshots_def installed_def)

lemma position_glob: "glob (position_prefix i t) ''.qsnap'' name \<Longrightarrow> glob ''snapshot-'' ''.qsnap'' name"
proof -
  assume g: "glob (position_prefix i t) ''.qsnap'' name"
  let ?n = "length ''snapshot-''" and ?m = "length (position_prefix i t)"
  have le: "?n \<le> ?m" and pre: "take ?n (position_prefix i t) = ''snapshot-''" by (simp_all add: position_prefix_def)
  have "take ?n name = take ?n (take ?m name)" using le by (simp only: take_take min_absorb1)
  also have "\<dots> = take ?n (position_prefix i t)" using g by (simp only: glob_def)
  finally have "take ?n name = ''snapshot-''" using pre by (rule trans)
  then show ?thesis using g le unfolding glob_def by linarith
qed

lemma matching_installed: "matching ''snapshot-'' d = sorted_list_of_fset (fmdom (installed d))"
proof -
  have "filter P (sorted_list_of_set A) = sorted_list_of_set (Collect P \<inter> A)" if "finite A" for P and A :: "string set"
    using that by (intro sorted_distinct_set_unique) (auto intro: sorted_wrt_filter)
  then show ?thesis unfolding matching_def installed_def by (simp add: sorted_list_of_fset.rep_eq)
qed

lemma matching_position:
  "matching (position_prefix i t) d = filter (glob (position_prefix i t) ''.qsnap'') (matching ''snapshot-'' d)"
  unfolding matching_def filter_filter by (rule filter_cong) (auto dest: position_glob)

lemma set_matching: "name \<in> set (matching ''snapshot-'' d) \<longleftrightarrow> (\<exists>c. fmlookup (installed d) name = Some c)"
  unfolding matching_def installed_def by (auto simp: fmlookup_dom_iff)

lemma lookup_installed: "fmlookup (installed d) name = Some c \<Longrightarrow> fmlookup d name = Some c"
  by (simp add: installed_def split: if_splits)

text \<open>The lookups see the installed files only.\<close>

lemma checkRequired_cong:
  "\<forall>name \<in> set names. fmlookup d name = fmlookup d' name \<Longrightarrow> checkRequired d co names = checkRequired d' co names"
  by (induction names) (auto split: sum.splits)

lemma loadCandidates_cong:
  "\<forall>name \<in> set names. fmlookup d name = fmlookup d' name \<Longrightarrow>
     loadCandidates d co names newest = loadCandidates d' co names newest"
  by (induction names arbitrary: newest) (auto split: sum.splits)

lemma LoadNewest_installed:
  assumes "installed d = installed d'"
  shows "LoadNewest d co = LoadNewest d' co"
proof -
  have m: "matching ''snapshot-'' d = matching ''snapshot-'' d'" by (simp add: matching_installed assms)
  have look: "fmlookup d name = fmlookup d' name" if "name \<in> set (matching ''snapshot-'' d)" for name
    using that assms lookup_installed unfolding set_matching by metis
  have "checkRequired d co (matching (position_prefix i t) d) = checkRequired d' co (matching (position_prefix i t) d)" for i t
    by (rule checkRequired_cong) (simp add: matching_position look)
  moreover have "loadCandidates d co (rev (matching ''snapshot-'' d)) None = loadCandidates d' co (rev (matching ''snapshot-'' d)) None"
    by (rule loadCandidates_cong) (simp add: look)
  moreover have "matching (position_prefix i t) d = matching (position_prefix i t) d'" for i t
    by (simp add: matching_position m)
  ultimately show ?thesis unfolding LoadNewest_def requireCheckpointSnapshot_def m by (simp only: Let_def)
qed

lemma well_kept_read:
  assumes "well_kept ident d" "name \<in> set (matching ''snapshot-'' d)"
  obtains st suffix where "snap_read (the (fmlookup d name)) = Inr st" "st_Identity st = ident"
    "st_IncludedIndex st < W64" "st_IncludedTerm st < W64"
    "name = final_name (st_IncludedIndex st) (st_IncludedTerm st) suffix" "st \<in> snapshots d"
proof -
  obtain c where c: "fmlookup (installed d) name = Some c" using assms(2) by (auto simp: set_matching)
  then have "fmlookup d name = Some c" by (rule lookup_installed)
  moreover obtain st suffix where "snap_read c = Inr st" "st_Identity st = ident" "st_IncludedIndex st < W64"
    "st_IncludedTerm st < W64" "name = final_name (st_IncludedIndex st) (st_IncludedTerm st) suffix"
    using assms(1) c unfolding well_kept_def properly_installed_def by blast
  ultimately show ?thesis using c by (intro that [of st suffix]) (auto simp: snapshots_def)
qed

section \<open>The newest compatible Snapshot\<close>

definition not_after :: "SnapState \<Rightarrow> SnapState \<Rightarrow> bool" where
  "not_after st st' \<longleftrightarrow> st_IncludedIndex st < st_IncludedIndex st'
     \<or> st_IncludedIndex st = st_IncludedIndex st' \<and> st_IncludedTerm st \<le> st_IncludedTerm st'"

lemma not_after_refl [simp]: "not_after st st"
  by (simp add: not_after_def)

lemma not_after_trans: "not_after a b \<Longrightarrow> not_after b c \<Longrightarrow> not_after a c"
  by (auto simp: not_after_def)

lemma supersedes_not_after: "supersedes st name n nn \<Longrightarrow> not_after n st"
  by (auto simp: supersedes_def not_after_def)

lemma not_supersedes_not_after: "\<not> supersedes st name n nn \<Longrightarrow> not_after st n"
  by (auto simp: supersedes_def not_after_def)

text \<open>The states that a list of names stands for, and the greatest compatible one of them.\<close>

definition read_all :: "directory \<Rightarrow> string list \<Rightarrow> SnapState set" where
  "read_all d names = {st. \<exists>name \<in> set names. snap_read (the (fmlookup d name)) = Inr st}"

definition newest_of :: "SnapState set \<Rightarrow> SnapState option \<Rightarrow> bool" where
  "newest_of S r \<longleftrightarrow> (case r of None \<Rightarrow> S = {} | Some st \<Rightarrow> st \<in> S \<and> (\<forall>st' \<in> S. not_after st' st))"

lemma newest_of_insert:
  assumes "newest_of S (map_option fst newest)"
  shows "newest_of (insert st S) (map_option fst (case newest of
           None \<Rightarrow> Some (st, name) | Some (n, nn) \<Rightarrow> if supersedes st name n nn then Some (st, name) else newest))"
proof (cases newest)
  case None
  then show ?thesis using assms by (simp add: newest_of_def)
next
  case (Some p)
  obtain n nn where p: "p = (n, nn)" by (cases p)
  have S: "n \<in> S" "\<forall>st' \<in> S. not_after st' n" using assms by (simp_all add: newest_of_def Some p)
  have "\<forall>st' \<in> S. not_after st' st" if "supersedes st name n nn"
    using S(2) supersedes_not_after [OF that] not_after_trans by blast
  then show ?thesis using S not_supersedes_not_after [of st name n nn] by (simp add: newest_of_def Some p)
qed

lemma loadCandidates_newest:
  assumes "\<forall>name \<in> set names. \<exists>st. snap_read (the (fmlookup d name)) = Inr st \<and> st_Identity st = co_Identity co"
    and "newest_of S (map_option fst newest)"
  shows "\<exists>r. loadCandidates d co names newest = Inr r
     \<and> newest_of (S \<union> {st \<in> read_all d names. matchesWAL st co}) (map_option fst r)"
  using assms
proof (induction names arbitrary: newest S)
  case Nil
  then show ?case by (simp add: read_all_def)
next
  case (Cons name names)
  obtain st where st: "snap_read (the (fmlookup d name)) = Inr st" "st_Identity st = co_Identity co"
    using Cons.prems(1) by auto
  have rest: "\<forall>name \<in> set names. \<exists>st. snap_read (the (fmlookup d name)) = Inr st \<and> st_Identity st = co_Identity co"
    using Cons.prems(1) by simp
  have all: "read_all d (name # names) = insert st (read_all d names)" using st by (auto simp: read_all_def)
  show ?case
  proof (cases "matchesWAL st co")
    case True
    have "insert st S \<union> {x \<in> R. matchesWAL x co} = S \<union> {x \<in> insert st R. matchesWAL x co}" for R using True by auto
    then show ?thesis
      using Cons.IH [OF rest newest_of_insert [OF Cons.prems(2), of st name]] st True by (simp add: all equalIdentity_iff)
  next
    case False
    have "{x \<in> insert st R. matchesWAL x co} = {x \<in> R. matchesWAL x co}" for R using False by auto
    then show ?thesis using Cons.IH [OF rest Cons.prems(2)] st False by (simp add: all equalIdentity_iff)
  qed
qed

lemma well_kept_names:
  "well_kept ident d \<Longrightarrow> \<forall>name \<in> set (matching ''snapshot-'' d).
     \<exists>st. snap_read (the (fmlookup d name)) = Inr st \<and> st_Identity st = ident"
  by (metis well_kept_read)

lemma read_all_installed: "read_all d (rev (matching ''snapshot-'' d)) = snapshots d"
proof -
  have "(\<exists>name \<in> set (matching ''snapshot-'' d). snap_read (the (fmlookup d name)) = Inr st) \<longleftrightarrow>
      (\<exists>name c. fmlookup (installed d) name = Some c \<and> snap_read c = Inr st)" for st
    unfolding Bex_def set_matching using lookup_installed [of d] by (metis option.sel)
  then show ?thesis by (simp add: read_all_def snapshots_def)
qed

lemma checkRequired_ok:
  assumes "\<forall>name \<in> set names. \<exists>st. snap_read (the (fmlookup d name)) = Inr st \<and> st_Identity st = co_Identity co
     \<and> st_IncludedIndex st = co_SnapshotIndex co \<and> st_IncludedTerm st = co_SnapshotTerm co"
  shows "checkRequired d co names = None"
  using assms by (induction names) (auto simp: equalIdentity_iff)

definition at_position :: "u64 \<Rightarrow> u64 \<Rightarrow> SnapState \<Rightarrow> bool" where
  "at_position i t st \<longleftrightarrow> st_IncludedIndex st = i \<and> st_IncludedTerm st = t"

lemma matching_at_position:
  assumes "well_kept ident d" "i < W64" "t < W64" "name \<in> set (matching ''snapshot-'' d)"
    and "snap_read (the (fmlookup d name)) = Inr st"
  shows "name \<in> set (matching (position_prefix i t) d) \<longleftrightarrow> at_position i t st"
  using assms(1,4)
proof (rule well_kept_read)
  fix st' suffix
  assume st': "snap_read (the (fmlookup d name)) = Inr st'" "st_IncludedIndex st' < W64" "st_IncludedTerm st' < W64"
    "name = final_name (st_IncludedIndex st') (st_IncludedTerm st') suffix"
  then have "st' = st" using assms(5) by simp
  then show ?thesis using st' assms(2-4) glob_position [of i t "st_IncludedIndex st" "st_IncludedTerm st" suffix]
    by (auto simp: matching_position at_position_def)
qed

lemma requireCheckpointSnapshot_ok:
  assumes "well_kept (co_Identity co) d" "co_SnapshotIndex co < W64" "co_SnapshotTerm co < W64"
  shows "requireCheckpointSnapshot d co =
    (if Bex (snapshots d) (at_position (co_SnapshotIndex co) (co_SnapshotTerm co)) then None
     else Some (NotInstalled (co_SnapshotIndex co) (co_SnapshotTerm co)))"
proof -
  let ?names = "matching (position_prefix (co_SnapshotIndex co) (co_SnapshotTerm co)) d"
  let ?at = "at_position (co_SnapshotIndex co) (co_SnapshotTerm co)"
  have some: "?names \<noteq> [] \<longleftrightarrow> Bex (snapshots d) ?at"
  proof
    assume "?names \<noteq> []"
    then obtain name where n: "name \<in> set ?names" by (meson list.set_sel(1))
    then have m: "name \<in> set (matching ''snapshot-'' d)" by (simp add: matching_position)
    show "Bex (snapshots d) ?at"
      using well_kept_read [OF assms(1) m] matching_at_position [OF assms m] n by metis
  next
    assume "Bex (snapshots d) ?at"
    then obtain st name c where st: "?at st" "fmlookup (installed d) name = Some c" "snap_read c = Inr st"
      by (auto simp: snapshots_def)
    then have "name \<in> set ?names"
      using matching_at_position [OF assms, of name st] lookup_installed [of d name c] by (simp add: set_matching)
    then show "?names \<noteq> []" by auto
  qed
  have "checkRequired d co ?names = None"
  proof (rule checkRequired_ok, rule ballI)
    fix name
    assume n: "name \<in> set ?names"
    then have m: "name \<in> set (matching ''snapshot-'' d)" by (simp add: matching_position)
    show "\<exists>st. snap_read (the (fmlookup d name)) = Inr st \<and> st_Identity st = co_Identity co
       \<and> st_IncludedIndex st = co_SnapshotIndex co \<and> st_IncludedTerm st = co_SnapshotTerm co"
      using assms(1) m by (rule well_kept_read) (use matching_at_position [OF assms m] n in \<open>auto simp: at_position_def\<close>)
  qed
  then show ?thesis using some unfolding requireCheckpointSnapshot_def Let_def by auto
qed

lemma matchesWAL_checkpoint:
  assumes "at_position (co_SnapshotIndex co) (co_SnapshotTerm co) st" "0 < co_SnapshotIndex co"
    and "co_SnapshotIndex co \<le> co_CommitIndex co"
  shows "matchesWAL st co"
  using assms by (simp add: matchesWAL_def at_position_def)

lemma LoadNewest_newest:
  assumes "well_kept (co_Identity co) d" "co_SnapshotIndex co \<le> co_CommitIndex co"
    and "co_CommitIndex co < W64" "co_SnapshotTerm co < W64"
  shows "case LoadNewest d co of
      Inl e \<Rightarrow> e = NotInstalled (co_SnapshotIndex co) (co_SnapshotTerm co) \<and> 0 < co_SnapshotIndex co
        \<and> \<not> Bex (snapshots d) (at_position (co_SnapshotIndex co) (co_SnapshotTerm co))
    | Inr r \<Rightarrow> newest_of {st \<in> snapshots d. matchesWAL st co} r
        \<and> (co_SnapshotIndex co = 0 \<or> Bex (snapshots d) (at_position (co_SnapshotIndex co) (co_SnapshotTerm co)))"
proof -
  obtain r where load: "loadCandidates d co (rev (matching ''snapshot-'' d)) None = Inr r"
    and newest: "newest_of {st \<in> snapshots d. matchesWAL st co} (map_option fst r)"
    using loadCandidates_newest [of "rev (matching ''snapshot-'' d)" d co "{}" None] well_kept_names [OF assms(1)]
    by (auto simp: read_all_installed newest_of_def)
  have "co_SnapshotIndex co < W64" using assms(2,3) by simp
  note req = requireCheckpointSnapshot_ok [OF assms(1) this assms(4)]
  have "r \<noteq> None" if "0 < co_SnapshotIndex co" "Bex (snapshots d) (at_position (co_SnapshotIndex co) (co_SnapshotTerm co))"
    using that newest matchesWAL_checkpoint [OF _ that(1) assms(2)] by (cases r) (auto simp: newest_of_def)
  then show ?thesis using newest unfolding LoadNewest_def req load by (auto split: if_splits)
qed

text \<open>
  The Term that the durable log knows for an index: zero before the log begins, that of the compaction
  checkpoint at its index, and that of the entry for the entries which the log still holds.
\<close>

definition durable_term :: "Compatibility \<Rightarrow> u64 \<Rightarrow> u64 option" where
  "durable_term co i =
    (if i = 0 then Some 0
     else if i = co_SnapshotIndex co then Some (co_SnapshotTerm co)
     else if max 1 (co_LogStartIndex co) \<le> i \<and> i < max 1 (co_LogStartIndex co) + length (co_LogTerms co)
       then Some (co_LogTerms co ! (i - max 1 (co_LogStartIndex co)))
     else None)"

definition committed_snapshots :: "Compatibility \<Rightarrow> directory \<Rightarrow> SnapState set" where
  "committed_snapshots co d =
    {st \<in> snapshots d. st_IncludedIndex st \<le> co_CommitIndex co \<and> durable_term co (st_IncludedIndex st) = Some (st_IncludedTerm st)}"

lemma matchesWAL_iff:
  assumes "st_IncludedIndex st < W64"
  shows "matchesWAL st co \<longleftrightarrow> st_IncludedIndex st \<le> co_CommitIndex co \<and> durable_term co (st_IncludedIndex st) = Some (st_IncludedTerm st)"
proof -
  let ?start = "if co_LogStartIndex co = 0 then 1 else co_LogStartIndex co"
  have "?start = max 1 (co_LogStartIndex co)" by auto
  then show ?thesis using assms unfolding matchesWAL_def durable_term_def Let_def by auto
qed

lemma matching_snapshots:
  assumes "well_kept ident d"
  shows "{st \<in> snapshots d. matchesWAL st co} = committed_snapshots co d"
proof -
  have "st_IncludedIndex st < W64" if "st \<in> snapshots d" for st
    using that assms by (fastforce simp: snapshots_def well_kept_def properly_installed_def)
  then show ?thesis using matchesWAL_iff by (auto simp: committed_snapshots_def)
qed

text \<open>
  C28: In a directory whose installed files are complete and named after their contents, \<open>LoadNewest\<close>
  returns the Snapshot with the greatest index and term among those that the durable committed log knows:
  their index is at most the commit index, and their Term is the one that the log has there. It returns
  none only if there is no such Snapshot, and fails exactly when the log has been compacted and no
  Snapshot for its checkpoint is installed.
\<close>

theorem LoadNewest_finds_newest:
  assumes "well_kept (co_Identity co) d" "co_SnapshotIndex co \<le> co_CommitIndex co"
    and "co_CommitIndex co < W64" "co_SnapshotTerm co < W64"
  shows "case LoadNewest d co of
      Inl e \<Rightarrow> e = NotInstalled (co_SnapshotIndex co) (co_SnapshotTerm co) \<and> 0 < co_SnapshotIndex co
        \<and> \<not> Bex (snapshots d) (at_position (co_SnapshotIndex co) (co_SnapshotTerm co))
    | Inr r \<Rightarrow> newest_of (committed_snapshots co d) r
        \<and> (co_SnapshotIndex co = 0 \<or> Bex (snapshots d) (at_position (co_SnapshotIndex co) (co_SnapshotTerm co)))"
  using LoadNewest_newest [OF assms] unfolding matching_snapshots [OF assms(1)] .

section \<open>Installing\<close>

lemma installed_temporary: "installed (fmupd (temporary_name i t suffix) c d) = installed d"
  unfolding installed_def by (rule fmap_ext) (simp add: temporary_name_hidden)

lemma installed_final: "installed (fmupd (final_name i t suffix) c d) = fmupd (final_name i t suffix) c (installed d)"
  unfolding installed_def by (rule fmap_ext) (simp add: final_name_installed)

lemma Save_cases:
  assumes "Save suffix fail short cleanup st d = (r, d')"
  defines "name \<equiv> final_name (st_IncludedIndex st) (st_IncludedTerm st) suffix"
  shows "isl r \<and> installed d' = installed d
    \<or> name |\<notin>| fmdom d \<and> validateState st = Inr () \<and> length (snapshot_payload st) \<le> maxPayloadSize
      \<and> d' = fmupd name (snapshot_file st) d
      \<and> (r = Inr name \<or> r = Inl SnapIoError \<and> fail = Some SyncDirectory)"
proof (cases "validateState st")
  case (Inl e)
  then show ?thesis using assms(1) by (auto simp: Save_def)
next
  case (Inr u)
  have all: "fail = None \<or> fail \<in> Some ` {Chmod, WriteHeader, WritePayload, SyncTemporary, CloseTemporary, LstatFinal}
      \<or> fail = Some MkdirAll \<or> fail = Some CreateTemp \<or> fail = Some Rename \<or> fail = Some SyncDirectory"
    by (cases fail) (auto intro: save_call.exhaust)
  show ?thesis
    using assms(1) all Inr unfolding Save_def name_def Let_def snapshot_file_def
    by (auto simp: installed_temporary split: if_splits)
qed

lemma snap_read_snapshot_file:
  assumes "snapshot_fits st" "validateState st = Inr ()" "length (snapshot_payload st) \<le> maxPayloadSize"
  shows "snap_read (snapshot_file st) = Inr st"
  using decode_snapshot_file [OF assms] assms(3)
  by (simp add: snap_read_def snapshot_file_def header_fields(5))

lemma installing:
  fixes st suffix
  defines "name \<equiv> final_name (st_IncludedIndex st) (st_IncludedTerm st) suffix"
  assumes "name |\<notin>| fmdom d" "snapshot_fits st" "validateState st = Inr ()" "length (snapshot_payload st) \<le> maxPayloadSize"
    and "well_kept (st_Identity st) d"
  shows "well_kept (st_Identity st) (fmupd name (snapshot_file st) d)"
    "snapshots (fmupd name (snapshot_file st) d) = insert st (snapshots d)"
proof -
  have inst: "installed (fmupd name (snapshot_file st) d) = fmupd name (snapshot_file st) (installed d)"
    by (simp add: name_def installed_final)
  have absent: "fmlookup (installed d) name = None" using assms(2) by (auto simp: installed_def fmdom_notD)
  have read: "snap_read (snapshot_file st) = Inr st" using assms(3-5) by (simp add: snap_read_snapshot_file)
  have "properly_installed (st_Identity st) name (snapshot_file st)"
    using read assms(3) by (auto simp: properly_installed_def snapshot_fits_def name_def)
  then show "well_kept (st_Identity st) (fmupd name (snapshot_file st) d)" using assms(6) by (auto simp: well_kept_def inst)
  show "snapshots (fmupd name (snapshot_file st) d) = insert st (snapshots d)"
    using read absent unfolding snapshots_def inst by (auto split: if_splits) (metis option.distinct(1))
qed

text \<open>
  C27: \<open>Save\<close> is atomic. Whichever of its calls fails, and whatever the temporary file holds then, the
  installed files are those there were, or those and one more that holds the complete Snapshot; every
  installed file stays readable. It reports a name only when that file is installed and reads back as
  the state that was saved.
\<close>

theorem Save_is_atomic:
  assumes "Save suffix fail short cleanup st d = (r, d')"
    and "snapshot_fits st" "well_kept (st_Identity st) d"
  shows "well_kept (st_Identity st) d'
    \<and> (installed d' = installed d \<and> snapshots d' = snapshots d \<and> isl r
       \<or> installed d' = fmupd (final_name (st_IncludedIndex st) (st_IncludedTerm st) suffix) (snapshot_file st) (installed d)
         \<and> snapshots d' = insert st (snapshots d)
         \<and> (r = Inr (final_name (st_IncludedIndex st) (st_IncludedTerm st) suffix) \<or> r = Inl SnapIoError \<and> fail = Some SyncDirectory))"
proof -
  let ?name = "final_name (st_IncludedIndex st) (st_IncludedTerm st) suffix"
  from Save_cases [OF assms(1)] show ?thesis
  proof
    assume "isl r \<and> installed d' = installed d"
    then show ?thesis using assms(3) by (simp add: well_kept_def snapshots_def)
  next
    assume "?name |\<notin>| fmdom d \<and> validateState st = Inr () \<and> length (snapshot_payload st) \<le> maxPayloadSize
      \<and> d' = fmupd ?name (snapshot_file st) d \<and> (r = Inr ?name \<or> r = Inl SnapIoError \<and> fail = Some SyncDirectory)"
    then show ?thesis using installing [of st suffix d] assms(2,3) by (auto simp: installed_final)
  qed
qed




section \<open>A sample\<close>

definition sample_at :: "u64 \<Rightarrow> SnapState" where
  "sample_at i = \<lparr>st_Identity = \<lparr>id_ClusterID = ''c'', id_NodeID = ''n1'', id_MemberIDs = [''n1'', ''n2'', ''n3'']\<rparr>,
     st_IncludedIndex = i, st_IncludedTerm = 1, st_Values = fmap_of_list [(''k'', ''v'')],
     st_Sessions = [\<lparr>ses_ID = ''0123456789abcdef'', ses_Closed = False, ses_LastSequence = 3, ses_LastResult = 1,
       ses_LastDeleteExisted = False\<rparr>]\<rparr>"

abbreviation sample_snapshot :: SnapState where
  "sample_snapshot \<equiv> sample_at 2"

lemma sample_snapshot_fits: "i < 10 \<Longrightarrow> snapshot_fits (sample_at i)"
  using less_trans [of i 10 W64] by (simp add: snapshot_fits_def sample_at_def session_fits_def validUTF8_ascii small_less_W64)

lemma sample_snapshot_valid: "0 < i \<Longrightarrow> validateState (sample_at i) = Inr ()"
  by (simp add: validateState_def sample_at_def blank_def)

lemma sample_snapshot_size:
  assumes "i < 10"
  shows "length (snapshot_payload (sample_at i)) \<le> maxPayloadSize"
proof -
  have s: "sorted_list_of_fset {|''k''|} = [''k'']" by (simp add: sorted_list_of_fset.rep_eq)
  show ?thesis
    using length_quote [of "''identity''"] length_quote [of "''cluster_id''"] length_quote [of "''c''"]
      length_quote [of "''node_id''"] length_quote [of "''n1''"] length_quote [of "''n2''"] length_quote [of "''n3''"]
      length_quote [of "''member_ids''"] length_quote [of "''included_index''"] length_quote [of "''included_term''"]
      length_quote [of "''values''"] length_quote [of "''k''"] length_quote [of "encode64 ''v''"]
      length_quote [of "''sessions''"] length_quote [of "''id''"] length_quote [of "''closed''"]
      length_quote [of "''last_sequence''"] length_quote [of "''last_result''"] length_quote [of "''last_delete_existed''"]
    using assms by (simp add: sample_at_def snapshot_payload_def state_json_def identity_json_def session_json_def values_json_def value_json_def decimal.simps s maxPayloadSize_def encode64.simps)
qed


definition sample_compatibility :: Compatibility where
  "sample_compatibility = \<lparr>co_Identity = st_Identity sample_snapshot, co_CommitIndex = 3, co_LogStartIndex = 1,
     co_LogTerms = [1, 1, 1], co_SnapshotIndex = 0, co_SnapshotTerm = 0\<rparr>"

theorem Save_is_atomic_witness:
  "well_kept (st_Identity sample_snapshot) (snd (Save ''7'' (Some WritePayload) 5 False sample_snapshot fmempty))"
  using Save_is_atomic [of "''7''" "Some WritePayload" 5 False sample_snapshot fmempty
      "fst (Save ''7'' (Some WritePayload) 5 False sample_snapshot fmempty)"
      "snd (Save ''7'' (Some WritePayload) 5 False sample_snapshot fmempty)"] sample_snapshot_fits
  by simp

text \<open>A directory with Snapshots at the indexes 1, 2 and 9, of which the last is not committed.\<close>

fun sample_directory :: "u64 list \<Rightarrow> directory" where
  "sample_directory [] = fmempty"
| "sample_directory (i # is) = fmupd (final_name i 1 ''7'') (snapshot_file (sample_at i)) (sample_directory is)"

lemma sample_directory_kept:
  assumes "distinct is" "list_all (\<lambda>i. 0 < i \<and> i < 10) is"
  shows "well_kept (co_Identity sample_compatibility) (sample_directory is) \<and> snapshots (sample_directory is) = sample_at ` set is
    \<and> fset (fmdom (sample_directory is)) = (\<lambda>i. final_name i 1 ''7'') ` set is"
  using assms
proof (induction "is")
  case (Cons i "is")
  have w: "j < W64" if "j < 10" for j using that by (intro small_less_W64) simp
  have "j = i" if "final_name i 1 ''7'' = final_name j 1 ''7''" "j \<in> set is" for j
    using that Cons.prems glob_position [of i 1 i 1 "''7''"] glob_position [of i 1 j 1 "''7''"] w [of i] w [of j] w [of 1]
    by (auto simp: list_all_iff)
  then have fresh: "final_name i 1 ''7'' |\<notin>| fmdom (sample_directory is)" using Cons by (auto simp: list_all_iff)
  have ident: "co_Identity sample_compatibility = st_Identity (sample_at i)" by (simp add: sample_compatibility_def sample_at_def)
  have at: "st_IncludedIndex (sample_at i) = i" "st_IncludedTerm (sample_at i) = 1" by (simp_all add: sample_at_def)
  show ?case
    using installing [of "sample_at i" "''7''" "sample_directory is"] Cons fresh sample_snapshot_fits sample_snapshot_valid sample_snapshot_size
    unfolding at ident by auto
qed simp

theorem LoadNewest_finds_newest_witness:
  "snapshots (sample_directory [9, 1, 2]) = {sample_at 1, sample_at 2, sample_at 9}
    \<and> LoadNewest (sample_directory [9, 1, 2]) sample_compatibility = Inr (Some (sample_at 2))"
proof -
  have d: "well_kept (co_Identity sample_compatibility) (sample_directory [9, 1, 2])" "snapshots (sample_directory [9, 1, 2]) = {sample_at 1, sample_at 2, sample_at 9}"
    using sample_directory_kept [of "[9, 1, 2]"] by auto
  have "committed_snapshots sample_compatibility (sample_directory [9, 1, 2]) = {sample_at 1, sample_at 2}"
    unfolding committed_snapshots_def d(2) by (auto simp: sample_compatibility_def durable_term_def sample_at_def)
  moreover have co: "co_SnapshotIndex sample_compatibility = 0" "co_CommitIndex sample_compatibility = 3" "co_SnapshotTerm sample_compatibility = 0"
    by (simp_all add: sample_compatibility_def)
  moreover have "r = Some (sample_at 2)" if "newest_of {sample_at 1, sample_at 2} r" for r
    using that by (cases r) (auto simp: newest_of_def not_after_def sample_at_def)
  ultimately have "LoadNewest (sample_directory [9, 1, 2]) sample_compatibility = Inr (Some (sample_at 2))"
    using LoadNewest_finds_newest [OF d(1)] small_less_W64 [of 3] small_less_W64 [of 0]
    by (cases "LoadNewest (sample_directory [9, 1, 2]) sample_compatibility") (simp_all only: sum.case co, simp_all)
  then show ?thesis using d(2) by (rule conjI [rotated])
qed


end
