(* ===== verification/Peer.thy ===== *)
theory Peer
  imports Node_Api Snapshot_Store
begin

text \<open>
  The peer protocol between Nodes (\<open>src/internal/node/peer.go\<close>): the messages of
  \<open>src/api/quorumkv/v1/node.proto\<close>, their encoding and decoding, the handlers \<open>Handshake\<close> and
  \<open>Send\<close>, and the transport with its connections and its cached Snapshot.

  What gRPC does is a parameter: the outcome of creating a connection, the peer's answer to a
  handshake, the status of a \<open>Send\<close>. A \<open>cachedSnapshot\<close> is shared by pointer, so the transport keeps the
  cached Snapshots in a list whose positions are their addresses, and every one counts the calls of its
  reader's \<open>Close\<close>.
\<close>

section \<open>Messages\<close>

datatype RaftEntryType =
  RAFT_ENTRY_TYPE_UNSPECIFIED | RAFT_ENTRY_TYPE_NO_OP | RAFT_ENTRY_TYPE_OPEN_SESSION
| RAFT_ENTRY_TYPE_CLOSE_SESSION | RAFT_ENTRY_TYPE_SET | RAFT_ENTRY_TYPE_DELETE | RAFT_ENTRY_TYPE_OTHER int

record RaftLogEntry =
  pe_Index :: u64
  pe_Term :: u64
  pe_Type :: RaftEntryType
  pe_SessionId :: bytes
  pe_Sequence :: u64
  pe_Key :: string
  pe_Value :: bytes

record HandshakeRequest =
  hq_ProtocolVersion :: u32
  hq_ClusterId :: string
  hq_NodeId :: string
  hq_TargetNodeId :: string
  hq_ActiveSessionLimit :: u32

record HandshakeResponse =
  hr_ProtocolVersion :: u32
  hr_ClusterId :: string
  hr_NodeId :: string
  hr_ActiveSessionLimit :: u32

record PbAppendEntries =
  pa_Term :: u64
  pa_RequestId :: u64
  pa_PreviousLogIndex :: u64
  pa_PreviousLogTerm :: u64
  pa_Entries :: "RaftLogEntry list"
  pa_LeaderCommit :: u64
  pa_ReadId :: u64

record PbAppendEntriesResponse =
  par_Term :: u64
  par_RequestId :: u64
  par_Success :: bool
  par_MatchIndex :: u64
  par_ConflictTerm :: u64
  par_ConflictIndex :: u64
  par_ReadId :: u64

record PbInstallSnapshot =
  pi_Term :: u64
  pi_RequestId :: u64
  pi_SnapshotIndex :: u64
  pi_SnapshotTerm :: u64
  pi_SnapshotLength :: u64
  pi_SnapshotChecksum :: u32
  pi_Offset :: u64
  pi_Data :: bytes
  pi_Done :: bool

record PbInstallSnapshotResponse =
  pir_Term :: u64
  pir_RequestId :: u64
  pir_Success :: bool
  pir_NextOffset :: u64
  pir_SnapshotIndex :: u64
  pir_Done :: bool

datatype PeerMessage =
  PbPreVoteRequest u64 u64 u64 \<comment> \<open>Term, last log index, last log Term\<close>
| PbPreVoteResponse u64 u64 bool \<comment> \<open>Term, current Term, granted\<close>
| PbVoteRequest u64 u64 u64 \<comment> \<open>Term, last log index, last log Term\<close>
| PbVoteResponse u64 bool \<comment> \<open>Term, granted\<close>
| PbAppendEntriesRequest PbAppendEntries
| PbAppendEntriesReply PbAppendEntriesResponse
| PbInstallSnapshotRequest PbInstallSnapshot
| PbInstallSnapshotReply PbInstallSnapshotResponse

record SendRequest =
  sq_ProtocolVersion :: u32
  sq_ClusterId :: string
  sq_FromNodeId :: string
  sq_ToNodeId :: string
  sq_Message :: "PeerMessage option"

definition peerProtocolVersion :: u32 where
  "peerProtocolVersion = 1"

section \<open>Encoding and decoding\<close>

fun encodeEntryType :: "EntryType \<Rightarrow> RaftEntryType" where
  "encodeEntryType EntryNoOp = RAFT_ENTRY_TYPE_NO_OP"
| "encodeEntryType EntryOpenSession = RAFT_ENTRY_TYPE_OPEN_SESSION"
| "encodeEntryType EntryCloseSession = RAFT_ENTRY_TYPE_CLOSE_SESSION"
| "encodeEntryType EntrySet = RAFT_ENTRY_TYPE_SET"
| "encodeEntryType EntryDelete = RAFT_ENTRY_TYPE_DELETE"
| "encodeEntryType (EntryOther _) = RAFT_ENTRY_TYPE_UNSPECIFIED"

datatype decode_error = EntryTypeUnsupported RaftEntryType | SessionIdentityLength nat | PayloadRequired

fun decodeEntryType :: "RaftEntryType \<Rightarrow> decode_error + EntryType" where
  "decodeEntryType RAFT_ENTRY_TYPE_NO_OP = Inr EntryNoOp"
| "decodeEntryType RAFT_ENTRY_TYPE_OPEN_SESSION = Inr EntryOpenSession"
| "decodeEntryType RAFT_ENTRY_TYPE_CLOSE_SESSION = Inr EntryCloseSession"
| "decodeEntryType RAFT_ENTRY_TYPE_SET = Inr EntrySet"
| "decodeEntryType RAFT_ENTRY_TYPE_DELETE = Inr EntryDelete"
| "decodeEntryType t = Inl (EntryTypeUnsupported t)"

definition encodeEntry :: "LogEntry \<Rightarrow> RaftLogEntry" where
  "encodeEntry e = \<lparr>pe_Index = le_Index e, pe_Term = le_Term e, pe_Type = encodeEntryType (le_Type e),
     pe_SessionId = le_SessionID e, pe_Sequence = le_Sequence e, pe_Key = le_Key e, pe_Value = le_Value e\<rparr>"

text \<open>\<open>copy(sessionID[:], id)\<close> into a zero array of sixteen bytes.\<close>

definition copySessionID :: "bytes \<Rightarrow> SessionID" where
  "copySessionID sid = take 16 sid @ drop (length sid) zeroSessionID"

fun decodeEntries :: "RaftLogEntry list \<Rightarrow> decode_error + LogEntry list" where
  "decodeEntries [] = Inr []"
| "decodeEntries (e # es) =
    (case decodeEntryType (pe_Type e) of
       Inl err \<Rightarrow> Inl err
     | Inr t \<Rightarrow>
         let n = length (pe_SessionId e) in
         if t \<noteq> EntryNoOp \<and> n \<noteq> 16 then Inl (SessionIdentityLength n)
         else if t = EntryNoOp \<and> n \<noteq> 0 \<and> n \<noteq> 16 then Inl (SessionIdentityLength n)
         else (case decodeEntries es of
           Inl err \<Rightarrow> Inl err
         | Inr entries \<Rightarrow> Inr (\<lparr>le_Index = pe_Index e, le_Term = pe_Term e, le_Type = t,
             le_SessionID = copySessionID (pe_SessionId e), le_Sequence = pe_Sequence e, le_Key = pe_Key e,
             le_Value = pe_Value e\<rparr> # entries)))"

definition peer_request :: "Config \<Rightarrow> NodeID \<Rightarrow> PeerMessage \<Rightarrow> SendRequest" where
  "peer_request cfg to m = \<lparr>sq_ProtocolVersion = peerProtocolVersion, sq_ClusterId = cfg_ClusterID cfg,
     sq_FromNodeId = ns_ID (cfg_Node cfg), sq_ToNodeId = to, sq_Message = Some m\<rparr>"

text \<open>\<open>None\<close> is the error for an action that is not a message of this encoding.\<close>

fun encodeRaftAction :: "Config \<Rightarrow> Action \<Rightarrow> (NodeID \<times> SendRequest) option" where
  "encodeRaftAction cfg (SendPreVoteRequest to r) =
     Some (to, peer_request cfg to (PbPreVoteRequest (pvq_Term r) (pvq_LastLogIndex r) (pvq_LastLogTerm r)))"
| "encodeRaftAction cfg (SendPreVoteResponse to r) =
     Some (to, peer_request cfg to (PbPreVoteResponse (pvr_Term r) (pvr_CurrentTerm r) (pvr_Granted r)))"
| "encodeRaftAction cfg (SendVoteRequest to r) =
     Some (to, peer_request cfg to (PbVoteRequest (vq_Term r) (vq_LastLogIndex r) (vq_LastLogTerm r)))"
| "encodeRaftAction cfg (SendVoteResponse to r) =
     Some (to, peer_request cfg to (PbVoteResponse (vr_Term r) (vr_Granted r)))"
| "encodeRaftAction cfg (SendAppendEntries to r) =
     Some (to, peer_request cfg to (PbAppendEntriesRequest \<lparr>pa_Term = ae_Term r, pa_RequestId = ae_RequestID r,
       pa_PreviousLogIndex = ae_PrevLogIndex r, pa_PreviousLogTerm = ae_PrevLogTerm r,
       pa_Entries = map encodeEntry (ae_Entries r), pa_LeaderCommit = ae_LeaderCommit r, pa_ReadId = ae_ReadID r\<rparr>))"
| "encodeRaftAction cfg (SendAppendEntriesResponse to r) =
     Some (to, peer_request cfg to (PbAppendEntriesReply \<lparr>par_Term = aer_Term r, par_RequestId = aer_RequestID r,
       par_Success = aer_Success r, par_MatchIndex = aer_MatchIndex r, par_ConflictTerm = aer_ConflictTerm r,
       par_ConflictIndex = aer_ConflictIndex r, par_ReadId = aer_ReadID r\<rparr>))"
| "encodeRaftAction cfg (SendInstallSnapshotResponse to r) =
     Some (to, peer_request cfg to (PbInstallSnapshotReply \<lparr>pir_Term = isr_Term r, pir_RequestId = isr_RequestID r,
       pir_Success = isr_Success r, pir_NextOffset = isr_NextOffset r, pir_SnapshotIndex = isr_SnapshotIndex r,
       pir_Done = isr_Done r\<rparr>))"
| "encodeRaftAction cfg _ = None"

definition decodeRaftMessage :: "SendRequest \<Rightarrow> decode_error + Event" where
  "decodeRaftMessage request =
    (let from = sq_FromNodeId request in
     case sq_Message request of
       None \<Rightarrow> Inl PayloadRequired
     | Some (PbPreVoteRequest t i lt) \<Rightarrow>
         Inr (EvPreVoteRequest \<lparr>pvq_From = from, pvq_Term = t, pvq_LastLogIndex = i, pvq_LastLogTerm = lt\<rparr>)
     | Some (PbPreVoteResponse t c g) \<Rightarrow>
         Inr (EvPreVoteResponse \<lparr>pvr_From = from, pvr_Term = t, pvr_CurrentTerm = c, pvr_Granted = g\<rparr>)
     | Some (PbVoteRequest t i lt) \<Rightarrow>
         Inr (EvVoteRequest \<lparr>vq_From = from, vq_Term = t, vq_LastLogIndex = i, vq_LastLogTerm = lt\<rparr>)
     | Some (PbVoteResponse t g) \<Rightarrow> Inr (EvVoteResponse \<lparr>vr_From = from, vr_Term = t, vr_Granted = g\<rparr>)
     | Some (PbAppendEntriesRequest m) \<Rightarrow>
         (case decodeEntries (pa_Entries m) of
            Inl err \<Rightarrow> Inl err
          | Inr entries \<Rightarrow> Inr (EvAppendEntries \<lparr>ae_From = from, ae_Term = pa_Term m, ae_RequestID = pa_RequestId m,
              ae_PrevLogIndex = pa_PreviousLogIndex m, ae_PrevLogTerm = pa_PreviousLogTerm m, ae_Entries = entries,
              ae_LeaderCommit = pa_LeaderCommit m, ae_ReadID = pa_ReadId m\<rparr>))
     | Some (PbAppendEntriesReply m) \<Rightarrow>
         Inr (EvAppendEntriesResponse \<lparr>aer_From = from, aer_Term = par_Term m, aer_RequestID = par_RequestId m,
           aer_Success = par_Success m, aer_MatchIndex = par_MatchIndex m, aer_ConflictTerm = par_ConflictTerm m,
           aer_ConflictIndex = par_ConflictIndex m, aer_ReadID = par_ReadId m\<rparr>)
     | Some (PbInstallSnapshotRequest m) \<Rightarrow>
         Inr (EvInstallSnapshot \<lparr>is_From = from, is_Term = pi_Term m, is_RequestID = pi_RequestId m,
           is_SnapshotIndex = pi_SnapshotIndex m, is_SnapshotTerm = pi_SnapshotTerm m, is_Length = pi_SnapshotLength m,
           is_Checksum = pi_SnapshotChecksum m, is_Offset = pi_Offset m, is_Data = pi_Data m, is_Done = pi_Done m,
           is_Success = False, is_NextOffset = 0\<rparr>)
     | Some (PbInstallSnapshotReply m) \<Rightarrow>
         Inr (EvInstallSnapshotResponse \<lparr>isr_From = from, isr_Term = pir_Term m, isr_RequestID = pir_RequestId m,
           isr_SnapshotIndex = pir_SnapshotIndex m, isr_Success = pir_Success m, isr_NextOffset = pir_NextOffset m,
           isr_Done = pir_Done m\<rparr>))"

section \<open>The handlers\<close>

definition validatePeer :: "Config \<Rightarrow> u32 \<Rightarrow> string \<Rightarrow> string \<Rightarrow> string \<Rightarrow> status option" where
  "validatePeer cfg version clusterID fromNodeID targetNodeID =
    (if version \<noteq> peerProtocolVersion then Some (plain_status FailedPrecondition)
     else if clusterID \<noteq> cfg_ClusterID cfg then Some (plain_status FailedPrecondition)
     else if targetNodeID \<noteq> ns_ID (cfg_Node cfg) then Some (plain_status FailedPrecondition)
     else if fromNodeID = ns_ID (cfg_Node cfg) then Some (plain_status FailedPrecondition)
     else if fromNodeID |\<notin>| fmdom (cfg_Members cfg) then Some (plain_status FailedPrecondition)
     else None)"

text \<open>The conversion \<open>uint32\<close> of the configured limit.\<close>

definition limit32 :: "Config \<Rightarrow> u32" where
  "limit32 cfg = nat (cfg_ActiveSessionLimit cfg mod 2 ^ 32)"

definition Handshake :: "Config \<Rightarrow> HandshakeRequest \<Rightarrow> status + HandshakeResponse" where
  "Handshake cfg request =
    (case validatePeer cfg (hq_ProtocolVersion request) (hq_ClusterId request) (hq_NodeId request) (hq_TargetNodeId request) of
       Some e \<Rightarrow> Inl e
     | None \<Rightarrow>
         if hq_ActiveSessionLimit request \<noteq> limit32 cfg then Inl (plain_status FailedPrecondition)
         else Inr \<lparr>hr_ProtocolVersion = peerProtocolVersion, hr_ClusterId = cfg_ClusterID cfg,
           hr_NodeId = ns_ID (cfg_Node cfg), hr_ActiveSessionLimit = limit32 cfg\<rparr>)"

text \<open>\<open>queued\<close> is the outcome of offering the event to the owner's queue.\<close>

definition peer_Send :: "Config \<Rightarrow> unit waited \<Rightarrow> SendRequest \<Rightarrow> unit reply" where
  "peer_Send cfg queued request =
    (case validatePeer cfg (sq_ProtocolVersion request) (sq_ClusterId request) (sq_FromNodeId request) (sq_ToNodeId request) of
       Some e \<Rightarrow> (Inl e, None)
     | None \<Rightarrow>
         (case decodeRaftMessage request of
            Inl _ \<Rightarrow> (Inl (plain_status InvalidArgument), None)
          | Inr event \<Rightarrow>
              (case queued of
                 Ready _ \<Rightarrow> (Inr (), Some event)
               | RuntimeDone \<Rightarrow> (Inl (plain_status Unavailable), None)
               | ContextDone \<Rightarrow> (Inl (plain_status ContextEnded), None))))"

section \<open>The transport\<close>

record cachedSnapshot =
  cs_index :: u64
  cs_term :: u64
  cs_reader :: Handle
  cs_users :: int
  cs_evicted :: bool
  cs_closes :: nat

record peerTransport =
  pt_config :: Config
  pt_clients :: "NodeID list"
  pt_disconnected :: "NodeID list" \<comment> \<open>the peers whose connection has been closed\<close>
  pt_heap :: "cachedSnapshot list"
  pt_snapshot :: "nat option"
  pt_snapshotClosed :: bool

datatype send_failure =
  EncodeUnsupported | Unconfigured NodeID | CreateClient | HandshakeFailed code | HandshakeMismatch HandshakeResponse
| SendFailed code | LoadSnapshot snap_error | TransportClosed | OffsetExceeds u64 u64 | ReadChunk snap_error

text \<open>An error of the transport; \<open>Configuration\<close> is one wrapped in \<open>peerConfigurationError\<close>.\<close>

datatype send_error = Plain send_failure | Configuration send_failure

definition isPeerConfigurationError :: "send_error \<Rightarrow> bool" where
  "isPeerConfigurationError e = (case e of Plain _ \<Rightarrow> False | Configuration _ \<Rightarrow> True)"

text \<open>The network and the files, as one call of \<open>send\<close> meets them.\<close>

record peer_env =
  en_open :: "u64 \<Rightarrow> u64 \<Rightarrow> snap_error + Handle"
  en_newClient :: bool
  en_handshake :: "HandshakeRequest \<Rightarrow> status + HandshakeResponse"
  en_send :: "SendRequest \<Rightarrow> code option"

definition newPeerTransport :: "Config \<Rightarrow> peerTransport" where
  "newPeerTransport cfg = \<lparr>pt_config = cfg, pt_clients = [], pt_disconnected = [], pt_heap = [], pt_snapshot = None, pt_snapshotClosed = False\<rparr>"

text \<open>\<open>reader.Close()\<close> of the cached Snapshot at an address.\<close>

definition closeReader :: "nat \<Rightarrow> peerTransport \<Rightarrow> peerTransport" where
  "closeReader a t = t\<lparr>pt_heap := (pt_heap t)[a := (pt_heap t ! a)\<lparr>cs_closes := cs_closes (pt_heap t ! a) + 1\<rparr>]\<rparr>"

definition evict :: "nat \<Rightarrow> peerTransport \<Rightarrow> peerTransport" where
  "evict a t =
    (let t' = t\<lparr>pt_heap := (pt_heap t)[a := (pt_heap t ! a)\<lparr>cs_evicted := True\<rparr>]\<rparr> in
     if cs_users (pt_heap t ! a) = 0 then closeReader a t' else t')"

definition acquireSnapshot ::
    "(u64 \<Rightarrow> u64 \<Rightarrow> snap_error + Handle) \<Rightarrow> u64 \<Rightarrow> u64 \<Rightarrow> peerTransport \<Rightarrow> (send_failure + nat) \<times> peerTransport" where
  "acquireSnapshot openSnapshot index trm t =
    (if pt_snapshotClosed t then (Inl TransportClosed, t)
     else
       let reopen =
         (case openSnapshot index trm of
            Inl e \<Rightarrow> (Inl (LoadSnapshot e), t)
          | Inr reader \<Rightarrow>
              let a = length (pt_heap t);
                  t' = t\<lparr>pt_heap := pt_heap t @ [\<lparr>cs_index = index, cs_term = trm, cs_reader = reader, cs_users = 1,
                    cs_evicted = False, cs_closes = 0\<rparr>], pt_snapshot := Some a\<rparr> in
              (Inr a, case pt_snapshot t of None \<Rightarrow> t' | Some previous \<Rightarrow> evict previous t')) in
       case pt_snapshot t of
         None \<Rightarrow> reopen
       | Some a \<Rightarrow>
           let c = pt_heap t ! a in
           if cs_index c = index \<and> cs_term c = trm
           then (Inr a, t\<lparr>pt_heap := (pt_heap t)[a := c\<lparr>cs_users := cs_users c + 1\<rparr>]\<rparr>)
           else reopen)"

definition releaseSnapshot :: "nat \<Rightarrow> peerTransport \<Rightarrow> peerTransport" where
  "releaseSnapshot a t =
    (let c = (pt_heap t ! a)\<lparr>cs_users := cs_users (pt_heap t ! a) - 1\<rparr>;
         t' = t\<lparr>pt_heap := (pt_heap t)[a := c]\<rparr> in
     if cs_users c = 0 \<and> cs_evicted c then closeReader a t' else t')"

text \<open>
  \<open>close\<close>: the cached Snapshot is dropped, then every connection is closed, whatever the errors of closing
  are. The connections stay in the map, as in the source.
\<close>

definition peer_close :: "peerTransport \<Rightarrow> peerTransport" where
  "peer_close t =
    (let t = (case pt_snapshot t of
                None \<Rightarrow> t\<lparr>pt_snapshotClosed := True\<rparr>
              | Some a \<Rightarrow> (evict a (t\<lparr>pt_snapshotClosed := True\<rparr>))\<lparr>pt_snapshot := None\<rparr>)
     in t\<lparr>pt_disconnected := pt_clients t\<rparr>)"

definition peer_client :: "peer_env \<Rightarrow> NodeID \<Rightarrow> peerTransport \<Rightarrow> send_error option \<times> peerTransport" where
  "peer_client env to t =
    (if to \<in> set (pt_clients t) then (None, t)
     else if to |\<notin>| fmdom (cfg_Members (pt_config t)) then (Some (Plain (Unconfigured to)), t)
     else if \<not> en_newClient env then (Some (Plain CreateClient), t)
     else
       let cfg = pt_config t in
       case en_handshake env \<lparr>hq_ProtocolVersion = peerProtocolVersion, hq_ClusterId = cfg_ClusterID cfg,
           hq_NodeId = ns_ID (cfg_Node cfg), hq_TargetNodeId = to, hq_ActiveSessionLimit = limit32 cfg\<rparr> of
         Inl st \<Rightarrow>
           if sts_code st = FailedPrecondition then (Some (Configuration (HandshakeFailed (sts_code st))), t)
           else (Some (Plain (HandshakeFailed (sts_code st))), t)
       | Inr r \<Rightarrow>
           if hr_ProtocolVersion r \<noteq> peerProtocolVersion \<or> hr_ClusterId r \<noteq> cfg_ClusterID cfg
             \<or> hr_NodeId r \<noteq> to \<or> hr_ActiveSessionLimit r \<noteq> limit32 cfg
           then (Some (Configuration (HandshakeMismatch r)), t)
           else (None, t\<lparr>pt_clients := to # pt_clients t\<rparr>))"

definition chunkSize :: u64 where
  "chunkSize = 64 * 2 ^ 10"

text \<open>The chunk that \<open>sendSnapshot\<close> reads at an offset and the request it makes of it.\<close>

definition snapshotChunk ::
    "Config \<Rightarrow> Handle \<Rightarrow> NodeID \<Rightarrow> u64 \<Rightarrow> u64 \<Rightarrow> u64 \<Rightarrow> u64 \<Rightarrow> u64 \<Rightarrow> send_failure + SendRequest" where
  "snapshotChunk cfg reader to trm requestID index snapTerm offset =
    (let len = h_length reader in
     if offset > len then Inl (OffsetExceeds offset len)
     else
       let e0 = add64 offset chunkSize; e = (if e0 > len then len else e0) in
       case handle_ReadAt reader (e - offset) (int offset) of
         Inl err \<Rightarrow> Inl (ReadChunk err)
       | Inr dat \<Rightarrow> Inr (peer_request cfg to (PbInstallSnapshotRequest
           \<lparr>pi_Term = trm, pi_RequestId = requestID, pi_SnapshotIndex = index, pi_SnapshotTerm = snapTerm,
            pi_SnapshotLength = len, pi_SnapshotChecksum = h_checksum reader, pi_Offset = offset, pi_Data = dat,
            pi_Done = (e = len)\<rparr>)))"

text \<open>
  A send: the error, if there is one, the request that was handed to the peer's connection, if one was,
  and the transport.
\<close>

type_synonym sent = "send_error option \<times> SendRequest option \<times> peerTransport"

definition sendSnapshot :: "peer_env \<Rightarrow> NodeID \<Rightarrow> u64 \<Rightarrow> u64 \<Rightarrow> u64 \<Rightarrow> u64 \<Rightarrow> u64 \<Rightarrow> peerTransport \<Rightarrow> sent" where
  "sendSnapshot env to trm requestID index snapTerm offset t =
    (case acquireSnapshot (en_open env) index snapTerm t of
       (Inl f, t1) \<Rightarrow> (Some (Plain f), None, t1)
     | (Inr a, t1) \<Rightarrow>
         (case snapshotChunk (pt_config t1) (cs_reader (pt_heap t1 ! a)) to trm requestID index snapTerm offset of
            Inl f \<Rightarrow> (Some (Plain f), None, releaseSnapshot a t1)
          | Inr request \<Rightarrow>
              (case peer_client env to t1 of
                 (Some err, t2) \<Rightarrow> (Some err, None, releaseSnapshot a t2)
               | (None, t2) \<Rightarrow>
                   (map_option (\<lambda>c. Plain (SendFailed c)) (en_send env request), Some request, releaseSnapshot a t2))))"

definition peer_send :: "peer_env \<Rightarrow> Action \<Rightarrow> peerTransport \<Rightarrow> sent" where
  "peer_send env action t =
    (case action of
       SendInstallSnapshot to trm requestID index snapTerm offset \<Rightarrow>
         sendSnapshot env to trm requestID index snapTerm offset t
     | _ \<Rightarrow>
         (case encodeRaftAction (pt_config t) action of
            None \<Rightarrow> (Some (Plain EncodeUnsupported), None, t)
          | Some (to, message) \<Rightarrow>
              (case peer_client env to t of
                 (Some err, t1) \<Rightarrow> (Some err, None, t1)
               | (None, t1) \<Rightarrow>
                   (case en_send env message of
                      None \<Rightarrow> (None, Some message, t1)
                    | Some c \<Rightarrow>
                        (Some (if c = FailedPrecondition \<or> c = InvalidArgument then Configuration (SendFailed c)
                               else Plain (SendFailed c)), Some message, t1)))))"

section \<open>Messages arrive as they were sent\<close>

text \<open>An entry that the encoding carries: one of the five types, with a Session identity of sixteen bytes.\<close>

definition wire_entry :: "LogEntry \<Rightarrow> bool" where
  "wire_entry e \<longleftrightarrow> (\<forall>n. le_Type e \<noteq> EntryOther n) \<and> length (le_SessionID e) = 16"

text \<open>The event that a message means to its receiver.\<close>

fun message_event :: "NodeID \<Rightarrow> Action \<Rightarrow> Event option" where
  "message_event from (SendPreVoteRequest to r) = Some (EvPreVoteRequest (r\<lparr>pvq_From := from\<rparr>))"
| "message_event from (SendPreVoteResponse to r) = Some (EvPreVoteResponse (r\<lparr>pvr_From := from\<rparr>))"
| "message_event from (SendVoteRequest to r) = Some (EvVoteRequest (r\<lparr>vq_From := from\<rparr>))"
| "message_event from (SendVoteResponse to r) = Some (EvVoteResponse (r\<lparr>vr_From := from\<rparr>))"
| "message_event from (SendAppendEntries to r) =
     (if list_all wire_entry (ae_Entries r) then Some (EvAppendEntries (r\<lparr>ae_From := from\<rparr>)) else None)"
| "message_event from (SendAppendEntriesResponse to r) = Some (EvAppendEntriesResponse (r\<lparr>aer_From := from\<rparr>))"
| "message_event from (SendInstallSnapshotResponse to r) = Some (EvInstallSnapshotResponse (r\<lparr>isr_From := from\<rparr>))"
| "message_event from _ = None"

lemma decodeEntryType_encode:
  "decodeEntryType (encodeEntryType t) =
    (case t of EntryOther _ \<Rightarrow> Inl (EntryTypeUnsupported RAFT_ENTRY_TYPE_UNSPECIFIED) | _ \<Rightarrow> Inr t)"
  by (cases t) simp_all

lemma copySessionID_full [simp]: "length sid = 16 \<Longrightarrow> copySessionID sid = sid"
  by (simp add: copySessionID_def zeroSessionID_def)

lemma decodeEntries_encode:
  "list_all (\<lambda>e. length (le_SessionID e) = 16) es \<Longrightarrow>
     (if list_all wire_entry es then decodeEntries (map encodeEntry es) = Inr es
      else isl (decodeEntries (map encodeEntry es)))"
proof (induction es)
  case (Cons e es)
  show ?case
  proof (cases "\<exists>n. le_Type e = EntryOther n")
    case True
    then show ?thesis by (auto simp: encodeEntry_def wire_entry_def)
  next
    case False
    then have t: "decodeEntryType (encodeEntryType (le_Type e)) = Inr (le_Type e)"
      by (auto simp: decodeEntryType_encode split: EntryType.splits)
    have n: "length (le_SessionID e) = 16" using Cons.prems by simp
    have w: "wire_entry e" using False n by (simp add: wire_entry_def)
    have "\<lparr>le_Index = le_Index e, le_Term = le_Term e, le_Type = le_Type e, le_SessionID = le_SessionID e,
        le_Sequence = le_Sequence e, le_Key = le_Key e, le_Value = le_Value e\<rparr> = e"
      by simp
    then show ?thesis using Cons t n w
      by (cases "decodeEntries (map encodeEntry es)") (auto simp: encodeEntry_def split: if_splits)
  qed
qed simp

text \<open>
  C31: A message that one Node encodes and another decodes arrives as the event that it means, with the
  sender's identity: the receiver queues exactly this event when both are configured for the same
  Cluster, the message is addressed to the receiver and the sender is another configured member. It
  queues nothing otherwise, and nothing when a replicated entry has a type that the protocol lacks.
\<close>

theorem message_arrives_as_sent:
  assumes "encodeRaftAction sender action = Some (to, request)"
    and "\<forall>target r. action = SendAppendEntries target r \<longrightarrow> list_all (\<lambda>e. length (le_SessionID e) = 16) (ae_Entries r)"
  shows "snd (peer_Send receiver (Ready ()) request) =
    (if cfg_ClusterID sender = cfg_ClusterID receiver \<and> to = ns_ID (cfg_Node receiver)
        \<and> ns_ID (cfg_Node sender) \<noteq> ns_ID (cfg_Node receiver)
        \<and> ns_ID (cfg_Node sender) |\<in>| fmdom (cfg_Members receiver)
     then message_event (ns_ID (cfg_Node sender)) action else None)"
proof -
  have dec: "decodeRaftMessage request = (case message_event (ns_ID (cfg_Node sender)) action of
      None \<Rightarrow> Inl (projl (decodeRaftMessage request)) | Some event \<Rightarrow> Inr event)"
    using assms decodeEntries_encode
    by (cases action) (fastforce simp: decodeRaftMessage_def peer_request_def split: sum.splits if_splits)+
  have "sq_ProtocolVersion request = peerProtocolVersion \<and> sq_ClusterId request = cfg_ClusterID sender
      \<and> sq_FromNodeId request = ns_ID (cfg_Node sender) \<and> sq_ToNodeId request = to"
    using assms(1) by (cases action) (auto simp: peer_request_def)
  then show ?thesis unfolding peer_Send_def validatePeer_def by (subst dec) (auto split: option.splits)
qed

section \<open>Connections\<close>

text \<open>
  C32: A Node opens a connection to a peer exactly when the peer's answer shows that the two agree: the
  peer is a configured member that carries the identity it was dialled under, both belong to the same
  Cluster with the same limit of active Client Sessions, and the peer has the caller among its members.
  Every disagreement is reported as a configuration error, which stops the Node.
\<close>

theorem connection_needs_agreement:
  "en_newClient env \<Longrightarrow> to |\<in>| fmdom (cfg_Members (pt_config t)) \<Longrightarrow> to \<notin> set (pt_clients t) \<Longrightarrow>
   en_handshake env = Handshake peer \<Longrightarrow>
   (if cfg_ClusterID peer = cfg_ClusterID (pt_config t) \<and> ns_ID (cfg_Node peer) = to
       \<and> ns_ID (cfg_Node (pt_config t)) \<noteq> to \<and> ns_ID (cfg_Node (pt_config t)) |\<in>| fmdom (cfg_Members peer)
       \<and> limit32 peer = limit32 (pt_config t)
    then peer_client env to t = (None, t\<lparr>pt_clients := to # pt_clients t\<rparr>)
    else \<exists>e. peer_client env to t = (Some (Configuration e), t))"
  by (auto simp: peer_client_def Handshake_def validatePeer_def Let_def plain_status_def)

section \<open>The cached Snapshot\<close>

text \<open>
  The transport as its users see it: \<open>held\<close> lists the addresses that were acquired and not yet released,
  once for every acquisition.
\<close>

inductive transport_step :: "peerTransport \<times> nat list \<Rightarrow> peerTransport \<times> nat list \<Rightarrow> bool" where
  Acquired: "acquireSnapshot opener i trm t = (Inr a, t') \<Longrightarrow> transport_step (t, held) (t', a # held)"
| NotAcquired: "acquireSnapshot opener i trm t = (Inl f, t') \<Longrightarrow> transport_step (t, held) (t', held)"
| Released: "a \<in> set held \<Longrightarrow> transport_step (t, held) (releaseSnapshot a t, remove1 a held)"
| Closed: "transport_step (t, held) (peer_close t, held)"

definition cache_ok :: "peerTransport \<times> nat list \<Rightarrow> bool" where
  "cache_ok s \<longleftrightarrow> (case s of (t, held) \<Rightarrow>
     (\<forall>a \<in> set held. a < length (pt_heap t)) \<and> (\<forall>a. pt_snapshot t = Some a \<longrightarrow> a < length (pt_heap t)) \<and>
     (pt_snapshotClosed t \<longrightarrow> pt_snapshot t = None) \<and>
     (\<forall>a < length (pt_heap t). let c = pt_heap t ! a in
        cs_users c = int (count_list held a) \<and> (cs_evicted c \<longleftrightarrow> pt_snapshot t \<noteq> Some a)
        \<and> cs_closes c = (if cs_evicted c \<and> cs_users c = 0 then 1 else 0)))"

definition slot_ok :: "nat list \<Rightarrow> nat option \<Rightarrow> nat \<Rightarrow> cachedSnapshot \<Rightarrow> bool" where
  "slot_ok held current a c \<longleftrightarrow> cs_users c = int (count_list held a) \<and> (cs_evicted c \<longleftrightarrow> current \<noteq> Some a)
     \<and> cs_closes c = (if cs_evicted c \<and> cs_users c = 0 then 1 else 0)"

lemma cache_ok_slots:
  "cache_ok (t, held) \<longleftrightarrow> (\<forall>a \<in> set held. a < length (pt_heap t)) \<and> (\<forall>a. pt_snapshot t = Some a \<longrightarrow> a < length (pt_heap t))
     \<and> (pt_snapshotClosed t \<longrightarrow> pt_snapshot t = None) \<and> (\<forall>a < length (pt_heap t). slot_ok held (pt_snapshot t) a (pt_heap t ! a))"
  by (simp add: cache_ok_def slot_ok_def Let_def)

lemma count_list_remove1: "count_list (remove1 a xs) b = (if a = b then count_list xs b - 1 else count_list xs b)"
  by (induction xs) auto

lemma count_list_pos: "a \<in> set xs \<Longrightarrow> 0 < count_list xs a"
  by (induction xs) auto

definition close_slot :: "cachedSnapshot \<Rightarrow> cachedSnapshot" where
  "close_slot c = (if cs_evicted c \<and> cs_users c = 0 then c\<lparr>cs_closes := cs_closes c + 1\<rparr> else c)"

lemma evict_slot:
  assumes "p < length (pt_heap t)"
  shows "evict p t = t\<lparr>pt_heap := (pt_heap t)[p := close_slot ((pt_heap t ! p)\<lparr>cs_evicted := True\<rparr>)]\<rparr>"
  using assms by (simp add: evict_def closeReader_def close_slot_def Let_def)

lemma release_slot:
  assumes "p < length (pt_heap t)"
  shows "releaseSnapshot p t = t\<lparr>pt_heap := (pt_heap t)[p := close_slot ((pt_heap t ! p)\<lparr>cs_users := cs_users (pt_heap t ! p) - 1\<rparr>)]\<rparr>"
  using assms by (simp add: releaseSnapshot_def closeReader_def close_slot_def Let_def)

text \<open>How the invariant of one slot follows what happens to it.\<close>

lemma slot_ok_other: "slot_ok held cur b c \<Longrightarrow> a \<noteq> b \<Longrightarrow> slot_ok (a # held) cur b c"
  "slot_ok held cur b c \<Longrightarrow> a \<noteq> b \<Longrightarrow> slot_ok (remove1 a held) cur b c"
  "slot_ok held (Some a) b c \<Longrightarrow> a \<noteq> b \<Longrightarrow> d \<noteq> Some b \<Longrightarrow> slot_ok held d b c"
  "slot_ok held None b c \<Longrightarrow> d \<noteq> Some b \<Longrightarrow> slot_ok held d b c"
  by (auto simp: slot_ok_def count_list_remove1)

lemma slot_ok_evict: "slot_ok held (Some a) a c \<Longrightarrow> d \<noteq> Some a \<Longrightarrow> slot_ok held d a (close_slot (c\<lparr>cs_evicted := True\<rparr>))"
  by (auto simp: slot_ok_def close_slot_def)

lemma slot_ok_acquire: "slot_ok held (Some a) a c \<Longrightarrow> slot_ok (a # held) (Some a) a (c\<lparr>cs_users := cs_users c + 1\<rparr>)"
  by (auto simp: slot_ok_def)

lemma slot_ok_release:
  "slot_ok held cur a c \<Longrightarrow> a \<in> set held \<Longrightarrow> slot_ok (remove1 a held) cur a (close_slot (c\<lparr>cs_users := cs_users c - 1\<rparr>))"
  using count_list_pos [of a held] by (auto simp: slot_ok_def close_slot_def count_list_remove1 of_nat_diff)

lemma slot_ok_unheld: "a \<notin> set held \<Longrightarrow> cs_users c = 1 \<Longrightarrow> \<not> cs_evicted c \<Longrightarrow> cs_closes c = 0 \<Longrightarrow> slot_ok (a # held) (Some a) a c"
  by (auto simp: slot_ok_def count_list_0_iff)

lemma cache_ok_release:
  assumes ok: "cache_ok (t, held)" and a: "a \<in> set held"
  shows "cache_ok (releaseSnapshot a t, remove1 a held)"
proof -
  have l: "a < length (pt_heap t)" using assms by (auto simp: cache_ok_slots)
  have "slot_ok (remove1 a held) (pt_snapshot t) b
      ((pt_heap t)[a := close_slot ((pt_heap t ! a)\<lparr>cs_users := cs_users (pt_heap t ! a) - 1\<rparr>)] ! b)" if "b < length (pt_heap t)" for b
    using that ok a by (cases "b = a") (simp_all add: cache_ok_slots slot_ok_release slot_ok_other(2))
  moreover have "set (remove1 a held) \<subseteq> set held" by (rule set_remove1_subset)
  ultimately show ?thesis unfolding release_slot [OF l] using ok by (simp add: cache_ok_slots subset_iff)
qed

lemma cache_ok_close:
  assumes ok: "cache_ok (t, held)"
  shows "cache_ok (peer_close t, held)"
proof (cases "pt_snapshot t")
  case None
  then show ?thesis using ok by (simp add: peer_close_def cache_ok_slots)
next
  case (Some p)
  have l: "p < length (pt_heap t)" using ok Some by (simp add: cache_ok_slots)
  then show ?thesis using ok Some evict_slot [of p "t\<lparr>pt_snapshotClosed := True\<rparr>"]
    by (auto simp: peer_close_def cache_ok_slots nth_list_update slot_ok_evict intro: slot_ok_other(3))
qed

lemma cache_ok_acquire:
  assumes ok: "cache_ok (t, held)" and acq: "acquireSnapshot opener i trm t = (r, t')"
  shows "cache_ok (t', case r of Inl _ \<Rightarrow> held | Inr a \<Rightarrow> a # held)"
proof -
  define h where "h = pt_heap t"
  consider (same) "r \<in> range Inl" "t' = t"
    | (hit) a where "pt_snapshot t = Some a" "r = Inr a" "t' = t\<lparr>pt_heap := h[a := (h ! a)\<lparr>cs_users := cs_users (h ! a) + 1\<rparr>]\<rparr>"
    | (miss) reader n where "\<not> pt_snapshotClosed t" "r = Inr (length h)"
        "n = \<lparr>cs_index = i, cs_term = trm, cs_reader = reader, cs_users = 1, cs_evicted = False, cs_closes = 0\<rparr>"
        "t' = (case pt_snapshot t of None \<Rightarrow> t\<lparr>pt_heap := h @ [n], pt_snapshot := Some (length h)\<rparr>
          | Some p \<Rightarrow> evict p (t\<lparr>pt_heap := h @ [n], pt_snapshot := Some (length h)\<rparr>))"
  proof (cases "pt_snapshotClosed t \<or> (pt_snapshot t = None \<or> \<not> (cs_index (h ! the (pt_snapshot t)) = i
      \<and> cs_term (h ! the (pt_snapshot t)) = trm)) \<and> isl (opener i trm)")
    case True
    then show ?thesis using acq that(1) unfolding acquireSnapshot_def Let_def h_def
      by (cases "pt_snapshotClosed t"; cases "pt_snapshot t"; cases "opener i trm") auto
  next
    case False
    show ?thesis
    proof (cases "pt_snapshot t \<noteq> None \<and> cs_index (h ! the (pt_snapshot t)) = i \<and> cs_term (h ! the (pt_snapshot t)) = trm")
      case True
      then show ?thesis using acq False that(2) unfolding acquireSnapshot_def Let_def h_def by auto
    next
      case no: False
      then obtain reader where "opener i trm = Inr reader" using False by (cases "opener i trm") auto
      then show ?thesis using acq False no that(3) unfolding acquireSnapshot_def Let_def h_def
        by (cases "pt_snapshot t") auto
    qed
  qed
  then show ?thesis
  proof cases
    case same
    then show ?thesis using ok by auto
  next
    case hit
    then have l: "a < length h" using ok by (simp add: cache_ok_slots h_def)
    then show ?thesis using ok hit unfolding h_def
      by (auto simp: cache_ok_slots nth_list_update slot_ok_acquire intro: slot_ok_other(1))
  next
    case miss
    have unheld: "length h \<notin> set held" using ok by (auto simp: cache_ok_slots h_def)
    have new: "slot_ok (length h # held) (Some (length h)) (length h) n"
      using unheld miss(3) by (intro slot_ok_unheld) simp_all
    show ?thesis
    proof (cases "pt_snapshot t")
      case None
      have "slot_ok (length h # held) (Some (length h)) b (h ! b)" if "b < length h" for b
        by (rule slot_ok_other(1), rule slot_ok_other(4)) (use ok that None in \<open>simp_all add: cache_ok_slots h_def\<close>)
      then show ?thesis using ok miss new None
        by (auto simp: cache_ok_slots h_def nth_append less_Suc_eq)
    next
      case (Some p)
      then have l: "p < length h" using ok by (simp add: cache_ok_slots h_def)
      have other: "slot_ok (length h # held) (Some (length h)) b (h ! b)" if "b < length h" "b \<noteq> p" for b
        by (rule slot_ok_other(1), rule slot_ok_other(3) [of _ p]) (use ok that Some in \<open>simp_all add: cache_ok_slots h_def\<close>)
      have evicted: "slot_ok (length h # held) (Some (length h)) p (close_slot ((h ! p)\<lparr>cs_evicted := True\<rparr>))"
        by (rule slot_ok_other(1), rule slot_ok_evict) (use ok l Some in \<open>simp_all add: cache_ok_slots h_def\<close>)
      have "t' = t\<lparr>pt_heap := (h @ [n])[p := close_slot ((h ! p)\<lparr>cs_evicted := True\<rparr>)], pt_snapshot := Some (length h)\<rparr>"
        using miss(4) Some l evict_slot [of p "t\<lparr>pt_heap := h @ [n], pt_snapshot := Some (length h)\<rparr>"]
        by (simp add: nth_append)
      then show ?thesis using ok miss(1,2) new other evicted l
        by (auto simp: cache_ok_slots h_def nth_append nth_list_update less_Suc_eq)
    qed
  qed
qed

lemma cache_ok_step: "transport_step s s' \<Longrightarrow> cache_ok s \<Longrightarrow> cache_ok s'"
proof (induction rule: transport_step.induct)
  case (Acquired opener i trm t a t' held)
  then show ?case using cache_ok_acquire [of t held opener i trm "Inr a" t'] by simp
next
  case (NotAcquired opener i trm t f t' held)
  then show ?case using cache_ok_acquire [of t held opener i trm "Inl f" t'] by simp
next
  case (Released a held t)
  then show ?case by (simp add: cache_ok_release)
next
  case (Closed t held)
  then show ?case by (rule cache_ok_close)
qed

lemma cache_ok_reachable: "transport_step\<^sup>*\<^sup>* s s' \<Longrightarrow> cache_ok s \<Longrightarrow> cache_ok s'"
  by (induction rule: rtranclp_induct) (auto dest: cache_ok_step)

lemma cache_ok_new: "cache_ok (newPeerTransport cfg, [])"
  by (simp add: cache_ok_slots newPeerTransport_def)

text \<open>
  C33: In every sequence of acquisitions, releases and closings of the transport, no Snapshot file is
  closed while a sender still reads from it, none is closed twice, and once the transport is closed and
  every sender is done, every file that was opened has been closed.
\<close>

theorem snapshot_files_closed_once:
  assumes "transport_step\<^sup>*\<^sup>* (newPeerTransport cfg, []) (t, held)"
  shows "list_all (\<lambda>a. a < length (pt_heap t) \<and> cs_closes (pt_heap t ! a) = 0) held
    \<and> list_all (\<lambda>c. cs_closes c \<le> 1) (pt_heap t)
    \<and> (pt_snapshotClosed t \<and> held = [] \<longrightarrow> list_all (\<lambda>c. cs_closes c = 1) (pt_heap t))"
proof -
  have ok: "cache_ok (t, held)" using cache_ok_reachable [OF assms cache_ok_new] .
  then have slots: "slot_ok held (pt_snapshot t) a (pt_heap t ! a)" if "a < length (pt_heap t)" for a
    using that by (simp add: cache_ok_slots)
  have "cs_closes (pt_heap t ! a) = 0" if "a \<in> set held" for a
    using that ok slots [of a] count_list_pos [OF that] by (auto simp: cache_ok_slots slot_ok_def)
  moreover have "cs_closes (pt_heap t ! a) \<le> 1" if "a < length (pt_heap t)" for a
    using slots [OF that] by (simp add: slot_ok_def)
  moreover have "cs_closes (pt_heap t ! a) = 1" if "a < length (pt_heap t)" "pt_snapshotClosed t" "held = []" for a
    using slots [OF that(1)] ok that by (simp add: cache_ok_slots slot_ok_def)
  moreover have "\<forall>a \<in> set held. a < length (pt_heap t)" using ok by (simp add: cache_ok_slots)
  ultimately show ?thesis unfolding list_all_iff by (simp add: all_set_conv_all_nth)
qed

section \<open>Samples\<close>

definition sample_peer :: Config where
  "sample_peer = sample_config\<lparr>cfg_Node := \<lparr>ns_ID = ''n2'', ns_DataDir = ''d'', ns_MetricsAddress = []\<rparr>\<rparr>"

lemma sample_configs [simp]:
  "cfg_ClusterID sample_config = ''c''" "cfg_ClusterID sample_peer = ''c''"
  "ns_ID (cfg_Node sample_config) = ''n1''" "ns_ID (cfg_Node sample_peer) = ''n2''"
  "''n1'' |\<in>| fmdom (cfg_Members sample_config)" "''n2'' |\<in>| fmdom (cfg_Members sample_config)"
  "cfg_Members sample_peer = cfg_Members sample_config" "limit32 sample_peer = limit32 sample_config"
  by (simp_all add: sample_config_def sample_peer_def limit32_def fmdom_fmap_of_list)

definition sample_vote_request :: VoteRequest where
  "sample_vote_request = \<lparr>vq_From = ''n1'', vq_Term = 3, vq_LastLogIndex = 5, vq_LastLogTerm = 2\<rparr>"

theorem message_arrives_as_sent_witness:
  "snd (peer_Send sample_peer (Ready ()) (snd (the (encodeRaftAction sample_config (SendVoteRequest ''n2'' sample_vote_request))))) =
    Some (EvVoteRequest sample_vote_request)"
  using message_arrives_as_sent [of sample_config "SendVoteRequest ''n2'' sample_vote_request" "''n2''" _ sample_peer]
  by (simp add: sample_vote_request_def)

definition sample_env :: peer_env where
  "sample_env = \<lparr>en_open = (\<lambda>i t. Inr \<lparr>h_file = [], h_length = 0, h_checksum = 0\<rparr>), en_newClient = True,
     en_handshake = Handshake sample_peer, en_send = (\<lambda>_. None)\<rparr>"

theorem connection_needs_agreement_witness:
  "peer_client sample_env ''n2'' (newPeerTransport sample_config) =
    (None, (newPeerTransport sample_config)\<lparr>pt_clients := [''n2'']\<rparr>)"
  using connection_needs_agreement [of sample_env "''n2''" "newPeerTransport sample_config" sample_peer]
  by (simp add: sample_env_def newPeerTransport_def)

text \<open>A Snapshot is acquired, the transport is closed, the sender finishes.\<close>

definition sample_acquired :: peerTransport where
  "sample_acquired = snd (acquireSnapshot (en_open sample_env) 2 1 (newPeerTransport sample_config))"

theorem snapshot_files_closed_once_witness:
  "list_all (\<lambda>c. cs_closes c = 1) (pt_heap (releaseSnapshot 0 (peer_close sample_acquired)))"
proof -
  have "acquireSnapshot (en_open sample_env) 2 1 (newPeerTransport sample_config) = (Inr 0, sample_acquired)"
    by (simp add: sample_acquired_def acquireSnapshot_def newPeerTransport_def sample_env_def)
  then have "transport_step (newPeerTransport sample_config, []) (sample_acquired, [0])" by (rule Acquired)
  moreover have "transport_step (sample_acquired, [0]) (peer_close sample_acquired, [0])" by (rule Closed)
  moreover have "transport_step (peer_close sample_acquired, [0]) (releaseSnapshot 0 (peer_close sample_acquired), remove1 0 [0])"
    by (rule Released) simp
  ultimately have run: "transport_step\<^sup>*\<^sup>* (newPeerTransport sample_config, []) (releaseSnapshot 0 (peer_close sample_acquired), [])"
    by (simp add: converse_rtranclp_into_rtranclp)
  have "pt_snapshotClosed (releaseSnapshot 0 (peer_close sample_acquired))"
    by (simp add: sample_acquired_def acquireSnapshot_def newPeerTransport_def sample_env_def peer_close_def evict_def
        releaseSnapshot_def closeReader_def Let_def)
  then show ?thesis using snapshot_files_closed_once [OF run] by simp
qed

end
