(* ===== verification/Raft_Rest.thy ===== *)
theory Raft_Rest
  imports Raft_Votes Raft_Log
begin

text \<open>
  What a node still owes to stable storage. A runtime that writes every persistence request before it
  hands the next event to the node leaves the node idle between events: nothing is pending and the
  durable copies equal the values. The lemmas here give, for an idle node, the requests of every event
  in the order in which they complete (Hard State, then log, then commit index), and that completing
  them makes the node idle again.
\<close>

section \<open>Persistence requests\<close>

fun storing :: "Action \<Rightarrow> bool" where
  "storing (PersistHardState i t v) = True"
| "storing (PersistLogEntries i t es) = True"
| "storing (PersistCommitIndex i c) = True"
| "storing (PersistSnapshot i r t b) = True"
| "storing a = False"

abbreviation calm :: "Action list \<Rightarrow> bool" where
  "calm \<equiv> list_all (\<lambda>a. \<not> storing a)"

fun completion :: "Action \<Rightarrow> Event" where
  "completion (PersistHardState i t v) = HardStatePersisted i"
| "completion (PersistLogEntries i t es) = LogEntriesPersisted i"
| "completion (PersistCommitIndex i c) = CommitIndexPersisted i"
| "completion (PersistSnapshot i r t b) = SnapshotPersisted i"
| "completion a = RecoverCommitted"

text \<open>How many requests an action can lead to, itself included.\<close>

fun work :: "Action \<Rightarrow> nat" where
  "work (PersistHardState i t v) = 4"
| "work (PersistLogEntries i t es) = 2"
| "work (PersistCommitIndex i c) = 1"
| "work (PersistSnapshot i r t b) = 1"
| "work a = 0"

definition total_work :: "Action list \<Rightarrow> nat" where
  "total_work acts = sum_list (map work acts)"

lemma total_work_simps [simp]:
  "total_work [] = 0" "total_work (a # acts) = work a + total_work acts" "total_work (as @ bs) = total_work as + total_work bs"
  by (simp_all add: total_work_def)

lemma work_zero: "work a = 0 \<longleftrightarrow> \<not> storing a"
  by (cases a) simp_all

lemma calm_work [simp]: "calm acts \<Longrightarrow> total_work acts = 0"
  by (induction acts) (simp_all add: work_zero)

lemma soft_calm: "soft_act a \<Longrightarrow> \<not> storing a"
  by (cases a) simp_all

lemma soft_calm_all [simp]: "list_all soft_act acts \<Longrightarrow> calm acts"
  by (auto simp: list_all_iff soft_calm)

section \<open>The durable image\<close>

record image =
  im_Term :: u64
  im_VotedFor :: NodeID
  im_Base :: u64
  im_Log :: "LogEntry list"
  im_Commit :: u64

definition image_of :: "Node \<Rightarrow> image" where
  "image_of n = \<lparr>im_Term = n_term n, im_VotedFor = n_votedFor n, im_Base = n_logBaseIndex n, im_Log = n_log n,
     im_Commit = n_commitIndex n\<rparr>"

lemma image_of_fields [simp]:
  "im_Term (image_of n) = n_term n" "im_VotedFor (image_of n) = n_votedFor n" "im_Base (image_of n) = n_logBaseIndex n"
  "im_Log (image_of n) = n_log n" "im_Commit (image_of n) = n_commitIndex n"
  by (simp_all add: image_of_def)

fun written :: "Action \<Rightarrow> image \<Rightarrow> image" where
  "written (PersistHardState i t v) im = im\<lparr>im_Term := t, im_VotedFor := v\<rparr>"
| "written (PersistLogEntries i tr es) im =
     im\<lparr>im_Log := (if tr = 0 then im_Log im else take (tr - im_Base im - 1) (im_Log im)) @ es\<rparr>"
| "written (PersistCommitIndex i c) im = im\<lparr>im_Commit := c\<rparr>"
| "written a im = im"

definition im_last :: "image \<Rightarrow> u64" where
  "im_last im = im_Base im + length (im_Log im)"

text \<open>The order in which the durable values move.\<close>

fun writable :: "Action \<Rightarrow> image \<Rightarrow> bool" where
  "writable (PersistHardState i t v) im \<longleftrightarrow> im_Term im < t \<or> im_Term im = t \<and> (im_VotedFor im = [] \<or> im_VotedFor im = v)"
| "writable (PersistLogEntries i tr es) im \<longleftrightarrow> es \<noteq> [] \<and>
     (if tr = 0 then contiguous (im_last im) es else im_Commit im < tr \<and> tr \<le> im_last im \<and> contiguous (tr - 1) es)"
| "writable (PersistCommitIndex i c) im \<longleftrightarrow> im_Commit im < c \<and> c \<le> im_last im"
| "writable a im \<longleftrightarrow> False"

declare written.simps [simp del] writable.simps [simp del]

lemmas image_rules = written.simps writable.simps

section \<open>Idle nodes\<close>

definition idle_hard :: "Node \<Rightarrow> bool" where
  "idle_hard n \<longleftrightarrow> n_pendingHardState n = Map.empty \<and> n_durableTerm n = n_term n \<and> n_durableVotedFor n = n_votedFor n"

definition idle_log :: "Node \<Rightarrow> bool" where
  "idle_log n \<longleftrightarrow> n_pendingLog n = Map.empty \<and> n_durableLogIndex n = n_lastLogIndex n"

definition idle_commit :: "Node \<Rightarrow> bool" where
  "idle_commit n \<longleftrightarrow> n_pendingCommit n = Map.empty \<and> n_durableCommitIndex n = n_commitIndex n
     \<and> n_lastApplied n = n_commitIndex n \<and> n_pendingSnapshot n = Map.empty"

definition idle :: "Node \<Rightarrow> bool" where
  "idle n \<longleftrightarrow> idle_hard n \<and> idle_log n \<and> idle_commit n"

lemmas idle_defs = idle_def idle_hard_def idle_log_def idle_commit_def image_of_def

lemma idle_core:
  assumes "core n = core m"
  shows "idle_hard n = idle_hard m" "idle_log n = idle_log m" "idle_commit n = idle_commit m" "image_of n = image_of m"
  by (simp_all add: idle_defs core_fields [OF assms])

definition hard_done :: "Node \<Rightarrow> Node" where
  "hard_done n = n\<lparr>n_pendingHardState := Map.empty, n_durableTerm := n_term n, n_durableVotedFor := n_votedFor n\<rparr>"

text \<open>
  \<open>owes im n acts\<close>: storage holds \<open>im\<close>, the node is \<open>n\<close> and \<open>acts\<close> are the actions still to perform. At
  most one of them is a request; performing it, and the requests that its completion leads to, brings
  storage to the image of the node.
\<close>

inductive owes :: "image \<Rightarrow> Node \<Rightarrow> Action list \<Rightarrow> bool" where
  nothing: "calm acts \<Longrightarrow> idle n \<Longrightarrow> owes (image_of n) n acts"
| log: "calm as \<Longrightarrow> calm bs \<Longrightarrow> idle_hard n \<Longrightarrow> idle_commit n \<Longrightarrow> n_pendingLog n = [i \<mapsto> p]
    \<Longrightarrow> pl_lastIndex p = n_lastLogIndex n \<Longrightarrow> n_durableLogIndex n \<le> n_lastLogIndex n
    \<Longrightarrow> writable (PersistLogEntries i tr es) im \<Longrightarrow> written (PersistLogEntries i tr es) im = image_of n
    \<Longrightarrow> owes im n (as @ PersistLogEntries i tr es # bs)"
| commit: "calm as \<Longrightarrow> calm bs \<Longrightarrow> idle_hard n \<Longrightarrow> idle_log n \<Longrightarrow> n_pendingSnapshot n = Map.empty \<Longrightarrow> n_pendingCommit n = [i \<mapsto> p]
    \<Longrightarrow> pc_commitIndex p = n_commitIndex n \<Longrightarrow> calm (pc_after p) \<Longrightarrow> n_durableCommitIndex n = im_Commit im
    \<Longrightarrow> n_lastApplied n = im_Commit im
    \<Longrightarrow> writable (PersistCommitIndex i (n_commitIndex n)) im \<Longrightarrow> written (PersistCommitIndex i (n_commitIndex n)) im = image_of n
    \<Longrightarrow> owes im n (as @ PersistCommitIndex i (n_commitIndex n) # bs)"
| hard: "calm as \<Longrightarrow> calm bs \<Longrightarrow> n_pendingHardState n = [i \<mapsto> p] \<Longrightarrow> phs_term p = n_term n \<Longrightarrow> phs_votedFor p = n_votedFor n
    \<Longrightarrow> total_work (phs_after p) < 4 \<Longrightarrow> writable (PersistHardState i (n_term n) (n_votedFor n)) im
    \<Longrightarrow> owes (written (PersistHardState i (n_term n) (n_votedFor n)) im) (hard_done n) (phs_after p)
    \<Longrightarrow> owes im n (as @ PersistHardState i (n_term n) (n_votedFor n) # bs)"

lemma owes_nothing: "calm acts \<Longrightarrow> idle n \<Longrightarrow> im = image_of n \<Longrightarrow> owes im n acts"
  by (simp add: owes.nothing)

lemma owes_around: "owes im n acts \<Longrightarrow> calm as \<Longrightarrow> calm bs \<Longrightarrow> owes im n (as @ acts @ bs)"
proof (induction rule: owes.cases)
  case (log as' bs' n i p tr es im)
  then show ?case using owes.log [of "as @ as'" "bs' @ bs" n i p tr es im] by simp
next
  case (commit as' bs' n i p im)
  then show ?case using owes.commit [of "as @ as'" "bs' @ bs" n i p im] by simp
next
  case (hard as' bs' n i p im)
  then show ?case using owes.hard [of "as @ as'" "bs' @ bs" n i p im] by simp
qed (simp add: owes.nothing)

lemma owes_emit:
  assumes "owes im n (a # acts)" "\<not> storing a"
  shows "owes im n acts"
  using assms(1)
proof (cases rule: owes.cases)
  case nothing
  then show ?thesis by (simp add: owes.nothing)
qed (use assms(2) in \<open>auto simp: Cons_eq_append_conv intro: owes.log owes.commit owes.hard\<close>)

lemma hard_done_core: "core n = core m \<Longrightarrow> core (hard_done n) = core (hard_done m)"
  using core_fields [of n m] by (simp add: core_def hard_done_def)

lemma owes_same: "owes im n acts \<Longrightarrow> core n' = core n \<Longrightarrow> owes im n' acts"
proof (induction arbitrary: n' rule: owes.induct)
  case (nothing acts n)
  then show ?case using idle_core [of n' n] by (intro owes_nothing) (simp_all add: idle_def)
next
  case (log as bs n i p tr es im)
  note f = idle_core [OF log.prems] core_fields [OF log.prems]
  show ?case by (rule owes.log [where p = p]) (use log.hyps f in simp_all)
next
  case (commit as bs n i p im)
  note f = idle_core [OF commit.prems] core_fields [OF commit.prems]
  have "owes im n' (as @ PersistCommitIndex i (n_commitIndex n') # bs)"
    by (rule owes.commit [where p = p]) (use commit.hyps f in simp_all)
  then show ?case using f by simp
next
  case (hard as bs n i p im)
  note f = core_fields [OF hard.prems]
  have "owes im n' (as @ PersistHardState i (n_term n') (n_votedFor n') # bs)"
    by (rule owes.hard [where p = p]) (use hard.hyps hard.IH [OF hard_done_core [OF hard.prems]] f in simp_all)
  then show ?case using f by simp
qed

lemma owes_end: "owes im n [] \<Longrightarrow> idle n \<and> im = image_of n"
  by (auto elim: owes.cases)

section \<open>Completing the requests\<close>

lemma applyThrough_calm:
  assumes "node_wf n" "applyThrough n i = Some (n', acts)" "i \<le> n_lastLogIndex n"
  shows "core n' = core (n\<lparr>n_lastApplied := max (n_lastApplied n) i\<rparr>)" "calm acts"
proof -
  obtain rr R acts' where r: "applyThrough n i = Some (n\<lparr>n_lastApplied := max (n_lastApplied n) i, n_readReady := rr, n_pendingReads := R\<rparr>, acts')"
    "set acts' \<subseteq> range ApplyEntry \<union> {BecameReadReady (n_term n)} \<union> {ReadConfirmed i c | i c. True}"
    using applyThrough_total [of n i] assms(1,3) by (auto simp: node_wf_def commit_wf_def)
  then show "core n' = core (n\<lparr>n_lastApplied := max (n_lastApplied n) i\<rparr>)" using assms(2) by simp
  have "\<not> storing a" if "a \<in> set acts'" for a using that r(2) by auto
  then show "calm acts" using r(1) assms(2) by (simp add: list_all_iff)
qed

lemma owes_core: "core n = core m \<Longrightarrow> calm acts \<Longrightarrow> idle m \<Longrightarrow> owes (image_of m) n acts"
  using idle_core [of n m] by (intro owes_nothing) (simp_all add: idle_def)

text \<open>What the completions of requests leave as it is.\<close>

definition same_content :: "Node \<Rightarrow> Node \<Rightarrow> bool" where
  "same_content n m \<longleftrightarrow> n_log n = n_log m \<and> n_term n = n_term m \<and> n_votedFor n = n_votedFor m"

lemma same_content_core: "core n = core m \<Longrightarrow> same_content n m"
  by (simp add: same_content_def core_fields [of n m])

lemma same_content_trans: "same_content a b \<Longrightarrow> same_content b c \<Longrightarrow> same_content a c"
  by (simp add: same_content_def)

text \<open>
  The log and commit requests do not depend on the Hard State: \<open>hushed\<close> is the node once its Hard State
  has been written.
\<close>

definition hushed :: "u64 \<Rightarrow> Node \<Rightarrow> Node" where
  "hushed x n = hard_done (n\<lparr>n_nextHardStatePersistence := x\<rparr>)"

lemma hushed_fields [simp]:
  "idle_hard (hushed x n)" "idle_log (hushed x n) = idle_log n" "idle_commit (hushed x n) = idle_commit n"
  "image_of (hushed x n) = image_of n" "n_pendingLog (hushed x n) = n_pendingLog n" "n_pendingCommit (hushed x n) = n_pendingCommit n"
  "n_pendingSnapshot (hushed x n) = n_pendingSnapshot n" "n_lastLogIndex (hushed x n) = n_lastLogIndex n"
  "n_durableLogIndex (hushed x n) = n_durableLogIndex n" "n_commitIndex (hushed x n) = n_commitIndex n"
  "n_durableCommitIndex (hushed x n) = n_durableCommitIndex n" "n_lastApplied (hushed x n) = n_lastApplied n"
  "n_log (hushed x n) = n_log n" "n_logBaseIndex (hushed x n) = n_logBaseIndex n" "n_term (hushed x n) = n_term n"
  "n_votedFor (hushed x n) = n_votedFor n"
  by (simp_all add: hushed_def hard_done_def idle_defs)

lemma hushed_idle: "idle_hard n \<Longrightarrow> hushed (n_nextHardStatePersistence n) n = n"
  by (simp add: hushed_def hard_done_def idle_hard_def)

lemma idle_hushed: "idle_log n \<Longrightarrow> idle_commit n \<Longrightarrow> idle (hushed x n)"
  by (simp add: idle_def)

lemma owes_core_hushed: "core n = core m \<Longrightarrow> calm acts \<Longrightarrow> idle_log m \<Longrightarrow> idle_commit m \<Longrightarrow> owes (image_of m) (hushed x n) acts"
  using idle_core [of n m] by (intro owes_nothing) (simp_all add: idle_def)

lemma owes_persistCommit:
  assumes "idle_log n" "idle_commit n" "n_commitIndex n < c" "c \<le> n_lastLogIndex n" "log_wf n" "calm after"
    "core m = core (n\<lparr>n_commitIndex := c\<rparr>)" "persistCommit m after = (n', acts)"
  shows "owes (image_of n) (hushed x n') acts \<and> total_work acts \<le> 1 \<and> same_content n' n"
proof -
  let ?i = "add64 (n_nextCommitPersistence m) 1" and ?p = "\<lparr>pc_commitIndex = c, pc_after = after\<rparr>"
  have m: "n_commitIndex m = c" "idle_log m" "n_pendingSnapshot m = Map.empty" "n_pendingCommit m = Map.empty"
    "n_durableCommitIndex m = n_commitIndex n" "n_lastApplied m = n_commitIndex n" "image_of m = (image_of n)\<lparr>im_Commit := c\<rparr>"
    using core_fields [OF assms(7)] assms(1,2) by (simp_all add: idle_defs)
  have n': "acts = [] @ PersistCommitIndex ?i (n_commitIndex (hushed x n')) # []"
    "n' = m\<lparr>n_nextCommitPersistence := ?i, n_pendingCommit := [?i \<mapsto> ?p]\<rparr>"
    using assms(8) m by (auto simp: persistCommit_def Let_def)
  have "idle_log n'" "n_commitIndex n' = c" "image_of n' = (image_of n)\<lparr>im_Commit := c\<rparr>"
    using m n'(2) by (auto simp: idle_defs)
  moreover have "writable (PersistCommitIndex ?i c) (image_of n)" "written (PersistCommitIndex ?i c) (image_of n) = (image_of n)\<lparr>im_Commit := c\<rparr>"
    using assms(3-5) by (simp_all add: image_rules image_of_def im_last_def log_wf_def)
  moreover have "same_content n' n" using core_fields [OF assms(7)] by (simp add: n'(2) same_content_def)
  ultimately show ?thesis using m n' assms(6) owes.commit [of "[]" "[]" "hushed x n'" ?i ?p "image_of n"]
    by simp
qed

lemma advanceFollowerCommit_hushed:
  assumes "idle_log n" "idle_commit n" "node_wf n" "calm after" "advanceFollowerCommit n c after = Some (n', acts)"
  shows "owes (image_of n) (hushed x n') acts \<and> total_work acts \<le> 1 \<and> same_content n' n"
proof (cases "min c (n_lastLogIndex n) > n_commitIndex n")
  case True
  then have "persistCommit (n\<lparr>n_commitIndex := min c (n_lastLogIndex n)\<rparr>) after = (n', acts)"
    using assms(5) by (simp add: advanceFollowerCommit_def Let_def)
  then show ?thesis using owes_persistCommit [OF assms(1,2) True _ _ assms(4)] assms(3) by (auto simp: node_wf_def)
next
  case False
  then obtain rest where r: "applyThrough n (n_durableCommitIndex n) = Some (n', rest)" "acts = rest @ after"
    using assms(5) by (auto simp: advanceFollowerCommit_def Let_def split: bind_splits)
  have c: "n_lastApplied n = n_durableCommitIndex n" using assms(2) by (simp add: idle_defs)
  have "n_durableCommitIndex n \<le> n_lastLogIndex n" using assms(3) by (auto simp: node_wf_def commit_wf_def)
  note a = applyThrough_calm [OF assms(3) r(1) this]
  have "core n' = core n" using a(1) c by (simp add: core_def)
  then show ?thesis using owes_core_hushed [of n' n acts] same_content_core a(2) r(2) assms(1,2,4) by simp
qed

lemma advanceFollowerCommit_owes:
  assumes "idle n" "node_wf n" "calm after" "list_all quiet after" "advanceFollowerCommit n c after = Some (n', acts)"
  shows "owes (image_of n) n' acts \<and> total_work acts \<le> 1 \<and> same_content n' n"
proof -
  have "commit_quiet n" using assms(1) by (simp add: commit_quiet_def idle_defs)
  then have "election_view n' = election_view n" using advanceFollowerCommit_keeps [OF assms(4), of n c] assms(5) by simp
  then have "hushed (n_nextHardStatePersistence n') n' = n'"
    using assms(1) by (intro hushed_idle) (simp add: idle_defs election_view_def)
  then show ?thesis using advanceFollowerCommit_hushed [OF _ _ assms(2,3,5), of "n_nextHardStatePersistence n'"] assms(1)
    by (simp add: idle_def)
qed

lemma logEntriesPersisted_owes:
  assumes n: "idle_hard n" "idle_commit n" "n_pendingLog n = [i \<mapsto> p]" "pl_lastIndex p = n_lastLogIndex n"
    "n_durableLogIndex n \<le> n_lastLogIndex n" and wf: "node_wf n" and step: "logEntriesPersisted n i = Some (n', acts)"
  shows "owes (image_of n) n' acts \<and> total_work acts \<le> 1 \<and> same_content n' n"
proof -
  define m where "m = n\<lparr>n_pendingLog := Map.empty, n_durableLogIndex := n_lastLogIndex n\<rparr>"
  have m: "idle m" "image_of m = image_of n" "node_wf m" "same_content m n"
    using n wf by (simp_all add: m_def idle_defs wf_defs same_content_def)
  have empty: "(n_pendingLog n)(i := None) = Map.empty" using n(3) by simp
  have "Some (n', acts) = (case pl_purpose p of
      persistLeaderEntry \<Rightarrow> if n_role m \<noteq> Leader \<or> n_term m \<noteq> pl_term p \<or> n_lastLogIndex m < pl_lastIndex p then Some (m, [])
        else sendAppendEntries m 0
    | persistFollowerAppend \<Rightarrow> if n_term m \<noteq> pl_term p \<or> n_role m \<noteq> Follower \<or> n_leaderID m \<noteq> pl_leader p then Some (m, [])
        else advanceFollowerCommit m (pl_leaderCommit p)
          (appendEntriesResponse m (pl_leader p) (pl_requestID p) True (pl_lastIndex p) 0 0 (pl_readID p)))"
    using step n(3-5) empty unfolding logEntriesPersisted_def m_def by (simp add: Let_def max_def)
  then consider "n' = m" "acts = []" | "sendAppendEntries m 0 = Some (n', acts)"
    | "advanceFollowerCommit m (pl_leaderCommit p)
          (appendEntriesResponse m (pl_leader p) (pl_requestID p) True (pl_lastIndex p) 0 0 (pl_readID p)) = Some (n', acts)"
    by (auto split: logPersistencePurpose.splits if_splits)
  then show ?thesis
  proof cases
    case 1
    then show ?thesis using m by (simp add: owes_nothing)
  next
    case 2
    then have "core n' = core m" "calm acts" using sendAppendEntries_core [of m 0] by (auto simp: keeps_core_def)
    then show ?thesis using owes_core [of n' m acts] m same_content_trans [OF same_content_core m(4)] by simp
  next
    case 3
    then show ?thesis using advanceFollowerCommit_owes [OF m(1,3) _ _ 3] m(2) same_content_trans [OF _ m(4)]
      by (simp add: appendEntriesResponse_def)
  qed
qed

lemma commitIndexPersisted_owes:
  assumes n: "idle_hard n" "idle_log n" "n_pendingSnapshot n = Map.empty" "n_pendingCommit n = [i \<mapsto> p]"
    "pc_commitIndex p = n_commitIndex n" "calm (pc_after p)" "n_durableCommitIndex n \<le> n_commitIndex n"
    and wf: "node_wf n" and step: "commitIndexPersisted n i = Some (n', acts)"
  shows "owes (image_of n) n' acts \<and> total_work acts = 0 \<and> same_content n' n"
proof -
  define m where "m = n\<lparr>n_pendingCommit := Map.empty, n_durableCommitIndex := n_commitIndex n\<rparr>"
  have empty: "(n_pendingCommit n)(i := None) = Map.empty" using n(4) by simp
  have wfm: "node_wf m" using wf by (auto simp: m_def wf_defs)
  have le: "n_commitIndex n \<le> n_lastLogIndex m" "n_lastApplied m \<le> n_commitIndex n" using wf by (auto simp: m_def wf_defs)
  obtain as where r: "applyThrough m (n_commitIndex n) = Some (n', as)" "acts = as @ pc_after p"
    using step n(4,5,7) empty unfolding commitIndexPersisted_def m_def by (auto simp: Let_def max_def split: bind_splits)
  note a = applyThrough_calm [OF wfm r(1) le(1)]
  let ?k = "m\<lparr>n_lastApplied := n_commitIndex n\<rparr>"
  have "core n' = core ?k" using a(1) le(2) by (simp add: max_def)
  moreover have "idle ?k" "image_of ?k = image_of n" "same_content ?k n" using n by (simp_all add: m_def idle_defs same_content_def)
  ultimately show ?thesis using owes_core [of n' ?k acts] a(2) r(2) n(6) same_content_trans [OF same_content_core, of n' ?k n] by simp
qed

text \<open>Performing the request at the head of what a node owes.\<close>

lemma owes_store:
  assumes "owes im n (a # acts)" "storing a" "node_wf n"
  shows "writable a im \<and>
    (\<forall>n' new. Step n (completion a) = Some (n', new) \<longrightarrow> owes (written a im) n' (acts @ new) \<and> total_work new < work a
      \<and> same_content n' n)"
  using assms(1)
proof (cases rule: owes.cases)
  case nothing
  then show ?thesis using assms(2) by simp
next
  case (log as bs i p tr es)
  then have a: "a = PersistLogEntries i tr es" "acts = bs" using assms(2) by (auto simp: Cons_eq_append_conv)
  have "owes (written a im) n' (acts @ new) \<and> total_work new < 2 \<and> same_content n' n" if "logEntriesPersisted n i = Some (n', new)" for n' new
    using logEntriesPersisted_owes [of n i p n' new] assms(3) that owes_around [of "image_of n" n' new bs "[]"] log a by auto
  then show ?thesis using log a by simp
next
  case (commit as bs i p)
  then have a: "a = PersistCommitIndex i (n_commitIndex n)" "acts = bs" using assms(2) by (auto simp: Cons_eq_append_conv)
  have le: "n_durableCommitIndex n \<le> n_commitIndex n" using assms(3) by (auto simp: wf_defs)
  have "owes (written a im) n' (acts @ new) \<and> total_work new < 1 \<and> same_content n' n" if "commitIndexPersisted n i = Some (n', new)" for n' new
    using commitIndexPersisted_owes [of n i p n' new] le assms(3) that owes_around [of "image_of n" n' new bs "[]"] commit a by auto
  then show ?thesis using commit a by simp
next
  case (hard as bs i p)
  then have a: "a = PersistHardState i (n_term n) (n_votedFor n)" "acts = bs" using assms(2) by (auto simp: Cons_eq_append_conv)
  have "hardStatePersisted n i = (hard_done n, phs_after p)"
    using hard by (simp add: hardStatePersisted_def hard_done_def Let_def)
  moreover have "same_content (hard_done n) n" by (simp add: same_content_def hard_done_def)
  ultimately show ?thesis using owes_around [of _ "hard_done n" "phs_after p" bs "[]"] hard a by auto
qed

section \<open>Events at an idle node\<close>

lemma owes_soft: "keeps_core n r \<Longrightarrow> idle n \<Longrightarrow> r = Some (n', acts) \<Longrightarrow> owes (image_of n) n' acts \<and> total_work acts = 0"
  by (auto simp: keeps_core_def intro: owes_core)

text \<open>A Hard State request of a node that is idle otherwise and has done \<open>inner\<close> on top of it.\<close>

lemma owes_hard:
  assumes "persistHardState m after = (n', acts)" "n_pendingHardState m = Map.empty" "total_work after < 4"
    "writable (PersistHardState 0 (n_term m) (n_votedFor m)) im"
    "owes (im\<lparr>im_Term := n_term m, im_VotedFor := n_votedFor m\<rparr>) (hushed (add64 (n_nextHardStatePersistence m) 1) m) after"
  shows "owes im n' acts"
proof -
  let ?i = "add64 (n_nextHardStatePersistence m) 1"
  let ?p = "\<lparr>phs_term = n_term m, phs_votedFor = n_votedFor m, phs_after = after\<rparr>"
  have n': "n' = m\<lparr>n_nextHardStatePersistence := ?i, n_pendingHardState := [?i \<mapsto> ?p]\<rparr>"
    "acts = [] @ PersistHardState ?i (n_term n') (n_votedFor n') # []"
    using assms(1,2) by (auto simp: persistHardState_def Let_def)
  have "hard_done n' = hushed ?i m" by (simp add: n'(1) hard_done_def hushed_def)
  then show ?thesis using assms n' owes.hard [of "[]" "[]" n' ?i ?p im] by (simp add: image_rules)
qed

text \<open>The common case: nothing but the Hard State has changed.\<close>

lemma owes_hard_only:
  assumes "idle n" "persistHardState m after = (n', acts)" "calm after"
    "idle_log m" "idle_commit m" "n_pendingHardState m = Map.empty" "n_log m = n_log n" "n_logBaseIndex m = n_logBaseIndex n"
    "n_commitIndex m = n_commitIndex n"
    "n_term n < n_term m \<or> n_term n = n_term m \<and> (n_votedFor n = [] \<or> n_votedFor n = n_votedFor m)"
  shows "owes (image_of n) n' acts"
proof (rule owes_hard [OF assms(2,6)])
  let ?m = "hushed (add64 (n_nextHardStatePersistence m) 1) m"
  show "writable (PersistHardState 0 (n_term m) (n_votedFor m)) (image_of n)" using assms(10) by (simp add: image_rules image_of_def)
  have "idle ?m" using assms(4,5) by (rule idle_hushed)
  moreover have "image_of ?m = (image_of n)\<lparr>im_Term := n_term m, im_VotedFor := n_votedFor m\<rparr>"
    using assms(7-9) by (simp add: image_of_def)
  ultimately show "owes ((image_of n)\<lparr>im_Term := n_term m, im_VotedFor := n_votedFor m\<rparr>) ?m after"
    using assms(3) by (simp add: owes_nothing)
qed (use assms(3) in simp)

lemma becomeFollower_owes:
  assumes "idle n" "n_term n < t" "persistHardState (becomeFollower n t l) after = (n', acts)" "calm after"
  shows "owes (image_of n) n' acts"
  using assms by (intro owes_hard_only [OF assms(1,3,4)]) (simp_all add: becomeFollower_def idle_defs)

lemma startElection_owes:
  assumes "idle n" "n_term n + 1 < W64" "core m = core (n\<lparr>n_role := r\<rparr>)" "startElection m = (n', acts)"
  shows "owes (image_of n) n' acts"
proof -
  note m = core_fields [OF assms(3)]
  define k where "k = m\<lparr>n_role := Candidate, n_term := add64 (n_term m) 1, n_votedFor := n_id m,
               n_leaderID := [], n_readReady := False, n_votes := {n_id m}\<rparr>"
  obtain after where "persistHardState k after = (n', acts)" "calm after"
    using assms(4) unfolding startElection_def Let_def k_def by (auto simp: list_all_iff)
  then show ?thesis using assms(1,2) m by (intro owes_hard_only [of n k]) (simp_all add: k_def idle_defs)
qed

lemma startPreVote_owes:
  assumes "idle n" "n_term n + 1 < W64" "startPreVote n = (n', acts)"
  shows "owes (image_of n) n' acts"
proof -
  define k where "k = n\<lparr>n_recentLeaderContact := False, n_leaderID := [], n_role := PreCandidate, n_preVotes := {n_id n}\<rparr>"
  define as where "as = ResetElectionTimer # map (\<lambda>peer. SendPreVoteRequest peer
             \<lparr>pvq_From = n_id k, pvq_Term = add64 (n_term k) 1, pvq_LastLogIndex = n_lastLogIndex k,
              pvq_LastLogTerm = n_lastLogTerm k\<rparr>) (n_peers k)"
  have as: "calm as" by (auto simp: as_def list_all_iff)
  have k: "core k = core (n\<lparr>n_role := PreCandidate\<rparr>)" "idle k" "image_of k = image_of n"
    using assms(1) by (simp_all add: k_def core_def idle_defs)
  consider "n' = n" "acts = []" | "n' = k" "acts = as" | bs where "startElection k = (n', bs)" "acts = as @ bs"
    using assms(3) unfolding startPreVote_def Let_def k_def [symmetric] as_def [symmetric]
    by (auto split: if_splits prod.splits)
  then show ?thesis
  proof cases
    case 1
    then show ?thesis using assms(1) by (simp add: owes_nothing)
  next
    case 2
    then show ?thesis using k as by (simp add: owes_nothing)
  next
    case 3
    then show ?thesis using owes_around [OF startElection_owes [OF assms(1,2) k(1) 3(1)] as, of "[]"] by simp
  qed
qed

lemma handlePreVoteResponse_owes:
  assumes "idle n" "n_term n + 1 < W64" "handlePreVoteResponse n m = (n', acts)"
  shows "owes (image_of n) n' acts"
proof -
  let ?k = "n\<lparr>n_preVotes := insert (pvr_From m) (n_preVotes n)\<rparr>"
  have "core ?k = core (n\<lparr>n_role := n_role n\<rparr>)" by (simp add: core_def)
  note e = startElection_owes [OF assms(1,2) this]
  have k: "owes (image_of n) ?k []" "owes (image_of n) n []" using assms(1) by (auto intro: owes_core)
  show ?thesis using assms e k becomeFollower_owes [OF assms(1)]
    unfolding handlePreVoteResponse_def Let_def by (auto split: if_splits)
qed

lemma handleVoteRequest_owes:
  assumes "idle n" "handleVoteRequest n m = (n', acts)"
  shows "owes (image_of n) n' acts"
proof -
  let ?t = "vq_Term m" and ?from = "vq_From m"
  define k where "k = (if n_term n < ?t then becomeFollower n ?t [] else n)"
  define grant where "grant \<longleftrightarrow> (n_votedFor k = [] \<or> n_votedFor k = ?from) \<and> candidateLogIsUpToDate k (vq_LastLogTerm m) (vq_LastLogIndex m)"
  define k2 where "k2 = (if grant then k\<lparr>n_votedFor := ?from\<rparr> else k)"
  have eq: "handleVoteRequest n m = (if ?t < n_term n then (n, voteResponse n ?from False)
      else if n_term n < ?t \<or> grant \<and> \<not> voteIsDurable k2 ?from then persistHardState k2 (voteResponse k2 ?from grant)
      else (k2, voteResponse k2 ?from grant))"
    unfolding handleVoteRequest_def Let_def k2_def grant_def k_def by (rule refl)
  have calm: "calm (voteResponse x y z)" for x y z by (simp add: voteResponse_def)
  have k2: "idle_log k2" "idle_commit k2" "n_pendingHardState k2 = Map.empty" "n_log k2 = n_log n" "n_logBaseIndex k2 = n_logBaseIndex n"
    "n_commitIndex k2 = n_commitIndex n"
    using assms(1) by (simp_all add: k2_def k_def becomeFollower_def idle_defs)
  consider (stale) "?t < n_term n" | (writes) "\<not> ?t < n_term n" "n_term n < ?t \<or> grant \<and> \<not> voteIsDurable k2 ?from"
    | (durable) "\<not> ?t < n_term n" "\<not> (n_term n < ?t \<or> grant \<and> \<not> voteIsDurable k2 ?from)"
    by blast
  then show ?thesis
  proof cases
    case stale
    then show ?thesis using assms eq calm by (auto simp: owes_nothing)
  next
    case writes
    have "n_term n < n_term k2 \<or> n_term n = n_term k2 \<and> (n_votedFor n = [] \<or> n_votedFor n = n_votedFor k2)"
    proof (cases "n_term n < ?t")
      case False
      then show ?thesis by (cases grant) (simp_all add: k2_def k_def grant_def)
    qed (simp add: k2_def k_def becomeFollower_def)
    moreover have "persistHardState k2 (voteResponse k2 ?from grant) = (n', acts)" using assms(2) eq writes by simp
    ultimately show ?thesis using owes_hard_only [OF assms(1) _ calm k2] by simp
  next
    case durable
    have k: "k = n" using durable by (simp add: k_def)
    have "idle k2 \<and> image_of k2 = image_of n"
    proof (cases grant)
      case True
      then have "voteIsDurable (n\<lparr>n_votedFor := ?from\<rparr>) ?from" using durable by (simp add: k2_def k)
      then show ?thesis using True assms(1) by (simp add: k2_def k voteIsDurable_def idle_defs)
    qed (use assms(1) in \<open>simp add: k2_def k\<close>)
    moreover have "n' = k2" "acts = voteResponse k2 ?from grant" using assms(2) eq durable by auto
    ultimately show ?thesis using calm by (simp add: owes_nothing)
  qed
qed

lemma checkQuorum_owes:
  assumes "idle n" "checkQuorum n = (n', acts)"
  shows "owes (image_of n) n' acts"
  using assms by (auto simp: checkQuorum_def becomeFollower_def idle_defs split: if_splits intro!: owes_nothing)

section \<open>Log requests\<close>

lemma request_number:
  "writable (PersistLogEntries i tr es) im = writable (PersistLogEntries 0 tr es) im"
  "written (PersistLogEntries i tr es) im = written (PersistLogEntries 0 tr es) im"
  by (simp_all add: image_rules)

lemma owes_persistLog:
  assumes "persistLog m es p = (n', acts)" "pl_lastIndex p = n_lastLogIndex m" "n_pendingLog m = Map.empty"
    "idle_commit m" "n_durableLogIndex m \<le> n_lastLogIndex m"
    "writable (PersistLogEntries 0 (pl_truncateFrom p) es) im" "written (PersistLogEntries 0 (pl_truncateFrom p) es) im = image_of m"
  shows "owes im (hushed x n') acts \<and> total_work acts = 2"
proof -
  let ?i = "add64 (n_nextLogPersistence m) 1"
  have n': "n' = m\<lparr>n_nextLogPersistence := ?i, n_pendingLog := [?i \<mapsto> p]\<rparr>" "acts = [] @ PersistLogEntries ?i (pl_truncateFrom p) es # []"
    using assms(1,3) by (auto simp: persistLog_def Let_def)
  have f: "idle_commit (hushed x n')" "n_pendingLog (hushed x n') = [?i \<mapsto> p]" "pl_lastIndex p = n_lastLogIndex (hushed x n')"
    "n_durableLogIndex (hushed x n') \<le> n_lastLogIndex (hushed x n')" "image_of (hushed x n') = image_of m"
    using assms(2,4,5) by (simp_all add: n'(1) idle_defs)
  have w: "writable (PersistLogEntries ?i (pl_truncateFrom p) es) im"
    "written (PersistLogEntries ?i (pl_truncateFrom p) es) im = image_of (hushed x n')"
    using assms(6,7) f(5) request_number [of ?i] by simp_all
  have "owes im (hushed x n') ([] @ PersistLogEntries ?i (pl_truncateFrom p) es # [])"
    by (rule owes.log [where p = p]) (use f w in simp_all)
  then show ?thesis using n' by simp
qed

text \<open>A Leader's own entry at the end of the log.\<close>

lemma owes_own_entry:
  assumes "idle n" "node_wf n" "n_lastLogIndex n + 2 < W64" "core m = core (n\<lparr>n_role := r, n_votes := vs\<rparr>)"
    "appendEntries m [e] = Some k" "le_Index e = add64 (n_lastLogIndex n) 1" "core k2 = core k"
    "persistLog k2 [e] (leaderPending k2 e) = (n', acts)"
  shows "owes (image_of n) n' acts"
proof -
  note m = core_fields [OF assms(4)]
  have idx: "le_Index e = n_lastLogIndex n + 1" using assms(3,6) by simp
  have k: "k = m\<lparr>n_log := n_log m @ [e], n_lastLogIndex := le_Index e, n_lastLogTerm := le_Term e\<rparr>"
    using assms(5) by (simp add: appendEntries_def Let_def)
  have k2: "n_pendingLog k2 = Map.empty" "idle_hard k2" "idle_commit k2" "n_durableLogIndex k2 \<le> n_lastLogIndex k2" "n_lastLogIndex k2 = le_Index e"
    "image_of k2 = (image_of n)\<lparr>im_Log := n_log n @ [e]\<rparr>"
    using idle_core [OF assms(7)] core_fields(6,8,20) [OF assms(7)] m assms(1) idx by (simp_all add: k idle_defs)
  have w: "writable (PersistLogEntries 0 0 [e]) (image_of n)" "written (PersistLogEntries 0 0 [e]) (image_of n) = image_of k2"
    using idx assms(2) k2(6) by (simp_all add: image_rules im_last_def wf_defs)
  have "owes (image_of n) (hushed (n_nextHardStatePersistence n') n') acts"
    using owes_persistLog [OF assms(8), of "image_of n"] k2 w by (simp add: leaderPending_def)
  moreover have "hushed (n_nextHardStatePersistence n') n' = n'"
    using assms(8) k2(2) by (intro hushed_idle) (auto simp: persistLog_def Let_def idle_hard_def)
  ultimately show ?thesis by simp
qed

lemma proposeEntry_owes:
  assumes "idle n" "node_wf n" "n_lastLogIndex n + 2 < W64" "le_Index e = add64 (n_lastLogIndex n) 1" "proposeEntry n i e = Some (n', acts)"
  shows "owes (image_of n) n' acts"
proof -
  obtain k rest where k: "appendEntries n [e] = Some k" "persistLog k [e] (leaderPending k e) = (n', rest)"
    "acts = ProposalAccepted i (le_Index e) # rest"
    using assms(5) by (auto simp: proposeEntry_def split: bind_splits prod.splits)
  have "core n = core (n\<lparr>n_role := n_role n, n_votes := n_votes n\<rparr>)" by simp
  then have "owes (image_of n) n' rest" using owes_own_entry [OF assms(1-3) _ k(1) assms(4) refl k(2)] by blast
  then show ?thesis using owes_around [of "image_of n" n' rest "[ProposalAccepted i (le_Index e)]" "[]"] k(3) by simp
qed

lemma propose_owes:
  assumes "idle n" "node_wf n" "n_lastLogIndex n + 2 < W64"
  shows "proposeSession n ps = Some (n', acts) \<Longrightarrow> owes (image_of n) n' acts"
    "proposeSet n pset = Some (n', acts) \<Longrightarrow> owes (image_of n) n' acts"
    "proposeDelete n pd = Some (n', acts) \<Longrightarrow> owes (image_of n) n' acts"
  using assms proposeEntry_owes [OF assms, rotated]
  by (auto simp: proposeSession_def proposeSet_def proposeDelete_def split: if_splits intro: owes_nothing)

lemma handleVoteResponse_owes:
  assumes "idle n" "node_wf n" "n_lastLogIndex n + 2 < W64" "handleVoteResponse n m = Some (n', acts)"
  shows "owes (image_of n) n' acts"
proof -
  let ?k = "n\<lparr>n_votes := insert (vr_From m) (n_votes n)\<rparr>"
  let ?l = "becomeLeader ?k"
  let ?e = "noOpEntry (add64 (n_lastLogIndex ?l) 1) (n_term ?l)"
  consider (later) "n_term n < vr_Term m" | (ignored) "\<not> n_term n < vr_Term m" "n_role n \<noteq> Candidate \<or> vr_Term m \<noteq> n_term n \<or> \<not> vr_Granted m"
    | (few) "\<not> n_term n < vr_Term m" "\<not> (n_role n \<noteq> Candidate \<or> vr_Term m \<noteq> n_term n \<or> \<not> vr_Granted m)" "card (n_votes ?k) < quorum ?k"
    | (won) "\<not> n_term n < vr_Term m" "\<not> (n_role n \<noteq> Candidate \<or> vr_Term m \<noteq> n_term n \<or> \<not> vr_Granted m)" "\<not> card (n_votes ?k) < quorum ?k"
    by blast
  then show ?thesis
  proof cases
    case later
    then show ?thesis using assms(4) becomeFollower_owes [OF assms(1) later, of "[]" "[]" n' acts] by (simp add: handleVoteResponse_def)
  next
    case ignored
    then show ?thesis using assms(1,4) by (auto simp: handleVoteResponse_def intro: owes_nothing)
  next
    case few
    have "idle ?k" "image_of ?k = image_of n" using assms(1) by (simp_all add: idle_defs)
    then show ?thesis using assms(4) few by (auto simp: handleVoteResponse_def Let_def intro: owes_nothing)
  next
    case won
    have c: "core ?l = core (n\<lparr>n_role := Leader, n_votes := insert (vr_From m) (n_votes n)\<rparr>)"
      by (simp add: becomeLeader_def core_def)
    obtain k where k: "appendEntries ?l [?e] = Some k" by (simp add: appendEntries_def Let_def)
    let ?k2 = "k\<lparr>n_nextIndex := (\<lambda>peer. if peer \<in> set (n_peers k) then Some (add64 (n_lastLogIndex k) 1) else None)\<rparr>"
    obtain rest where p: "persistLog ?k2 [?e] (leaderPending ?k2 ?e) = (n', rest)"
      "acts = [BecameLeader (n_term n'), ResetHeartbeatTimer, ResetCheckQuorumTimer] @ rest"
      using assms(4) won k unfolding handleVoteResponse_def Let_def by (auto simp: k split: prod.splits)
    have "le_Index ?e = add64 (n_lastLogIndex n) 1" by (simp add: noOpEntry_def becomeLeader_def)
    then have "owes (image_of n) n' rest" using owes_own_entry [OF assms(1-3) c k _ _ p(1)] by simp
    then show ?thesis
      using owes_around [of _ n' rest "[BecameLeader (n_term n'), ResetHeartbeatTimer, ResetCheckQuorumTimer]" "[]"] p(2) by simp
  qed
qed

section \<open>Messages of a Leader\<close>

lemma acceptAppend_owes:
  assumes "idle_log n" "idle_commit n" "node_wf n" "pick_new n (ae_Entries req) = (new, tr, True)"
    "contiguous (ae_PrevLogIndex req) (ae_Entries req)" "ae_PrevLogIndex req \<le> n_lastLogIndex n"
    "ae_PrevLogIndex req + length (ae_Entries req) + 1 < W64" "acceptAppend n req new tr = Some (n', acts)"
  shows "owes (image_of n) (hushed x n') acts \<and> total_work acts \<le> 2"
proof (cases "new = []")
  case True
  let ?after = "appendEntriesResponse n (ae_From req) (ae_RequestID req) True (n_lastLogIndex n) 0 0 (ae_ReadID req)"
  have after: "calm ?after" by (simp add: appendEntriesResponse_def)
  obtain rest where r: "advanceFollowerCommit n (ae_LeaderCommit req) ?after = Some (n', rest)" "acts = ResetElectionTimer # rest"
    using True assms(1,8) by (auto simp: acceptAppend_def idle_log_def split: if_splits bind_splits)
  then show ?thesis using advanceFollowerCommit_hushed [OF assms(1-3) after r(1), of x]
      owes_around [of "image_of n" "hushed x n'" rest "[ResetElectionTimer]" "[]"] by auto
next
  case False
  let ?b = "if tr = 0 then n_lastLogIndex n else tr - 1"
  note spec = pick_new_spec [OF assms(4-6)] False
  define n1 where "n1 = (if tr = 0 then n else n\<lparr>n_log := take (tr - n_logBaseIndex n - 1) (n_log n), n_lastLogIndex := tr - 1,
      n_lastLogTerm := term_at n (tr - 1), n_durableLogIndex := min (n_durableLogIndex n) (tr - 1)\<rparr>)"
  have n1: "(if tr \<noteq> 0 then truncateLog n tr else Some n) = Some n1"
    using truncateLog_wf [OF assms(3), of tr] spec by (auto simp: n1_def)
  have cont: "contiguous ?b new" using spec by auto
  have new: "le_Index (last new) = ?b + length new" using contiguous_last [OF cont False] by simp
  let ?p = "\<lambda>m. \<lparr>pl_purpose = persistFollowerAppend, pl_term = ae_Term req, pl_leader = ae_From req,
          pl_requestID = ae_RequestID req, pl_truncateFrom = tr,
          pl_lastIndex = n_lastLogIndex m, pl_leaderCommit = ae_LeaderCommit req,
          pl_readID = ae_ReadID req\<rparr>"
  define m where "m = n1\<lparr>n_log := n_log n1 @ new, n_lastLogIndex := le_Index (last new), n_lastLogTerm := le_Term (last new)\<rparr>"
  obtain rest where r: "persistLog m new (?p m) = (n', rest)" "acts = ResetElectionTimer # rest"
    using assms(8) n1 False by (auto simp: acceptAppend_def appendEntries_def m_def Let_def split: bind_splits prod.splits)
  have m: "n_pendingLog m = Map.empty" "idle_commit m" "n_durableLogIndex m \<le> n_lastLogIndex m"
    using assms(1,2) new False by (auto simp: m_def n1_def idle_defs)
  have "written (PersistLogEntries 0 tr new) (image_of n) = image_of m"
    by (simp add: image_rules m_def n1_def image_of_def)
  moreover have "writable (PersistLogEntries 0 tr new) (image_of n)"
    using spec cont assms(3) False by (auto simp: image_rules im_last_def wf_defs split: if_splits)
  ultimately have "owes (image_of n) (hushed x n') rest \<and> total_work rest = 2"
    using owes_persistLog [OF r(1), of "image_of n" x] m by simp
  then show ?thesis using owes_around [of "image_of n" "hushed x n'" rest "[ResetElectionTimer]" "[]"] r(2) by simp
qed

text \<open>A message from a Leader of the present or a later Term: \<open>r\<close> is what its handler does once it has accepted the Leader.\<close>

lemma persistIf_owes:
  assumes "idle n" "n_term n \<le> t" "keeps_election (acceptLeader n t l) (Some (m, rest))"
    "\<And>x. owes (image_of (acceptLeader n t l)) (hushed x m) rest" "total_work rest \<le> 2"
    "persistIf (n_term n < t) (m, rest) = (n', acts)"
  shows "owes (image_of n) n' acts"
proof -
  let ?k = "acceptLeader n t l"
  have "commit_quiet n" using assms(1) by (simp add: commit_quiet_def idle_defs)
  then have "commit_quiet ?k" by (simp add: acceptLeader_view)
  then have v: "election_view m = election_view ?k" using assms(3) by simp
  show ?thesis
  proof (cases "n_term n < t")
    case True
    have k: "n_term ?k = t" "n_pendingHardState ?k = Map.empty" "n_log ?k = n_log n" "n_logBaseIndex ?k = n_logBaseIndex n"
      "n_commitIndex ?k = n_commitIndex n"
      using True assms(1) by (simp_all add: acceptLeader_def becomeFollower_def idle_defs Let_def)
    have m: "n_term m = t" "n_pendingHardState m = Map.empty" "n_votedFor m = n_votedFor ?k"
      using v k(1,2) by (simp_all add: election_view_def)
    have "(image_of n)\<lparr>im_Term := n_term m, im_VotedFor := n_votedFor m\<rparr> = image_of ?k"
      using k m by (simp add: image_of_def)
    then show ?thesis
      using True assms(4-6) m by (intro owes_hard [of m rest n' acts]) (simp_all add: persistIf_def image_rules)
  next
    case False
    then have "idle_hard ?k \<and> image_of ?k = image_of n" using assms(1,2) by (simp add: acceptLeader_def idle_defs)
    moreover have "idle_hard m" using v calculation by (simp add: idle_hard_def election_view_def)
    ultimately show ?thesis using False assms(4) [of "n_nextHardStatePersistence m"] assms(6) hushed_idle [of m]
      by (simp add: persistIf_def)
  qed
qed

lemma acceptLeader_idle:
  assumes "idle n"
  shows "idle_log (acceptLeader n t l)" "idle_commit (acceptLeader n t l)"
  using assms by (simp_all add: acceptLeader_def becomeFollower_def idle_defs Let_def)

lemma handleAppendEntries_owes:
  assumes "idle n" "node_wf n" "event_ok n (EvAppendEntries req)" "handleAppendEntries n req = Some (n', acts)"
  shows "owes (image_of n) n' acts"
proof (cases "ae_Term req < n_term n")
  case True
  then show ?thesis using assms(1,4) by (auto simp: handleAppendEntries_def appendEntriesResponse_def intro: owes_nothing)
next
  case False
  let ?k = "acceptLeader n (ae_Term req) (ae_From req)"
  have wf: "node_wf ?k" "log_wf ?k" using assms(2) by (simp_all add: node_wf_log)
  have ok: "contiguous (ae_PrevLogIndex req) (ae_Entries req)" "ae_PrevLogIndex req + length (ae_Entries req) + 1 < W64"
    using assms(3) by (simp_all add: event_ok_def)
  note k = acceptLeader_idle [OF assms(1), of "ae_Term req" "ae_From req"]
  define r where "r = Option.bind (matches ?k (ae_PrevLogIndex req) (ae_PrevLogTerm req)) (\<lambda>matching.
      if \<not> matching then rejectAppend ?k req (ae_PrevLogIndex req)
      else Option.bind (entriesToAppend ?k (ae_PrevLogIndex req) (ae_Entries req)) (\<lambda>(es, trunc, ok).
        if \<not> ok then rejectAppend ?k req (add64 (ae_PrevLogIndex req) 1) else acceptAppend ?k req es trunc))"
  have h: "handleAppendEntries n req = map_option (persistIf (n_term n < ae_Term req)) r"
    unfolding handleAppendEntries_def r_def Let_def using False by (simp split: bind_split)
  then obtain m rest where m: "r = Some (m, rest)" "persistIf (n_term n < ae_Term req) (m, rest) = (n', acts)"
    using assms(4) by (cases r) auto
  have keeps: "keeps_election ?k r" unfolding r_def
    by (auto intro!: keeps_election_bind_other keeps_core_election [OF rejectAppend_core] acceptAppend_keeps)
  have reject: "owes (image_of ?k) (hushed x m) rest \<and> total_work rest \<le> 2" if "rejectAppend ?k req i = Some (m, rest)" for i x
    using rejectAppend_core [of ?k req i] that owes_core_hushed [of m ?k rest x] k by (auto simp: keeps_core_def)
  have accept: "owes (image_of ?k) (hushed x m) rest \<and> total_work rest \<le> 2"
    if a: "acceptAppend ?k req es trunc = Some (m, rest)" "entriesToAppend ?k (ae_PrevLogIndex req) (ae_Entries req) = Some (es, trunc, True)"
      "matches ?k (ae_PrevLogIndex req) (ae_PrevLogTerm req) = Some True" for es trunc x
  proof -
    have prev: "ae_PrevLogIndex req \<le> n_lastLogIndex ?k" using a(3) matches_total [OF wf(2)] by auto
    then have "pick_new ?k (ae_Entries req) = (es, trunc, True)"
      using entriesToAppendFrom_total [OF wf(2), of "ae_PrevLogIndex req" 0 "ae_Entries req"] ok a(2) by (simp add: entriesToAppend_def)
    then show ?thesis using acceptAppend_owes [OF k wf(1) _ ok(1) prev ok(2) a(1), of x] by simp
  qed
  have "owes (image_of ?k) (hushed x m) rest \<and> total_work rest \<le> 2" for x
    using m(1) reject accept unfolding r_def by (auto split: bind_splits if_splits)
  then show ?thesis using persistIf_owes [OF assms(1) _ _ _ _ m(2), of "ae_From req"] False keeps m(1) by simp
qed

lemma handleInstallSnapshot_owes:
  assumes "idle n" "\<not> (is_Success req \<and> is_Done req \<and> n_logBaseIndex n < is_SnapshotIndex req)" "handleInstallSnapshot n req = Some (n', acts)"
  shows "owes (image_of n) n' acts"
proof (cases "is_Term req < n_term n")
  case True
  then show ?thesis using assms(1,3) by (auto simp: handleInstallSnapshot_def snapshotResponse_def intro: owes_nothing)
next
  case False
  let ?k = "acceptLeader n (is_Term req) (is_From req)"
  have base: "n_logBaseIndex ?k = n_logBaseIndex n" by (simp add: acceptLeader_def becomeFollower_def Let_def)
  obtain rest where r: "persistIf (n_term n < is_Term req) (?k, rest) = (n', acts)" "calm rest" "list_all quiet rest"
    using assms(2,3) False base by (auto simp: handleInstallSnapshot_def Let_def snapshotResponse_def)
  have "owes (image_of ?k) (hushed x ?k) rest" for x
    using owes_core_hushed [OF refl r(2) acceptLeader_idle [OF assms(1)]] .
  then show ?thesis using persistIf_owes [OF assms(1) _ _ _ _ r(1), of "is_From req"] False r(2,3) by simp
qed

lemma handleInstallSnapshotResponse_owes:
  assumes "idle n" "handleInstallSnapshotResponse n res = Some (n', acts)"
  shows "owes (image_of n) n' acts"
proof (cases "n_term n < isr_Term res")
  case True
  then show ?thesis using assms(2) becomeFollower_owes [OF assms(1) True, of "[]" "[]"] by (simp add: handleInstallSnapshotResponse_def)
next
  case False
  then show ?thesis using owes_soft [OF handleInstallSnapshotResponse_core assms(1) assms(2)] by simp
qed

lemma handleAppendEntriesResponse_owes:
  assumes "idle n" "node_wf n" "handleAppendEntriesResponse n res = Some (n', acts)"
  shows "owes (image_of n) n' acts"
proof -
  let ?pending = "lookup_default zeroAppend (n_appendInFlight n) (aer_From res)"
  consider (later) "n_term n < aer_Term res"
    | (ignored) "handleAppendEntriesResponse n res = Some (n, [])"
    | (handle) "n_role n = Leader" "aer_Term res = n_term n"
      "\<not> (pa_requestID ?pending \<noteq> 0 \<and> aer_RequestID res \<noteq> 0 \<and> aer_RequestID res \<noteq> pa_requestID ?pending)"
    by (cases "aer_Term res > n_term n"; cases "n_role n \<noteq> Leader \<or> aer_Term res \<noteq> n_term n";
      cases "pa_requestID ?pending \<noteq> 0 \<and> aer_RequestID res \<noteq> 0 \<and> aer_RequestID res \<noteq> pa_requestID ?pending")
      (auto simp: handleAppendEntriesResponse_def Let_def)
  then show ?thesis
  proof cases
    case later
    then show ?thesis using assms(3) becomeFollower_owes [OF assms(1) later, of "[]" "[]"] by (simp add: handleAppendEntriesResponse_def)
  next
    case ignored
    then show ?thesis using assms(1,3) by (simp add: owes_nothing)
  next
    case handle
    obtain m where m: "recordProgress n res = Some m" "node_wf m" using recordProgress_total [OF assms(2)] by blast
    then have core: "core m = core n" using recordProgress_core by blast
    obtain found where found: "commitCandidate m (n_lastLogIndex m) = Some found"
      "\<And>c. found = Some c \<Longrightarrow> n_commitIndex m < c \<and> c \<le> n_lastLogIndex m"
      using commitCandidate_total [OF node_wf_log [OF m(2)]] by metis
    let ?new = "if found \<noteq> None
      then Option.bind (sendAppendEntries (m\<lparr>n_commitIndex := the found\<rparr>) 0) (\<lambda>(n, sends). Some (persistCommit n sends))
      else if \<not> aer_Success res \<or> lookup_default 0 (n_nextIndex m) (aer_From res) \<le> min (n_durableLogIndex m) (n_lastLogIndex m)
              \<or> pendingReadFor m (aer_From res) \<noteq> 0 \<or> pa_leaderCommit ?pending < n_commitIndex m
           then sendAppendEntriesTo m (aer_From res) (pendingReadFor m (aer_From res)) else Some (m, [])"
    have "handleAppendEntriesResponse n res = Option.bind ?new
        (\<lambda>(n, actions). Some (fst (acknowledgeRead n res), actions @ snd (acknowledgeRead n res)))"
      using handle m(1) found(1)
      by (cases found) (auto simp: handleAppendEntriesResponse_def Let_def advanceLeaderCommit_def case_prod_unfold)
    then obtain a sends where a: "?new = Some (a, sends)" "n' = fst (acknowledgeRead a res)" "acts = sends @ snd (acknowledgeRead a res)"
      using assms(3) by (auto split: bind_splits)
    have fin: "owes (image_of n) n' acts" if "owes (image_of n) a sends"
      using owes_around [OF owes_same [OF that, of n'], of "[]" "snd (acknowledgeRead a res)"] a(2,3) by simp
    show ?thesis
    proof (cases found)
      case None
      then have "core a = core n" "calm sends"
        using a(1) core sendAppendEntriesTo_core [of m "aer_From res" "pendingReadFor m (aer_From res)"] by (auto simp: keeps_core_def split: if_splits)
      then show ?thesis by (intro fin owes_core) (simp_all add: assms(1))
    next
      case (Some c)
      let ?m = "m\<lparr>n_commitIndex := c\<rparr>"
      obtain b bs where b: "sendAppendEntries ?m 0 = Some (b, bs)" "persistCommit b bs = (a, sends)"
        using a(1) Some by (auto split: bind_splits)
      have bc: "core b = core ?m" "calm bs" using sendAppendEntries_core [of ?m 0] b(1) by (auto simp: keeps_core_def)
      moreover have "core ?m = core (n\<lparr>n_commitIndex := c\<rparr>)" using core_fields [OF core] core by (simp add: core_def)
      ultimately have "owes (image_of n) (hushed (n_nextHardStatePersistence a) a) sends"
        using owes_persistCommit [of n c bs b a sends] b(2) found(2) [OF Some] core_fields [OF core] assms(1,2)
        by (auto simp: idle_def wf_defs)
      moreover have "idle_hard a"
        using b(2) core_fields [OF bc(1)] core_fields [OF core] assms(1) by (auto simp: persistCommit_def Let_def idle_defs)
      ultimately show ?thesis by (intro fin) (simp add: hushed_idle)
    qed
  qed
qed

text \<open>
  The events that reach a node from outside between two requests; Snapshots that replace the log are
  the business of the runtime's Snapshot path.
\<close>

fun outside :: "Node \<Rightarrow> Event \<Rightarrow> bool" where
  "outside n (HardStatePersisted i) \<longleftrightarrow> False"
| "outside n (LogEntriesPersisted i) \<longleftrightarrow> False"
| "outside n (CommitIndexPersisted i) \<longleftrightarrow> False"
| "outside n (SnapshotPersisted i) \<longleftrightarrow> False"
| "outside n (SnapshotCompacted i t) \<longleftrightarrow> False"
| "outside n (EvInstallSnapshot m) \<longleftrightarrow> \<not> (is_Success m \<and> is_Done m \<and> n_logBaseIndex n < is_SnapshotIndex m)"
| "outside n ev \<longleftrightarrow> True"

lemma Step_owes:
  assumes "idle n" "node_wf n" "event_ok n ev" "outside n ev" "n_term n + 1 < W64" "Step n ev = Some (n', acts)"
  shows "owes (image_of n) n' acts"
proof (cases ev)
  case RecoverCommitted
  have c: "n_lastApplied n = n_durableCommitIndex n" "n_durableCommitIndex n \<le> n_lastLogIndex n"
    using assms(1,2) by (auto simp: idle_defs wf_defs)
  then show ?thesis
    using applyThrough_calm [OF assms(2), of "n_durableCommitIndex n" n' acts] assms(1,6) RecoverCommitted owes_core [of n' n acts]
    by (simp add: core_def)
next
  case (AppendEntriesFailed to i)
  then show ?thesis using assms(1,6) by (auto intro!: owes_core)
next
  case (EvPreVoteRequest m)
  then show ?thesis using assms(6) owes_soft [OF handlePreVoteRequest_core assms(1)] by simp
next
  case ElectionTimeout
  then show ?thesis using assms(6) startPreVote_owes [OF assms(1,5)] by (simp add: event_ok_def)
next
  case HeartbeatTimeout
  then show ?thesis using assms(6) owes_soft [OF heartbeatRound_core assms(1)] by (simp add: event_ok_def)
next
  case CheckQuorumTimeout
  then show ?thesis using assms(6) checkQuorum_owes [OF assms(1)] by (simp add: event_ok_def)
next
  case (ConfirmRead i)
  then show ?thesis using assms(6) owes_soft [OF confirmRead_core assms(1)] by (simp add: event_ok_def)
next
  case (EvPreVoteResponse m)
  then show ?thesis using assms(6) handlePreVoteResponse_owes [OF assms(1,5)] by (simp add: event_ok_def)
next
  case (EvVoteRequest m)
  then show ?thesis using assms(6) handleVoteRequest_owes [OF assms(1)] by (simp add: event_ok_def)
next
  case (EvVoteResponse m)
  then show ?thesis using assms(6) assms(3) handleVoteResponse_owes [OF assms(1,2)] by (simp add: event_ok_def)
next
  case (EvAppendEntries m)
  then show ?thesis using assms(6) assms(3) handleAppendEntries_owes [OF assms(1,2)] by (simp add: event_ok_def)
next
  case (EvAppendEntriesResponse m)
  then show ?thesis using assms(6) handleAppendEntriesResponse_owes [OF assms(1,2)] by (simp add: event_ok_def)
next
  case (EvInstallSnapshot m)
  then show ?thesis using assms(6) assms(4) handleInstallSnapshot_owes [OF assms(1)] by (simp add: event_ok_def)
next
  case (EvInstallSnapshotResponse m)
  then show ?thesis using assms(6) handleInstallSnapshotResponse_owes [OF assms(1)] by (simp add: event_ok_def)
next
  case (EvProposeSession p)
  then show ?thesis using assms(6) assms(3) propose_owes(1) [OF assms(1,2)] by (simp add: event_ok_def)
next
  case (EvProposeSet p)
  then show ?thesis using assms(6) assms(3) propose_owes(2) [OF assms(1,2)] by (simp add: event_ok_def)
next
  case (EvProposeDelete p)
  then show ?thesis using assms(6) assms(3) propose_owes(3) [OF assms(1,2)] by (simp add: event_ok_def)
qed (use assms(4) in simp_all)

end
