(* ===== verification/Node_Runtime.thy ===== *)
theory Node_Runtime
  imports Raft_Rest Wal_Crash Snapshot_Store Session_Machine Node_Config
begin

text \<open>
  The runtime of one Node (\<open>src/internal/node/raft_runtime.go\<close>, the Snapshot installation of
  \<open>src/internal/node/snapshot.go\<close> and \<open>src/internal/node/mutation_boundary.go\<close>): opening from the
  write-ahead log and the Snapshot directory, and \<open>step\<close>, which performs the persistence requests of the
  Raft core before it hands on the other actions.

  \<open>observeMutation\<close> is nil in production; the record \<open>rt_observed\<close> lists the calls that an observer gets
  when there is one. The loop of \<open>step\<close> ends when no action is left, so it is a partial function; the
  theorems show that it returns.
\<close>

section \<open>Mutation boundaries\<close>

datatype mutationBoundary =
  mutationBeforeAppend | mutationAfterLocalPersistence | mutationAfterQuorumPersistence | mutationAfterCommitment
| mutationAfterApplication

definition zeroEntry :: LogEntry where
  "zeroEntry = \<lparr>le_Index = 0, le_Term = 0, le_Type = EntryNoOp, le_SessionID = zeroSessionID, le_Sequence = 0, le_Key = [], le_Value = []\<rparr>"

definition entryForMutation :: "Event \<Rightarrow> LogEntry \<times> bool" where
  "entryForMutation event =
    (case event of
       EvProposeSet p \<Rightarrow> (zeroEntry\<lparr>le_Type := EntrySet, le_SessionID := pset_SessionID p, le_Sequence := pset_Sequence p,
         le_Key := pset_Key p, le_Value := pset_Value p\<rparr>, True)
     | EvProposeDelete p \<Rightarrow> (zeroEntry\<lparr>le_Type := EntryDelete, le_SessionID := pdel_SessionID p, le_Sequence := pdel_Sequence p,
         le_Key := pdel_Key p\<rparr>, True)
     | _ \<Rightarrow> (zeroEntry, False))"

section \<open>Entries of the log and of the core\<close>

fun entryTypeCode :: "EntryType \<Rightarrow> u8" where
  "entryTypeCode EntryNoOp = 0"
| "entryTypeCode EntryOpenSession = 1"
| "entryTypeCode EntryCloseSession = 2"
| "entryTypeCode EntrySet = 3"
| "entryTypeCode EntryDelete = 4"
| "entryTypeCode (EntryOther c) = c"

definition entryTypeOf :: "u8 \<Rightarrow> EntryType" where
  "entryTypeOf c = (if c = 0 then EntryNoOp else if c = 1 then EntryOpenSession else if c = 2 then EntryCloseSession
     else if c = 3 then EntrySet else if c = 4 then EntryDelete else EntryOther c)"

definition toWal :: "LogEntry \<Rightarrow> WalEntry" where
  "toWal e = \<lparr>we_Index = le_Index e, we_Term = le_Term e, we_Type = entryTypeCode (le_Type e), we_SessionID = le_SessionID e,
     we_Sequence = le_Sequence e, we_Key = le_Key e, we_Value = le_Value e\<rparr>"

definition fromWal :: "WalEntry \<Rightarrow> LogEntry" where
  "fromWal e = \<lparr>le_Index = we_Index e, le_Term = we_Term e, le_Type = entryTypeOf (we_Type e), le_SessionID = we_SessionID e,
     le_Sequence = we_Sequence e, le_Key = we_Key e, le_Value = we_Value e\<rparr>"

section \<open>Opening\<close>

record raftRuntime =
  rt_core :: Node
  rt_wal :: store
  rt_observing :: bool
  rt_observed :: "(mutationBoundary \<times> LogEntry) list"
  rt_walSyncs :: nat
  rt_leaderMutations :: "(u64, LogEntry) fmap"
  rt_recoveredSnapshot :: "SnapState option"

datatype runtime_error =
  OpenLog wal_error | UnsupportedEntry u8 u64 | OpenSnapshot snap_error
| PersistFailed wal_error | CorePanic

definition snapshotIdentity :: "Config \<Rightarrow> Identity" where
  "snapshotIdentity cfg = \<lparr>id_ClusterID = cfg_ClusterID cfg, id_NodeID = ns_ID (cfg_Node cfg),
     id_MemberIDs = sorted_list_of_fset (fmdom (cfg_Members cfg))\<rparr>"

definition walIdentity :: "Config \<Rightarrow> WalIdentity" where
  "walIdentity cfg = \<lparr>wi_ClusterID = cfg_ClusterID cfg, wi_NodeID = ns_ID (cfg_Node cfg)\<rparr>"

definition openRaftRuntime ::
    "Config \<Rightarrow> NodeID list \<Rightarrow> directory \<Rightarrow> Disk \<Rightarrow> (runtime_error + raftRuntime) \<times> store" where
  "openRaftRuntime cfg peers dir disk =
    (case openWAL (walIdentity cfg) defaultSegmentSize disk of
       (Inl e, s) \<Rightarrow> (Inl (OpenLog e), s)
     | (Inr stored, s) \<Rightarrow>
         (case find (\<lambda>e. we_Type e > entryTypeCode EntryDelete) (ws_Log stored) of
            Some e \<Rightarrow> (Inl (UnsupportedEntry (we_Type e) (we_Index e)), snd (CloseWAL s))
          | None \<Rightarrow>
              (case LoadNewest dir \<lparr>co_Identity = snapshotIdentity cfg, co_CommitIndex = ws_CommitIndex stored,
                   co_LogStartIndex = add64 (ws_SnapshotIndex stored) 1, co_LogTerms = map we_Term (ws_Log stored),
                   co_SnapshotIndex = ws_SnapshotIndex stored, co_SnapshotTerm = ws_SnapshotTerm stored\<rparr> of
                 Inl e \<Rightarrow> (Inl (OpenSnapshot e), snd (CloseWAL s))
               | Inr recoveredSnapshot \<Rightarrow>
                   let entries = map fromWal (ws_Log stored);
                       (snapshotIndex, snapshotTerm, entries) =
                         (case recoveredSnapshot of
                            None \<Rightarrow> (0, 0, entries)
                          | Some st \<Rightarrow> (st_IncludedIndex st, st_IncludedTerm st,
                              dropWhile (\<lambda>e. le_Index e \<le> st_IncludedIndex st) entries)) in
                   (Inr \<lparr>rt_core = NewNodeFromRecoveredState (ns_ID (cfg_Node cfg)) peers
                           \<lparr>rs_HardState = \<lparr>hs_Term = wh_Term (ws_HardState stored), hs_VotedFor = wh_VotedFor (ws_HardState stored)\<rparr>,
                            rs_Log = entries, rs_CommitIndex = ws_CommitIndex stored, rs_SnapshotIndex = snapshotIndex,
                            rs_SnapshotTerm = snapshotTerm\<rparr>,
                         rt_wal = s, rt_observing = False, rt_observed = [], rt_walSyncs = 0, rt_leaderMutations = fmempty,
                         rt_recoveredSnapshot = recoveredSnapshot\<rparr>, s))))"

section \<open>Performing the actions of a step\<close>

text \<open>A WAL operation of the runtime: \<open>Inl\<close> is the wrapped error.\<close>

definition saved :: "unit wal \<Rightarrow> raftRuntime \<Rightarrow> runtime_error option \<times> raftRuntime" where
  "saved operation r =
    (case operation (rt_wal r) of
       (Inl e, s) \<Rightarrow> (Some (PersistFailed e), r\<lparr>rt_wal := s\<rparr>)
     | (Inr _, s) \<Rightarrow> (None, r\<lparr>rt_wal := s\<rparr>))"

definition isMutation :: "LogEntry \<Rightarrow> bool" where
  "isMutation e \<longleftrightarrow> le_Type e = EntrySet \<or> le_Type e = EntryDelete"

definition observe :: "mutationBoundary \<Rightarrow> LogEntry list \<Rightarrow> raftRuntime \<Rightarrow> raftRuntime" where
  "observe boundary es r = (if rt_observing r then r\<lparr>rt_observed := rt_observed r @ map (Pair boundary) es\<rparr> else r)"

definition countSync :: "raftRuntime \<Rightarrow> raftRuntime" where
  "countSync r = r\<lparr>rt_walSyncs := rt_walSyncs r + 1\<rparr>"

definition committedLeaderMutations :: "u64 \<Rightarrow> raftRuntime \<Rightarrow> LogEntry list" where
  "committedLeaderMutations commitIndex r =
    sort_key le_Index (map (\<lambda>i. the (fmlookup (rt_leaderMutations r) i))
      (filter (\<lambda>i. i \<le> commitIndex) (sorted_list_of_fset (fmdom (rt_leaderMutations r)))))"

text \<open>The branch of the loop for one action: \<open>None\<close> is the default branch, which emits the action.\<close>

definition persistAction :: "Action \<Rightarrow> raftRuntime \<Rightarrow> (runtime_error option \<times> raftRuntime) option" where
  "persistAction action r =
    (case action of
       PersistHardState i t v \<Rightarrow>
         (case saved (SaveHardState \<lparr>wh_Term = t, wh_VotedFor = v\<rparr>) r of
            (Some e, r) \<Rightarrow> Some (Some e, r)
          | (None, r) \<Rightarrow> Some (None, countSync r))
     | PersistLogEntries i truncateFrom entries \<Rightarrow>
         (case (if truncateFrom \<noteq> 0 then saved (TruncateLog truncateFrom) r else (None, r)) of
            (Some e, r) \<Rightarrow> Some (Some e, r)
          | (None, r) \<Rightarrow>
              (case saved (SaveLogEntries (map toWal entries)) r of
                 (Some e, r) \<Rightarrow> Some (Some e, r)
               | (None, r) \<Rightarrow>
                   let r = countSync r; mutations = filter isMutation entries in
                   Some (None,
                     if rt_observing r \<and> n_role (rt_core r) = Leader
                     then observe mutationAfterLocalPersistence mutations
                       (r\<lparr>rt_leaderMutations := fold (\<lambda>e. fmupd (le_Index e) e) mutations (rt_leaderMutations r)\<rparr>)
                     else r)))
     | PersistCommitIndex i commitIndex \<Rightarrow>
         let committed = (if rt_observing r then committedLeaderMutations commitIndex r else []);
             r = observe mutationAfterQuorumPersistence committed r in
         (case saved (SaveCommitIndex commitIndex) r of
            (Some e, r) \<Rightarrow> Some (Some e, r)
          | (None, r) \<Rightarrow>
              let r = observe mutationAfterCommitment committed (countSync r) in
              Some (None, r\<lparr>rt_leaderMutations := fold (\<lambda>e. fmdrop (le_Index e)) committed (rt_leaderMutations r)\<rparr>))
     | PersistSnapshot i index t retainSuffix \<Rightarrow>
         (case saved (InstallSnapshotWAL index t retainSuffix) r of
            (Some e, r) \<Rightarrow> Some (Some e, r)
          | (None, r) \<Rightarrow> Some (None, countSync r))
     | _ \<Rightarrow> None)"

text \<open>The loop: the actions still pending and those emitted so far.\<close>

partial_function (option) drain ::
    "Action list \<Rightarrow> Action list \<Rightarrow> raftRuntime \<Rightarrow> ((runtime_error + Action list) \<times> raftRuntime) option" where
  "drain pending emitted r =
    (case pending of
       [] \<Rightarrow> Some (Inr emitted, r)
     | action # rest \<Rightarrow>
         (case persistAction action r of
            None \<Rightarrow> drain rest (emitted @ [action]) r
          | Some (Some e, r') \<Rightarrow> Some (Inl e, r')
          | Some (None, r') \<Rightarrow>
              (case Step (rt_core r') (completion action) of
                 None \<Rightarrow> Some (Inl CorePanic, r')
               | Some (n, new) \<Rightarrow> drain (rest @ new) emitted (r'\<lparr>rt_core := n\<rparr>))))"

definition runtime_step :: "Event \<Rightarrow> raftRuntime \<Rightarrow> ((runtime_error + Action list) \<times> raftRuntime) option" where
  "runtime_step event r =
    (case Step (rt_core r) event of
       None \<Rightarrow> Some (Inl CorePanic, r)
     | Some (n, pending) \<Rightarrow> drain pending [] (r\<lparr>rt_core := n\<rparr>))"

definition runtime_close :: "raftRuntime \<Rightarrow> wal_error option \<times> raftRuntime" where
  "runtime_close r = (case CloseWAL (rt_wal r) of (x, s) \<Rightarrow> ((case x of Inl e \<Rightarrow> Some e | Inr _ \<Rightarrow> None), r\<lparr>rt_wal := s\<rparr>))"

section \<open>Snapshots\<close>

datatype install_error = SaveSnapshot snap_error | CompactLog wal_error

text \<open>\<open>installSnapshot\<close>: the file first, the compaction of the log only when it is installed.\<close>

definition installSnapshot ::
    "string \<Rightarrow> save_call option \<Rightarrow> nat \<Rightarrow> bool \<Rightarrow> SnapState \<Rightarrow> directory \<Rightarrow> store \<Rightarrow> install_error option \<times> directory \<times> store" where
  "installSnapshot suffix fail short cleanup st dir s =
    (case Save suffix fail short cleanup st dir of
       (Inl e, dir') \<Rightarrow> (Some (SaveSnapshot e), dir', s)
     | (Inr _, dir') \<Rightarrow>
         if st_IncludedIndex st = 0 then (None, dir', s)
         else
           (case Compact (st_IncludedIndex st) (st_IncludedTerm st) s of
              (Inl e, s') \<Rightarrow> (Some (CompactLog e), dir', s')
            | (Inr _, s') \<Rightarrow> (None, dir', s')))"

definition snapshotClusterMatches :: "Identity \<Rightarrow> Identity \<Rightarrow> bool" where
  "snapshotClusterMatches got want =
    (if id_ClusterID got \<noteq> id_ClusterID want \<or> length (id_MemberIDs got) \<noteq> length (id_MemberIDs want) then False
     else list_all (\<lambda>i. id_MemberIDs got ! i = id_MemberIDs want ! i) [0..<length (id_MemberIDs got)])"

section \<open>The log mirrors the core\<close>

definition walHard :: "image \<Rightarrow> WalHardState" where
  "walHard im = \<lparr>wh_Term = im_Term im, wh_VotedFor = im_VotedFor im\<rparr>"

definition holds :: "WalIdentity \<Rightarrow> image \<Rightarrow> WalState \<Rightarrow> bool" where
  "holds ident im st \<longleftrightarrow> ws_Identity st = ident \<and> ws_HardState st = walHard im \<and> ws_SnapshotIndex st = im_Base im
     \<and> ws_Log st = map toWal (im_Log im) \<and> ws_CommitIndex st = im_Commit im"

text \<open>An entry that a log record can hold.\<close>

definition storable :: "LogEntry \<Rightarrow> bool" where
  "storable e \<longleftrightarrow> entry_ok (toWal e) \<and> record_ok (entry_record (toWal e)) \<and> (\<forall>c. le_Type e \<noteq> EntryOther c)"

definition storable_node :: "Node \<Rightarrow> bool" where
  "storable_node n \<longleftrightarrow> list_all storable (n_log n) \<and> n_term n < W64 \<and> 9 + length (n_votedFor n) \<le> maxRecordSize"

lemma checkIndexes_contiguous:
  "contiguous (lst + k) es \<Longrightarrow> lst + k + length es < W64 \<Longrightarrow> checkIndexes lst k (map toWal es) = None"
proof (induction es arbitrary: k)
  case (Cons e es)
  then have "le_Index e = lst + k + 1" "contiguous (lst + (k + 1)) es" by auto
  then show ?case using Cons.IH [of "k + 1"] Cons.prems by (simp add: toWal_def Let_def)
qed simp

text \<open>The images that a log can hold, and the order in which they follow one another.\<close>

definition image_wf :: "image \<Rightarrow> bool" where
  "image_wf im \<longleftrightarrow> im_Base im \<le> im_Commit im \<and> im_Commit im \<le> im_last im \<and> im_last im + 1 < W64
     \<and> contiguous (im_Base im) (im_Log im) \<and> list_all storable (im_Log im)"

definition grows :: "image \<Rightarrow> image \<Rightarrow> bool" where
  "grows im im' \<longleftrightarrow>
     (im_Term im < im_Term im' \<or> im_Term im = im_Term im' \<and> (im_VotedFor im = [] \<or> im_VotedFor im' = im_VotedFor im))
     \<and> im_Base im' = im_Base im \<and> im_Commit im \<le> im_Commit im'
     \<and> take (im_Commit im - im_Base im) (im_Log im') = take (im_Commit im - im_Base im) (im_Log im)"

lemma grows_refl [simp]: "grows im im"
  by (simp add: grows_def)

lemma grows_trans:
  assumes "grows a b" "grows b c"
  shows "grows a c"
proof -
  let ?k = "im_Commit a - im_Base a" and ?l = "im_Commit b - im_Base b"
  have "?k \<le> ?l" using assms(1) by (simp add: grows_def diff_le_mono)
  then have "take ?k xs = take ?k (take ?l xs)" for xs :: "LogEntry list" by (simp add: min_def)
  moreover have "take ?l (im_Log c) = take ?l (im_Log b)" "take ?k (im_Log b) = take ?k (im_Log a)"
    using assms by (simp_all add: grows_def)
  ultimately have "take ?k (im_Log c) = take ?k (im_Log a)" by metis
  then show ?thesis using assms by (auto simp: grows_def)
qed

definition mirrors :: "WalIdentity \<Rightarrow> store \<Rightarrow> image \<Rightarrow> bool" where
  "mirrors ident s im \<longleftrightarrow> image_wf im \<and> (\<exists>R st. stores s R st \<and> holds ident im st)"

definition comes :: "WalIdentity \<Rightarrow> image \<Rightarrow> WalState \<Rightarrow> bool" where
  "comes ident im st \<longleftrightarrow> (\<exists>im'. holds ident im' st \<and> image_wf im' \<and> grows im im')"

text \<open>
  What a crash leaves on the disk, whatever was not synced: opening the log gives an image that follows
  \<open>im\<close>, or fails on the header of a segment that was being created.
\<close>

definition survived :: "WalIdentity \<Rightarrow> image \<Rightarrow> Disk \<Rightarrow> bool" where
  "survived ident im d \<longleftrightarrow> (\<forall>limit cuts. can_open ident limit \<longrightarrow>
     (case openWAL ident limit (crashed cuts d) of
        (Inl e, s) \<Rightarrow> e = ShortHeader
      | (Inr st, s) \<Rightarrow> (\<exists>R. stores s R st) \<and> comes ident im st))"

lemma survived_mono: "survived ident im1 d \<Longrightarrow> grows im im1 \<Longrightarrow> survived ident im d"
proof -
  assume s: "survived ident im1 d" and g: "grows im im1"
  have "comes ident im st" if "comes ident im1 st" for st using that grows_trans [OF g] by (auto simp: comes_def)
  then show ?thesis using s unfolding survived_def by (fastforce split: sum.splits prod.splits)
qed

text \<open>One operation on a log that holds an image: it may fail only when an I/O call fails.\<close>

definition moves :: "WalIdentity \<Rightarrow> image \<Rightarrow> image \<Rightarrow> nat \<Rightarrow> store \<Rightarrow> (wal_error + unit) \<times> store \<Rightarrow> bool" where
  "moves ident im im' k s out \<longleftrightarrow> grows im im'
     \<and> (fst out = Inr () \<longrightarrow> mirrors ident (snd out) im' \<and> w_segment (fst (snd out)) \<le> w_segment (fst s) + k)
     \<and> (fst out \<noteq> Inr () \<longrightarrow> survived ident im (snd (snd out)))
     \<and> (dk_plan (snd s) = [] \<longrightarrow> fst out = Inr () \<and> dk_plan (snd (snd out)) = [])"

lemma leftover_survived:
  assumes "leftover d R (command_records c st)" "recovered R = Inr st" "state_ok st" "refuses c st = None" "command_ok c st"
    "ws_Identity st = ident" "\<And>k. comes ident im (performed k c st)"
  shows "survived ident im d"
  unfolding survived_def
proof (intro allI impI)
  fix limit cuts
  assume can: "can_open ident limit"
  let ?d = "crashed cuts d" and ?new = "command_records c st"
  have rec: "recovered (R @ take k ?new) = Inr (performed k c st) \<and> ws_Identity (performed k c st) = ident \<and> state_ok (performed k c st)" for k
    using recovered_command [OF assms(2-5), of k] performed_ok [OF assms(3-5), of k] assms(6) by simp
  show "case openWAL ident limit ?d of (Inl e, s) \<Rightarrow> e = ShortHeader | (Inr st, s) \<Rightarrow> (\<exists>R. stores s R st) \<and> comes ident im st"
  proof (cases "whole_header ?d R ?new")
    case True
    obtain k s where "openWAL ident limit ?d = (Inr (performed k c st), s)" "stores s (R @ take k ?new) (performed k c st)"
      by (rule reopen_whole [OF True crashed_fields(1) stable_crashed can, of "\<lambda>k. performed k c st"]) (use rec in auto)
    then show ?thesis using assms(7) by auto
  next
    case False
    then have "headless ?d R ?new" using assms(1) crashed_whole crashed_headless unfolding leftover_def by blast
    then have "fst (openWAL ident limit ?d) = Inl ShortHeader" using reopen_headless [OF _ False can stable_crashed] rec by blast
    then show ?thesis by (auto split: prod.splits)
  qed
qed

lemma command_moves:
  assumes "stores s R st" "holds ident im st" "refuses c st = None" "command_ok c st" "w_segment (fst s) + weight c < W64"
    "holds ident im' (perform c st)" "image_wf im'" "grows im im'" "\<And>k. comes ident im (performed k c st)"
  shows "moves ident im im' (weight c) s (run_command c s)"
proof -
  obtain w d where s: "s = (w, d)" by (cases s)
  obtain x w1 d1 where run: "run_command c (w, d) = (x, (w1, d1))" by (metis surj_pair)
  have w: "w_segment w + weight c < W64" and st: "stores (w, d) R st" using assms(1,5) s by simp_all
  note step = run_command_stores [OF st assms(3,4) w run]
  have "survived ident im d1" if "x = Inl e" for e
    using leftover_survived [OF step(2) [OF that] _ _ assms(3,4) _ assms(9)] st assms(2) by (simp add: stores_def holds_def)
  then show ?thesis unfolding moves_def s run using step(1,3) assms(6-8) by (cases x) (auto simp: mirrors_def)
qed

text \<open>An operation of one record leaves the log as it was or does its work.\<close>

lemma comes_single:
  assumes "holds ident im st" "image_wf im" "holds ident im' (perform c st)" "image_wf im'" "grows im im'" "\<And>k. first_part k c = c"
  shows "comes ident im (performed k c st)"
  using assms unfolding comes_def performed_def by (cases "k = 0") auto

lemma mirrorsE:
  assumes "mirrors ident s im"
  obtains R st where "stores s R st" "holds ident im st" "image_wf im" "lastRecovered st = im_last im"
proof -
  obtain R st where st: "stores s R st" "holds ident im st" "image_wf im" using assms by (auto simp: mirrors_def)
  then have "lastRecovered st = im_last im" by (auto simp: stores_def lastRecovered_ok holds_def im_last_def)
  then show thesis using that st by blast
qed

lemma mirrors_last: "mirrors ident s im \<Longrightarrow> im_Base im \<le> im_Commit im \<and> im_Commit im \<le> im_last im \<and> im_last im + 1 < W64"
  by (simp add: mirrors_def image_wf_def)

lemma save_hard_moves:
  assumes "mirrors ident s im" "writable (PersistHardState i t v) im" "t < W64" "9 + length v \<le> maxRecordSize" "w_segment (fst s) + 1 < W64"
  shows "moves ident im (written (PersistHardState i t v) im) 1 s (SaveHardState \<lparr>wh_Term = t, wh_VotedFor = v\<rparr> s)"
proof -
  obtain R st where st: "stores s R st" "holds ident im st" "image_wf im" using assms(1) by (rule mirrorsE)
  let ?c = "PutHardState \<lparr>wh_Term = t, wh_VotedFor = v\<rparr>" and ?im = "written (PersistHardState i t v) im"
  have "hard_follows (ws_HardState st) \<lparr>wh_Term = t, wh_VotedFor = v\<rparr>"
    using assms(2) st(2) by (auto simp: holds_def walHard_def image_rules hard_follows_def)
  moreover have h: "holds ident ?im (perform ?c st)" using st(2) by (simp add: holds_def walHard_def image_rules)
  moreover have g: "grows im ?im" "image_wf ?im" using assms(2) st(3) by (auto simp: grows_def image_rules image_wf_def im_last_def)
  moreover have "comes ident im (performed k ?c st)" for k by (rule comes_single [OF st(2,3) h g(2,1)]) simp
  ultimately show ?thesis using command_moves [OF st(1,2), of ?c] assms(3-5) by (simp add: weight_def)
qed

lemma truncate_moves:
  assumes "mirrors ident s im" "im_Commit im < tr" "tr \<le> im_last im" "w_segment (fst s) + 1 < W64"
  shows "moves ident im (im\<lparr>im_Log := take (tr - im_Base im - 1) (im_Log im)\<rparr>) 1 s (TruncateLog tr s)"
proof -
  obtain R st where st: "stores s R st" "holds ident im st" "image_wf im" "lastRecovered st = im_last im" using assms(1) by (rule mirrorsE)
  let ?c = "CutLog tr" and ?im = "im\<lparr>im_Log := take (tr - im_Base im - 1) (im_Log im)\<rparr>"
  have "refuses ?c st = None" using assms(2,3) st(2,4) by (auto simp: holds_def)
  moreover have h: "holds ident ?im (perform ?c st)" using st(2) by (simp add: holds_def walHard_def take_map)
  moreover have g: "grows im ?im" "image_wf ?im"
    using st(3) assms(2,3) by (auto simp: grows_def image_wf_def im_last_def list_all_take min_def)
  moreover have "comes ident im (performed k ?c st)" for k by (rule comes_single [OF st(2,3) h g(2,1)]) simp
  ultimately show ?thesis using command_moves [OF st(1,2), of ?c] assms(4) by (simp add: weight_def)
qed

lemma save_entries_moves:
  assumes "mirrors ident s im" "es \<noteq> []" "contiguous (im_last im) es" "list_all storable es" "im_last im + length es + 1 < W64"
    "w_segment (fst s) + length es < W64"
  shows "moves ident im (im\<lparr>im_Log := im_Log im @ es\<rparr>) (length es) s (SaveLogEntries (map toWal es) s)"
proof -
  obtain R st where st: "stores s R st" "holds ident im st" "image_wf im" "lastRecovered st = im_last im" using assms(1) by (rule mirrorsE)
  let ?c = "PutEntries (map toWal es)"
  have "checkIndexes (im_last im) 0 (map toWal es) = None"
    using checkIndexes_contiguous [of "im_last im" 0 es] assms(3,5) by simp
  then have "refuses ?c st = None" using assms(2) st(4) by simp
  moreover have "command_ok ?c st" using assms(4,5) st(4) by (simp add: storable_def list_all_iff)
  moreover
  have part: "holds ident (im\<lparr>im_Log := im_Log im @ take k es\<rparr>) (perform (first_part k ?c) st)" for k
    using st(2) by (simp add: holds_def walHard_def take_map)
  have wf: "image_wf (im\<lparr>im_Log := im_Log im @ take k es\<rparr>)" "grows im (im\<lparr>im_Log := im_Log im @ take k es\<rparr>)" for k
    using st(3) assms(3-5) by (auto simp: image_wf_def grows_def im_last_def list_all_take min_def)
  have "comes ident im (performed k ?c st)" for k
    unfolding comes_def performed_def using st(2,3) part [of k] wf [of k] by (cases "k = 0") auto
  moreover have "holds ident (im\<lparr>im_Log := im_Log im @ es\<rparr>) (perform ?c st)" "image_wf (im\<lparr>im_Log := im_Log im @ es\<rparr>)"
    "grows im (im\<lparr>im_Log := im_Log im @ es\<rparr>)"
    using part [of "length es"] wf [of "length es"] by simp_all
  ultimately show ?thesis using command_moves [OF st(1,2), of ?c "im\<lparr>im_Log := im_Log im @ es\<rparr>"] assms(6) by (simp add: weight_def)
qed

lemma save_commit_moves:
  assumes "mirrors ident s im" "im_Commit im < c" "c \<le> im_last im" "w_segment (fst s) + 1 < W64"
  shows "moves ident im (im\<lparr>im_Commit := c\<rparr>) 1 s (SaveCommitIndex c s)"
proof -
  obtain R st where st: "stores s R st" "holds ident im st" "image_wf im" "lastRecovered st = im_last im" using assms(1) by (rule mirrorsE)
  let ?c = "PutCommit c" and ?im = "im\<lparr>im_Commit := c\<rparr>"
  have "refuses ?c st = None" using assms(2,3) st(2,4) by (simp add: holds_def)
  moreover have h: "holds ident ?im (perform ?c st)" using st(2) by (simp add: holds_def walHard_def)
  moreover have g: "grows im ?im" "image_wf ?im" using st(3) assms(2,3) by (auto simp: grows_def image_wf_def im_last_def)
  moreover have "comes ident im (performed k ?c st)" for k by (rule comes_single [OF st(2,3) h g(2,1)]) simp
  ultimately show ?thesis using command_moves [OF st(1,2), of ?c] assms(4) by (simp add: weight_def)
qed

section \<open>A step\<close>

fun cost :: "Action \<Rightarrow> nat" where
  "cost (PersistLogEntries i tr es) = 1 + length es"
| "cost a = 1"

fun storable_action :: "Action \<Rightarrow> image \<Rightarrow> bool" where
  "storable_action (PersistHardState i t v) im \<longleftrightarrow> t < W64 \<and> 9 + length v \<le> maxRecordSize"
| "storable_action (PersistLogEntries i tr es) im \<longleftrightarrow> list_all storable es
     \<and> im_last (written (PersistLogEntries i tr es) im) + 1 < W64"
| "storable_action a im \<longleftrightarrow> True"

abbreviation segment :: "raftRuntime \<Rightarrow> nat" where
  "segment r \<equiv> w_segment (fst (rt_wal r))"

abbreviation io_plan :: "raftRuntime \<Rightarrow> io_outcome list" where
  "io_plan r \<equiv> dk_plan (snd (rt_wal r))"

text \<open>
  What an operation on the log leaves in the runtime: \<open>x\<close> is its error, if there is one. Without failing
  I/O calls there is none.
\<close>

definition logged :: "WalIdentity \<Rightarrow> image \<Rightarrow> image \<Rightarrow> nat \<Rightarrow> raftRuntime \<Rightarrow> runtime_error option \<Rightarrow> raftRuntime \<Rightarrow> bool" where
  "logged ident im im' k r x r' \<longleftrightarrow> rt_core r' = rt_core r \<and> x \<noteq> Some CorePanic \<and> grows im im'
     \<and> (x = None \<longrightarrow> mirrors ident (rt_wal r') im' \<and> segment r' \<le> segment r + k)
     \<and> (x \<noteq> None \<longrightarrow> survived ident im (snd (rt_wal r')))
     \<and> (io_plan r = [] \<longrightarrow> x = None \<and> io_plan r' = [])"

lemma logged_saved:
  assumes "moves ident im im' k (rt_wal r) (operation (rt_wal r))"
  obtains x r' where "saved operation r = (x, r')" "logged ident im im' k r x r'"
proof -
  obtain y s where y: "operation (rt_wal r) = (y, s)" by (metis surj_pair)
  then have "logged ident im im' k r (fst (saved operation r)) (snd (saved operation r))"
    using assms by (cases y) (auto simp: saved_def logged_def moves_def)
  then show thesis using that [of "fst (saved operation r)" "snd (saved operation r)"] by simp
qed

lemma logged_frame:
  "logged ident im im' k r x r' \<Longrightarrow> logged ident im im' k r x (countSync r')"
  "logged ident im im' k r x r' \<Longrightarrow> logged ident im im' k r x (observe b es r')"
  "logged ident im im' k r x r' \<Longrightarrow> logged ident im im' k r x (r'\<lparr>rt_leaderMutations := m\<rparr>)"
  "logged ident im im' k (observe b es r) x r' \<Longrightarrow> logged ident im im' k r x r'"
  by (simp_all add: logged_def countSync_def observe_def split: if_splits)

lemma logged_trans:
  "logged ident im im1 j r None r1 \<Longrightarrow> logged ident im1 im2 k r1 x r' \<Longrightarrow> logged ident im im2 (j + k) r x r'"
  by (auto simp: logged_def intro: grows_trans survived_mono)

lemma logged_error: "logged ident im im1 j r (Some e) r' \<Longrightarrow> grows im im2 \<Longrightarrow> logged ident im im2 k r (Some e) r'"
  by (auto simp: logged_def)

lemma persistAction_log:
  assumes "mirrors ident (rt_wal r) im" "writable (PersistLogEntries i tr es) im" "storable_action (PersistLogEntries i tr es) im"
    "segment r + cost (PersistLogEntries i tr es) < W64"
  shows "\<exists>x r'. persistAction (PersistLogEntries i tr es) r = Some (x, r')
     \<and> logged ident im (written (PersistLogEntries i tr es) im) (cost (PersistLogEntries i tr es)) r x r'"
proof -
  define im1 where "im1 = (if tr = 0 then im else im\<lparr>im_Log := take (tr - im_Base im - 1) (im_Log im)\<rparr>)"
  have w: "written (PersistLogEntries i tr es) im = im1\<lparr>im_Log := im_Log im1 @ es\<rparr>" by (simp add: image_rules im1_def)
  have cut: "\<exists>x r1. (if tr \<noteq> 0 then saved (TruncateLog tr) r else (None, r)) = (x, r1) \<and> logged ident im im1 1 r x r1"
  proof (cases "tr = 0")
    case True
    then show ?thesis using assms(1) by (auto simp: logged_def im1_def)
  next
    case False
    have "moves ident im im1 1 (rt_wal r) (TruncateLog tr (rt_wal r))"
      using truncate_moves [OF assms(1), of tr] assms(2,4) False by (simp add: image_rules im1_def)
    then obtain x1 r1 where "saved (TruncateLog tr) r = (x1, r1)" "logged ident im im1 1 r x1 r1" by (rule logged_saved)
    then show ?thesis using False by auto
  qed
  then obtain x1 r1 where r1: "(if tr \<noteq> 0 then saved (TruncateLog tr) r else (None, r)) = (x1, r1)" "logged ident im im1 1 r x1 r1" by blast
  show ?thesis
  proof (cases x1)
    case (Some e)
    have "grows im (written (PersistLogEntries i tr es) im)" using assms(1,2) mirrors_last [OF assms(1)]
      by (auto simp: grows_def image_rules im_last_def)
    then show ?thesis using Some r1 by (auto simp: persistAction_def intro: logged_error)
  next
    case None
    have m1: "mirrors ident (rt_wal r1) im1" "segment r1 \<le> segment r + 1" using r1(2) None by (auto simp: logged_def)
    have last: "im_last im1 = (if tr = 0 then im_last im else tr - 1)"
      using mirrors_last [OF assms(1)] assms(2) by (auto simp: im1_def im_last_def image_rules)
    have "contiguous (im_last im1) es" "es \<noteq> []" using assms(2) last by (auto simp: image_rules split: if_splits)
    moreover have "list_all storable es" "im_last im1 + length es + 1 < W64" "segment r1 + length es < W64"
      using assms(3,4) m1(2) w by (simp_all add: im_last_def)
    ultimately have "moves ident im1 (im1\<lparr>im_Log := im_Log im1 @ es\<rparr>) (length es) (rt_wal r1) (SaveLogEntries (map toWal es) (rt_wal r1))"
      using save_entries_moves [OF m1(1)] by blast
    then obtain x2 r2 where r2: "saved (SaveLogEntries (map toWal es)) r1 = (x2, r2)"
      "logged ident im1 (im1\<lparr>im_Log := im_Log im1 @ es\<rparr>) (length es) r1 x2 r2" by (rule logged_saved)
    have l: "logged ident im (written (PersistLogEntries i tr es) im) (1 + length es) r x2 r2"
      using logged_trans [OF r1(2) [unfolded None] r2(2)] w by simp
    let ?r = "countSync r2" and ?m = "filter isMutation es"
    let ?o = "if rt_observing ?r \<and> n_role (rt_core ?r) = Leader
        then observe mutationAfterLocalPersistence ?m (?r\<lparr>rt_leaderMutations := fold (\<lambda>e. fmupd (le_Index e) e) ?m (rt_leaderMutations ?r)\<rparr>)
        else ?r"
    have p: "persistAction (PersistLogEntries i tr es) r = Some (x2, if x2 = None then ?o else r2)"
      using r1(1) r2(1) None unfolding persistAction_def Let_def by (cases x2) simp_all
    have "logged ident im (written (PersistLogEntries i tr es) im) (1 + length es) r x2 (if x2 = None then ?o else r2)"
      using l logged_frame(1) [OF l] logged_frame(2) [OF logged_frame(3) [OF logged_frame(1) [OF l]]] by (cases x2) auto
    then show ?thesis using p by simp
  qed
qed

lemma persistAction_logged:
  assumes "mirrors ident (rt_wal r) im" "writable a im" "storable_action a im" "segment r + cost a < W64"
  shows "\<exists>x r'. persistAction a r = Some (x, r') \<and> logged ident im (written a im) (cost a) r x r'"
proof (cases a)
  case (PersistHardState i t v)
  then have "moves ident im (written a im) 1 (rt_wal r) (SaveHardState \<lparr>wh_Term = t, wh_VotedFor = v\<rparr> (rt_wal r))"
    using save_hard_moves [OF assms(1), of i t v] assms(2-4) by simp
  then obtain x r' where "saved (SaveHardState \<lparr>wh_Term = t, wh_VotedFor = v\<rparr>) r = (x, r')"
    "logged ident im (written a im) 1 r x r'" by (rule logged_saved)
  then show ?thesis using PersistHardState by (cases x) (auto simp: persistAction_def intro: logged_frame)
next
  case (PersistLogEntries i tr es)
  then show ?thesis using persistAction_log assms by simp
next
  case (PersistCommitIndex i c)
  define committed where "committed = (if rt_observing r then committedLeaderMutations c r else [])"
  define r0 where "r0 = observe mutationAfterQuorumPersistence committed r"
  have r0: "rt_wal r0 = rt_wal r" by (simp add: r0_def observe_def)
  have "moves ident im (written a im) 1 (rt_wal r0) (SaveCommitIndex c (rt_wal r0))"
    using save_commit_moves [OF assms(1), of c] assms(2,4) PersistCommitIndex by (simp add: image_rules r0)
  then obtain x r' where s: "saved (SaveCommitIndex c) r0 = (x, r')" "logged ident im (written a im) 1 r0 x r'" by (rule logged_saved)
  then have l: "logged ident im (written a im) 1 r x r'" unfolding r0_def by (simp add: logged_frame(4))
  have "persistAction a r = Some (x, if x = None then (observe mutationAfterCommitment committed (countSync r'))
      \<lparr>rt_leaderMutations := fold (\<lambda>e. fmdrop (le_Index e)) committed (rt_leaderMutations (observe mutationAfterCommitment committed (countSync r')))\<rparr>
      else r')"
    using s(1) [unfolded r0_def committed_def] unfolding PersistCommitIndex persistAction_def committed_def Let_def
    by (cases x) simp_all
  then show ?thesis using PersistCommitIndex l logged_frame(3) [OF logged_frame(2) [OF logged_frame(1) [OF l]]] by (cases x) auto
qed (use assms(2) in \<open>simp_all add: image_rules\<close>)

lemma storing_persistAction: "\<not> storing a \<Longrightarrow> persistAction a r = None"
  by (cases a) (simp_all add: persistAction_def)

text \<open>The actions of an image that the node reaches are storable when the node is.\<close>

lemma owes_storable:
  assumes "owes im n (a # acts)" "storing a" "storable_node n" "node_wf n"
  shows "storable_action a im \<and> cost a \<le> 1 + length (n_log n)"
  using assms(1)
proof (cases rule: owes.cases)
  case (log as bs i p tr es)
  then have a: "a = PersistLogEntries i tr es" using assms(2) by (auto simp: Cons_eq_append_conv)
  have w: "written a im = image_of n" using log a by simp
  then have "im_Log (written a im) = n_log n" by simp
  then have "\<exists>xs. n_log n = xs @ es" unfolding a image_rules by (simp, metis)
  then have "set es \<subseteq> set (n_log n)" "length es \<le> length (n_log n)" by auto
  moreover have "im_last (written a im) + 1 < W64" unfolding w using assms(4) by (simp add: im_last_def wf_defs)
  ultimately show ?thesis using a assms(3) by (auto simp: storable_node_def list_all_iff)
next
  case (commit as bs i p)
  then have "a = PersistCommitIndex i (n_commitIndex n)" using assms(2) by (auto simp: Cons_eq_append_conv)
  then show ?thesis by simp
next
  case (hard as bs i p)
  then have "a = PersistHardState i (n_term n) (n_votedFor n)" using assms(2) by (auto simp: Cons_eq_append_conv)
  then show ?thesis using assms(3) by (simp add: storable_node_def)
qed (use assms(2) in simp)

text \<open>The entries of the log that have been applied.\<close>

definition applied_prefix :: "Node \<Rightarrow> LogEntry list" where
  "applied_prefix n = take (n_lastApplied n - n_logBaseIndex n) (n_log n)"

lemma applied_prefix_view: "log_view n = log_view m \<Longrightarrow> applied_prefix n = applied_prefix m"
  by (simp add: applied_prefix_def log_view_def)

fun replaces_log :: "Event \<Rightarrow> bool" where
  "replaces_log (SnapshotPersisted i) = True"
| "replaces_log (SnapshotCompacted i t) = True"
| "replaces_log ev = False"

lemma log_step_applied:
  assumes "log_step n ev acts n'" "node_wf n" "log_event_ok n ev" "\<not> replaces_log ev"
  shows "applied_prefix n' = applied_prefix n @ applied acts"
  using assms
proof cases
  case keeps
  then show ?thesis using applied_prefix_view [of n' n] applied_plain by simp
next
  case (appends e)
  have "applied_prefix (with_log n (n_log n @ [e])) = applied_prefix n"
    using assms(2) by (auto simp: applied_prefix_def with_log_def wf_defs)
  then show ?thesis using appends applied_prefix_view [of n'] applied_plain by simp
next
  case (follows req new trunc)
  have "contiguous (ae_PrevLogIndex req) (ae_Entries req)" using assms(3) follows by (simp add: log_event_ok_def event_ok_def)
  then have "n_commitIndex n < le_Index (hd new)"
    using pick_new_spec [OF follows(5) _ follows(3)] follows(6) assms(2) by (auto simp: wf_defs)
  then have "applied_prefix (with_log n (take (le_Index (hd new) - n_logBaseIndex n - 1) (n_log n) @ new)) = applied_prefix n"
    using assms(2) by (auto simp: applied_prefix_def with_log_def wf_defs min_def)
  then show ?thesis using follows applied_prefix_view [of n'] applied_plain by simp
next
  case (commits c)
  then show ?thesis using applied_prefix_view [of n' "n\<lparr>n_commitIndex := c\<rparr>"] applied_plain by (simp add: applied_prefix_def)
next
  case (applies i p c)
  have "n_lastApplied n \<le> c" "n_logBaseIndex n \<le> n_lastApplied n" using applies(3) assms(2) by (auto simp: wf_defs)
  then have "c - n_logBaseIndex n = (n_lastApplied n - n_logBaseIndex n) + (c - n_lastApplied n)" by simp
  moreover have "applied_prefix n' = take (c - n_logBaseIndex n) (n_log n)" using applies(4) by (simp add: log_view_def applied_prefix_def)
  ultimately show ?thesis using applies(5) by (simp add: take_add applied_prefix_def)
qed (use assms(4) in simp_all)

text \<open>
  What holds of a node and the actions that it has asked for since the applied entries were \<open>P\<close>: they
  promise no vote but the one the node has cast in its Term, and they apply the entries that follow \<open>P\<close>.
\<close>

definition tracks :: "LogEntry list \<Rightarrow> Action list \<Rightarrow> Node \<Rightarrow> bool" where
  "tracks P acts n \<longleftrightarrow> vote_inv n \<and> settled n \<and> promises acts \<subseteq> {(n_votedFor n, n_term n)} \<and> applied_prefix n = P @ applied acts"

lemma idle_tracks: "idle n \<Longrightarrow> tracks (applied_prefix n) [] n"
  by (simp add: tracks_def vote_inv_def commit_quiet_def settled_def after_plain_def idle_defs)

lemma tracks_storing: "storing a \<Longrightarrow> tracks P (as @ a # bs) n = tracks P (as @ bs) n"
  by (cases a) (auto simp: tracks_def promises_def)

lemma Step_tracks:
  assumes "tracks P acts n" "node_wf n" "log_event_ok n ev" "\<not> replaces_log ev" "Step n ev = Some (n', new)" "acts = [] \<or> same_content n' n"
  shows "tracks P (acts @ new) n'"
proof -
  have n: "vote_inv n" "settled n" using assms(1) by (simp_all add: tracks_def)
  note log = Step_log [OF assms(2) n(2) assms(3,5)]
  have "promises acts \<subseteq> {(n_votedFor n', n_term n')}" using assms(1,6) by (auto simp: tracks_def same_content_def)
  moreover have "promises (acts @ new) = promises acts \<union> promises new" by (auto simp: promises_def)
  ultimately show ?thesis
    using Step_vote_inv [OF n(1) assms(5)] log_step_settled [OF log] log_step_applied [OF log assms(2-4)] assms(1) by (auto simp: tracks_def)
qed

text \<open>
  \<open>returned\<close> says how \<open>step\<close> ends: without an error the node is idle and the log holds its image; an
  error is one of the log's, there is none unless an I/O call fails, and then the disk still opens to an
  image that follows \<open>im\<close>.
\<close>

definition returned :: "WalIdentity \<Rightarrow> image \<Rightarrow> LogEntry list \<Rightarrow> io_outcome list \<Rightarrow> nat \<Rightarrow> (runtime_error + Action list) \<times> raftRuntime \<Rightarrow> bool" where
  "returned ident im P plan k out \<longleftrightarrow>
    (case out of
       (Inr emitted, r) \<Rightarrow> idle (rt_core r) \<and> node_wf (rt_core r) \<and> mirrors ident (rt_wal r) (image_of (rt_core r))
         \<and> segment r \<le> k \<and> calm emitted \<and> (plan = [] \<longrightarrow> io_plan r = []) \<and> tracks P emitted (rt_core r)
         \<and> grows im (image_of (rt_core r)) \<and> storable_node (rt_core r)
     | (Inl e, r) \<Rightarrow> e \<noteq> CorePanic \<and> plan \<noteq> [] \<and> survived ident im (snd (rt_wal r)))"

lemma drain_returns:
  assumes "owes im (rt_core r) pending" "mirrors ident (rt_wal r) im" "node_wf (rt_core r)" "storable_node (rt_core r)" "calm emitted"
    "segment r + total_work pending * (1 + length (n_log (rt_core r))) \<le> k" "k < W64" "plan = [] \<longrightarrow> io_plan r = []"
    "tracks P (emitted @ pending) (rt_core r)" "grows im0 im"
  shows "\<exists>out. drain pending emitted r = Some out \<and> returned ident im0 P plan k out"
  using assms
proof (induction pending arbitrary: im r emitted rule: wf_induct_rule [OF wf_measures [of "[total_work, length]"]])
  case (1 pending)
  let ?n = "rt_core r"
  show ?case
  proof (cases pending)
    case Nil
    then show ?thesis using "1.prems" owes_end [of im ?n] by (simp add: drain.simps returned_def)
  next
    case (Cons a acts)
    show ?thesis
    proof (cases "storing a")
      case False
      have "owes im ?n acts" using owes_emit "1.prems"(1) Cons False by blast
      moreover have "total_work acts = total_work pending" using Cons False work_zero [of a] by simp
      moreover have "(acts, pending) \<in> measures [total_work, length]" using Cons False by (simp add: work_zero)
      ultimately have "\<exists>out. drain acts (emitted @ [a]) r = Some out \<and> returned ident im0 P plan k out"
        using "1.IH" [of acts im r "emitted @ [a]"] "1.prems" False Cons by simp
      then show ?thesis using Cons storing_persistAction [OF False] by (subst drain.simps) simp
    next
      case True
      have owe: "owes im ?n (a # acts)" using "1.prems"(1) Cons by simp
      note s = owes_store [OF owe True "1.prems"(3)] owes_storable [OF owe True "1.prems"(4,3)]
      let ?l = "1 + length (n_log ?n)"
      have "0 < work a" using True by (simp add: zero_less_iff_neq_zero work_zero)
      then have "?l \<le> work a * ?l" by (cases "work a") simp_all
      then have room: "segment r + cost a \<le> k" using s(2) "1.prems"(6) Cons by (simp add: distrib_right)
      obtain x r' where p: "persistAction a r = Some (x, r')" "logged ident im (written a im) (cost a) r x r'"
        using persistAction_logged [OF "1.prems"(2) conjunct1 [OF s(1)] conjunct1 [OF s(2)]] room "1.prems"(7) by auto
      show ?thesis
      proof (cases x)
        case (Some e)
        then show ?thesis using Cons p "1.prems"(8,10) by (subst drain.simps) (auto simp: returned_def logged_def intro: survived_mono)
      next
        case None
        have r': "rt_core r' = ?n" "mirrors ident (rt_wal r') (written a im)" "segment r' \<le> segment r + cost a"
          "io_plan r = [] \<longrightarrow> io_plan r' = []" "grows im0 (written a im)"
          using p(2) None "1.prems"(10) by (auto simp: logged_def intro: grows_trans)
        have ev: "event_ok ?n (completion a)" "\<not> replaces_log (completion a)"
          using True s(1) by (cases a; simp add: event_ok_def image_rules)+
        from Step_settles [OF "1.prems"(3) ev(1)]
        obtain n new where n: "Step ?n (completion a) = Some (n, new)" "node_wf n" by (auto simp: settles_def)
        have o: "owes (written a im) n (acts @ new)" "total_work new < work a" "same_content n ?n" using s(1) n(1) by auto
        have "log_event_ok ?n (completion a)" using ev by (auto simp: log_event_ok_def)
        then have t: "tracks P (emitted @ acts @ new) n"
          using Step_tracks [of P "emitted @ acts" ?n, OF _ "1.prems"(3) _ ev(2) n(1)] o(3) "1.prems"(9) Cons tracks_storing [OF True] by simp
        have small: "total_work new + 1 \<le> work a" using o(2) by simp
        then have "(total_work new + 1) * ?l \<le> work a * ?l" by (rule mult_le_mono1)
        then have "segment r' + total_work (acts @ new) * ?l \<le> k"
          using r'(3) s(2) "1.prems"(6) Cons by (simp add: distrib_right)
        moreover have "storable_node n" "n_log n = n_log ?n" using o(3) "1.prems"(4) by (auto simp: same_content_def storable_node_def)
        moreover have "(acts @ new, pending) \<in> measures [total_work, length]" using Cons o(2) by simp
        ultimately have "\<exists>out. drain (acts @ new) emitted (r'\<lparr>rt_core := n\<rparr>) = Some out \<and> returned ident im0 P plan k out"
          using "1.IH" [of "acts @ new" "written a im" "r'\<lparr>rt_core := n\<rparr>" emitted] "1.prems"(5,7,8) o(1) n(2) r' t by simp
        then show ?thesis using Cons p(1) None n(1) r'(1) by (subst drain.simps) simp
      qed
    qed
  qed
qed

text \<open>
  The events that a runtime at rest can take: in range for the core, and what the core makes of it fits
  the records of the log.
\<close>

definition event_fits :: "Event \<Rightarrow> raftRuntime \<Rightarrow> bool" where
  "event_fits ev r \<longleftrightarrow> event_ok (rt_core r) ev \<and> outside (rt_core r) ev \<and> n_term (rt_core r) + 1 < W64
     \<and> (case Step (rt_core r) ev of None \<Rightarrow> True | Some (n, acts) \<Rightarrow>
          storable_node n \<and> segment r + total_work acts * (1 + length (n_log n)) < W64)"

definition at_rest :: "WalIdentity \<Rightarrow> raftRuntime \<Rightarrow> bool" where
  "at_rest ident r \<longleftrightarrow> idle (rt_core r) \<and> node_wf (rt_core r) \<and> mirrors ident (rt_wal r) (image_of (rt_core r))"

lemma step_returns:
  assumes "at_rest ident r" "event_fits ev r"
  shows "\<exists>out. runtime_step ev r = Some out
    \<and> (case out of
         (Inr emitted, r') \<Rightarrow> at_rest ident r' \<and> calm emitted \<and> (io_plan r = [] \<longrightarrow> io_plan r' = [])
            \<and> tracks (applied_prefix (rt_core r)) emitted (rt_core r') \<and> grows (image_of (rt_core r)) (image_of (rt_core r'))
            \<and> (\<forall>n acts. Step (rt_core r) ev = Some (n, acts) \<longrightarrow> segment r' \<le> segment r + total_work acts * (1 + length (n_log n)))
       | (Inl e, r') \<Rightarrow> e \<noteq> CorePanic \<and> io_plan r \<noteq> [] \<and> survived ident (image_of (rt_core r)) (snd (rt_wal r')))"
proof -
  let ?n = "rt_core r"
  have n: "idle ?n" "node_wf ?n" "mirrors ident (rt_wal r) (image_of ?n)" "event_ok ?n ev" "outside ?n ev" "n_term ?n + 1 < W64"
    using assms by (simp_all add: at_rest_def event_fits_def)
  obtain m acts where m: "Step ?n ev = Some (m, acts)" "node_wf m" using Step_settles [OF n(2,4)] by (auto simp: settles_def)
  have fits: "storable_node m" "segment r + total_work acts * (1 + length (n_log m)) < W64"
    using assms(2) m(1) by (simp_all add: event_fits_def)
  have "log_event_ok ?n ev" "\<not> replaces_log ev" using n(4,5) by (cases ev; simp add: log_event_ok_def)+
  then have t: "tracks (applied_prefix ?n) acts m" using Step_tracks [OF idle_tracks [OF n(1)] n(2) _ _ m(1)] by simp
  have "owes (image_of ?n) m acts" using Step_owes [OF n(1,2,4-6) m(1)] .
  then obtain out where "drain acts [] (r\<lparr>rt_core := m\<rparr>) = Some out"
    "returned ident (image_of ?n) (applied_prefix ?n) (io_plan r) (segment r + total_work acts * (1 + length (n_log m))) out"
    using drain_returns [of "image_of ?n" "r\<lparr>rt_core := m\<rparr>" acts ident "[]" "segment r + total_work acts * (1 + length (n_log m))"
        "io_plan r" "applied_prefix ?n" "image_of ?n"]
      n(3) m(2) fits t by auto
  then show ?thesis using m(1) by (auto simp: runtime_step_def returned_def at_rest_def split: sum.splits)
qed

end
