(* ===== verification/Node_History.thy ===== *)
theory Node_History
  imports Node_Runtime "HOL-Library.Sublist"
begin

text \<open>
  The life of one Node: the start of \<open>runRaft\<close> (\<open>src/internal/node/runtime_loop.go\<close>), which rebuilds the
  session machine from the recovered Snapshot and the committed log, and histories in which the Node
  handles events, stops at any I/O call of a step and starts again from what a crash left of its files.

  The histories are those of a Node that has not installed a Snapshot yet, so its log starts at index 1.
\<close>

section \<open>Starting\<close>

datatype start_error = RestoreState restore_error | RecoverStep runtime_error | UnexpectedAction Action | ApplyPanic

text \<open>The recovery loop: every action must apply an entry.\<close>

fun applyRecovery :: "Action list \<Rightarrow> sessionMachine \<Rightarrow> start_error + sessionMachine" where
  "applyRecovery [] sm = Inr sm"
| "applyRecovery (ApplyEntry e # actions) sm =
    (case apply_entry sm e of None \<Rightarrow> Inl ApplyPanic | Some (_, sm') \<Rightarrow> applyRecovery actions sm')"
| "applyRecovery (action # actions) sm = Inl (UnexpectedAction action)"

definition startRaft :: "Config \<Rightarrow> raftRuntime \<Rightarrow> ((start_error + sessionMachine) \<times> raftRuntime) option" where
  "startRaft cfg r =
    (case restore (newSessionMachine (cfg_ActiveSessionLimit cfg)) (rt_recoveredSnapshot r) of
       Inl e \<Rightarrow> Some (Inl (RestoreState e), r)
     | Inr sessions \<Rightarrow>
         (case runtime_step RecoverCommitted r of
            None \<Rightarrow> None
          | Some (Inl e, r') \<Rightarrow> Some (Inl (RecoverStep e), r')
          | Some (Inr recovery, r') \<Rightarrow> Some (applyRecovery recovery sessions, r')))"

section \<open>Histories\<close>

text \<open>A Node that comes up on a disk without installed Snapshots.\<close>

definition boots :: "Config \<Rightarrow> NodeID list \<Rightarrow> Disk \<Rightarrow> raftRuntime \<Rightarrow> sessionMachine \<Rightarrow> bool" where
  "boots cfg peers disk r sm \<longleftrightarrow>
    (\<exists>r0 s. openRaftRuntime cfg peers fmempty disk = (Inr r0, s) \<and> startRaft cfg r0 = Some (Inr sm, r))"

definition with_plan :: "io_outcome list \<Rightarrow> raftRuntime \<Rightarrow> raftRuntime" where
  "with_plan plan r = r\<lparr>rt_wal := (fst (rt_wal r), (snd (rt_wal r))\<lparr>dk_plan := plan\<rparr>)\<rparr>"

type_synonym life = "raftRuntime \<times> sessionMachine \<times> Action list"

text \<open>
  \<open>handles\<close>: an event is handled and its entries are applied. \<open>restarts\<close>: the process stops between two
  events. \<open>fails\<close>: it stops at an I/O call of a step, and the actions of the step are lost. The third
  component collects the actions that have left the Node.
\<close>

inductive lives :: "Config \<Rightarrow> NodeID list \<Rightarrow> life \<Rightarrow> life \<Rightarrow> bool" for cfg peers where
  handles: "event_fits ev r \<Longrightarrow> runtime_step ev (with_plan plan r) = Some (Inr acts, r') \<Longrightarrow> apply_all sm (applied acts) = Some sm'
    \<Longrightarrow> lives cfg peers (r, sm, out) (r', sm', out @ acts)"
| restarts: "boots cfg peers (crashed cuts (snd (rt_wal r))) r' sm' \<Longrightarrow> lives cfg peers (r, sm, out) (r', sm', out)"
| fails: "event_fits ev r \<Longrightarrow> runtime_step ev (with_plan plan r) = Some (Inl e, r1)
    \<Longrightarrow> boots cfg peers (crashed cuts (snd (rt_wal r1))) r' sm' \<Longrightarrow> lives cfg peers (r, sm, out) (r', sm', out)"

inductive_cases livesE: "lives cfg peers l l'"

section \<open>Coming up\<close>

lemma toWal_types: "storable e \<Longrightarrow> we_Type (toWal e) \<le> entryTypeCode EntryDelete \<and> fromWal (toWal e) = e"
  by (cases "le_Type e") (auto simp: storable_def toWal_def fromWal_def entryTypeOf_def)

lemma apply_entry_storable: "storable e \<Longrightarrow> apply_entry sm e \<noteq> None"
  by (cases "le_Type e") (auto simp: storable_def apply_entry_def)

lemma apply_all_storable: "list_all storable es \<Longrightarrow> \<exists>sm'. apply_all sm es = Some sm'"
proof (induction es arbitrary: sm)
  case (Cons e es)
  then show ?case using apply_entry_storable [of e sm] by (cases "apply_entry sm e") auto
qed simp

lemma applyRecovery_entries: "apply_all sm es = Some sm' \<Longrightarrow> applyRecovery (map ApplyEntry es) sm = Inr sm'"
  by (induction es arbitrary: sm) (auto split: option.splits)

lemma drain_calm: "calm acts \<Longrightarrow> drain acts emitted r = Some (Inr (emitted @ acts), r)"
proof (induction acts arbitrary: emitted)
  case Nil
  then show ?case by (simp add: drain.simps)
next
  case (Cons a acts)
  then show ?case by (subst drain.simps) (simp add: storing_persistAction)
qed

text \<open>The core that an image opens to, after the recovery step.\<close>

definition core_of :: "Config \<Rightarrow> NodeID list \<Rightarrow> image \<Rightarrow> Node" where
  "core_of cfg peers im = NewNodeFromRecoveredState (ns_ID (cfg_Node cfg)) peers
     \<lparr>rs_HardState = \<lparr>hs_Term = im_Term im, hs_VotedFor = im_VotedFor im\<rparr>, rs_Log = im_Log im, rs_CommitIndex = im_Commit im,
      rs_SnapshotIndex = 0, rs_SnapshotTerm = 0\<rparr>"

lemma core_of_recovers:
  assumes "image_wf im" "im_Base im = 0"
  shows "\<exists>n. Step (core_of cfg peers im) RecoverCommitted = Some (n, map ApplyEntry (take (im_Commit im) (im_Log im)))
    \<and> idle n \<and> node_wf n \<and> image_of n = im \<and> applied_prefix n = take (im_Commit im) (im_Log im)
    \<and> (im_Commit im = 0 \<longrightarrow> n = core_of cfg peers im) \<and> core n = core ((core_of cfg peers im)\<lparr>n_lastApplied := im_Commit im\<rparr>)"
proof -
  let ?r = "\<lparr>rs_HardState = \<lparr>hs_Term = im_Term im, hs_VotedFor = im_VotedFor im\<rparr>, rs_Log = im_Log im, rs_CommitIndex = im_Commit im,
      rs_SnapshotIndex = 0, rs_SnapshotTerm = 0\<rparr>"
  have trim: "trimRecovered ?r = ?r" by (simp add: trimRecovered_def)
  have ok: "recovered_ok ?r" using assms by (auto simp: recovered_ok_def trim image_wf_def im_last_def)
  let ?n = "core_of cfg peers im"
  have fields: "n_lastApplied ?n = 0" "n_durableCommitIndex ?n = im_Commit im" "n_pendingReads ?n = fmempty" "n_logBaseIndex ?n = 0"
    "n_log ?n = im_Log im" "idle_hard ?n" "idle_log ?n" "n_pendingCommit ?n = Map.empty" "n_pendingSnapshot ?n = Map.empty"
    "n_commitIndex ?n = im_Commit im" "image_of ?n = im" "n_role ?n = Follower"
    using assms(2) by (simp_all add: core_of_def NewNodeFromRecoveredState_def trim Let_def idle_defs)
  have wf: "node_wf ?n" unfolding core_of_def by (rule recovered_node_wf [OF ok])
  obtain n where n: "Step ?n RecoverCommitted = Some (n, map ApplyEntry (take (im_Commit im) (im_Log im)))" "node_wf n"
    using recover_committed [OF ok, of "ns_ID (cfg_Node cfg)" peers] trim by (auto simp: core_of_def)
  have "im_Commit im \<le> n_lastLogIndex ?n" using wf fields by (auto simp: wf_defs)
  then have same: "core n = core (?n\<lparr>n_lastApplied := im_Commit im\<rparr>)"
    using applyThrough_calm(1) [OF wf, of "im_Commit im"] n(1) fields by simp
  note core = idle_core [OF this]
  have "log_view n = log_view (?n\<lparr>n_lastApplied := im_Commit im\<rparr>)"
    using \<open>core n = _\<close> by (simp add: core_fields [OF \<open>core n = _\<close>] log_view_def)
  then have "applied_prefix n = take (im_Commit im) (im_Log im)" using fields by (simp add: log_view_def applied_prefix_def)
  moreover have "idle n" "image_of n = im" using core fields by (auto simp: idle_defs)
  moreover have "im_Commit im = 0 \<longrightarrow> n = ?n"
    using n(1) fields(1-3) completeReads_none [OF fields(3)] by (cases "im_Commit im = 0") (simp_all add: applyThrough_def)
  ultimately show ?thesis using n same by (intro exI [of _ n] conjI) assumption+
qed

text \<open>How a Node comes up on a log that holds an image.\<close>

definition comes_up :: "Config \<Rightarrow> NodeID list \<Rightarrow> image \<Rightarrow> store \<Rightarrow> raftRuntime \<Rightarrow> sessionMachine \<Rightarrow> bool" where
  "comes_up cfg peers im s r sm \<longleftrightarrow> at_rest (walIdentity cfg) r \<and> image_of (rt_core r) = im \<and> rt_wal r = s
     \<and> apply_all (newSessionMachine (cfg_ActiveSessionLimit cfg)) (applied_prefix (rt_core r)) = Some sm
     \<and> (im_Commit im = 0 \<longrightarrow> rt_core r = core_of cfg peers im)
     \<and> core (rt_core r) = core ((core_of cfg peers im)\<lparr>n_lastApplied := im_Commit im\<rparr>)"

lemma LoadNewest_none: "co_SnapshotIndex co = 0 \<Longrightarrow> LoadNewest fmempty co = Inr None"
  by (simp add: LoadNewest_def matching_def sorted_list_of_fset.rep_eq)

lemma open_from_log:
  assumes "openWAL (walIdentity cfg) defaultSegmentSize disk = (Inr st, s)" "holds (walIdentity cfg) im st" "image_wf im" "im_Base im = 0"
  shows "\<exists>r0. openRaftRuntime cfg peers fmempty disk = (Inr r0, s) \<and> rt_core r0 = core_of cfg peers im \<and> rt_wal r0 = s
    \<and> rt_recoveredSnapshot r0 = None"
proof -
  have st: "ws_Log st = map toWal (im_Log im)" "ws_SnapshotIndex st = 0" "ws_CommitIndex st = im_Commit im"
    "ws_HardState st = walHard im" using assms(2,4) by (simp_all add: holds_def)
  have log: "list_all storable (im_Log im)" using assms(3) by (simp add: image_wf_def)
  have "we_Type e \<le> entryTypeCode EntryDelete" if "e \<in> set (ws_Log st)" for e
    using that log toWal_types by (auto simp: st list_all_iff)
  then have none: "find (\<lambda>e. we_Type e > entryTypeCode EntryDelete) (ws_Log st) = None"
    unfolding find_None_iff using not_less by blast
  have "map fromWal (ws_Log st) = im_Log im" using log toWal_types by (simp add: st list_all_iff map_idI)
  then show ?thesis unfolding openRaftRuntime_def assms(1) none prod.case sum.case option.case
    by (simp add: LoadNewest_none st core_of_def walHard_def)
qed

lemma start_from_log:
  assumes "rt_core r0 = core_of cfg peers im" "rt_wal r0 = s" "rt_recoveredSnapshot r0 = None" "image_wf im" "im_Base im = 0"
    "stores s R st" "holds (walIdentity cfg) im st"
  shows "\<exists>r sm. startRaft cfg r0 = Some (Inr sm, r) \<and> comes_up cfg peers im s r sm"
proof -
  have log: "list_all storable (im_Log im)" using assms(4) by (simp add: image_wf_def)
  from core_of_recovers [OF assms(4,5), of cfg peers]
  obtain n where n: "Step (core_of cfg peers im) RecoverCommitted = Some (n, map ApplyEntry (take (im_Commit im) (im_Log im)))"
    "idle n" "node_wf n" "image_of n = im" "applied_prefix n = take (im_Commit im) (im_Log im)"
    "im_Commit im = 0 \<longrightarrow> n = core_of cfg peers im" "core n = core ((core_of cfg peers im)\<lparr>n_lastApplied := im_Commit im\<rparr>)"
    by (elim exE conjE)
  let ?acts = "map ApplyEntry (take (im_Commit im) (im_Log im))" and ?new = "newSessionMachine (cfg_ActiveSessionLimit cfg)"
  obtain sm where sm: "apply_all ?new (take (im_Commit im) (im_Log im)) = Some sm"
    using apply_all_storable [of "take (im_Commit im) (im_Log im)" ?new] log by (auto simp: list_all_take)
  have "calm ?acts" by (simp add: list_all_iff)
  then have "runtime_step RecoverCommitted r0 = Some (Inr ?acts, r0\<lparr>rt_core := n\<rparr>)"
    using n(1) assms(1) by (simp add: runtime_step_def drain_calm)
  then have "startRaft cfg r0 = Some (Inr sm, r0\<lparr>rt_core := n\<rparr>)"
    using assms(3) applyRecovery_entries [OF sm] by (simp add: startRaft_def restore_def)
  moreover have "comes_up cfg peers im s (r0\<lparr>rt_core := n\<rparr>) sm"
    unfolding comes_up_def at_rest_def mirrors_def using n sm assms(2,4,6,7) by auto
  ultimately show ?thesis by blast
qed

lemma boots_from_log:
  assumes "openWAL (walIdentity cfg) defaultSegmentSize disk = (Inr st, s)" "stores s R st" "holds (walIdentity cfg) im st"
    "image_wf im" "im_Base im = 0"
  shows "\<exists>r sm. boots cfg peers disk r sm \<and> comes_up cfg peers im s r sm"
    "boots cfg peers disk r sm \<Longrightarrow> comes_up cfg peers im s r sm"
proof -
  obtain r0 where r0: "openRaftRuntime cfg peers fmempty disk = (Inr r0, s)" "rt_core r0 = core_of cfg peers im"
    "rt_wal r0 = s" "rt_recoveredSnapshot r0 = None"
    using open_from_log [OF assms(1,3-5), of peers] by blast
  obtain r1 sm1 where r1: "startRaft cfg r0 = Some (Inr sm1, r1)" "comes_up cfg peers im s r1 sm1"
    using start_from_log [OF r0(2-4) assms(4,5,2,3)] by blast
  show "\<exists>r sm. boots cfg peers disk r sm \<and> comes_up cfg peers im s r sm" using r0(1) r1 unfolding boots_def by blast
  show "boots cfg peers disk r sm \<Longrightarrow> comes_up cfg peers im s r sm" using r0(1) r1 unfolding boots_def by auto
qed

section \<open>The invariant of histories\<close>

text \<open>
  A vote that has left the Node is in the past or is the one of its Term; the machine has applied what
  is committed.
\<close>

definition binding :: "Action list \<Rightarrow> Node \<Rightarrow> bool" where
  "binding out n \<longleftrightarrow> (\<forall>c t. (c, t) \<in> promises out \<longrightarrow> c \<noteq> [] \<longrightarrow> t < n_term n \<or> t = n_term n \<and> c = n_votedFor n)"

definition one_vote :: "Action list \<Rightarrow> bool" where
  "one_vote out \<longleftrightarrow> single_valued {(t, c). (c, t) \<in> promises out \<and> c \<noteq> []}"

definition alive :: "Config \<Rightarrow> life \<Rightarrow> bool" where
  "alive cfg l \<longleftrightarrow> (case l of (r, sm, out) \<Rightarrow> at_rest (walIdentity cfg) r \<and> n_logBaseIndex (rt_core r) = 0
     \<and> apply_all (newSessionMachine (cfg_ActiveSessionLimit cfg)) (applied_prefix (rt_core r)) = Some sm
     \<and> binding out (rt_core r) \<and> one_vote out)"

lemma with_plan_fields [simp]:
  "rt_core (with_plan plan r) = rt_core r" "io_plan (with_plan plan r) = plan" "segment (with_plan plan r) = segment r"
  by (simp_all add: with_plan_def)

lemma with_plan_fits [simp]: "event_fits ev (with_plan plan r) = event_fits ev r"
  by (simp add: event_fits_def split: option.split)

lemma stores_plan: "stores (w, d\<lparr>dk_plan := plan\<rparr>) R st = stores (w, d) R st"
  by (simp add: stores_def writing_def old_synced_def synced_to_def)

lemma with_plan_rest: "at_rest ident (with_plan plan r) = at_rest ident r"
proof -
  obtain w d where "rt_wal r = (w, d)" by (cases "rt_wal r")
  then show ?thesis by (simp add: at_rest_def mirrors_def stores_plan with_plan_def)
qed

lemma binding_grows:
  assumes "binding out n" "grows (image_of n) (image_of m)"
  shows "binding out m"
  using assms unfolding binding_def grows_def by fastforce

lemma one_vote_more:
  assumes "one_vote out" "binding out m" "promises acts \<subseteq> {(n_votedFor m, n_term m)}"
  shows "one_vote (out @ acts)" "binding (out @ acts) m"
proof -
  have new: "c = n_votedFor m \<and> t = n_term m" if "(c, t) \<in> promises acts" for c t using assms(3) that by blast
  have old: "t < n_term m \<or> t = n_term m \<and> c = n_votedFor m" if "(c, t) \<in> promises out" "c \<noteq> []" for c t
    using assms(2) that by (simp add: binding_def)
  have both: "c = c'" if "(c, t) \<in> promises out \<union> promises acts" "(c', t) \<in> promises out \<union> promises acts" "c \<noteq> []" "c' \<noteq> []" for c c' t
  proof (cases "(c, t) \<in> promises out \<and> (c', t) \<in> promises out")
    case True
    then show ?thesis using assms(1) that(3,4) unfolding one_vote_def single_valued_def by blast
  next
    case False
    then have "t = n_term m" using that new by blast
    then show ?thesis using that new old by (metis Un_iff less_irrefl)
  qed
  show "one_vote (out @ acts)" unfolding one_vote_def single_valued_def promises_simps mem_Collect_eq prod.case using both by blast
  show "binding (out @ acts) m" unfolding binding_def using new old by auto
qed

lemma idle_applied: "idle n \<Longrightarrow> applied_prefix n = take (n_commitIndex n - n_logBaseIndex n) (n_log n)"
  by (simp add: applied_prefix_def idle_defs)

lemma survived_boots:
  assumes "survived (walIdentity cfg) im d" "im_Base im = 0" "can_open (walIdentity cfg) defaultSegmentSize"
    "boots cfg peers (crashed cuts d) r sm"
  obtains im' s where "comes_up cfg peers im' s r sm" "grows im im'"
proof -
  obtain x s where open': "openWAL (walIdentity cfg) defaultSegmentSize (crashed cuts d) = (x, s)" by (metis surj_pair)
  have "case x of Inl e \<Rightarrow> e = ShortHeader | Inr st \<Rightarrow> (\<exists>R. stores s R st) \<and> comes (walIdentity cfg) im st"
    using assms(1,3) open' unfolding survived_def by (metis (no_types, lifting) prod.case sum.case_distrib)
  moreover have "\<exists>st. x = Inr st"
    using assms(4) open' by (cases x) (auto simp: boots_def openRaftRuntime_def)
  ultimately obtain st R im' where st: "x = Inr st" "stores s R st" "holds (walIdentity cfg) im' st" "image_wf im'" "grows im im'"
    by (auto simp: comes_def)
  moreover have "im_Base im' = 0" using st(5) assms(2) by (simp add: grows_def)
  ultimately have "comes_up cfg peers im' s r sm" using boots_from_log(2) [of cfg _ st s R im' peers r sm] open' assms(4) by simp
  then show thesis using that st(5) by blast
qed

lemma mirrors_reopens:
  assumes "mirrors ident s im" "can_open ident limit"
  shows "\<exists>st s' R. openWAL ident limit (crashed cuts (snd s)) = (Inr st, s') \<and> stores s' R st \<and> holds ident im st"
proof -
  obtain R st where st: "stores s R st" "holds ident im st" "image_wf im" using assms(1) by (rule mirrorsE)
  obtain w d where s: "s = (w, d)" by (cases s)
  have ident: "ws_Identity st = ident" using st(2) by (simp add: holds_def)
  have w: "whole_header d R []" using st(1) unfolding s stores_def
    by (auto elim!: writing_fullE simp: whole_header_def grown_def) (metis order_refl take_all torn_Nil length_append)
  obtain k s' where "openWAL ident limit (crashed cuts d) = (Inr st, s')" "stores s' (R @ take k []) st"
    by (rule reopen_whole [OF crashed_whole [OF w] crashed_fields(1) stable_crashed assms(2), of "\<lambda>_. st"])
      (use st(1) ident in \<open>auto simp: stores_def\<close>)
  then show ?thesis using st(2) s by auto
qed

lemma mirrors_survived:
  assumes "mirrors ident s im"
  shows "survived ident im (snd s)"
  unfolding survived_def
proof (intro allI impI)
  fix limit cuts
  assume "can_open ident limit"
  from mirrors_reopens [OF assms this]
  obtain st s' R where "openWAL ident limit (crashed cuts (snd s)) = (Inr st, s')" "stores s' R st" "holds ident im st" by blast
  then show "case openWAL ident limit (crashed cuts (snd s)) of (Inl e, s) \<Rightarrow> e = ShortHeader
    | (Inr st, s) \<Rightarrow> (\<exists>R. stores s R st) \<and> comes ident im st"
    using assms grows_refl by (auto simp: comes_def mirrors_def)
qed

lemma rest_reboots:
  assumes "at_rest (walIdentity cfg) r" "n_logBaseIndex (rt_core r) = 0" "can_open (walIdentity cfg) defaultSegmentSize"
  shows "\<exists>r' sm'. boots cfg peers (crashed cuts (snd (rt_wal r))) r' sm'"
proof -
  have m: "mirrors (walIdentity cfg) (rt_wal r) (image_of (rt_core r))" using assms(1) by (simp add: at_rest_def)
  then have wf: "image_wf (image_of (rt_core r))" "im_Base (image_of (rt_core r)) = 0" using assms(2) by (simp_all add: mirrors_def)
  obtain st s' R where "openWAL (walIdentity cfg) defaultSegmentSize (crashed cuts (snd (rt_wal r))) = (Inr st, s')" "stores s' R st"
    "holds (walIdentity cfg) (image_of (rt_core r)) st"
    using mirrors_reopens [OF m assms(3)] by blast
  from boots_from_log(1) [OF this wf] show ?thesis by blast
qed

lemma boots_alive:
  assumes "alive cfg (r, sm, out)" "survived (walIdentity cfg) (image_of (rt_core r)) d" "can_open (walIdentity cfg) defaultSegmentSize"
    "boots cfg peers (crashed cuts d) r' sm'"
  shows "alive cfg (r', sm', out) \<and> grows (image_of (rt_core r)) (image_of (rt_core r'))" "\<exists>im s. comes_up cfg peers im s r' sm'"
proof -
  have base: "im_Base (image_of (rt_core r)) = 0" using assms(1) by (simp add: alive_def)
  obtain im' s where up: "comes_up cfg peers im' s r' sm'" "grows (image_of (rt_core r)) im'"
    using assms(2) base assms(3,4) by (rule survived_boots)
  have "image_of (rt_core r') = im'" using up(1) by (simp add: comes_up_def)
  moreover from this have "n_logBaseIndex (rt_core r') = 0" using up(2) base by (metis grows_def image_of_fields(3))
  ultimately show "alive cfg (r', sm', out) \<and> grows (image_of (rt_core r)) (image_of (rt_core r'))"
    using assms(1) up binding_grows [of out "rt_core r" "rt_core r'"] by (simp add: alive_def comes_up_def)
  show "\<exists>im s. comes_up cfg peers im s r' sm'" using up(1) by blast
qed

lemma lives_alive:
  assumes "lives cfg peers l l'" "alive cfg l" "can_open (walIdentity cfg) defaultSegmentSize"
  shows "alive cfg l' \<and> grows (image_of (rt_core (fst l))) (image_of (rt_core (fst l')))"
  using assms
proof cases
  case (handles ev r plan acts r' sm sm' out)
  let ?n = "rt_core r" and ?m = "rt_core r'"
  have a: "at_rest (walIdentity cfg) (with_plan plan r)" "n_logBaseIndex ?n = 0" "binding out ?n" "one_vote out"
    "apply_all (newSessionMachine (cfg_ActiveSessionLimit cfg)) (applied_prefix ?n) = Some sm"
    using assms(2) handles(1) by (simp_all add: alive_def with_plan_rest)
  have s: "at_rest (walIdentity cfg) r'" "tracks (applied_prefix ?n) acts ?m" "grows (image_of ?n) (image_of ?m)"
    using step_returns [OF a(1), of ev] handles(3,4) by auto
  have "n_logBaseIndex ?m = 0" using s(3) a(2) by (simp add: grows_def)
  moreover have "apply_all (newSessionMachine (cfg_ActiveSessionLimit cfg)) (applied_prefix ?m) = Some sm'"
    using s(2) a(5) handles(5) by (simp add: tracks_def apply_all_append)
  moreover have "binding (out @ acts) ?m" "one_vote (out @ acts)"
    using one_vote_more [OF a(4) binding_grows [OF a(3) s(3)], of acts] s(2) by (simp_all add: tracks_def)
  ultimately show ?thesis using handles(1,2) s(1,3) by (simp add: alive_def)
next
  case (restarts cuts r r' sm' sm out)
  have "survived (walIdentity cfg) (image_of (rt_core r)) (snd (rt_wal r))"
    using assms(2) restarts(1) mirrors_survived by (simp add: alive_def at_rest_def)
  then show ?thesis using boots_alive(1) [of cfg r sm out _ peers cuts r' sm'] assms(2,3) restarts by simp
next
  case (fails ev r plan e r1 cuts r' sm' sm out)
  have "at_rest (walIdentity cfg) (with_plan plan r)" using assms(2) fails(1) by (simp add: alive_def with_plan_rest)
  from step_returns [OF this, of ev] fails(3,4)
  have "survived (walIdentity cfg) (image_of (rt_core r)) (snd (rt_wal r1))" by auto
  then show ?thesis using boots_alive(1) [of cfg r sm out _ peers cuts r' sm'] assms(2,3) fails by simp
qed

lemma history_alive:
  assumes "(lives cfg peers)\<^sup>*\<^sup>* l l'" "alive cfg l" "can_open (walIdentity cfg) defaultSegmentSize"
  shows "alive cfg l' \<and> grows (image_of (rt_core (fst l))) (image_of (rt_core (fst l')))"
  using assms
proof (induction rule: rtranclp_induct)
  case (step l1 l2)
  then show ?case using lives_alive [OF step(2)] grows_trans by blast
qed simp

lemma fresh_boots:
  assumes "dk_files d = fmempty" "dk_plan d = []" "can_open (walIdentity cfg) defaultSegmentSize" "identity_ok (walIdentity cfg)"
  shows "\<exists>r sm. boots cfg peers d r sm \<and> alive cfg (r, sm, []) \<and> rt_core r = core_of cfg peers (image.make 0 [] 0 [] 0)
      \<and> segment r \<le> 3"
    "boots cfg peers d r sm \<Longrightarrow> alive cfg (r, sm, [])"
    "boots cfg peers d r sm \<Longrightarrow> \<exists>s. comes_up cfg peers (image.make 0 [] 0 [] 0) s r sm"
proof -
  let ?i = "walIdentity cfg" and ?im = "image.make 0 [] 0 [] 0"
  obtain s where s: "openWAL ?i defaultSegmentSize d = (Inr (initialState ?i), s)" "stores s (identity_records ?i) (initialState ?i)"
    "w_segment (fst s) \<le> 3"
    by (rule openWAL_empty [OF assms])
  have h: "holds ?i ?im (initialState ?i)" by (simp add: holds_def initialState_def image.make_def walHard_def seededState_def zeroCheckpoint_def zeroHardState_def)
  have wf: "image_wf ?im" "im_Base ?im = 0" using small_less_W64 [of 1] by (simp_all add: image_wf_def image.make_def im_last_def)
  have alive: "alive cfg (r, sm, [])" if "comes_up cfg peers ?im s r sm" for r sm
    using that image_of_fields(3) [of "rt_core r"] wf(2) by (simp add: alive_def comes_up_def binding_def one_vote_def)
  note b = boots_from_log [OF s(1,2) h wf]
  show "boots cfg peers d r sm \<Longrightarrow> alive cfg (r, sm, [])" using alive b(2) by blast
  show "boots cfg peers d r sm \<Longrightarrow> \<exists>s. comes_up cfg peers ?im s r sm" using b(2) by blast
  obtain r sm where r: "boots cfg peers d r sm" "comes_up cfg peers ?im s r sm" using b(1) by blast
  have "rt_core r = core_of cfg peers ?im" "rt_wal r = s" using r(2) by (simp_all add: comes_up_def image.make_def)
  then show "\<exists>r sm. boots cfg peers d r sm \<and> alive cfg (r, sm, []) \<and> rt_core r = core_of cfg peers ?im \<and> segment r \<le> 3"
    using r alive [OF r(2)] s(3) by (intro exI [of _ r] exI [of _ sm] conjI) simp_all
qed

section \<open>A sample history\<close>

definition sample_request :: Event where
  "sample_request = EvVoteRequest \<lparr>vq_From = ''n2'', vq_Term = 1, vq_LastLogIndex = 0, vq_LastLogTerm = 0\<rparr>"

definition sample_grant :: "Action list" where
  "sample_grant = [SendVoteResponse ''n2'' \<lparr>vr_From = ''n1'', vr_Term = 1, vr_Granted = True\<rparr>]"

lemma sample_opens: "can_open (walIdentity sample_config) defaultSegmentSize" "identity_ok (walIdentity sample_config)"
  by (simp_all add: can_open_def walIdentity_def sample_config_def blank_def identity_ok_def defaultSegmentSize_def
    segmentHeaderSize_def segmentMagic_def frameHeaderSize_def maxRecordSize_def)

abbreviation sample_core :: Node where
  "sample_core \<equiv> core_of sample_config [''n2'', ''n3''] (image.make 0 [] 0 [] 0)"

lemmas history_eval = core_of_def sample_config_def image.make_def sample_request_def sample_grant_def vote_eval

lemma sample_core_steps:
  "\<exists>n m. Step sample_core sample_request = Some (n, [PersistHardState 1 1 ''n2''])
     \<and> Step n (HardStatePersisted 1) = Some (m, sample_grant) \<and> storable_node n"
  by (simp add: history_eval storable_node_def small_less_W64 maxRecordSize_def)

lemma sample_fits:
  assumes "rt_core r = sample_core" "segment r \<le> 3"
  shows "event_fits sample_request r"
proof -
  obtain n where n: "Step sample_core sample_request = Some (n, [PersistHardState 1 1 ''n2''])" "storable_node n" "n_log n = []"
    by (simp add: history_eval storable_node_def small_less_W64 maxRecordSize_def)
  have "n_term sample_core = 0" by (simp add: history_eval)
  then show ?thesis using n assms small_less_W64 [of 1] small_less_W64 [of 9] unfolding event_fits_def assms(1)
    by (simp add: sample_request_def event_ok_def)
qed

lemma sample_handled:
  assumes "alive sample_config (r, sm, [])" "rt_core r = sample_core" "segment r \<le> 3"
  obtains r' where "lives sample_config peers (r, sm, []) (r', sm, sample_grant)"
proof -
  have fits: "event_fits sample_request r" by (rule sample_fits [OF assms(2,3)])
  obtain n m where n: "Step sample_core sample_request = Some (n, [PersistHardState 1 1 ''n2''])"
    "Step n (HardStatePersisted 1) = Some (m, sample_grant)" using sample_core_steps by blast
  have "at_rest (walIdentity sample_config) (with_plan [] r)" using assms(1) by (simp add: alive_def with_plan_rest)
  obtain y r' where y: "runtime_step sample_request (with_plan [] r) = Some (y, r')"
    "case y of Inr emitted \<Rightarrow> True | Inl e \<Rightarrow> False"
    using step_returns [OF \<open>at_rest _ _\<close>, of sample_request] fits by (fastforce split: sum.splits)
  then obtain emitted where step: "runtime_step sample_request (with_plan [] r) = Some (Inr emitted, r')" by (cases y) auto
  obtain x r1 where x: "saved (SaveHardState \<lparr>wh_Term = 1, wh_VotedFor = ''n2''\<rparr>) ((with_plan [] r)\<lparr>rt_core := n\<rparr>) = (x, r1)" by (metis surj_pair)
  then have core: "rt_core r1 = n" by (auto simp: saved_def split: prod.splits sum.splits)
  have "calm sample_grant" by (simp add: sample_grant_def)
  then have "emitted = sample_grant" using step n(1,2) x core assms(2)
    by (cases x) (simp_all add: runtime_step_def drain.simps [of "[PersistHardState (Suc 0) (Suc 0) ''n2'']"] persistAction_def countSync_def drain_calm)
  moreover have "applied sample_grant = []" by (simp add: sample_grant_def)
  ultimately have "lives sample_config peers (r, sm, []) (r', sm, [] @ sample_grant)"
    using step fits by (intro lives.handles) auto
  then show thesis using that by simp
qed

text \<open>The Node starts on an empty disk, grants a vote, crashes and comes up again.\<close>

lemma sample_history:
  obtains r sm r1 sm1 where "boots sample_config [''n2'', ''n3''] empty_disk r sm"
    "(lives sample_config [''n2'', ''n3''])\<^sup>*\<^sup>* (r, sm, []) (r1, sm1, sample_grant)"
proof -
  let ?peers = "[''n2'', ''n3'']"
  have d: "dk_files empty_disk = fmempty" "dk_plan empty_disk = []" by (simp_all add: empty_disk_def)
  obtain r sm where r: "boots sample_config ?peers empty_disk r sm" "alive sample_config (r, sm, [])" "rt_core r = sample_core" "segment r \<le> 3"
    using fresh_boots(1) [OF d sample_opens] by blast
  obtain r' where r': "lives sample_config ?peers (r, sm, []) (r', sm, sample_grant)" using r(2-4) by (rule sample_handled)
  then have a: "alive sample_config (r', sm, sample_grant)" using lives_alive [OF r' r(2) sample_opens(1)] by simp
  then obtain r1 sm1 where "boots sample_config ?peers (crashed (\<lambda>_. 0) (snd (rt_wal r'))) r1 sm1"
    using rest_reboots [of sample_config r' ?peers "\<lambda>_. 0"] sample_opens(1) by (auto simp: alive_def)
  then have "lives sample_config ?peers (r', sm, sample_grant) (r1, sm1, sample_grant)" by (rule lives.restarts)
  then show thesis using that r(1) r' by (meson converse_rtranclp_into_rtranclp rtranclp.rtrancl_refl)
qed

section \<open>Properties\<close>

text \<open>
  C6: a step of the runtime comes to an end. A runtime whose log holds what its core stands for handles
  every event in range that neither compacts the log nor installs a Snapshot: the loop that performs the core's requests returns, whatever the I/O calls do;
  the core never panics; an error is returned only when an I/O call failed; and on success the log again
  holds exactly the core's Term, vote, entries and commit index, with no request among the actions handed on.
\<close>

theorem step_completes:
  assumes "at_rest ident r" "event_fits ev r"
  shows "\<exists>result r'. runtime_step ev r = Some (result, r')
    \<and> (case result of Inr emitted \<Rightarrow> at_rest ident r' \<and> calm emitted | Inl e \<Rightarrow> e \<noteq> CorePanic \<and> io_plan r \<noteq> [])"
  using step_returns [OF assms] by (force split: sum.splits prod.splits)

theorem step_completes_witness:
  "\<exists>r sm emitted r'. boots sample_config [''n2'', ''n3''] empty_disk r sm
     \<and> runtime_step sample_request (with_plan [] r) = Some (Inr emitted, r') \<and> at_rest (walIdentity sample_config) r'"
proof -
  have d: "dk_files empty_disk = fmempty" "dk_plan empty_disk = []" by (simp_all add: empty_disk_def)
  obtain r sm where r: "boots sample_config [''n2'', ''n3''] empty_disk r sm" "alive sample_config (r, sm, [])" "rt_core r = sample_core"
    "segment r \<le> 3"
    using fresh_boots(1) [OF d sample_opens] by blast
  have "at_rest (walIdentity sample_config) (with_plan [] r)" using r(2) by (simp add: alive_def with_plan_rest)
  from step_completes [OF this, of sample_request] sample_fits [OF r(3,4)]
  obtain result r' where "runtime_step sample_request (with_plan [] r) = Some (result, r')"
    "case result of Inr emitted \<Rightarrow> at_rest (walIdentity sample_config) r' \<and> calm emitted | Inl e \<Rightarrow> False"
    by (fastforce split: sum.splits)
  then show ?thesis using r(1) by (cases result) auto
qed

text \<open>
  C3: a Node votes once in a Term, across crashes. From its first start on an empty disk, through events,
  crashes at any I/O call and restarts, all the votes that ever left the Node, granted or asked for
  itself, name one candidate per Term, up to the first Snapshot of the Node.
\<close>

theorem one_vote_per_term_across_crashes:
  assumes "dk_files d = fmempty" "dk_plan d = []" "can_open (walIdentity cfg) defaultSegmentSize" "identity_ok (walIdentity cfg)"
    and "boots cfg peers d r sm" "(lives cfg peers)\<^sup>*\<^sup>* (r, sm, []) (r', sm', out)"
  shows "single_valued {(t, c). (c, t) \<in> promises out \<and> c \<noteq> []}"
  using history_alive [OF assms(6) fresh_boots(2) [OF assms(1-5)] assms(3)] by (simp add: alive_def one_vote_def)

theorem one_vote_per_term_across_crashes_witness:
  "\<exists>r sm r1 sm1. boots sample_config [''n2'', ''n3''] empty_disk r sm
     \<and> (lives sample_config [''n2'', ''n3''])\<^sup>*\<^sup>* (r, sm, []) (r1, sm1, sample_grant)
     \<and> (''n2'', 1) \<in> promises sample_grant \<and> single_valued {(t, c). (c, t) \<in> promises sample_grant \<and> c \<noteq> []}"
proof -
  have d: "dk_files empty_disk = fmempty" "dk_plan empty_disk = []" by (simp_all add: empty_disk_def)
  obtain r sm r1 sm1 where h: "boots sample_config [''n2'', ''n3''] empty_disk r sm"
    "(lives sample_config [''n2'', ''n3''])\<^sup>*\<^sup>* (r, sm, []) (r1, sm1, sample_grant)" by (rule sample_history)
  have "(''n2'', 1) \<in> promises sample_grant" by (auto simp: promises_def sample_grant_def)
  then show ?thesis using h one_vote_per_term_across_crashes [OF d sample_opens h] by blast
qed

text \<open>
  C5: the key-value state of a Node is that of its committed log, across crashes. In every history up to
  the first Snapshot the session machine is the one that applying the committed entries, in order and once each, to an empty
  machine gives; and whatever a crash at rest cuts off the files, opening the write-ahead log gives back
  exactly the log, the commit index, the Term and the vote of the core.
\<close>

theorem machine_is_committed_log:
  assumes "dk_files d = fmempty" "dk_plan d = []" "can_open (walIdentity cfg) defaultSegmentSize" "identity_ok (walIdentity cfg)"
    and "boots cfg peers d r sm" "(lives cfg peers)\<^sup>*\<^sup>* (r, sm, []) (r', sm', out)"
  shows "apply_all (newSessionMachine (cfg_ActiveSessionLimit cfg)) (take (n_commitIndex (rt_core r')) (n_log (rt_core r'))) = Some sm'
    \<and> (\<exists>st. fst (openWAL (walIdentity cfg) defaultSegmentSize (crashed cuts (snd (rt_wal r')))) = Inr st
          \<and> map fromWal (ws_Log st) = n_log (rt_core r') \<and> ws_CommitIndex st = n_commitIndex (rt_core r')
          \<and> ws_HardState st = \<lparr>wh_Term = n_term (rt_core r'), wh_VotedFor = n_votedFor (rt_core r')\<rparr>)"
proof -
  let ?n = "rt_core r'"
  have a: "at_rest (walIdentity cfg) r'" "n_logBaseIndex ?n = 0"
    "apply_all (newSessionMachine (cfg_ActiveSessionLimit cfg)) (applied_prefix ?n) = Some sm'"
    using history_alive [OF assms(6) fresh_boots(2) [OF assms(1-5)] assms(3)] by (simp_all add: alive_def)
  have m: "mirrors (walIdentity cfg) (rt_wal r') (image_of ?n)" "idle ?n" using a(1) by (simp_all add: at_rest_def)
  obtain st s' where st: "openWAL (walIdentity cfg) defaultSegmentSize (crashed cuts (snd (rt_wal r'))) = (Inr st, s')"
    "holds (walIdentity cfg) (image_of ?n) st"
    using mirrors_reopens [OF m(1) assms(3), of cuts] by blast
  have "list_all storable (n_log ?n)" using m(1) by (simp add: mirrors_def image_wf_def)
  then have "map fromWal (map toWal (n_log ?n)) = n_log ?n" using toWal_types by (simp add: list_all_iff map_idI)
  then show ?thesis using st a idle_applied [OF m(2)] by (simp add: holds_def walHard_def)
qed

theorem machine_is_committed_log_witness:
  "\<exists>r sm r1 sm1 st. boots sample_config [''n2'', ''n3''] empty_disk r sm
     \<and> (lives sample_config [''n2'', ''n3''])\<^sup>*\<^sup>* (r, sm, []) (r1, sm1, sample_grant)
     \<and> apply_all (newSessionMachine 8) (take (n_commitIndex (rt_core r1)) (n_log (rt_core r1))) = Some sm1
     \<and> fst (openWAL (walIdentity sample_config) defaultSegmentSize (crashed (\<lambda>_. 0) (snd (rt_wal r1)))) = Inr st
     \<and> map fromWal (ws_Log st) = n_log (rt_core r1)"
proof -
  have d: "dk_files empty_disk = fmempty" "dk_plan empty_disk = []" by (simp_all add: empty_disk_def)
  obtain r sm r1 sm1 where h: "boots sample_config [''n2'', ''n3''] empty_disk r sm"
    "(lives sample_config [''n2'', ''n3''])\<^sup>*\<^sup>* (r, sm, []) (r1, sm1, sample_grant)" by (rule sample_history)
  have limit: "cfg_ActiveSessionLimit sample_config = 8" by (simp add: sample_config_def)
  show ?thesis using h machine_is_committed_log [OF d sample_opens h, of "\<lambda>_. 0"] unfolding limit by blast
qed

text \<open>
  C4: what is committed stays committed, across crashes. Between any two points of a history, with any
  events, failing I/O calls, crashes and restarts in between, the commit index and the Term do not fall,
  and the committed entries of the earlier point are a prefix of those of the later one. Histories reach
  up to the first Snapshot.
\<close>

theorem committed_entries_survive_crashes:
  assumes "dk_files d = fmempty" "dk_plan d = []" "can_open (walIdentity cfg) defaultSegmentSize" "identity_ok (walIdentity cfg)"
    and "boots cfg peers d r sm" "(lives cfg peers)\<^sup>*\<^sup>* (r, sm, []) (r1, sm1, out1)" "(lives cfg peers)\<^sup>*\<^sup>* (r1, sm1, out1) (r2, sm2, out2)"
  shows "n_term (rt_core r1) \<le> n_term (rt_core r2) \<and> n_commitIndex (rt_core r1) \<le> n_commitIndex (rt_core r2)
    \<and> prefix (take (n_commitIndex (rt_core r1)) (n_log (rt_core r1))) (take (n_commitIndex (rt_core r2)) (n_log (rt_core r2)))"
proof -
  let ?n = "rt_core r1" and ?m = "rt_core r2"
  have a: "alive cfg (r1, sm1, out1)" using history_alive [OF assms(6) fresh_boots(2) [OF assms(1-5)] assms(3)] by blast
  have g: "grows (image_of ?n) (image_of ?m)" using history_alive [OF assms(7) a assms(3)] by simp
  have k: "n_term ?n \<le> n_term ?m" "n_commitIndex ?n \<le> n_commitIndex ?m"
    "take (n_commitIndex ?n) (n_log ?m) = take (n_commitIndex ?n) (n_log ?n)"
    using g a by (auto simp: grows_def alive_def)
  have "take (n_commitIndex ?n) (n_log ?n) = take (n_commitIndex ?n) (take (n_commitIndex ?m) (n_log ?m))" using k(2,3) by (simp add: min_def)
  then show ?thesis using k take_is_prefix by metis
qed

theorem committed_entries_survive_crashes_witness:
  "\<exists>r sm r1 sm1. boots sample_config [''n2'', ''n3''] empty_disk r sm
     \<and> (lives sample_config [''n2'', ''n3''])\<^sup>*\<^sup>* (r, sm, []) (r1, sm1, sample_grant) \<and> n_term (rt_core r) \<le> n_term (rt_core r1)"
proof -
  have d: "dk_files empty_disk = fmempty" "dk_plan empty_disk = []" by (simp_all add: empty_disk_def)
  obtain r sm r1 sm1 where h: "boots sample_config [''n2'', ''n3''] empty_disk r sm"
    "(lives sample_config [''n2'', ''n3''])\<^sup>*\<^sup>* (r, sm, []) (r1, sm1, sample_grant)" by (rule sample_history)
  then show ?thesis using committed_entries_survive_crashes [OF d sample_opens h(1) rtranclp.rtrancl_refl h(2)] by blast
qed

end
