(* ===== verification/Elections.thy ===== *)
theory Elections
  imports Raft_Rest
begin

text \<open>
  Elections of a cluster: members that run the Raft core (\<open>src/internal/raft/raft.go\<close>), exchange
  messages that may be lost, delayed, duplicated and reordered, and may stop and start again. A vote is
  only counted when the peer sent it, and a peer only grants a vote that was asked for, so two Leaders
  of one Term would need two majorities of promised votes.
\<close>

section \<open>Moves of a cluster\<close>

text \<open>
  What the election depends on in the state of a cluster: the core of every member and the actions that
  have left it. A message of a peer reaches the core only if the peer sent it to this member; nothing
  is asked of the other events.
\<close>

type_synonym cores = "NodeID \<Rightarrow> Node"
type_synonym mail = "NodeID \<Rightarrow> Action list"

definition authentic :: "NodeID set \<Rightarrow> mail \<Rightarrow> NodeID \<Rightarrow> Event \<Rightarrow> bool" where
  "authentic members sent i event \<longleftrightarrow>
    (case event of
       EvVoteRequest m \<Rightarrow> vq_From m \<in> members \<and> SendVoteRequest i m \<in> set (sent (vq_From m))
     | EvVoteResponse m \<Rightarrow> vr_From m \<in> members \<and> SendVoteResponse i m \<in> set (sent (vr_From m))
     | EvAppendEntries m \<Rightarrow> ae_From m \<in> members \<and> SendAppendEntries i m \<in> set (sent (ae_From m))
     | EvAppendEntriesResponse m \<Rightarrow> aer_From m \<in> members \<and> SendAppendEntriesResponse i m \<in> set (sent (aer_From m))
     | _ \<Rightarrow> True)"

text \<open>A member that has just been built from what it had stored: it follows and has no request open.\<close>

definition reborn :: "Node \<Rightarrow> Node \<Rightarrow> bool" where
  "reborn n n' \<longleftrightarrow> n_role n' = Follower \<and> n_id n' = n_id n \<and> distinct (n_peers n') \<and> set (n_peers n') = set (n_peers n)
     \<and> n_pendingHardState n' = Map.empty \<and> vote_inv n'"

inductive hop :: "NodeID set \<Rightarrow> cores \<times> mail \<Rightarrow> cores \<times> mail \<Rightarrow> bool" for members where
  steps: "i \<in> members \<Longrightarrow> authentic members sent i event \<Longrightarrow> Step (node i) event = Some (n', acts)
    \<Longrightarrow> out = filter (\<lambda>a. \<not> storing a) acts \<Longrightarrow> hop members (node, sent) (node(i := n'), sent(i := sent i @ out))"
| restarts: "i \<in> members \<Longrightarrow> reborn (node i) n' \<Longrightarrow> hop members (node, sent) (node(i := n'), sent)"

inductive_cases hopE: "hop members v v'"

section \<open>What votes are worth\<close>

definition supporters :: "NodeID set \<Rightarrow> mail \<Rightarrow> NodeID \<Rightarrow> u64 \<Rightarrow> NodeID set" where
  "supporters members sent candidate t = {p \<in> members. (candidate, t) \<in> promises (sent p)}"

text \<open>Every vote granted in a list of actions was asked for.\<close>

definition asked :: "mail \<Rightarrow> Action list \<Rightarrow> bool" where
  "asked sent acts \<longleftrightarrow> (\<forall>to r. SendVoteResponse to r \<in> set acts \<longrightarrow> vr_Granted r \<longrightarrow> (to, vr_Term r) \<in> promises (sent to))"

definition pending_asked :: "mail \<Rightarrow> Node \<Rightarrow> bool" where
  "pending_asked sent n \<longleftrightarrow> (\<forall>i p. n_pendingHardState n i = Some p \<longrightarrow> asked sent (phs_after p))"

definition seated :: "NodeID set \<Rightarrow> NodeID \<Rightarrow> Node \<Rightarrow> bool" where
  "seated members i n \<longleftrightarrow> n_id n = i \<and> distinct (n_peers n) \<and> set (n_peers n) = members - {i} \<and> vote_inv n"

definition backed :: "NodeID set \<Rightarrow> mail \<Rightarrow> NodeID \<Rightarrow> Node \<Rightarrow> bool" where
  "backed members sent i n \<longleftrightarrow>
     (n_role n = Candidate \<longrightarrow> n_votes n \<subseteq> insert i (supporters members sent i (n_term n)))
   \<and> (n_role n = Leader \<longrightarrow> card members < 2 * card (supporters members sent i (n_term n)))
   \<and> pending_asked sent n"

definition polled :: "NodeID set \<Rightarrow> cores \<times> mail \<Rightarrow> bool" where
  "polled members v \<longleftrightarrow> (case v of (node, sent) \<Rightarrow>
     \<forall>i \<in> members. seated members i (node i) \<and> backed members sent i (node i) \<and> asked sent (sent i))"

lemma asked_append [simp]: "asked sent (xs @ ys) \<longleftrightarrow> asked sent xs \<and> asked sent ys"
  by (auto simp: asked_def)

lemma asked_quiet: "list_all quiet acts \<Longrightarrow> asked sent acts"
  by (auto simp: asked_def list_all_iff)

text \<open>More messages never take support away.\<close>

definition mail_le :: "mail \<Rightarrow> mail \<Rightarrow> bool" where
  "mail_le sent sent' \<longleftrightarrow> (\<forall>i. set (sent i) \<subseteq> set (sent' i))"

lemma promises_mono: "set xs \<subseteq> set ys \<Longrightarrow> promises xs \<subseteq> promises ys"
  unfolding promises_def by blast

lemma mail_le_promises: "mail_le sent sent' \<Longrightarrow> x \<in> promises (sent p) \<Longrightarrow> x \<in> promises (sent' p)"
  using promises_mono unfolding mail_le_def by blast

lemma asked_mono: "mail_le sent sent' \<Longrightarrow> asked sent acts \<Longrightarrow> asked sent' acts"
  unfolding asked_def using mail_le_promises by blast

lemma supporters_mono: "mail_le sent sent' \<Longrightarrow> supporters members sent c t \<subseteq> supporters members sent' c t"
  unfolding supporters_def using mail_le_promises by blast

lemma backed_mono:
  assumes "mail_le sent sent'" "finite members" "backed members sent i n"
  shows "backed members sent' i n"
proof -
  have le: "supporters members sent i (n_term n) \<subseteq> supporters members sent' i (n_term n)" by (rule supporters_mono [OF assms(1)])
  have "finite (supporters members sent' i (n_term n))" using assms(2) by (simp add: supporters_def)
  then have "card (supporters members sent i (n_term n)) \<le> card (supporters members sent' i (n_term n))" using le by (rule card_mono)
  then show ?thesis using assms(3) le asked_mono [OF assms(1)] unfolding backed_def pending_asked_def by fastforce
qed

section \<open>A step keeps the votes counted right\<close>

lemma asked_persistHardState:
  assumes "persistHardState m after = (n', acts)" "asked sent after" "pending_asked sent m"
  shows "asked sent acts" "pending_asked sent n'" "n_role n' = n_role m" "n_votes n' = n_votes m" "n_term n' = n_term m"
  using assms by (auto simp: persistHardState_def Let_def pending_asked_def split: if_splits) (auto simp: asked_def)

lemma asked_handleVoteRequest:
  assumes "handleVoteRequest n req = (n', acts)" "(vq_From req, vq_Term req) \<in> promises (sent (vq_From req))" "pending_asked sent n"
  shows "asked sent acts" "pending_asked sent n'"
    "n_term n' = n_term n \<and> n_role n' = n_role n \<and> n_votes n' = n_votes n \<or> n_role n' = Follower"
proof -
  define f where "f = (if vq_Term req > n_term n then becomeFollower n (vq_Term req) [] else n)"
  define grant where "grant \<longleftrightarrow> (n_votedFor f = [] \<or> n_votedFor f = vq_From req)
    \<and> candidateLogIsUpToDate f (vq_LastLogTerm req) (vq_LastLogIndex req)"
  define g where "g = (if grant then f\<lparr>n_votedFor := vq_From req\<rparr> else f)"
  have early: "n' = n \<and> acts = voteResponse n (vq_From req) False" if "vq_Term req < n_term n"
    using that assms(1) by (auto simp: handleVoteRequest_def)
  have late: "(n', acts) = (if vq_Term req > n_term n \<or> (grant \<and> \<not> voteIsDurable g (vq_From req))
     then persistHardState g (voteResponse g (vq_From req) grant) else (g, voteResponse g (vq_From req) grant))"
    if "\<not> vq_Term req < n_term n"
    using assms(1) that unfolding handleVoteRequest_def Let_def f_def g_def grant_def by simp
  have *: "vq_Term req < n_term n \<and> n' = n \<and> acts = voteResponse n (vq_From req) False
      \<or> \<not> vq_Term req < n_term n \<and> n' = g \<and> acts = voteResponse g (vq_From req) grant
      \<or> \<not> vq_Term req < n_term n \<and> persistHardState g (voteResponse g (vq_From req) grant) = (n', acts)"
    using early late by (metis prod.inject)
  have g: "pending_asked sent g" "n_term g = max (n_term n) (vq_Term req)"
    "n_term g = n_term n \<and> n_role g = n_role n \<and> n_votes g = n_votes n \<or> n_role g = Follower"
    using assms(3) by (auto simp: g_def f_def becomeFollower_def pending_asked_def)
  have ask: "asked sent (voteResponse g (vq_From req) grant)" if "\<not> vq_Term req < n_term n"
    using that assms(2) g(2) by (auto simp: asked_def voteResponse_def max_def split: if_splits)
  have no: "asked sent (voteResponse n (vq_From req) False)" by (simp add: asked_def voteResponse_def)
  note p = asked_persistHardState [of g "voteResponse g (vq_From req) grant" n' acts, OF _ ask g(1)]
  show "asked sent acts" using * no ask p(1) by metis
  show "pending_asked sent n'" using * assms(3) g(1) p(2) by metis
  show "n_term n' = n_term n \<and> n_role n' = n_role n \<and> n_votes n' = n_votes n \<or> n_role n' = Follower"
    using * g(3) p(3-5) by metis
qed

lemma asked_filter: "asked sent (filter (\<lambda>a. \<not> storing a) acts) = asked sent acts"
  by (simp add: asked_def)

lemma promises_filter: "promises (filter (\<lambda>a. \<not> storing a) acts) = promises acts"
  by (simp add: promises_def)

text \<open>One step of a member, with the messages it was sent: its votes stay backed and asked for.\<close>

lemma election_step_asked:
  assumes "election_step n event acts n'" "authentic members sent i event" "pending_asked sent n"
  shows "asked sent acts \<and> pending_asked sent n'"
  using assms(1)
proof cases
  case (keeps r vs)
  then show ?thesis using assms(3) asked_quiet by (simp add: election_view_def pending_asked_def)
next
  case (follows t m l after)
  have "pending_asked sent m" using follows(2) assms(3) by (simp add: election_view_def pending_asked_def becomeFollower_def)
  then show ?thesis using asked_persistHardState [OF follows(4)] asked_quiet follows(3) by blast
next
  case (campaigns m r acts' pre)
  obtain m' after where m': "persistHardState m' after = (n', acts')" "n_pendingHardState m' = n_pendingHardState m" "asked sent after"
    using campaigns(4) unfolding startElection_def Let_def by (fastforce simp: asked_def)
  have "pending_asked sent m'" using campaigns(2) m'(2) assms(3) by (simp add: election_view_def pending_asked_def)
  then show ?thesis using asked_persistHardState [OF m'(1,3)] asked_quiet campaigns(1,5) by simp
next
  case (votes req)
  then have "(vq_From req, vq_Term req) \<in> promises (sent (vq_From req))"
    using assms(2) by (auto simp: authentic_def promises_def)
  then show ?thesis using asked_handleVoteRequest [OF votes(2)] assms(3) by blast
next
  case (counts res vs)
  have "asked sent (BecameLeader t # rest)" if "list_all quiet rest" for t rest using that asked_quiet by (auto simp: asked_def list_all_iff)
  then show ?thesis using counts assms(3) by (auto simp: election_view_def pending_asked_def asked_def split: if_splits)
next
  case (persisted k)
  then show ?thesis using assms(3)
    by (auto simp: hardStatePersisted_def pending_asked_def asked_def Let_def split: option.splits if_splits)
qed

lemma seated_quorum:
  assumes "seated members i n" "finite members" "i \<in> members"
  shows "card members < 2 * quorum n"
proof -
  have "length (n_peers n) = card (members - {i})" using assms(1) distinct_card [of "n_peers n"] by (auto simp: seated_def)
  then have "length (n_peers n) + 1 = card members" using assms(2,3) card_Suc_Diff1 [of members i] by simp
  then show ?thesis by (simp add: quorum_def)
qed

lemma election_step_seated:
  assumes "election_step n event acts n'"
  shows "n_id n' = n_id n \<and> n_peers n' = n_peers n"
  using assms
  by cases (auto simp: election_view_def persistHardState_def becomeFollower_def startElection_def handleVoteRequest_def
    hardStatePersisted_def Let_def split: if_splits option.splits)

lemma counted_supporters:
  assumes "authentic members sent i (EvVoteResponse res)" "asked sent (sent (vr_From res))" "i \<in> members" "vr_Granted res"
  shows "{i, vr_From res} \<subseteq> supporters members sent i (vr_Term res)"
proof -
  have r: "vr_From res \<in> members" "SendVoteResponse i res \<in> set (sent (vr_From res))" using assms(1) by (simp_all add: authentic_def)
  have "(i, vr_Term res) \<in> promises (sent (vr_From res))" using r(2) assms(4) by (auto simp: promises_def)
  moreover have "(i, vr_Term res) \<in> promises (sent i)" using assms(2,4) r(2) by (simp add: asked_def)
  ultimately show ?thesis using r(1) assms(3) by (simp add: supporters_def)
qed

lemma election_step_backed:
  assumes "election_step n event acts n'" "authentic members sent i event" "seated members i n" "backed members sent i n"
    "finite members" "i \<in> members" "\<forall>j \<in> members. asked sent (sent j)"
  shows "backed members sent i n'"
proof -
  have p: "pending_asked sent n'" using election_step_asked [OF assms(1,2)] assms(4) by (simp add: backed_def)
  have cand: "n_role n = Candidate \<longrightarrow> n_votes n \<subseteq> insert i (supporters members sent i (n_term n))"
    and lead: "n_role n = Leader \<longrightarrow> card members < 2 * card (supporters members sent i (n_term n))"
    using assms(4) by (simp_all add: backed_def)
  show ?thesis using assms(1)
  proof cases
    case (keeps r vs)
    then show ?thesis using cand lead p by (auto simp: election_view_def backed_def)
  next
    case (follows t m l after)
    then have "n_role n' = Follower" by (auto simp: election_view_def persistHardState_def becomeFollower_def Let_def)
    then show ?thesis using p by (simp add: backed_def)
  next
    case (campaigns m r acts' pre)
    then have "n_role n' = Candidate" "n_votes n' = {i}" using assms(3)
      by (auto simp: election_view_def persistHardState_def startElection_def Let_def seated_def)
    then show ?thesis using p by (simp add: backed_def)
  next
    case (votes req)
    have "(vq_From req, vq_Term req) \<in> promises (sent (vq_From req))"
      using assms(2) votes(1) by (auto simp: authentic_def promises_def)
    moreover have "pending_asked sent n" using assms(4) by (simp add: backed_def)
    ultimately have "n_term n' = n_term n \<and> n_role n' = n_role n \<and> n_votes n' = n_votes n \<or> n_role n' = Follower"
      using asked_handleVoteRequest(3) [OF votes(2)] by blast
    then show ?thesis using cand lead p by (auto simp: backed_def)
  next
    case (counts res vs)
    let ?s = "supporters members sent i (n_term n)"
    have "asked sent (sent (vr_From res))" using assms(2,7) counts(1) by (simp add: authentic_def)
    then have new: "{i, vr_From res} \<subseteq> ?s"
      using counted_supporters [of members sent i res] assms(2,6) counts(1,3,4) by simp
    then have sub: "vs \<subseteq> ?s" using cand counts(2,5) by auto
    have fin: "finite ?s" using assms(5) by (simp add: supporters_def)
    have "card members < 2 * card ?s" if "quorum n \<le> card vs"
      using that card_mono [OF fin sub] seated_quorum [OF assms(3,5,6)] by linarith
    then show ?thesis using counts(2,6) sub p by (auto simp: election_view_def backed_def split: if_splits)
  next
    case (persisted k)
    then have "n_role n' = n_role n \<and> n_votes n' = n_votes n \<and> n_term n' = n_term n"
      by (auto simp: hardStatePersisted_def Let_def split: option.splits if_splits)
    then show ?thesis using cand lead p by (simp add: backed_def)
  qed
qed

lemma hop_polled:
  assumes "hop members v v'" "polled members v" "finite members"
  shows "polled members v'"
  using assms(1)
proof cases
  case (steps i sent event node n' acts out)
  let ?sent = "sent(i := sent i @ out)"
  have le: "mail_le sent ?sent" by (auto simp: mail_le_def)
  have inv: "seated members j (node j)" "backed members sent j (node j)" "asked sent (sent j)" if "j \<in> members" for j
    using assms(2) steps(1) that by (auto simp: polled_def)
  have vote: "vote_inv (node i)" using inv(1) [OF steps(3)] by (simp add: seated_def)
  then have e: "election_step (node i) event acts n'" using Step_election [OF _ steps(5)] by (simp add: vote_inv_def)
  have n': "seated members i n'"
    using inv(1) [OF steps(3)] election_step_seated [OF e] Step_vote_inv(1) [OF vote steps(5)] by (simp add: seated_def)
  have b: "backed members sent i n'"
    using election_step_backed [OF e steps(4) inv(1,2) [OF steps(3)] assms(3) steps(3)] inv(3) by blast
  have "pending_asked sent (node i)" using inv(2) [OF steps(3)] by (simp add: backed_def)
  then have a: "asked sent out" using election_step_asked [OF e steps(4)] steps(6) by (simp add: asked_filter)
  show ?thesis unfolding steps(2) polled_def prod.case
    using inv n' b a backed_mono [OF le assms(3)] asked_mono [OF le] by simp
next
  case (restarts i node n' sent)
  then show ?thesis using assms(2)
    by (auto simp: polled_def reborn_def seated_def backed_def pending_asked_def)
qed

lemma hops_polled: "(hop members)\<^sup>*\<^sup>* v v' \<Longrightarrow> polled members v \<Longrightarrow> finite members \<Longrightarrow> polled members v'"
  by (induction rule: rtranclp_induct) (auto intro: hop_polled)

section \<open>Election safety\<close>

text \<open>
  The contract of a cluster: it starts with members that follow and have sent nothing, it moves by steps
  and restarts of its members, and every member promises the vote of a Term to one candidate.
\<close>

locale cluster =
  fixes members :: "'s \<Rightarrow> NodeID set"
    and node :: "'s \<Rightarrow> cores"
    and sent :: "'s \<Rightarrow> mail"
    and starts :: "'s \<Rightarrow> bool"
    and moves :: "'s \<Rightarrow> 's \<Rightarrow> bool"
  assumes start_members: "starts s \<Longrightarrow> finite (members s) \<and> [] \<notin> members s"
    and start_polled: "starts s \<Longrightarrow> polled (members s) (node s, sent s)"
    and move_members: "moves s s' \<Longrightarrow> members s' = members s"
    and move_hops: "starts s0 \<Longrightarrow> moves\<^sup>*\<^sup>* s0 s \<Longrightarrow> moves s s'
      \<Longrightarrow> (hop (members s))\<^sup>*\<^sup>* (node s, sent s) (node s', sent s')"
    and votes_once: "starts s0 \<Longrightarrow> moves\<^sup>*\<^sup>* s0 s \<Longrightarrow> i \<in> members s
      \<Longrightarrow> single_valued {(t, c). (c, t) \<in> promises (sent s i) \<and> c \<noteq> []}"
begin

lemma reached_members: "moves\<^sup>*\<^sup>* s0 s \<Longrightarrow> members s = members s0"
  by (induction rule: rtranclp_induct) (auto dest: move_members)

lemma reached_polled:
  assumes "starts s0" "moves\<^sup>*\<^sup>* s0 s"
  shows "polled (members s) (node s, sent s)"
  using assms(2)
proof (induction rule: rtranclp_induct)
  case base
  show ?case by (rule start_polled [OF assms(1)])
next
  case (step s s')
  have "finite (members s)" using start_members [OF assms(1)] reached_members [OF step(1)] by simp
  then show ?case using hops_polled [OF move_hops [OF assms(1) step(1,2)] step(3)] move_members [OF step(2)] by simp
qed

lemma election_safety:
  assumes "starts s0" "moves\<^sup>*\<^sup>* s0 s" "i \<in> members s" "j \<in> members s" "n_role (node s i) = Leader" "n_role (node s j) = Leader"
    "n_term (node s i) = n_term (node s j)"
  shows "i = j"
proof -
  let ?t = "n_term (node s i)" and ?m = "members s"
  have m: "finite ?m" "[] \<notin> ?m" using start_members [OF assms(1)] reached_members [OF assms(2)] by auto
  have b: "backed ?m (sent s) k (node s k)" if "k \<in> ?m" for k
    using reached_polled [OF assms(1,2)] that by (simp add: polled_def)
  have "card ?m < 2 * card (supporters ?m (sent s) k (n_term (node s k)))" if "k \<in> ?m" "n_role (node s k) = Leader" for k
    using b that by (simp add: backed_def)
  from this [of i] this [of j]
  have "card ?m < 2 * card (supporters ?m (sent s) i ?t)" "card ?m < 2 * card (supporters ?m (sent s) j ?t)"
    using assms(3-7) by simp_all
  moreover have "supporters ?m (sent s) k ?t \<subseteq> ?m" for k by (auto simp: supporters_def)
  ultimately obtain p where "p \<in> supporters ?m (sent s) i ?t" "p \<in> supporters ?m (sent s) j ?t"
    using majorities_meet [OF m(1)] by blast
  then have p: "p \<in> ?m" "(i, ?t) \<in> promises (sent s p)" "(j, ?t) \<in> promises (sent s p)" by (auto simp: supporters_def)
  have "i \<noteq> []" "j \<noteq> []" using m(2) assms(3,4) by auto
  then show ?thesis using votes_once [OF assms(1,2) p(1)] p(2,3) unfolding single_valued_def by blast
qed

end

section \<open>Members that start afresh\<close>

lemma new_member_polled:
  assumes "n_id n = i" "distinct (n_peers n)" "set (n_peers n) = members - {i}" "vote_inv n" "n_role n = Follower"
    "n_pendingHardState n = Map.empty"
  shows "seated members i n \<and> backed members sent i n"
  using assms by (simp add: seated_def backed_def pending_asked_def)

text \<open>A run of a member on authentic events is a sequence of hops.\<close>

lemma authentic_mono: "mail_le sent sent' \<Longrightarrow> authentic members sent i event \<Longrightarrow> authentic members sent' i event"
  unfolding authentic_def mail_le_def by (cases event) auto

lemma Run_hops:
  assumes "Run (node i) events = Some (n', acts)" "i \<in> members" "\<forall>event \<in> set events. authentic members sent i event"
  shows "(hop members)\<^sup>*\<^sup>* (node, sent) (node(i := n'), sent(i := sent i @ filter (\<lambda>a. \<not> storing a) acts))"
  using assms
proof (induction events arbitrary: node sent acts)
  case (Cons event events)
  then obtain m as bs where m: "Step (node i) event = Some (m, as)" "Run m events = Some (n', bs)" "acts = as @ bs"
    by (auto simp: Run_Cons_iff simp del: Run.simps(2))
  let ?out = "filter (\<lambda>a. \<not> storing a) as"
  let ?node = "node(i := m)" and ?sent = "sent(i := sent i @ ?out)"
  have h: "hop members (node, sent) (?node, ?sent)" using hop.steps [of i members sent event node m as ?out] m(1) Cons.prems(2,3) by simp
  have "mail_le sent ?sent" by (auto simp: mail_le_def)
  then have "\<forall>event \<in> set events. authentic members ?sent i event" using Cons.prems(3) authentic_mono by auto
  moreover have "Run (?node i) events = Some (n', bs)" using m(2) by simp
  ultimately have "(hop members)\<^sup>*\<^sup>* (?node, ?sent) (?node(i := n'), ?sent(i := ?sent i @ filter (\<lambda>a. \<not> storing a) bs))"
    using Cons.IH [of ?node bs ?sent] Cons.prems(2) by blast
  from converse_rtranclp_into_rtranclp [OF h this] show ?case using m(3) by (simp add: fun_upd_def if_distrib cong: if_cong)
qed (auto simp: fun_upd_idem)

end
