(* ===== verification/Node_Cluster.thy ===== *)
theory Node_Cluster
  imports Node_History Elections
begin

text \<open>
  A cluster of Nodes: the members of one configuration, each with its own disk and the lifetime of
  \<open>Node_History\<close>, that exchange the messages their cores send. The network may lose, delay, reorder and
  repeat messages; it does not make them up. Nodes may stop at any I/O call and start again.
\<close>

section \<open>The runtime runs the core\<close>

text \<open>What \<open>step\<close> does to the core is a run: the event, then the completions of the requests.\<close>

lemma completion_not_message: "authentic members sent i (completion a)"
  by (cases a) (simp_all add: authentic_def)

lemma persistAction_storing: "persistAction a r = Some (x, r') \<Longrightarrow> storing a \<and> rt_core r' = rt_core r"
  by (cases a) (auto simp: persistAction_def saved_def countSync_def observe_def Let_def
    split: prod.splits sum.splits option.splits if_splits)

lemma persistAction_None: "persistAction a r = None \<Longrightarrow> \<not> storing a"
  by (cases a) (auto simp: persistAction_def saved_def Let_def split: prod.splits sum.splits option.splits)

lemma drain_runs:
  assumes "drain pending emitted r = Some (Inr out, r')"
  shows "\<exists>requests acts. Run (rt_core r) (map completion requests) = Some (rt_core r', acts)
    \<and> out = emitted @ filter (\<lambda>a. \<not> storing a) (pending @ acts)"
proof -
  define P where "P pending emitted r y \<longleftrightarrow> (case y of (Inl e, r') \<Rightarrow> True
      | (Inr out, r') \<Rightarrow> \<exists>requests acts. Run (rt_core r) (map completion requests) = Some (rt_core r', acts)
          \<and> out = emitted @ filter (\<lambda>a. \<not> storing a) (pending @ acts))"
    for pending emitted and r :: raftRuntime and y :: "(runtime_error + Action list) \<times> raftRuntime"
  have "P pending emitted r y" if "drain pending emitted r = Some y" for y
    using that
  proof (induction rule: drain.raw_induct [of P, rotated, consumes 1, case_names 1])
    case (1 drain pending emitted r y)
    show ?case
    proof (cases pending)
      case Nil
      then have "y = (Inr emitted, r)" using 1(2) by simp
      then show ?thesis using Nil by (auto simp: P_def intro!: exI [of _ "[]"])
    next
      case (Cons a rest)
      show ?thesis
      proof (cases "persistAction a r")
        case None
        then have d: "drain rest (emitted @ [a]) r = Some y" using 1(2) Cons by simp
        have "\<not> storing a" using None by (rule persistAction_None)
        then show ?thesis using 1(1) [OF d, unfolded P_def] Cons by (auto simp: P_def split: prod.splits sum.splits)
      next
        case (Some p)
        obtain x r1 where p: "p = (x, r1)" by (cases p)
        have s: "storing a" "rt_core r1 = rt_core r" using persistAction_storing Some p by blast+
        show ?thesis
        proof (cases x)
          case None
          show ?thesis
          proof (cases "Step (rt_core r1) (completion a)")
            case None
            then show ?thesis using 1(2) Cons Some p \<open>x = None\<close> by (auto simp: P_def)
          next
            case (Some q)
            obtain n new where q: "q = (n, new)" by (cases q)
            have d: "drain (rest @ new) emitted (r1\<lparr>rt_core := n\<rparr>) = Some y"
              using 1(2) Cons \<open>persistAction a r = Some p\<close> p None Some q by simp
            show ?thesis
            proof (cases y)
              case (Pair z r')
              show ?thesis
              proof (cases z)
                case (Inr out)
                obtain requests acts where ra: "Run n (map completion requests) = Some (rt_core r', acts)"
                  "out = emitted @ filter (\<lambda>a. \<not> storing a) ((rest @ new) @ acts)"
                  using 1(1) [OF d, unfolded P_def] Pair Inr by auto
                have "Run (rt_core r) (map completion (a # requests)) = Some (rt_core r', new @ acts)"
                  using Some q s(2) ra(1) by simp
                then have "\<exists>requests acts. Run (rt_core r) (map completion requests) = Some (rt_core r', acts)
                    \<and> out = emitted @ filter (\<lambda>a. \<not> storing a) (pending @ acts)"
                  using ra(2) Cons s(1) by (intro exI [of _ "a # requests"] exI [of _ "new @ acts"] conjI) simp_all
                then show ?thesis using Pair Inr by (simp add: P_def)
              qed (use Pair in \<open>simp add: P_def\<close>)
            qed
          qed
        next
          case (Some e)
          then show ?thesis using 1(2) Cons \<open>persistAction a r = Some p\<close> p by (auto simp: P_def)
        qed
      qed
    qed
  qed
  from this [OF assms] show ?thesis by (simp add: P_def)
qed

lemma runtime_step_runs:
  assumes "runtime_step event r = Some (Inr out, r')"
  shows "\<exists>requests acts. Run (rt_core r) (event # map completion requests) = Some (rt_core r', acts)
    \<and> out = filter (\<lambda>a. \<not> storing a) acts"
proof -
  obtain n pending where n: "Step (rt_core r) event = Some (n, pending)" "drain pending [] (r\<lparr>rt_core := n\<rparr>) = Some (Inr out, r')"
    using assms by (auto simp: runtime_step_def split: option.splits)
  obtain requests acts where "Run n (map completion requests) = Some (rt_core r', acts)" "out = filter (\<lambda>a. \<not> storing a) (pending @ acts)"
    using drain_runs [OF n(2)] by auto
  then show ?thesis using n(1) by (intro exI [of _ requests] exI [of _ "pending @ acts"]) simp
qed

section \<open>Clusters\<close>

text \<open>
  The configuration of every member, the order in which its map iteration lists the peers, and the
  lives of the members.
\<close>

record deployment =
  dp_config :: "NodeID \<Rightarrow> Config"
  dp_peers :: "NodeID \<Rightarrow> NodeID list"
  dp_members :: "NodeID set"
  dp_lives :: "NodeID \<Rightarrow> life"

definition dp_node :: "deployment \<Rightarrow> cores" where
  "dp_node dp i = rt_core (fst (dp_lives dp i))"

definition dp_sent :: "deployment \<Rightarrow> mail" where
  "dp_sent dp i = snd (snd (dp_lives dp i))"

text \<open>A Node of the configuration, with a disk that can hold its log.\<close>

definition joins :: "NodeID set \<Rightarrow> NodeID \<Rightarrow> Config \<Rightarrow> NodeID list \<Rightarrow> bool" where
  "joins members i cfg peers \<longleftrightarrow> ns_ID (cfg_Node cfg) = i \<and> fset (fmdom (cfg_Members cfg)) = members
     \<and> distinct peers \<and> set peers = members - {i}
     \<and> can_open (walIdentity cfg) defaultSegmentSize \<and> identity_ok (walIdentity cfg)"

text \<open>All members boot for the first time, on empty disks.\<close>

definition deployed :: "deployment \<Rightarrow> bool" where
  "deployed dp \<longleftrightarrow> finite (dp_members dp) \<and> [] \<notin> dp_members dp
     \<and> (\<forall>i \<in> dp_members dp. joins (dp_members dp) i (dp_config dp i) (dp_peers dp i)
          \<and> (\<exists>d r sm. dk_files d = fmempty \<and> dk_plan d = [] \<and> boots (dp_config dp i) (dp_peers dp i) d r sm \<and> dp_lives dp i = (r, sm, [])))"

inductive evolves :: "deployment \<Rightarrow> deployment \<Rightarrow> bool" where
  handles: "i \<in> dp_members dp \<Longrightarrow> dp_lives dp i = (r, sm, out) \<Longrightarrow> authentic (dp_members dp) (dp_sent dp) i ev
    \<Longrightarrow> event_fits ev r \<Longrightarrow> runtime_step ev (with_plan plan r) = Some (Inr acts, r') \<Longrightarrow> apply_all sm (applied acts) = Some sm'
    \<Longrightarrow> evolves dp (dp\<lparr>dp_lives := (dp_lives dp)(i := (r', sm', out @ acts))\<rparr>)"
| restarts: "i \<in> dp_members dp \<Longrightarrow> dp_lives dp i = (r, sm, out)
    \<Longrightarrow> boots (dp_config dp i) (dp_peers dp i) (crashed cuts (snd (rt_wal r))) r' sm'
    \<Longrightarrow> evolves dp (dp\<lparr>dp_lives := (dp_lives dp)(i := (r', sm', out))\<rparr>)"
| fails: "i \<in> dp_members dp \<Longrightarrow> dp_lives dp i = (r, sm, out) \<Longrightarrow> authentic (dp_members dp) (dp_sent dp) i ev
    \<Longrightarrow> event_fits ev r \<Longrightarrow> runtime_step ev (with_plan plan r) = Some (Inl e, r1)
    \<Longrightarrow> boots (dp_config dp i) (dp_peers dp i) (crashed cuts (snd (rt_wal r1))) r' sm'
    \<Longrightarrow> evolves dp (dp\<lparr>dp_lives := (dp_lives dp)(i := (r', sm', out))\<rparr>)"

inductive_cases evolvesE: "evolves dp dp'"

text \<open>A member handles an event and no I/O call fails.\<close>

definition responds :: "NodeID \<Rightarrow> Event \<Rightarrow> deployment \<Rightarrow> Action list \<Rightarrow> deployment \<Rightarrow> bool" where
  "responds i ev dp acts dp' \<longleftrightarrow> (\<exists>r sm out r' sm'. i \<in> dp_members dp \<and> dp_lives dp i = (r, sm, out) \<and> event_fits ev r
     \<and> runtime_step ev (with_plan [] r) = Some (Inr acts, r') \<and> apply_all sm (applied acts) = Some sm'
     \<and> dp' = dp\<lparr>dp_lives := (dp_lives dp)(i := (r', sm', out @ acts))\<rparr>)"

lemma responds_evolves: "responds i ev dp acts dp' \<Longrightarrow> authentic (dp_members dp) (dp_sent dp) i ev \<Longrightarrow> evolves dp dp'"
  unfolding responds_def using evolves.handles by blast

lemma evolves_lives:
  assumes "evolves dp dp'"
  shows "\<exists>i l. i \<in> dp_members dp \<and> dp' = dp\<lparr>dp_lives := (dp_lives dp)(i := l)\<rparr> \<and> lives (dp_config dp i) (dp_peers dp i) (dp_lives dp i) l"
  using assms
proof cases
  case (handles i r sm out ev plan acts r' sm')
  then show ?thesis using lives.handles [OF handles(5-7)] by (intro exI [of _ i] exI [of _ "(r', sm', out @ acts)"]) simp
next
  case (restarts i r sm out cuts r' sm')
  then show ?thesis using lives.restarts [OF restarts(4)] by (intro exI [of _ i] exI [of _ "(r', sm', out)"]) simp
next
  case (fails i r sm out ev plan e r1 cuts r' sm')
  then show ?thesis using lives.fails [OF fails(5-7)] by (intro exI [of _ i] exI [of _ "(r', sm', out)"]) simp
qed

definition sound :: "deployment \<Rightarrow> bool" where
  "sound dp \<longleftrightarrow> (\<forall>i \<in> dp_members dp. joins (dp_members dp) i (dp_config dp i) (dp_peers dp i) \<and> alive (dp_config dp i) (dp_lives dp i))"

lemma deployed_sound: "deployed dp \<Longrightarrow> sound dp"
  using fresh_boots(2) by (auto simp: deployed_def sound_def joins_def)

lemma evolves_sound:
  assumes "evolves dp dp'" "sound dp"
  shows "sound dp' \<and> dp_members dp' = dp_members dp"
proof -
  obtain i l where i: "i \<in> dp_members dp" "dp' = dp\<lparr>dp_lives := (dp_lives dp)(i := l)\<rparr>"
    "lives (dp_config dp i) (dp_peers dp i) (dp_lives dp i) l" using evolves_lives [OF assms(1)] by blast
  have "alive (dp_config dp i) l" using lives_alive [OF i(3)] assms(2) i(1) by (auto simp: sound_def joins_def)
  then show ?thesis using assms(2) i by (simp add: sound_def)
qed

lemma reached_sound: "evolves\<^sup>*\<^sup>* dp0 dp \<Longrightarrow> deployed dp0 \<Longrightarrow> sound dp"
  by (induction rule: rtranclp_induct) (auto simp: deployed_sound dest: evolves_sound)

text \<open>A Node that has just booted follows and has no request open.\<close>

definition follows_afresh :: "Config \<Rightarrow> NodeID list \<Rightarrow> Node \<Rightarrow> bool" where
  "follows_afresh cfg peers n \<longleftrightarrow> n_role n = Follower \<and> n_pendingHardState n = Map.empty \<and> vote_inv n
     \<and> n_id n = ns_ID (cfg_Node cfg) \<and> n_peers n = sort peers"

lemma comes_up_follows:
  assumes "comes_up cfg peers im s r sm"
  shows "follows_afresh cfg peers (rt_core r)"
proof -
  have c: "core (rt_core r) = core ((core_of cfg peers im)\<lparr>n_lastApplied := im_Commit im\<rparr>)" "idle (rt_core r)"
    using assms by (simp_all add: comes_up_def at_rest_def)
  have "n_role (core_of cfg peers im) = Follower \<and> n_id (core_of cfg peers im) = ns_ID (cfg_Node cfg) \<and> n_peers (core_of cfg peers im) = sort peers"
    by (simp add: core_of_def NewNodeFromRecoveredState_def Let_def)
  then show ?thesis using core_fields [OF c(1)] c(2) idle_tracks [OF c(2)]
    by (simp add: follows_afresh_def tracks_def idle_defs)
qed

lemma reboot_follows:
  assumes "alive cfg (r, sm, out)" "can_open (walIdentity cfg) defaultSegmentSize"
  shows "boots cfg peers (crashed cuts (snd (rt_wal r))) r' sm' \<Longrightarrow> follows_afresh cfg peers (rt_core r')"
    "event_fits ev r \<Longrightarrow> runtime_step ev (with_plan plan r) = Some (Inl e, r1)
      \<Longrightarrow> boots cfg peers (crashed cuts (snd (rt_wal r1))) r' sm' \<Longrightarrow> follows_afresh cfg peers (rt_core r')"
proof -
  have rest: "at_rest (walIdentity cfg) r" using assms(1) by (simp add: alive_def)
  then have "survived (walIdentity cfg) (image_of (rt_core r)) (snd (rt_wal r))" using mirrors_survived by (simp add: at_rest_def)
  from boots_alive(2) [OF assms(1) this assms(2)]
  show "boots cfg peers (crashed cuts (snd (rt_wal r))) r' sm' \<Longrightarrow> follows_afresh cfg peers (rt_core r')"
    using comes_up_follows by blast
  assume e: "event_fits ev r" "runtime_step ev (with_plan plan r) = Some (Inl e, r1)"
    "boots cfg peers (crashed cuts (snd (rt_wal r1))) r' sm'"
  have "at_rest (walIdentity cfg) (with_plan plan r)" using rest by (simp add: with_plan_rest)
  from step_returns [OF this, of ev] e(1,2)
  have "survived (walIdentity cfg) (image_of (rt_core r)) (snd (rt_wal r1))" by auto
  from boots_alive(2) [OF assms(1) this assms(2) e(3)] show "follows_afresh cfg peers (rt_core r')" using comes_up_follows by blast
qed

section \<open>The contract of elections\<close>

lemma deployed_polled:
  assumes "deployed dp"
  shows "polled (dp_members dp) (dp_node dp, dp_sent dp)"
  unfolding polled_def prod.case
proof (intro ballI)
  fix i
  assume "i \<in> dp_members dp"
  then obtain d r sm where i: "joins (dp_members dp) i (dp_config dp i) (dp_peers dp i)" "dk_files d = fmempty" "dk_plan d = []"
    "boots (dp_config dp i) (dp_peers dp i) d r sm" "dp_lives dp i = (r, sm, [])"
    using assms by (auto simp: deployed_def)
  then have "follows_afresh (dp_config dp i) (dp_peers dp i) (rt_core r)"
    using fresh_boots(3) [OF i(2,3) _ _ i(4)] comes_up_follows by (auto simp: joins_def)
  then show "seated (dp_members dp) i (dp_node dp i) \<and> backed (dp_members dp) (dp_sent dp) i (dp_node dp i) \<and> asked (dp_sent dp) (dp_sent dp i)"
    using i(1,5) new_member_polled [of "rt_core r" i "dp_members dp" "dp_sent dp"]
    by (simp add: dp_node_def dp_sent_def follows_afresh_def joins_def asked_def)
qed

lemma evolves_hops:
  assumes "evolves dp dp'" "sound dp" "polled (dp_members dp) (dp_node dp, dp_sent dp)"
  shows "(hop (dp_members dp))\<^sup>*\<^sup>* (dp_node dp, dp_sent dp) (dp_node dp', dp_sent dp')"
proof -
  have node: "dp_node (dp\<lparr>dp_lives := (dp_lives dp)(i := (r, sm, out))\<rparr>) = (dp_node dp)(i := rt_core r)"
    "dp_sent (dp\<lparr>dp_lives := (dp_lives dp)(i := (r, sm, out))\<rparr>) = (dp_sent dp)(i := out)" for i r sm out
    by (auto simp: dp_node_def dp_sent_def)
  have same: "(dp_sent dp)(i := out) = dp_sent dp" if "dp_lives dp i = (r, sm, out)" for i r sm out
    using that by (auto simp: dp_sent_def)
  have reborn: "hop (dp_members dp) (dp_node dp, dp_sent dp) ((dp_node dp)(i := rt_core r'), dp_sent dp)"
    if "i \<in> dp_members dp" "follows_afresh (dp_config dp i) (dp_peers dp i) (rt_core r')" for i r'
  proof -
    have "seated (dp_members dp) i (dp_node dp i)" "joins (dp_members dp) i (dp_config dp i) (dp_peers dp i)"
      using assms(2,3) that(1) by (simp_all add: polled_def sound_def)
    then have "reborn (dp_node dp i) (rt_core r')"
      using that(2) by (simp add: reborn_def seated_def joins_def follows_afresh_def)
    then show ?thesis using that(1) by (rule hop.restarts [rotated])
  qed
  have ready: "alive (dp_config dp i) (dp_lives dp i)" "can_open (walIdentity (dp_config dp i)) defaultSegmentSize"
    if "i \<in> dp_members dp" for i
    using assms(2) that by (simp_all add: sound_def joins_def)
  show ?thesis using assms(1)
  proof cases
    case (handles i r sm out ev plan acts r' sm')
    obtain requests all where run: "Run (rt_core r) (ev # map completion requests) = Some (rt_core r', all)"
      "acts = filter (\<lambda>a. \<not> storing a) all" using runtime_step_runs [OF handles(6)] by auto
    have "Run (dp_node dp i) (ev # map completion requests) = Some (rt_core r', all)" using run(1) handles(3) by (simp add: dp_node_def)
    moreover have "\<forall>event \<in> set (ev # map completion requests). authentic (dp_members dp) (dp_sent dp) i event"
      using handles(4) completion_not_message by auto
    ultimately have "(hop (dp_members dp))\<^sup>*\<^sup>* (dp_node dp, dp_sent dp)
        ((dp_node dp)(i := rt_core r'), (dp_sent dp)(i := dp_sent dp i @ acts))"
      using Run_hops [of "dp_node dp" i _ "rt_core r'" all "dp_members dp" "dp_sent dp"] handles(2) run(2) by blast
    then show ?thesis using handles(1,3) node [of i r' sm' "out @ acts"] by (simp add: dp_sent_def)
  next
    case (restarts i r sm out cuts r' sm')
    have "follows_afresh (dp_config dp i) (dp_peers dp i) (rt_core r')"
      using reboot_follows(1) [OF _ ready(2) [OF restarts(2)] restarts(4)] ready(1) [OF restarts(2)] restarts(3) by simp
    from r_into_rtranclp [of "hop (dp_members dp)", OF reborn [OF restarts(2) this]]
    show ?thesis using same [OF restarts(3)] restarts(1) node [of i r' sm' out] by simp
  next
    case (fails i r sm out ev plan e r1 cuts r' sm')
    have "follows_afresh (dp_config dp i) (dp_peers dp i) (rt_core r')"
      using reboot_follows(2) [OF _ ready(2) [OF fails(2)] fails(5-7)] ready(1) [OF fails(2)] fails(3) by simp
    from r_into_rtranclp [of "hop (dp_members dp)", OF reborn [OF fails(2) this]]
    show ?thesis using same [OF fails(3)] fails(1) node [of i r' sm' out] by simp
  qed
qed

lemma reached_polled_deployment:
  assumes "evolves\<^sup>*\<^sup>* dp0 dp" "deployed dp0"
  shows "polled (dp_members dp) (dp_node dp, dp_sent dp) \<and> finite (dp_members dp) \<and> dp_members dp = dp_members dp0"
  using assms
proof (induction rule: rtranclp_induct)
  case base
  then show ?case using deployed_polled by (simp add: deployed_def)
next
  case (step dp1 dp2)
  have s: "sound dp1" using reached_sound step by blast
  then show ?case using step hops_polled [OF evolves_hops [OF step(2) s]] evolves_sound [OF step(2) s] by auto
qed

interpretation nodes: cluster dp_members dp_node dp_sent deployed evolves
proof unfold_locales
  fix dp0 dp dp' i
  show "deployed dp \<Longrightarrow> finite (dp_members dp) \<and> [] \<notin> dp_members dp" by (simp add: deployed_def)
  show "deployed dp \<Longrightarrow> polled (dp_members dp) (dp_node dp, dp_sent dp)" by (rule deployed_polled)
  show "evolves dp dp' \<Longrightarrow> dp_members dp' = dp_members dp" using evolves_lives by fastforce
  show "(hop (dp_members dp))\<^sup>*\<^sup>* (dp_node dp, dp_sent dp) (dp_node dp', dp_sent dp')"
    if "deployed dp0" "evolves\<^sup>*\<^sup>* dp0 dp" "evolves dp dp'"
    using evolves_hops [OF that(3) reached_sound [OF that(2,1)]] reached_polled_deployment [OF that(2,1)] by blast
  show "single_valued {(t, c). (c, t) \<in> promises (dp_sent dp i) \<and> c \<noteq> []}"
    if "deployed dp0" "evolves\<^sup>*\<^sup>* dp0 dp" "i \<in> dp_members dp"
    using reached_sound [OF that(2,1)] that(3) by (auto simp: sound_def alive_def one_vote_def dp_sent_def)
qed

section \<open>A sample cluster\<close>

definition sample_member :: "NodeID \<Rightarrow> Config" where
  "sample_member i = sample_config\<lparr>cfg_Node := (cfg_Node sample_config)\<lparr>ns_ID := i\<rparr>\<rparr>"

definition sample_peers :: "NodeID \<Rightarrow> NodeID list" where
  "sample_peers i = filter (\<lambda>j. j \<noteq> i) [''n1'', ''n2'', ''n3'']"

definition sample_started :: "deployment \<Rightarrow> bool" where
  "sample_started dp \<longleftrightarrow> deployed dp \<and> dp_config dp = sample_member \<and> dp_peers dp = sample_peers \<and> dp_members dp = {''n1'', ''n2'', ''n3''}
     \<and> (\<forall>i \<in> dp_members dp. dp_node dp i = core_of (sample_member i) (sample_peers i) (image.make 0 [] 0 [] 0) \<and> dp_sent dp i = []
          \<and> segment (fst (dp_lives dp i)) \<le> 3)"

lemma sample_joins:
  assumes "i \<in> {''n1'', ''n2'', ''n3''}"
  shows "joins {''n1'', ''n2'', ''n3''} i (sample_member i) (sample_peers i)"
  using assms unfolding joins_def
  by (auto simp: sample_member_def sample_peers_def sample_config_def can_open_def walIdentity_def blank_def identity_ok_def
    defaultSegmentSize_def segmentHeaderSize_def segmentMagic_def frameHeaderSize_def maxRecordSize_def fmdom_fmap_of_list)

lemma sample_starts: "\<exists>dp. sample_started dp"
proof -
  let ?M = "{''n1'', ''n2'', ''n3''}"
  have d: "dk_files empty_disk = fmempty" "dk_plan empty_disk = []" by (simp_all add: empty_disk_def)
  have "\<exists>l :: life. boots (sample_member i) (sample_peers i) empty_disk (fst l) (fst (snd l)) \<and> snd (snd l) = []
      \<and> rt_core (fst l) = core_of (sample_member i) (sample_peers i) (image.make 0 [] 0 [] 0) \<and> segment (fst l) \<le> 3" if "i \<in> ?M" for i
    using fresh_boots(1) [OF d, of "sample_member i" "sample_peers i"] sample_joins [OF that]
    by (auto simp: joins_def intro: exI [of _ "(_, _, [])"])
  then obtain f :: "NodeID \<Rightarrow> life" where f: "\<And>i. i \<in> ?M \<Longrightarrow> boots (sample_member i) (sample_peers i) empty_disk (fst (f i)) (fst (snd (f i))) \<and> snd (snd (f i)) = []
      \<and> rt_core (fst (f i)) = core_of (sample_member i) (sample_peers i) (image.make 0 [] 0 [] 0) \<and> segment (fst (f i)) \<le> 3"
    by metis
  let ?dp = "\<lparr>dp_config = sample_member, dp_peers = sample_peers, dp_members = ?M, dp_lives = f\<rparr>"
  have "\<exists>d r sm. dk_files d = fmempty \<and> dk_plan d = [] \<and> boots (sample_member i) (sample_peers i) d r sm \<and> f i = (r, sm, [])" if "i \<in> ?M" for i
    using f [OF that] d by (intro exI [of _ empty_disk] exI [of _ "fst (f i)"] exI [of _ "fst (snd (f i))"]) (auto simp: prod_eq_iff)
  then have "deployed ?dp" using sample_joins by (simp add: deployed_def)
  then show ?thesis using f unfolding sample_started_def by (intro exI [of _ ?dp]) (simp add: dp_node_def dp_sent_def)
qed

section \<open>Playing a script\<close>

text \<open>
  The core's part of \<open>step\<close>, when no I/O call fails: requests complete in order. \<open>turn\<close> lets a member
  of the sample cluster handle an event that it can handle, and \<open>play\<close> a list of them.
\<close>

fun settle :: "nat \<Rightarrow> Action list \<Rightarrow> Action list \<Rightarrow> Node \<Rightarrow> (Node \<times> Action list) option" where
  "settle k [] emitted n = Some (n, emitted)"
| "settle 0 (a # pending) emitted n = None"
| "settle (Suc k) (a # pending) emitted n =
    (if storing a then (case Step n (completion a) of None \<Rightarrow> None | Some (n', new) \<Rightarrow> settle k (pending @ new) emitted n')
     else settle k pending (emitted @ [a]) n)"

lemma settle_numeral [simp]:
  "settle (numeral k) (a # pending) emitted n =
    (if storing a then (case Step n (completion a) of None \<Rightarrow> None | Some (n', new) \<Rightarrow> settle (pred_numeral k) (pending @ new) emitted n')
     else settle (pred_numeral k) pending (emitted @ [a]) n)"
  by (simp add: numeral_eq_Suc)

definition turn :: "NodeID \<Rightarrow> Event \<Rightarrow> cores \<times> mail \<Rightarrow> (cores \<times> mail) option" where
  "turn i ev v =
    (case v of (node, sent) \<Rightarrow>
       if authentic {''n1'', ''n2'', ''n3''} sent i ev \<and> event_ok (node i) ev \<and> outside (node i) ev \<and> n_term (node i) + 1 < W64
       then (case Step (node i) ev of
          None \<Rightarrow> None
        | Some (n, acts) \<Rightarrow>
            if storable_node n \<and> total_work acts * (1 + length (n_log n)) \<le> 100
            then (case settle 20 acts [] n of None \<Rightarrow> None
                  | Some (n', out) \<Rightarrow> Some (node(i := n'), sent(i := sent i @ out)))
            else None)
       else None)"

fun play :: "(NodeID \<times> Event) list \<Rightarrow> cores \<times> mail \<Rightarrow> (cores \<times> mail) option" where
  "play [] v = Some v"
| "play ((i, ev) # evs) v = (case turn i ev v of None \<Rightarrow> None | Some v' \<Rightarrow> play evs v')"

definition outset :: "cores \<times> mail" where
  "outset = (\<lambda>i. core_of (sample_member i) (sample_peers i) (image.make 0 [] 0 [] 0), \<lambda>i. [])"

lemma drain_settles:
  "settle k pending emitted (rt_core r) = Some (n, out) \<Longrightarrow> drain pending emitted r = Some (Inr out', r') \<Longrightarrow> rt_core r' = n \<and> out' = out"
proof (induction k pending emitted "rt_core r" arbitrary: r rule: settle.induct)
  case (1 k emitted)
  then show ?case by (simp add: drain.simps)
next
  case (3 k a pending emitted)
  show ?case
  proof (cases "storing a")
    case True
    obtain n' new where n': "Step (rt_core r) (completion a) = Some (n', new)" "settle k (pending @ new) emitted n' = Some (n, out)"
      using 3(3) True by (auto split: option.splits)
    obtain x r1 where p: "persistAction a r = Some (x, r1)"
      using True persistAction_None [of a r] by (cases "persistAction a r") auto
    then have core: "rt_core r1 = rt_core r" using persistAction_storing by blast
    have x: "x = None" using 3(4) p by (cases x) (simp_all add: drain.simps [of "a # pending"])
    have "drain (pending @ new) emitted (r1\<lparr>rt_core := n'\<rparr>) = Some (Inr out', r')"
      using 3(4) p x core n'(1) by (simp add: drain.simps [of "a # pending"])
    then show ?thesis using 3(1) [OF True n'(1), of "r1\<lparr>rt_core := n'\<rparr>" new] n'(2) by simp
  next
    case False
    then have "drain pending (emitted @ [a]) r = Some (Inr out', r')"
      using 3(4) storing_persistAction [OF False] by (simp add: drain.simps [of "a # pending"])
    then show ?thesis using 3(2) [OF False refl] 3(3) False by simp
  qed
qed simp

text \<open>A stage: the cluster that the sample has reached, and what the script knows of it.\<close>

definition stage :: "deployment \<Rightarrow> cores \<times> mail \<Rightarrow> nat \<Rightarrow> bool" where
  "stage dp v g \<longleftrightarrow> (\<exists>dp0. sample_started dp0 \<and> evolves\<^sup>*\<^sup>* dp0 dp) \<and> dp_members dp = {''n1'', ''n2'', ''n3''} \<and> dp_config dp = sample_member
     \<and> (\<forall>i \<in> dp_members dp. dp_node dp i = fst v i \<and> dp_sent dp i = snd v i \<and> segment (fst (dp_lives dp i)) \<le> g)"

lemma stage_reached:
  assumes "stage dp v g"
  obtains dp0 where "deployed dp0" "evolves\<^sup>*\<^sup>* dp0 dp" "dp_members dp = {''n1'', ''n2'', ''n3''}"
    "\<forall>i \<in> {''n1'', ''n2'', ''n3''}. dp_node dp i = fst v i"
proof -
  obtain dp0 where "sample_started dp0" "evolves\<^sup>*\<^sup>* dp0 dp" using assms unfolding stage_def by (elim conjE exE)
  moreover have m: "dp_members dp = {''n1'', ''n2'', ''n3''}" "\<forall>i \<in> dp_members dp. dp_node dp i = fst v i"
    using assms unfolding stage_def by blast+
  moreover have "deployed dp0" using \<open>sample_started dp0\<close> by (simp add: sample_started_def)
  ultimately show thesis using that [of dp0] by metis
qed

lemma stage_start: "\<exists>dp. stage dp outset 3"
  using sample_starts unfolding stage_def sample_started_def outset_def by fastforce

lemma turn_responds:
  assumes "stage dp v g" "turn i ev v = Some v'" "i \<in> {''n1'', ''n2'', ''n3''}" "g + 100 < W64"
  shows "\<exists>dp' acts. responds i ev dp acts dp' \<and> stage dp' v' (g + 100) \<and> snd v' i = snd v i @ acts"
proof -
  let ?M = "{''n1'', ''n2'', ''n3''}"
  obtain node sent where v: "v = (node, sent)" by (cases v)
  define may where "may \<longleftrightarrow> authentic ?M sent i ev \<and> event_ok (node i) ev \<and> outside (node i) ev \<and> n_term (node i) + 1 < W64"
  have may: "may" using assms(2) unfolding turn_def v prod.case may_def [symmetric] by (cases may) simp_all
  then have "(case Step (node i) ev of None \<Rightarrow> None | Some (n, acts) \<Rightarrow>
      if storable_node n \<and> total_work acts * (1 + length (n_log n)) \<le> 100
      then (case settle 20 acts [] n of None \<Rightarrow> None | Some (n', out) \<Rightarrow> Some (node(i := n'), sent(i := sent i @ out))) else None) = Some v'"
    using assms(2) unfolding turn_def v prod.case may_def [symmetric] by simp
  then obtain n acts where n: "Step (node i) ev = Some (n, acts)"
    "(if storable_node n \<and> total_work acts * (1 + length (n_log n)) \<le> 100
      then (case settle 20 acts [] n of None \<Rightarrow> None | Some (n', out) \<Rightarrow> Some (node(i := n'), sent(i := sent i @ out))) else None) = Some v'"
    by (cases "Step (node i) ev") auto
  obtain n' out where n': "storable_node n \<and> total_work acts * (1 + length (n_log n)) \<le> 100" "settle 20 acts [] n = Some (n', out)"
    "v' = (node(i := n'), sent(i := sent i @ out))"
    using n(2) by (cases "settle 20 acts [] n") (auto simp del: One_nat_def split: if_split_asm)
  have t: "authentic ?M sent i ev" "event_ok (node i) ev" "outside (node i) ev" "n_term (node i) + 1 < W64"
    "Step (node i) ev = Some (n, acts)" "storable_node n" "total_work acts * (1 + length (n_log n)) \<le> 100" "settle 20 acts [] n = Some (n', out)"
    "v' = (node(i := n'), sent(i := sent i @ out))"
    using may n(1) n' by (simp_all add: may_def)
  obtain dp0 where dp0: "deployed dp0" "sample_started dp0" "evolves\<^sup>*\<^sup>* dp0 dp" using assms(1) by (auto simp: stage_def sample_started_def)
  have M: "dp_members dp = ?M" "dp_config dp = sample_member" and
    same: "j \<in> ?M \<Longrightarrow> dp_node dp j = node j \<and> dp_sent dp j = sent j \<and> segment (fst (dp_lives dp j)) \<le> g" for j
    using assms(1) by (auto simp: stage_def v)
  obtain r sm past where l: "dp_lives dp i = (r, sm, past)" by (cases "dp_lives dp i")
  then have i: "rt_core r = node i" "past = sent i" "segment r \<le> g" using same [OF assms(3)] by (simp_all add: dp_node_def dp_sent_def)
  have s: "sound dp" using reached_sound [OF dp0(3,1)] .
  have "authentic (dp_members dp) (dp_sent dp) i ev" using t(1) same unfolding M authentic_def by (cases ev) auto
  moreover have fits: "event_fits ev r" using t i(1,3) assms(4) by (simp add: event_fits_def)
  moreover
  have "alive (sample_member i) (r, sm, past)" using s assms(3) unfolding sound_def M l [symmetric] by blast
  then have "at_rest (walIdentity (sample_member i)) (with_plan [] r)" by (simp add: alive_def with_plan_rest)
  note ret = step_returns [OF this, of ev]
  obtain y r' where y: "runtime_step ev (with_plan [] r) = Some (y, r')" using ret fits by auto
  have step: "Step (rt_core r) ev = Some (n, acts)" using t(5) i(1) by simp
  obtain emitted where e: "y = Inr emitted" "at_rest (walIdentity (sample_member i)) r'"
    "tracks (applied_prefix (rt_core r)) emitted (rt_core r')" "segment r' \<le> segment r + total_work acts * (1 + length (n_log n))"
    using ret fits y step by (cases y) (auto simp del: One_nat_def)
  then have e: "runtime_step ev (with_plan [] r) = Some (Inr emitted, r')" "at_rest (walIdentity (sample_member i)) r'"
    "tracks (applied_prefix (rt_core r)) emitted (rt_core r')" "segment r' \<le> g + 100"
    using i(3) t(7) y by (simp_all del: One_nat_def)
  have r': "rt_core r' = n' \<and> emitted = out"
    using drain_settles [of 20 acts "[]" "(with_plan [] r)\<lparr>rt_core := n\<rparr>" n' out emitted r'] t(5,8) e(1) i(1)
    by (simp add: runtime_step_def)
  have "list_all storable (n_log (rt_core r'))" using e(2) by (simp add: at_rest_def mirrors_def image_wf_def)
  then have "list_all storable (applied emitted)" using e(3)
    by (simp add: tracks_def applied_prefix_def list_all_iff) (metis UnCI in_set_takeD set_append)
  then obtain sm' where "apply_all sm (applied emitted) = Some sm'" using apply_all_storable by blast
  ultimately have ev: "authentic (dp_members dp) (dp_sent dp) i ev"
    "responds i ev dp emitted (dp\<lparr>dp_lives := (dp_lives dp)(i := (r', sm', past @ emitted))\<rparr>)" (is "responds i ev dp emitted ?dp")
    unfolding responds_def using l e(1) assms(3) M by blast+
  then have "evolves\<^sup>*\<^sup>* dp0 ?dp" using dp0(3) responds_evolves by (metis rtranclp.rtrancl_into_rtrancl)
  then have "stage ?dp v' (g + 100)" using dp0(2) M same e(4) r' i(2) unfolding stage_def t(9)
    by (auto simp: dp_node_def dp_sent_def le_Suc_eq trans_le_add1)
  then show ?thesis using ev(2) r' t(9) by (intro exI [of _ ?dp] exI [of _ emitted]) (simp add: v)
qed

lemma play_evolves:
  "play evs v = Some v' \<Longrightarrow> stage dp v g \<Longrightarrow> fst ` set evs \<subseteq> {''n1'', ''n2'', ''n3''} \<Longrightarrow> g + 100 * length evs < W64
    \<Longrightarrow> \<exists>dp' g'. stage dp' v' g'"
proof (induction evs arbitrary: v dp g)
  case (Cons x evs)
  obtain i ev where x: "x = (i, ev)" by (cases x)
  obtain v1 where v1: "turn i ev v = Some v1" "play evs v1 = Some v'" using Cons.prems(1) x by (auto split: option.splits)
  obtain dp1 where "stage dp1 v1 (g + 100)" using turn_responds [OF Cons.prems(2) v1(1)] Cons.prems(3,4) x by auto
  then show ?case using Cons.IH [OF v1(2)] Cons.prems(3,4) by simp
qed auto

section \<open>A sample election\<close>

definition ask_vote :: "NodeID \<Rightarrow> u64 \<Rightarrow> u64 \<Rightarrow> u64 \<Rightarrow> Event" where
  "ask_vote i t lst lastTerm = EvVoteRequest \<lparr>vq_From = i, vq_Term = t, vq_LastLogIndex = lst, vq_LastLogTerm = lastTerm\<rparr>"

text \<open>A member is elected with the vote of \<open>n2\<close>.\<close>

definition elect :: "NodeID \<Rightarrow> u64 \<Rightarrow> u64 \<Rightarrow> u64 \<Rightarrow> (NodeID \<times> Event) list" where
  "elect i t lst lastTerm =
    [(i, ElectionTimeout),
     (''n2'', EvPreVoteRequest \<lparr>pvq_From = i, pvq_Term = t, pvq_LastLogIndex = lst, pvq_LastLogTerm = lastTerm\<rparr>),
     (i, EvPreVoteResponse \<lparr>pvr_From = ''n2'', pvr_Term = t, pvr_CurrentTerm = t - 1, pvr_Granted = True\<rparr>),
     (''n2'', ask_vote i t lst lastTerm),
     (i, EvVoteResponse \<lparr>vr_From = ''n2'', vr_Term = t, vr_Granted = True\<rparr>)]"

lemma zero_session_length [simp]: "length zeroSessionID = 16"
  by (simp add: zeroSessionID_def)

lemma sorted_none [simp]: "sorted_list_of_fset {||} = []"
  by (simp add: sorted_list_of_fset.rep_eq)

lemmas play_eval = elect_def ask_vote_def turn_def outset_def core_of_def sample_member_def sample_peers_def sample_config_def image.make_def
  NewNodeFromRecoveredState_def trimRecovered_def handleVoteRequest_def hardStatePersisted_def startPreVote_def handlePreVoteRequest_def
  handlePreVoteResponse_def startElection_def handleVoteResponse_def becomeLeader_def noOpEntry_def leaderPending_def
  persistHardState_def becomeFollower_def voteResponse_def voteIsDurable_def candidateLogIsUpToDate_def
  logIsAtLeastAsUpToDate_def
  handleAppendEntries_def acceptLeader_def matches_def termAt_def entriesToAppend_def acceptAppend_def
  truncateLog_def appendEntries_def persistLog_def persistIf_def
  logEntriesPersisted_def advanceFollowerCommit_def persistCommit_def commitIndexPersisted_def applyThrough_def
  applyNext_def appendEntriesResponse_def Let_def
  index_at_def slice_to_def slice_from_def completeReads_none small_less_W64
  handleAppendEntriesResponse_def recordProgress_def
  advanceLeaderCommit_def replicatedCount_def quorum_def sendAppendEntries_def sendAppendEntriesTo_def
  acknowledgeRead_def lookup_default_def zeroAppend_def entriesBatch_def
  authentic_def event_ok_def storable_node_def storable_def entry_ok_def toWal_def record_ok_def entry_record_def
  maxRecordSize_def pendingReadFor_def rejectAppend_def conflictHint_def maxAppendEntriesBytes_def entryBytes_def W32_def
  nextIndexFromConflict_def heartbeatRound_def handleAppendEntriesFailed_def
  proposeSet_def proposeEntry_def proposeSession_def

lemma sample_election: "\<exists>v. play (elect ''n1'' 1 0 0) outset = Some v \<and> n_role (fst v ''n1'') = Leader \<and> n_term (fst v ''n1'') = 1"
  by (simp add: play_eval)

section \<open>Properties\<close>

text \<open>
  C1: a Term has at most one Leader. In every cluster of Nodes that started on empty disks, whatever
  messages are lost, delayed, repeated or reordered and however often Nodes crash at an I/O call and
  start again, all the members that lead in a Term are the same member. No Node takes or installs a
  Snapshot.
\<close>

theorem one_leader_per_term:
  assumes "deployed dp0" "evolves\<^sup>*\<^sup>* dp0 dp"
  shows "\<exists>leader. {i \<in> dp_members dp. n_role (dp_node dp i) = Leader \<and> n_term (dp_node dp i) = t} \<subseteq> {leader}"
proof -
  have "i = j" if "i \<in> dp_members dp" "j \<in> dp_members dp" "n_role (dp_node dp i) = Leader \<and> n_term (dp_node dp i) = t"
    "n_role (dp_node dp j) = Leader \<and> n_term (dp_node dp j) = t" for i j
    using nodes.election_safety [OF assms that(1,2)] that(3,4) by simp
  then show ?thesis by blast
qed

theorem one_leader_per_term_witness:
  "\<exists>dp0 dp. deployed dp0 \<and> evolves\<^sup>*\<^sup>* dp0 dp \<and> ''n1'' \<in> dp_members dp \<and> n_role (dp_node dp ''n1'') = Leader \<and> n_term (dp_node dp ''n1'') = 1
     \<and> (\<exists>leader. {i \<in> dp_members dp. n_role (dp_node dp i) = Leader \<and> n_term (dp_node dp i) = 1} \<subseteq> {leader})"
proof -
  obtain v where v: "play (elect ''n1'' 1 0 0) outset = Some v" "n_role (fst v ''n1'') = Leader" "n_term (fst v ''n1'') = 1"
    using sample_election by blast
  obtain dp1 where "stage dp1 outset 3" using stage_start by blast
  moreover have "fst ` set (elect ''n1'' 1 0 0) \<subseteq> {''n1'', ''n2'', ''n3''}" "3 + 100 * length (elect ''n1'' 1 0 0) < W64"
    by (simp_all add: elect_def W64_def)
  ultimately obtain dp g where dp: "stage dp v g" using play_evolves [OF v(1)] by blast
  obtain dp0 where dp0: "deployed dp0" "evolves\<^sup>*\<^sup>* dp0 dp" and m: "dp_members dp = {''n1'', ''n2'', ''n3''}"
    "\<forall>i \<in> {''n1'', ''n2'', ''n3''}. dp_node dp i = fst v i"
    using dp by (rule stage_reached)
  have "''n1'' \<in> dp_members dp" "dp_node dp ''n1'' = fst v ''n1''" using m by simp_all
  then show ?thesis using dp0 v(2,3) one_leader_per_term [OF dp0, of 1] by (intro exI [of _ dp0] exI [of _ dp] conjI) simp_all
qed

end
