(* ===== verification/Divergence.thy ===== *)
theory Divergence
  imports Node_Cluster
begin

text \<open>
  An execution in which two Nodes commit different entries at the same index. A Follower answers a
  replication request that brings no new entry with its own last index, and commits up to it, even when
  the request covers only a part of its log (\<open>handleAppendEntries\<close> and \<open>advanceFollowerCommit\<close> in
  \<open>src/internal/raft/raft.go\<close>). Requests that stop before the first conflict come about when a Leader
  handles the rejection of a request that it sent in an earlier Term: the rejection carries the conflict
  index 0, the next index falls to 1, and a batch is limited to about one large value.

  The members are \<open>n1\<close>, \<open>n2\<close> and \<open>n3\<close>. In Term 1 \<open>n1\<close> leads and \<open>n3\<close> receives entries 1 to 4; the first
  request to \<open>n3\<close> stays in the network. In Term 2 \<open>n3\<close> leads and stores entries 5 and 6 that nobody else
  receives. In Term 3 \<open>n1\<close> leads again and commits other entries 5 and 6 with \<open>n2\<close>. Then the old request
  reaches \<open>n3\<close>.
\<close>

section \<open>A network that does not repeat or invent\<close>

text \<open>
  A situation: the cluster, and the messages that are on their way with their senders. A message that
  is handled is taken off, so it is never handled twice; one that is never taken off is lost. No Node
  stops and no I/O call fails.
\<close>

type_synonym letter = "NodeID \<times> Action"
type_synonym situation = "deployment \<times> letter list"

text \<open>Messages to a peer.\<close>

fun sending :: "Action \<Rightarrow> bool" where
  "sending (SendPreVoteRequest to m) = True"
| "sending (SendPreVoteResponse to m) = True"
| "sending (SendVoteRequest to m) = True"
| "sending (SendVoteResponse to m) = True"
| "sending (SendAppendEntries to m) = True"
| "sending (SendAppendEntriesResponse to m) = True"
| "sending a = False"

text \<open>The events that come about on the Node itself: its timers and the proposals of its clients.\<close>

fun own_event :: "Event \<Rightarrow> bool" where
  "own_event ElectionTimeout = True"
| "own_event HeartbeatTimeout = True"
| "own_event (EvProposeSession p) = True"
| "own_event (EvProposeSet p) = True"
| "own_event ev = False"

text \<open>
  The message that an event of node \<open>i\<close> takes off the network: the one it brings from its sender, or the
  replication request of the node itself whose sending has failed. There is none for other events.
\<close>

fun takes :: "NodeID \<Rightarrow> Event \<Rightarrow> letter \<Rightarrow> bool" where
  "takes i (EvPreVoteRequest m) l = (l = (pvq_From m, SendPreVoteRequest i m))"
| "takes i (EvPreVoteResponse m) l = (l = (pvr_From m, SendPreVoteResponse i m))"
| "takes i (EvVoteRequest m) l = (l = (vq_From m, SendVoteRequest i m))"
| "takes i (EvVoteResponse m) l = (l = (vr_From m, SendVoteResponse i m))"
| "takes i (EvAppendEntries m) l = (l = (ae_From m, SendAppendEntries i m))"
| "takes i (EvAppendEntriesResponse m) l = (l = (aer_From m, SendAppendEntriesResponse i m))"
| "takes i (AppendEntriesFailed to k) l =
    (case l of (j, SendAppendEntries to' m) \<Rightarrow> j = i \<and> to' = to \<and> ae_RequestID m = k | _ \<Rightarrow> False)"
| "takes i ev l = False"

definition posts :: "NodeID \<Rightarrow> Action list \<Rightarrow> letter list" where
  "posts i acts = map (Pair i) (filter sending acts)"

inductive handled :: "NodeID \<Rightarrow> Event \<Rightarrow> situation \<Rightarrow> situation \<Rightarrow> bool" where
  own: "own_event ev \<Longrightarrow> responds i ev dp acts dp' \<Longrightarrow> handled i ev (dp, net) (dp', net @ posts i acts)"
| brings: "l \<in> set net \<Longrightarrow> takes i ev l \<Longrightarrow> responds i ev dp acts dp' \<Longrightarrow> handled i ev (dp, net) (dp', remove1 l net @ posts i acts)"

definition unfolds :: "situation \<Rightarrow> situation \<Rightarrow> bool" where
  "unfolds s s' \<longleftrightarrow> (\<exists>i ev. handled i ev s s')"

text \<open>The same on the cores alone, as \<open>turn\<close> and \<open>play\<close> do.\<close>

definition relay :: "NodeID \<Rightarrow> Event \<Rightarrow> (cores \<times> mail) \<times> letter list \<Rightarrow> ((cores \<times> mail) \<times> letter list) option" where
  "relay i ev s =
    (case s of (v, net) \<Rightarrow>
       (case (if own_event ev then Some net else map_option (\<lambda>l. remove1 l net) (find (takes i ev) net)) of
          None \<Rightarrow> None
        | Some rest \<Rightarrow>
            (case turn i ev v of None \<Rightarrow> None
             | Some v' \<Rightarrow> Some (v', rest @ posts i (drop (length (snd v i)) (snd v' i))))))"

fun relays :: "(NodeID \<times> Event) list \<Rightarrow> (cores \<times> mail) \<times> letter list \<Rightarrow> ((cores \<times> mail) \<times> letter list) option" where
  "relays [] s = Some s"
| "relays ((i, ev) # evs) s = (case relay i ev s of None \<Rightarrow> None | Some s' \<Rightarrow> relays evs s')"

lemma relay_handled:
  assumes "stage dp v g" "relay i ev (v, net) = Some (v', net')" "i \<in> {''n1'', ''n2'', ''n3''}" "g + 100 < W64"
  shows "\<exists>dp'. handled i ev (dp, net) (dp', net') \<and> stage dp' v' (g + 100)"
proof -
  obtain rest where rest: "(if own_event ev then Some net else map_option (\<lambda>l. remove1 l net) (find (takes i ev) net)) = Some rest"
    and turn: "turn i ev v = Some v'" and net': "net' = rest @ posts i (drop (length (snd v i)) (snd v' i))"
    using assms(2) by (auto simp: relay_def simp del: if_split split: option.splits)
  obtain dp' acts where dp': "responds i ev dp acts dp'" "stage dp' v' (g + 100)" "snd v' i = snd v i @ acts"
    using turn_responds [OF assms(1) turn assms(3,4)] by blast
  have "handled i ev (dp, net) (dp', rest @ posts i acts)"
  proof (cases "own_event ev")
    case True
    then show ?thesis using rest handled.own [OF True dp'(1)] by simp
  next
    case False
    then obtain l where l: "find (takes i ev) net = Some l" "rest = remove1 l net" using rest by auto
    then have "l \<in> set net" "takes i ev l" unfolding find_Some_iff by auto
    then show ?thesis using handled.brings [OF _ _ dp'(1)] l(2) by simp
  qed
  then show ?thesis using dp'(2,3) net' by auto
qed

lemma relays_unfold:
  "relays evs (v, net) = Some (v', net') \<Longrightarrow> stage dp v g \<Longrightarrow> fst ` set evs \<subseteq> {''n1'', ''n2'', ''n3''} \<Longrightarrow> g + 100 * length evs < W64
    \<Longrightarrow> \<exists>dp'. unfolds\<^sup>*\<^sup>* (dp, net) (dp', net') \<and> stage dp' v' (g + 100 * length evs)"
proof (induction evs arbitrary: v net dp g)
  case (Cons x evs)
  obtain i ev where x: "x = (i, ev)" by (cases x)
  obtain v1 net1 where v1: "relay i ev (v, net) = Some (v1, net1)" "relays evs (v1, net1) = Some (v', net')"
    using Cons.prems(1) x by (auto split: option.splits)
  obtain dp1 where dp1: "handled i ev (dp, net) (dp1, net1)" "stage dp1 v1 (g + 100)"
    using relay_handled [OF Cons.prems(2) v1(1)] Cons.prems(3,4) x by auto
  then have "unfolds (dp, net) (dp1, net1)" by (auto simp: unfolds_def)
  moreover obtain dp' where "unfolds\<^sup>*\<^sup>* (dp1, net1) (dp', net')" "stage dp' v' (g + 100 + 100 * length evs)"
    using Cons.IH [OF v1(2) dp1(2)] Cons.prems(3,4) by auto
  ultimately show ?case using converse_rtranclp_into_rtranclp [of unfolds] by (intro exI [of _ dp']) (simp add: ac_simps)
qed auto

section \<open>The messages\<close>

definition large :: bytes where
  "large = replicate (2 ^ 20) (CHR ''v'')"

lemma large_length [simp]: "length large = 2 ^ 20"
  by (simp add: large_def)

definition set_at :: "u64 \<Rightarrow> u64 \<Rightarrow> u64 \<Rightarrow> string \<Rightarrow> bytes \<Rightarrow> LogEntry" where
  "set_at i t n k v = \<lparr>le_Index = i, le_Term = t, le_Type = EntrySet, le_SessionID = zeroSessionID, le_Sequence = n, le_Key = k, le_Value = v\<rparr>"

definition open_at :: "u64 \<Rightarrow> u64 \<Rightarrow> LogEntry" where
  "open_at i t = \<lparr>le_Index = i, le_Term = t, le_Type = EntryOpenSession, le_SessionID = zeroSessionID, le_Sequence = 0, le_Key = [], le_Value = []\<rparr>"

definition request :: "u64 \<Rightarrow> u64 \<Rightarrow> u64 \<Rightarrow> u64 \<Rightarrow> LogEntry list \<Rightarrow> u64 \<Rightarrow> Event" where
  "request t i prev prevTerm es commit = EvAppendEntries \<lparr>ae_From = ''n1'', ae_Term = t, ae_RequestID = i, ae_PrevLogIndex = prev,
     ae_PrevLogTerm = prevTerm, ae_Entries = es, ae_LeaderCommit = commit, ae_ReadID = 0\<rparr>"

definition reply :: "NodeID \<Rightarrow> u64 \<Rightarrow> u64 \<Rightarrow> bool \<Rightarrow> u64 \<Rightarrow> u64 \<Rightarrow> Event" where
  "reply from t i success match conflict = EvAppendEntriesResponse \<lparr>aer_From = from, aer_Term = t, aer_RequestID = i,
     aer_Success = success, aer_MatchIndex = match, aer_ConflictTerm = 0, aer_ConflictIndex = conflict, aer_ReadID = 0\<rparr>"

definition propose_set :: "u64 \<Rightarrow> string \<Rightarrow> bytes \<Rightarrow> Event" where
  "propose_set n k v = EvProposeSet \<lparr>pset_ProposalID = n, pset_SessionID = zeroSessionID, pset_Sequence = n, pset_Key = k, pset_Value = v\<rparr>"

definition propose_open :: Event where
  "propose_open = EvProposeSession \<lparr>ps_ProposalID = 9, ps_Type = EntryOpenSession, ps_SessionID = zeroSessionID\<rparr>"

section \<open>The execution\<close>

definition script :: "(NodeID \<times> Event) list" where
  "script =
    elect ''n1'' 1 0 0 @
    [(''n1'', propose_open), (''n1'', propose_set 1 ''a'' large), (''n1'', propose_set 2 ''b'' large), (''n1'', HeartbeatTimeout),
     (''n3'', request 1 4 1 1 [open_at 2 1, set_at 3 1 1 ''a'' large] 0),
     (''n1'', reply ''n3'' 1 4 False 0 1),
     (''n3'', request 1 5 0 0 [noOpEntry 1 1, open_at 2 1, set_at 3 1 1 ''a'' large] 0),
     (''n1'', reply ''n3'' 1 5 True 3 0),
     (''n3'', request 1 6 3 1 [set_at 4 1 2 ''b'' large] 3)] @
    elect ''n3'' 2 4 1 @
    [(''n3'', propose_set 3 ''k'' ''x''), (''n1'', ask_vote ''n3'' 2 4 1)] @
    elect ''n1'' 3 4 1 @
    [(''n1'', propose_set 3 ''k'' ''y''),
     (''n2'', request 3 7 5 3 [] 3),
     (''n1'', reply ''n2'' 3 7 False 0 1),
     (''n2'', request 3 9 0 0 [noOpEntry 1 1, open_at 2 1, set_at 3 1 1 ''a'' large] 3),
     (''n1'', reply ''n2'' 3 9 True 3 0),
     (''n2'', request 3 10 3 1 [set_at 4 1 2 ''b'' large, noOpEntry 5 3, set_at 6 3 3 ''k'' ''y''] 3),
     (''n1'', reply ''n2'' 3 10 True 6 0),
     (''n3'', ask_vote ''n1'' 3 4 1),
     (''n1'', AppendEntriesFailed ''n3'' 8),
     (''n3'', request 1 2 1 1 [] 0),
     (''n1'', reply ''n3'' 3 2 False 6 0)]"

text \<open>The request that the Leader sends then: it holds the first three entries, as many as fit into a batch.\<close>

definition partial_request :: AppendEntries where
  "partial_request = \<lparr>ae_From = ''n1'', ae_Term = 3, ae_RequestID = 12, ae_PrevLogIndex = 0, ae_PrevLogTerm = 0,
     ae_Entries = [noOpEntry 1 1, open_at 2 1, set_at 3 1 1 ''a'' large], ae_LeaderCommit = 6, ae_ReadID = 0\<rparr>"

text \<open>The answer: it acknowledges six entries.\<close>

definition full_acknowledgement :: AppendEntriesResponse where
  "full_acknowledgement = \<lparr>aer_From = ''n3'', aer_Term = 3, aer_RequestID = 12, aer_Success = True, aer_MatchIndex = 6,
     aer_ConflictTerm = 0, aer_ConflictIndex = 0, aer_ReadID = 0\<rparr>"

definition shared :: "LogEntry list" where
  "shared = [noOpEntry 1 1, open_at 2 1, set_at 3 1 1 ''a'' large, set_at 4 1 2 ''b'' large]"

lemma applyLoop_numeral [simp]:
  "applyLoop (numeral k) n = do { (n, first) \<leftarrow> applyNext n; (n, rest) \<leftarrow> applyLoop (pred_numeral k) n; Some (n, first @ rest) }"
  by (simp add: numeral_eq_Suc)

lemma script_relays:
  "\<exists>v net v' net'. relays script (outset, []) = Some (v, net) \<and> relay ''n3'' (EvAppendEntries partial_request) (v, net) = Some (v', net')
    \<and> (''n1'', SendAppendEntries ''n3'' partial_request) \<in> set net
    \<and> n_role (fst v ''n1'') = Leader \<and> n_term (fst v ''n1'') = 3 \<and> n_commitIndex (fst v ''n1'') = 6 \<and> n_commitIndex (fst v ''n3'') = 3
    \<and> n_log (fst v ''n1'') = shared @ [noOpEntry 5 3, set_at 6 3 3 ''k'' ''y'']
    \<and> n_log (fst v ''n3'') = shared @ [noOpEntry 5 2, set_at 6 2 3 ''k'' ''x'']
    \<and> fst v' ''n1'' = fst v ''n1'' \<and> n_commitIndex (fst v' ''n3'') = 6 \<and> n_log (fst v' ''n3'') = n_log (fst v ''n3'')
    \<and> (''n3'', SendAppendEntriesResponse ''n1'' full_acknowledgement) \<in> set net'"
  by (simp add: play_eval relay_def full_acknowledgement_def posts_def partial_request_def script_def shared_def request_def reply_def propose_set_def set_at_def open_at_def propose_open_def)

section \<open>Properties\<close>

lemma reached_machine:
  assumes "stage dp v g" "i \<in> {''n1'', ''n2'', ''n3''}"
  shows "apply_all (newSessionMachine 8) (take (n_commitIndex (dp_node dp i)) (n_log (dp_node dp i))) = Some (fst (snd (dp_lives dp i)))"
proof -
  obtain dp0 where dp0: "deployed dp0" "evolves\<^sup>*\<^sup>* dp0 dp" using assms(1) by (rule stage_reached)
  have M: "dp_members dp = {''n1'', ''n2'', ''n3''}" "dp_config dp = sample_member" using assms(1) by (simp_all add: stage_def)
  have limit: "cfg_ActiveSessionLimit (sample_member i) = 8" by (simp add: sample_member_def sample_config_def)
  obtain r sm out where l: "dp_lives dp i = (r, sm, out)" by (cases "dp_lives dp i")
  have "alive (sample_member i) (r, sm, out)" using reached_sound [OF dp0(2,1)] assms(2) unfolding sound_def M l [symmetric] by blast
  then have a: "idle (rt_core r)" "n_logBaseIndex (rt_core r) = 0" "apply_all (newSessionMachine 8) (applied_prefix (rt_core r)) = Some sm"
    by (simp_all add: alive_def at_rest_def limit)
  then show ?thesis using idle_applied [OF a(1)] l by (simp add: dp_node_def)
qed

lemma shared_machines:
  assumes "apply_all (newSessionMachine 8) (shared @ [noOpEntry 5 t, set_at 6 t 3 ''k'' v]) = Some sm"
  shows "get_value sm ''k'' = (v, True)"
  using assms
  by (auto simp: shared_def open_at_def set_at_def noOpEntry_def apply_entry_def apply_openSession_def apply_set_def evaluateMutation_def
    newSessionMachine_def zeroRecord_def zeroResult_def get_value_def Let_def add64_def W64_def)

text \<open>
  C7: Nodes can diverge, without a crash and with messages only lost or delayed. There is an execution of
  three Nodes that start on empty disks, in which no I/O call fails and every message that is handled was
  sent by its sender and is handled once, up to a point where the Leader \<open>n1\<close> has committed six entries,
  \<open>n3\<close> has another entry at index 6, and a request of this Leader to \<open>n3\<close> that ends at index 3 is on its
  way. When \<open>n3\<close> handles this request its log does not change, but it acknowledges index 6 and commits up
  to 6. Then both Nodes have committed and applied different entries at index 6: the key \<open>k\<close> has the value
  \<open>y\<close> on \<open>n1\<close> and the value \<open>x\<close> on \<open>n3\<close>.
\<close>

theorem committed_entries_diverge:
  "\<exists>dp0 dp1 net1 dp2 net2 req response. deployed dp0 \<and> dp_members dp0 = {''n1'', ''n2'', ''n3''} \<and> unfolds\<^sup>*\<^sup>* (dp0, []) (dp1, net1)
     \<and> n_role (dp_node dp1 ''n1'') = Leader \<and> n_commitIndex (dp_node dp1 ''n1'') = 6
     \<and> (''n1'', SendAppendEntries ''n3'' req) \<in> set net1 \<and> ae_Term req = n_term (dp_node dp1 ''n1'')
     \<and> ae_PrevLogIndex req + length (ae_Entries req) = 3 \<and> n_commitIndex (dp_node dp1 ''n3'') = 3
     \<and> handled ''n3'' (EvAppendEntries req) (dp1, net1) (dp2, net2)
     \<and> n_log (dp_node dp2 ''n3'') = n_log (dp_node dp1 ''n3'') \<and> n_commitIndex (dp_node dp2 ''n3'') = 6
     \<and> (''n3'', SendAppendEntriesResponse ''n1'' response) \<in> set net2
     \<and> aer_RequestID response = ae_RequestID req \<and> aer_Success response \<and> aer_MatchIndex response = 6
     \<and> dp_node dp2 ''n1'' = dp_node dp1 ''n1''
     \<and> n_log (dp_node dp2 ''n1'') ! 5 = set_at 6 3 3 ''k'' ''y'' \<and> n_log (dp_node dp2 ''n3'') ! 5 = set_at 6 2 3 ''k'' ''x''
     \<and> get_value (fst (snd (dp_lives dp2 ''n1''))) ''k'' = (''y'', True) \<and> get_value (fst (snd (dp_lives dp2 ''n3''))) ''k'' = (''x'', True)"
proof -
  obtain v net v' net' where w: "relays script (outset, []) = Some (v, net)"
      "relay ''n3'' (EvAppendEntries partial_request) (v, net) = Some (v', net')"
    and m: "(''n1'', SendAppendEntries ''n3'' partial_request) \<in> set net" "(''n3'', SendAppendEntriesResponse ''n1'' full_acknowledgement) \<in> set net'"
    and c: "n_role (fst v ''n1'') = Leader" "n_term (fst v ''n1'') = 3" "n_commitIndex (fst v ''n1'') = 6" "n_commitIndex (fst v ''n3'') = 3"
      "n_commitIndex (fst v' ''n3'') = 6" "fst v' ''n1'' = fst v ''n1''" "n_log (fst v' ''n3'') = n_log (fst v ''n3'')"
    and l: "n_log (fst v ''n1'') = shared @ [noOpEntry 5 3, set_at 6 3 3 ''k'' ''y'']" "n_log (fst v ''n3'') = shared @ [noOpEntry 5 2, set_at 6 2 3 ''k'' ''x'']"
    using script_relays by (elim exE conjE)
  obtain dp0 where start: "sample_started dp0" using sample_starts by blast
  then have dp0: "deployed dp0" "dp_members dp0 = {''n1'', ''n2'', ''n3''}" by (simp_all add: sample_started_def)
  have "stage dp0 outset 3" using start unfolding stage_def by (auto simp: sample_started_def outset_def)
  moreover have "fst ` set script \<subseteq> {''n1'', ''n2'', ''n3''}" "3 + 100 * length script < W64" "3 + 100 * length script + 100 < W64"
    by (simp_all add: script_def elect_def W64_def)
  ultimately obtain dp1 where dp1: "unfolds\<^sup>*\<^sup>* (dp0, []) (dp1, net)" "stage dp1 v (3 + 100 * length script)"
    using relays_unfold [OF w(1)] by blast
  obtain dp2 where dp2: "handled ''n3'' (EvAppendEntries partial_request) (dp1, net) (dp2, net')" "stage dp2 v' (3 + 100 * length script + 100)"
    using relay_handled [OF dp1(2) w(2)] \<open>3 + 100 * length script + 100 < W64\<close> by blast
  have n: "dp_node dp1 i = fst v i" "dp_node dp2 i = fst v' i" if "i \<in> {''n1'', ''n2'', ''n3''}" for i
    using stage_reached [OF dp1(2)] stage_reached [OF dp2(2)] that by metis+
  have len: "length shared = 4" by (simp add: shared_def)
  have "get_value (fst (snd (dp_lives dp2 ''n1''))) ''k'' = (''y'', True)" "get_value (fst (snd (dp_lives dp2 ''n3''))) ''k'' = (''x'', True)"
    using reached_machine [OF dp2(2), of "''n1''"] reached_machine [OF dp2(2), of "''n3''"] n c l len shared_machines by simp_all
  then show ?thesis using dp0 dp1(1) dp2(1) m c l n len
    by (intro exI [of _ dp0] exI [of _ dp1] exI [of _ net] exI [of _ dp2] exI [of _ net'] exI [of _ partial_request] exI [of _ full_acknowledgement] conjI)
      (simp_all add: nth_append partial_request_def full_acknowledgement_def)
qed

end
