(* ===== verification/Node_Loop.thy ===== *)
theory Node_Loop
  imports Node_Runtime Peer
begin

text \<open>
  The loop of \<open>runRaft\<close> (\<open>src/internal/node/runtime_loop.go\<close>): one iteration takes an input, hands it to
  the runtime and performs the actions that the runtime hands back: messages to peers, timers, entries to
  apply, and answers to the clients that wait for a proposal, a read or a Snapshot.

  The \<open>select\<close> statement is resolved by the environment, so its outcome is an argument, as are the
  outcomes of the calls into the transport and the Snapshot directory and the contexts that have ended. A
  channel that a client waits on is a number; \<open>lp_answers\<close> lists what was sent on the channels. Timers
  are the durations they were last set to. The goroutine that writes a Snapshot runs between two
  iterations. Counters of the metrics that the loop raises are part of the state.
\<close>

section \<open>State\<close>

record raftInput =
  ri_event :: Event
  ri_result :: "nat option"
  ri_requestContext :: "nat option"
  ri_readResult :: "nat option"
  ri_key :: string
  ri_snapshotResult :: "nat option"

record pendingProposal =
  pp_result :: "nat option"
  pp_ctx :: "nat option"

record inFlightMutation =
  ifm_sequence :: u64
  ifm_index :: u64

record waitingRead =
  wr_result :: nat
  wr_ctx :: "nat option"
  wr_key :: string

record incomingSnapshot =
  inc_index :: u64
  inc_term :: u64
  inc_length :: u64
  inc_checksum :: u32
  inc_data :: bytes

record snapshotCompletion =
  sc_index :: u64
  sc_term :: u64
  sc_err :: "install_error option"

datatype loop_answer = ProposalAnswer proposalResult | ReadAnswer readResult | SnapshotAnswer "install_error option"

record loopMetrics =
  lm_elections :: nat
  lm_proposals :: nat
  lm_snapshots :: nat
  lm_compactions :: nat
  lm_snapshotInstalls :: nat
  lm_raftRPCs :: nat

record loopState =
  lp_runtime :: raftRuntime
  lp_sessions :: sessionMachine
  lp_transport :: peerTransport
  lp_dir :: directory
  lp_writing :: "SnapState option" \<comment> \<open>the Snapshot that the goroutine writes\<close>
  lp_snapshotDone :: "snapshotCompletion option"
  lp_snapshotRunning :: bool
  lp_snapshotAutomatic :: bool
  lp_snapshotWaiters :: "nat list"
  lp_lastSnapshotIndex :: u64
  lp_incoming :: "incomingSnapshot option"
  lp_readySnapshot :: "SnapState option"
  lp_pending :: "(u64, pendingProposal list) fmap"
  lp_inFlightMutations :: "(SessionID, inFlightMutation) fmap"
  lp_pendingReads :: "(ReadID, waitingRead) fmap"
  lp_electionTimer :: int
  lp_heartbeatTimer :: "int option"
  lp_quorumTimer :: "int option"
  lp_published :: NodeState
  lp_metrics :: loopMetrics
  lp_answers :: "(nat \<times> loop_answer) list"

datatype loop_error =
  StepFailed runtime_error | AutomaticSnapshot install_error | InstallReceived snap_error | PeerConfiguration send_error
| UnexpectedAfterFailure Action | RestoreNotStaged u64 u64 | RestoreReceived restore_error

text \<open>
  How the loop ends: it stops with its context, it returns an error, the process panics, a step never
  returns, or a send on a nil channel blocks. A loop that returns leaves its last state behind.
\<close>

datatype loop_end = Stopped loopState | Returned loop_error loopState | LoopPanic | StepNeverReturns | BlockedForever

text \<open>The environment of one iteration.\<close>

record loop_env =
  le_cancelled :: "nat \<Rightarrow> bool"
  le_peers :: peer_env
  le_save :: "string \<times> save_call option \<times> nat \<times> bool"
  le_draw :: nat

datatype loop_input = CtxDone | SnapshotDone | EventsInput raftInput | ElectionC | HeartbeatC | QuorumC

section \<open>Timers\<close>

definition heartbeatInterval :: int where
  "heartbeatInterval = 100 * 10 ^ 6"

definition electionTimeoutMin :: int where
  "electionTimeoutMin = 500 * 10 ^ 6"

definition electionTimeoutMax :: int where
  "electionTimeoutMax = 10 ^ 9"

definition checkQuorumWindow :: int where
  "checkQuorumWindow = 10 ^ 9"

text \<open>\<open>random.Int63n(n)\<close> is some number below \<open>n\<close>; the draw is given by the environment.\<close>

definition randomElectionTimeout :: "nat \<Rightarrow> int" where
  "randomElectionTimeout draw = (let span = electionTimeoutMax - electionTimeoutMin in electionTimeoutMin + int draw mod (span + 1))"

text \<open>The 64-bit FNV-1a hash of \<open>hash/fnv\<close>, read as a signed number.\<close>

definition fnv64a :: "bytes \<Rightarrow> nat" where
  "fnv64a bs = foldl (\<lambda>h b. ((h XOR of_char b) * 1099511628211) mod W64) 14695981039346656037 bs"

definition nodeSeed :: "string \<Rightarrow> int" where
  "nodeSeed i = (let h = fnv64a i in if h < 2 ^ 63 then int h else int h - 2 ^ 64)"

section \<open>Waiting clients\<close>

text \<open>A send on a channel; a send on a nil channel blocks.\<close>

definition send_on :: "nat option \<Rightarrow> loop_answer \<Rightarrow> loopState \<Rightarrow> loop_end + loopState" where
  "send_on channel a s =
    (case channel of None \<Rightarrow> Inl BlockedForever | Some c \<Rightarrow> Inr (s\<lparr>lp_answers := lp_answers s @ [(c, a)]\<rparr>))"

fun send_all :: "pendingProposal list \<Rightarrow> loop_answer \<Rightarrow> loopState \<Rightarrow> loop_end + loopState" where
  "send_all [] a s = Inr s"
| "send_all (p # ps) a s = (case send_on (pp_result p) a s of Inl e \<Rightarrow> Inl e | Inr s' \<Rightarrow> send_all ps a s')"

text \<open>\<open>ctx.Err() == nil\<close>; the method call panics on a nil context, which \<open>dropCancelled\<close> tests first.\<close>

definition live :: "loop_env \<Rightarrow> nat option \<Rightarrow> bool" where
  "live env ctx = (case ctx of None \<Rightarrow> True | Some c \<Rightarrow> \<not> le_cancelled env c)"

text \<open>The clean-up at the start of an iteration: who no longer waits is forgotten.\<close>

definition dropCancelled :: "loop_env \<Rightarrow> loopState \<Rightarrow> loop_end + loopState" where
  "dropCancelled env s =
    (if \<not> fmpred (\<lambda>_. list_all (\<lambda>p. pp_ctx p \<noteq> None)) (lp_pending s) \<or> \<not> fmpred (\<lambda>_ r. wr_ctx r \<noteq> None) (lp_pendingReads s)
     then Inl LoopPanic
     else
       let active = fmmap (filter (\<lambda>p. live env (pp_ctx p))) (lp_pending s) in
       Inr (s\<lparr>lp_pending := fmfilter (\<lambda>i. fmlookup active i \<noteq> Some []) active,
              lp_pendingReads := fmfilter (\<lambda>i. case fmlookup (lp_pendingReads s) i of None \<Rightarrow> True | Some r \<Rightarrow> live env (wr_ctx r))
                (lp_pendingReads s)\<rparr>))"

section \<open>Snapshots\<close>

text \<open>\<open>snapshotResult\<close> waiters: \<open>startSnapshot\<close>, the goroutine and \<open>finishSnapshot\<close>.\<close>

definition publish :: "loopState \<Rightarrow> loop_end + loopState" where
  "publish s = (case node_State (rt_core (lp_runtime s)) of None \<Rightarrow> Inl LoopPanic | Some st \<Rightarrow> Inr (s\<lparr>lp_published := st\<rparr>))"

definition startSnapshot :: "Config \<Rightarrow> nat option \<Rightarrow> bool \<Rightarrow> loopState \<Rightarrow> loop_end + loopState" where
  "startSnapshot cfg waiter automatic s =
    (let s = (case waiter of None \<Rightarrow> s | Some w \<Rightarrow> s\<lparr>lp_snapshotWaiters := lp_snapshotWaiters s @ [w]\<rparr>) in
     if lp_snapshotRunning s then Inr s
     else
       (case node_State (rt_core (lp_runtime s)) of
          None \<Rightarrow> Inl LoopPanic
        | Some st \<Rightarrow>
            Inr (s\<lparr>lp_metrics := (lp_metrics s)\<lparr>lm_snapshots := lm_snapshots (lp_metrics s) + 1\<rparr>,
                   lp_writing := Some (snapshot (lp_sessions s) (snapshotIdentity cfg) (s_LastApplied st) (s_LastAppliedTerm st)),
                   lp_snapshotRunning := True, lp_snapshotAutomatic := automatic\<rparr>)))"

text \<open>The goroutine: the file is written and the log compacted, then the outcome is sent.\<close>

definition writeSnapshot :: "loop_env \<Rightarrow> loopState \<Rightarrow> loopState" where
  "writeSnapshot env s =
    (case lp_writing s of
       None \<Rightarrow> s
     | Some captured \<Rightarrow>
         (case le_save env of (suffix, fail, short, cleanup) \<Rightarrow>
            case installSnapshot suffix fail short cleanup captured (lp_dir s) (rt_wal (lp_runtime s)) of (err, dir, wal) \<Rightarrow>
              s\<lparr>lp_writing := None, lp_dir := dir, lp_runtime := (lp_runtime s)\<lparr>rt_wal := wal\<rparr>,
                lp_snapshotDone := Some \<lparr>sc_index = st_IncludedIndex captured, sc_term = st_IncludedTerm captured, sc_err = err\<rparr>\<rparr>))"

definition finishSnapshot :: "snapshotCompletion \<Rightarrow> loopState \<Rightarrow> loopState" where
  "finishSnapshot finished s =
    s\<lparr>lp_answers := lp_answers s @ map (\<lambda>w. (w, SnapshotAnswer (sc_err finished))) (lp_snapshotWaiters s),
      lp_snapshotWaiters := [], lp_snapshotRunning := False,
      lp_lastSnapshotIndex := (if sc_err finished = None \<and> sc_index finished > lp_lastSnapshotIndex s
                               then sc_index finished else lp_lastSnapshotIndex s)\<rparr>"

text \<open>The receiving end of a Snapshot transfer: the request with its outcome, the collected bytes and the staged state.\<close>

definition receiveSnapshot :: "loop_env \<Rightarrow> Config \<Rightarrow> InstallSnapshot \<Rightarrow> loopState \<Rightarrow> (loop_error + InstallSnapshot) \<times> loopState" where
  "receiveSnapshot env cfg request s =
    (let s = (if is_Offset request = 0
              then s\<lparr>lp_incoming := Some \<lparr>inc_index = is_SnapshotIndex request, inc_term = is_SnapshotTerm request,
                     inc_length = is_Length request, inc_checksum = is_Checksum request, inc_data = []\<rparr>\<rparr>
              else s);
         refused = request\<lparr>is_Success := False, is_NextOffset := 0\<rparr> in
     case lp_incoming s of
       None \<Rightarrow> (Inr refused, s)
     | Some incoming \<Rightarrow>
         if inc_index incoming \<noteq> is_SnapshotIndex request \<or> inc_term incoming \<noteq> is_SnapshotTerm request
            \<or> inc_length incoming \<noteq> is_Length request \<or> inc_checksum incoming \<noteq> is_Checksum request
            \<or> is_Offset request \<noteq> length (inc_data incoming)
            \<or> add64 (is_Offset request) (length (is_Data request)) > inc_length incoming
         then (Inr refused, s)
         else
           let dat = inc_data incoming @ is_Data request;
               request = request\<lparr>is_Success := True, is_NextOffset := length dat\<rparr> in
           if \<not> is_Done request then (Inr request, s\<lparr>lp_incoming := Some (incoming\<lparr>inc_data := dat\<rparr>)\<rparr>)
           else
             let s = s\<lparr>lp_incoming := None\<rparr> in
             (case snap_decode dat of
                Inr st \<Rightarrow>
                  if length dat = inc_length incoming \<and> checksumIEEE dat = inc_checksum incoming
                     \<and> st_IncludedIndex st = inc_index incoming \<and> st_IncludedTerm st = inc_term incoming
                     \<and> snapshotClusterMatches (st_Identity st) (snapshotIdentity cfg)
                  then
                    let st = st\<lparr>st_Identity := snapshotIdentity cfg\<rparr> in
                    (case le_save env of (suffix, fail, short, cleanup) \<Rightarrow>
                       case Save suffix fail short cleanup st (lp_dir s) of
                         (Inl e, dir) \<Rightarrow> (Inl (InstallReceived e), s\<lparr>lp_dir := dir\<rparr>)
                       | (Inr _, dir) \<Rightarrow> (Inr request, s\<lparr>lp_dir := dir, lp_readySnapshot := Some st\<rparr>))
                  else (Inr refused, s)
              | Inl _ \<Rightarrow> (Inr refused, s)))"

section \<open>One iteration\<close>

text \<open>What the iteration knows of its input: the channels of the client and the mutation it proposes.\<close>

record turn_of =
  to_results :: "nat option"
  to_context :: "nat option"
  to_mutation :: "(SessionID \<times> u64) option"

definition proposedMutation :: "Event \<Rightarrow> (SessionID \<times> u64) option" where
  "proposedMutation event =
    (case event of
       EvProposeSet p \<Rightarrow> Some (pset_SessionID p, pset_Sequence p)
     | EvProposeDelete p \<Rightarrow> Some (pdel_SessionID p, pdel_Sequence p)
     | _ \<Rightarrow> None)"

text \<open>\<open>runtime.step\<close> on the runtime of the loop.\<close>

definition loop_step :: "Event \<Rightarrow> loopState \<Rightarrow> loop_end + Action list \<times> loopState" where
  "loop_step event s =
    (case runtime_step event (lp_runtime s) of
       None \<Rightarrow> Inl StepNeverReturns
     | Some (Inl e, r) \<Rightarrow> Inl (if e = CorePanic then LoopPanic else Returned (StepFailed e) (s\<lparr>lp_runtime := r\<rparr>))
     | Some (Inr actions, r) \<Rightarrow> Inr (actions, s\<lparr>lp_runtime := r\<rparr>))"

fun sends :: "Action \<Rightarrow> bool" where
  "sends (SendPreVoteRequest to r) = True"
| "sends (SendPreVoteResponse to r) = True"
| "sends (SendVoteRequest to r) = True"
| "sends (SendVoteResponse to r) = True"
| "sends (SendAppendEntries to r) = True"
| "sends (SendAppendEntriesResponse to r) = True"
| "sends (SendInstallSnapshot to t i k u v) = True"
| "sends (SendInstallSnapshotResponse to r) = True"
| "sends a = False"

definition failed_request :: "Action \<Rightarrow> NodeID \<times> u64" where
  "failed_request action =
    (case action of
       SendAppendEntries to r \<Rightarrow> (to, ae_RequestID r)
     | SendInstallSnapshot to t i index u offset \<Rightarrow> (to, i)
     | _ \<Rightarrow> ([], 0))"

definition sendMessage :: "loop_env \<Rightarrow> Action \<Rightarrow> loopState \<Rightarrow> loop_end + loopState" where
  "sendMessage env action s =
    (let s = s\<lparr>lp_metrics := (lp_metrics s)\<lparr>lm_raftRPCs := lm_raftRPCs (lp_metrics s) + 1\<rparr>\<rparr> in
     case peer_send (le_peers env) action (lp_transport s) of
       (err, _, t) \<Rightarrow>
         let s = s\<lparr>lp_transport := t\<rparr> in
         (case err of
            None \<Rightarrow> Inr s
          | Some e \<Rightarrow>
              if isPeerConfigurationError e then Inl (Returned (PeerConfiguration e) s)
              else
                (case failed_request action of
                   (to, i) \<Rightarrow>
                     if i = 0 then Inr s
                     else
                       (case loop_step (AppendEntriesFailed to i) s of
                          Inl stop \<Rightarrow> Inl stop
                        | Inr ([], s) \<Rightarrow> Inr s
                        | Inr (a # _, s) \<Rightarrow> Inl (Returned (UnexpectedAfterFailure a) s)))))"

definition noteApplied :: "LogEntry \<Rightarrow> loopState \<Rightarrow> loopState" where
  "noteApplied entry s =
    (if \<not> isMutation entry then s
     else
       let s = s\<lparr>lp_runtime := observe mutationAfterApplication [entry] (lp_runtime s)\<rparr>;
           sequence = (case fmlookup (lp_inFlightMutations s) (le_SessionID entry) of None \<Rightarrow> 0 | Some m \<Rightarrow> ifm_sequence m)
       in if sequence = le_Sequence entry
          then s\<lparr>lp_inFlightMutations := fmdrop (le_SessionID entry) (lp_inFlightMutations s)\<rparr> else s)"

definition answerProposals :: "u64 \<Rightarrow> proposalResult \<Rightarrow> loopState \<Rightarrow> loop_end + loopState" where
  "answerProposals index result s =
    (case fmlookup (lp_pending s) index of
       None \<Rightarrow> Inr s
     | Some proposals \<Rightarrow>
         (case send_all proposals (ProposalAnswer result) s of
            Inl stop \<Rightarrow> Inl stop
          | Inr s \<Rightarrow> Inr (s\<lparr>lp_pending := fmdrop index (lp_pending s)\<rparr>)))"

definition applyCommitted :: "LogEntry \<Rightarrow> loopState \<Rightarrow> loop_end + loopState" where
  "applyCommitted entry s =
    (case apply_entry (lp_sessions s) entry of
       None \<Rightarrow> Inl LoopPanic
     | Some (result, sm) \<Rightarrow> answerProposals (le_Index entry) result (noteApplied entry (s\<lparr>lp_sessions := sm\<rparr>)))"

definition addPending :: "u64 \<Rightarrow> pendingProposal \<Rightarrow> loopState \<Rightarrow> loopState" where
  "addPending i p s = s\<lparr>lp_pending := fmupd i
     ((case fmlookup (lp_pending s) i of None \<Rightarrow> [] | Some ps \<Rightarrow> ps) @ [p]) (lp_pending s)\<rparr>"

definition answerRead :: "ReadID \<Rightarrow> (waitingRead \<Rightarrow> readResult) \<Rightarrow> loopState \<Rightarrow> loopState" where
  "answerRead i result s =
    (case fmlookup (lp_pendingReads s) i of
       None \<Rightarrow> s
     | Some r \<Rightarrow> s\<lparr>lp_answers := lp_answers s @ [(wr_result r, ReadAnswer (result r))],
                   lp_pendingReads := fmdrop i (lp_pendingReads s)\<rparr>)"

definition rejectedProposal :: "NodeID \<Rightarrow> proposalResult" where
  "rejectedProposal leader = (zeroResult zeroSessionID 0)\<lparr>pr_leaderID := leader, pr_rejected := True\<rparr>"

definition rejectedRead :: "NodeID \<Rightarrow> readResult" where
  "rejectedRead leader = \<lparr>rr_value = [], rr_found = False, rr_leaderID = leader, rr_rejected = True\<rparr>"

definition performAction :: "loop_env \<Rightarrow> turn_of \<Rightarrow> Action \<Rightarrow> loopState \<Rightarrow> loop_end + loopState" where
  "performAction env t action s =
    (if sends action then sendMessage env action s
     else
       case action of
         ResetElectionTimer \<Rightarrow> Inr (s\<lparr>lp_electionTimer := randomElectionTimeout (le_draw env)\<rparr>)
       | ResetHeartbeatTimer \<Rightarrow> Inr (s\<lparr>lp_heartbeatTimer := Some heartbeatInterval\<rparr>)
       | ResetCheckQuorumTimer \<Rightarrow> Inr (s\<lparr>lp_quorumTimer := Some checkQuorumWindow\<rparr>)
       | RestoreSnapshot index snapTerm \<Rightarrow>
           (case lp_readySnapshot s of
              None \<Rightarrow> Inl (Returned (RestoreNotStaged index snapTerm) s)
            | Some st \<Rightarrow>
                if st_IncludedIndex st \<noteq> index \<or> st_IncludedTerm st \<noteq> snapTerm
                then Inl (Returned (RestoreNotStaged index snapTerm) s)
                else
                  (case restore (lp_sessions s) (Some st) of
                     Inl e \<Rightarrow> Inl (Returned (RestoreReceived e) s)
                   | Inr sm \<Rightarrow> Inr (s\<lparr>lp_sessions := sm, lp_readySnapshot := None,
                       lp_metrics := (lp_metrics s)\<lparr>lm_snapshotInstalls := lm_snapshotInstalls (lp_metrics s) + 1\<rparr>\<rparr>)))
       | ProposalAccepted i index \<Rightarrow>
           let s = s\<lparr>lp_metrics := (lp_metrics s)\<lparr>lm_proposals := lm_proposals (lp_metrics s) + 1\<rparr>\<rparr>;
               s = (if to_results t \<noteq> None \<and> to_context t \<noteq> None
                    then addPending index \<lparr>pp_result = to_results t, pp_ctx = to_context t\<rparr> s else s) in
           Inr (case to_mutation t of
                  None \<Rightarrow> s
                | Some (session, sequence) \<Rightarrow>
                    s\<lparr>lp_inFlightMutations := fmupd session \<lparr>ifm_sequence = sequence, ifm_index = index\<rparr> (lp_inFlightMutations s)\<rparr>)
       | ProposalRejected i leader \<Rightarrow>
           (if to_results t \<noteq> None then send_on (to_results t) (ProposalAnswer (rejectedProposal leader)) s else Inr s)
       | ApplyEntry entry \<Rightarrow> applyCommitted entry s
       | BecameLeader trm \<Rightarrow> Inr (s\<lparr>lp_metrics := (lp_metrics s)\<lparr>lm_elections := lm_elections (lp_metrics s) + 1\<rparr>\<rparr>)
       | ReadConfirmed i commit \<Rightarrow>
           Inr (answerRead i (\<lambda>r. case get_value (lp_sessions s) (wr_key r) of (value, found) \<Rightarrow>
             \<lparr>rr_value = value, rr_found = found, rr_leaderID = [], rr_rejected = False\<rparr>) s)
       | ReadRejected i leader \<Rightarrow> Inr (answerRead i (\<lambda>_. rejectedRead leader) s)
       | _ \<Rightarrow> Inr s)"

fun performActions :: "loop_env \<Rightarrow> turn_of \<Rightarrow> Action list \<Rightarrow> loopState \<Rightarrow> loop_end + loopState" where
  "performActions env t [] s = Inr s"
| "performActions env t (a # as) s = (case performAction env t a s of Inl stop \<Rightarrow> Inl stop | Inr s' \<Rightarrow> performActions env t as s')"

text \<open>
  A Leader that has stepped down rejects everybody who waits. The source visits its maps in any order,
  which only the order of sends on different channels shows.
\<close>

definition stepDown :: "NodeID \<Rightarrow> loopState \<Rightarrow> loop_end + loopState" where
  "stepDown leader s =
    (let proposals = concat (map (\<lambda>i. the (fmlookup (lp_pending s) i)) (sorted_list_of_fset (fmdom (lp_pending s))));
         reads = map (\<lambda>i. the (fmlookup (lp_pendingReads s) i)) (sorted_list_of_fset (fmdom (lp_pendingReads s))) in
     case send_all proposals (ProposalAnswer (rejectedProposal leader)) s of
       Inl stop \<Rightarrow> Inl stop
     | Inr s \<Rightarrow> Inr (s\<lparr>lp_pending := fmempty, lp_inFlightMutations := fmempty, lp_pendingReads := fmempty,
         lp_answers := lp_answers s @ map (\<lambda>r. (wr_result r, ReadAnswer (rejectedRead leader))) reads\<rparr>))"

definition threshold :: "Config \<Rightarrow> u64" where
  "threshold cfg = nat (EffectiveSnapshotThresholdBytes cfg mod 2 ^ 64)"

text \<open>The end of an iteration: stepping down, the Leader's timers, the published state and the automatic Snapshot.\<close>

definition settleTurn :: "Config \<Rightarrow> bool \<Rightarrow> loopState \<Rightarrow> loop_end + loopState" where
  "settleTurn cfg wasLeader s =
    (case node_State (rt_core (lp_runtime s)) of
       None \<Rightarrow> Inl LoopPanic
     | Some st \<Rightarrow>
         (case (if wasLeader \<and> s_Role st \<noteq> Leader then stepDown (s_LeaderID st) s else Inr s) of
            Inl stop \<Rightarrow> Inl stop
          | Inr s \<Rightarrow>
              let s = (if s_Role st \<noteq> Leader then s\<lparr>lp_heartbeatTimer := None, lp_quorumTimer := None\<rparr> else s);
                  s = s\<lparr>lp_published := st\<rparr>;
                  r = lp_runtime s;
                  (w, retained) = RetainedLogBytes (s_LastApplied st) (fst (rt_wal r)) in
              if \<not> lp_snapshotRunning s \<and> s_LastApplied st > lp_lastSnapshotIndex s
              then
                let s = s\<lparr>lp_runtime := r\<lparr>rt_wal := (w, snd (rt_wal r))\<rparr>\<rparr> in
                if retained \<ge> threshold cfg then startSnapshot cfg None True s else Inr s
              else Inr s))"

text \<open>A chunk of a Snapshot is taken before the core sees it.\<close>

definition stageSnapshot :: "loop_env \<Rightarrow> Config \<Rightarrow> Event \<Rightarrow> loopState \<Rightarrow> loop_end + Event \<times> loopState" where
  "stageSnapshot env cfg event s =
    (case event of
       EvInstallSnapshot request \<Rightarrow>
         (case receiveSnapshot env cfg request s of
            (Inl e, s) \<Rightarrow> Inl (Returned e s)
          | (Inr request, s) \<Rightarrow> Inr (EvInstallSnapshot request, s))
     | _ \<Rightarrow> Inr (event, s))"

definition registerRead :: "turn_of \<Rightarrow> nat option \<Rightarrow> string \<Rightarrow> Event \<Rightarrow> loopState \<Rightarrow> loopState" where
  "registerRead t readResults readKey event s =
    (case (event, readResults) of
       (ConfirmRead i, Some c) \<Rightarrow>
         s\<lparr>lp_pendingReads := fmupd i \<lparr>wr_result = c, wr_ctx = to_context t, wr_key = readKey\<rparr> (lp_pendingReads s)\<rparr>
     | _ \<Rightarrow> s)"

text \<open>The step of the core and what follows from it.\<close>

definition runEvent :: "loop_env \<Rightarrow> Config \<Rightarrow> turn_of \<Rightarrow> Event \<Rightarrow> loopState \<Rightarrow> loop_end + loopState" where
  "runEvent env cfg t event s =
    (case node_State (rt_core (lp_runtime s)) of
       None \<Rightarrow> Inl LoopPanic
     | Some before \<Rightarrow>
         (case loop_step event s of
            Inl stop \<Rightarrow> Inl stop
          | Inr (actions, s) \<Rightarrow>
              (case performActions env t actions s of
                 Inl stop \<Rightarrow> Inl stop
               | Inr s \<Rightarrow> settleTurn cfg (s_Role before = Leader) s)))"

text \<open>
  A mutation that is in flight waits for the entry that is already in the log; one that the session
  machine can decide is answered at once.
\<close>

definition runMutation :: "loop_env \<Rightarrow> Config \<Rightarrow> turn_of \<Rightarrow> SessionID \<Rightarrow> u64 \<Rightarrow> Event \<Rightarrow> loopState \<Rightarrow> loop_end + loopState" where
  "runMutation env cfg t session sequence event s =
    (case (case fmlookup (lp_inFlightMutations s) session of
             None \<Rightarrow> None
           | Some m \<Rightarrow> if ifm_sequence m = sequence then Some (ifm_index m) else None) of
       Some index \<Rightarrow> Inr (addPending index \<lparr>pp_result = to_results t, pp_ctx = to_context t\<rparr> s)
     | None \<Rightarrow>
         (case evaluateMutation (lp_sessions s) session sequence of
            (result, shouldPropose) \<Rightarrow>
              if \<not> shouldPropose then send_on (to_results t) (ProposalAnswer result) s
              else runEvent env cfg t event
                     (s\<lparr>lp_runtime := observe mutationBeforeAppend [fst (entryForMutation event)] (lp_runtime s)\<rparr>)))"

text \<open>An event of a peer, a client or a timer.\<close>

definition handleEvent :: "loop_env \<Rightarrow> Config \<Rightarrow> turn_of \<Rightarrow> nat option \<Rightarrow> string \<Rightarrow> Event \<Rightarrow> loopState \<Rightarrow> loop_end + loopState" where
  "handleEvent env cfg t readResults readKey event s =
    (case stageSnapshot env cfg event s of
       Inl stop \<Rightarrow> Inl stop
     | Inr (event, s) \<Rightarrow>
         let s = registerRead t readResults readKey event s in
         (case to_mutation t of
            Some (session, sequence) \<Rightarrow> runMutation env cfg t session sequence event s
          | None \<Rightarrow> runEvent env cfg t event s))"

text \<open>\<open>snapshotDone\<close>: the waiters get the outcome, an automatic Snapshot that failed ends the loop.\<close>

definition completeSnapshot :: "snapshotCompletion \<Rightarrow> loopState \<Rightarrow> loop_end + loopState" where
  "completeSnapshot finished s =
    (let wasAutomatic = lp_snapshotAutomatic s; s = finishSnapshot finished (s\<lparr>lp_snapshotDone := None\<rparr>) in
     case sc_err finished of
       Some e \<Rightarrow> if wasAutomatic then Inl (Returned (AutomaticSnapshot e) s) else Inr s
     | None \<Rightarrow>
         let s = s\<lparr>lp_metrics := (lp_metrics s)\<lparr>lm_compactions := lm_compactions (lp_metrics s) + 1\<rparr>\<rparr> in
         (case loop_step (SnapshotCompacted (sc_index finished) (sc_term finished)) s of
            Inl stop \<Rightarrow> Inl stop
          | Inr (_, s) \<Rightarrow> publish s))"

text \<open>
  The context has ended: a Snapshot that is being written is waited for, and its waiters get the outcome.
  The deferred call does the same on the way out of every return with an error (\<open>unwind\<close>).
\<close>

definition shutdown :: "loop_env \<Rightarrow> loopState \<Rightarrow> loopState" where
  "shutdown env s =
    (if \<not> lp_snapshotRunning s then s
     else
       let s = writeSnapshot env s in
       (case lp_snapshotDone s of None \<Rightarrow> s | Some finished \<Rightarrow> finishSnapshot finished (s\<lparr>lp_snapshotDone := None\<rparr>)))"

definition unwind :: "loop_env \<Rightarrow> loop_end + loopState \<Rightarrow> loop_end + loopState" where
  "unwind env r = (case r of Inl (Returned e s) \<Rightarrow> Inl (Returned e (shutdown env s)) | _ \<Rightarrow> r)"

definition iteration :: "loop_env \<Rightarrow> Config \<Rightarrow> loop_input \<Rightarrow> loopState \<Rightarrow> loop_end + loopState" where
  "iteration env cfg input s =
    unwind env (case dropCancelled env s of
       Inl stop \<Rightarrow> Inl stop
     | Inr s \<Rightarrow>
         let none = \<lparr>to_results = None, to_context = None, to_mutation = None\<rparr> in
         (case input of
            CtxDone \<Rightarrow> Inl (Stopped (shutdown env s))
          | SnapshotDone \<Rightarrow> (case lp_snapshotDone s of None \<Rightarrow> Inr s | Some finished \<Rightarrow> completeSnapshot finished s)
          | EventsInput i \<Rightarrow>
              (case ri_snapshotResult i of
                 Some w \<Rightarrow> startSnapshot cfg (Some w) False s
               | None \<Rightarrow> handleEvent env cfg \<lparr>to_results = ri_result i, to_context = ri_requestContext i,
                   to_mutation = proposedMutation (ri_event i)\<rparr> (ri_readResult i) (ri_key i) (ri_event i) s)
          | ElectionC \<Rightarrow> handleEvent env cfg none None [] ElectionTimeout s
          | HeartbeatC \<Rightarrow> handleEvent env cfg none None [] HeartbeatTimeout s
          | QuorumC \<Rightarrow> handleEvent env cfg none None [] CheckQuorumTimeout s))"

section \<open>Runs of the loop\<close>

text \<open>The loop before its first iteration: nobody waits and no Snapshot is written.\<close>

definition newLoop :: "Config \<Rightarrow> directory \<Rightarrow> nat \<Rightarrow> raftRuntime \<Rightarrow> sessionMachine \<Rightarrow> loop_end + loopState" where
  "newLoop cfg dir draw r sessions =
    (case node_State (rt_core r) of
       None \<Rightarrow> Inl LoopPanic
     | Some st \<Rightarrow>
         Inr \<lparr>lp_runtime = r, lp_sessions = sessions, lp_transport = newPeerTransport cfg, lp_dir = dir, lp_writing = None,
              lp_snapshotDone = None, lp_snapshotRunning = False, lp_snapshotAutomatic = False, lp_snapshotWaiters = [],
              lp_lastSnapshotIndex = (case rt_recoveredSnapshot r of None \<Rightarrow> 0 | Some rec \<Rightarrow> st_IncludedIndex rec),
              lp_incoming = None, lp_readySnapshot = None, lp_pending = fmempty, lp_inFlightMutations = fmempty,
              lp_pendingReads = fmempty, lp_electionTimer = randomElectionTimeout draw, lp_heartbeatTimer = None, lp_quorumTimer = None,
              lp_published = st, lp_metrics = \<lparr>lm_elections = 0, lm_proposals = 0, lm_snapshots = 0, lm_compactions = 0,
                lm_snapshotInstalls = 0, lm_raftRPCs = 0\<rparr>,
              lp_answers = []\<rparr>)"

text \<open>What happens next: an iteration with the outcome of its \<open>select\<close>, or the goroutine writes its Snapshot.\<close>

datatype happening = Iterate loop_env loop_input | Writes loop_env

fun run_loop :: "Config \<Rightarrow> happening list \<Rightarrow> loopState \<Rightarrow> loop_end + loopState" where
  "run_loop cfg [] s = Inr s"
| "run_loop cfg (Iterate env x # hs) s = (case iteration env cfg x s of Inl stop \<Rightarrow> Inl stop | Inr s' \<Rightarrow> run_loop cfg hs s')"
| "run_loop cfg (Writes env # hs) s = run_loop cfg hs (writeSnapshot env s)"

end
