(* ===== verification/Raft_Answers.thy ===== *)
theory Raft_Answers
  imports Raft_Frame
begin

text \<open>
  Which steps answer a proposal: \<open>ProposalAccepted\<close> and \<open>ProposalRejected\<close> come only from the three
  proposal events of \<open>src/internal/raft/raft.go\<close>, and at most one of them from each.
\<close>

fun mute :: "Action \<Rightarrow> bool" where
  "mute (ProposalAccepted i k) = False"
| "mute (ProposalRejected i l) = False"
| "mute a = True"

text \<open>The actions that wait for a write to complete answer no proposal.\<close>

definition hush :: "Node \<Rightarrow> bool" where
  "hush n \<longleftrightarrow> (\<forall>i p. n_pendingHardState n i = Some p \<longrightarrow> list_all mute (phs_after p))
     \<and> (\<forall>i p. n_pendingCommit n i = Some p \<longrightarrow> list_all mute (pc_after p))"

lemma hush_core: "core n = core m \<Longrightarrow> hush n = hush m"
  by (simp add: hush_def core_fields(18) [of n m] core_fields(23) [of n m])

definition keeps_mute :: "Node \<Rightarrow> outcome mayPanic \<Rightarrow> bool" where
  "keeps_mute n r \<longleftrightarrow> (\<forall>n' acts. r = Some (n', acts) \<longrightarrow> hush n \<longrightarrow> hush n' \<and> list_all mute acts)"

lemma keeps_mute_simps [simp]:
  "keeps_mute n None" "keeps_mute n (Some p) \<longleftrightarrow> (hush n \<longrightarrow> hush (fst p) \<and> list_all mute (snd p))"
  by (cases p; auto simp: keeps_mute_def)+

lemma keeps_mute_bindI:
  assumes "keeps_mute n r" "\<And>m acts. r = Some (m, acts) \<Longrightarrow> (hush n \<Longrightarrow> hush m \<and> list_all mute acts) \<Longrightarrow> keeps_mute n (f (m, acts))"
  shows "keeps_mute n (Option.bind r f)"
  using assms by (cases r) (auto simp: keeps_mute_def)

lemma keeps_mute_bind_other: "(\<And>x. r = Some x \<Longrightarrow> keeps_mute n (f x)) \<Longrightarrow> keeps_mute n (Option.bind r f)"
  by (cases r) simp_all

lemma keeps_mute_trans: "keeps_mute m r \<Longrightarrow> (hush n \<Longrightarrow> hush m) \<Longrightarrow> keeps_mute n r"
  by (auto simp: keeps_mute_def)

lemma keeps_mute_core: "keeps_core n r \<Longrightarrow> (\<And>n' acts. r = Some (n', acts) \<Longrightarrow> list_all mute acts) \<Longrightarrow> keeps_mute n r"
  unfolding keeps_mute_def keeps_core_def using hush_core by blast

lemma hush_frame [simp]:
  "hush (n\<lparr>n_role := a1\<rparr>) = hush n" "hush (n\<lparr>n_term := a2\<rparr>) = hush n" "hush (n\<lparr>n_votedFor := a3\<rparr>) = hush n"
  "hush (n\<lparr>n_leaderID := a4\<rparr>) = hush n" "hush (n\<lparr>n_lastLogIndex := a5\<rparr>) = hush n" "hush (n\<lparr>n_lastLogTerm := a6\<rparr>) = hush n"
  "hush (n\<lparr>n_durableLogIndex := a7\<rparr>) = hush n" "hush (n\<lparr>n_logBaseIndex := a8\<rparr>) = hush n" "hush (n\<lparr>n_logBaseTerm := a9\<rparr>) = hush n"
  "hush (n\<lparr>n_log := b1\<rparr>) = hush n" "hush (n\<lparr>n_commitIndex := b2\<rparr>) = hush n" "hush (n\<lparr>n_lastApplied := b3\<rparr>) = hush n"
  "hush (n\<lparr>n_readReady := b4\<rparr>) = hush n" "hush (n\<lparr>n_votes := b5\<rparr>) = hush n" "hush (n\<lparr>n_preVotes := b6\<rparr>) = hush n"
  "hush (n\<lparr>n_activePeers := b7\<rparr>) = hush n" "hush (n\<lparr>n_matchIndex := b8\<rparr>) = hush n" "hush (n\<lparr>n_nextIndex := b9\<rparr>) = hush n"
  "hush (n\<lparr>n_appendInFlight := c1\<rparr>) = hush n" "hush (n\<lparr>n_snapshotInFlight := c2\<rparr>) = hush n" "hush (n\<lparr>n_nextRequestID := c3\<rparr>) = hush n"
  "hush (n\<lparr>n_pendingReads := c4\<rparr>) = hush n" "hush (n\<lparr>n_recentLeaderContact := c5\<rparr>) = hush n" "hush (n\<lparr>n_durableTerm := c6\<rparr>) = hush n"
  "hush (n\<lparr>n_durableVotedFor := c7\<rparr>) = hush n" "hush (n\<lparr>n_nextHardStatePersistence := c8\<rparr>) = hush n"
  "hush (n\<lparr>n_nextLogPersistence := c9\<rparr>) = hush n" "hush (n\<lparr>n_pendingLog := d1\<rparr>) = hush n" "hush (n\<lparr>n_durableCommitIndex := d2\<rparr>) = hush n"
  "hush (n\<lparr>n_nextCommitPersistence := d3\<rparr>) = hush n" "hush (n\<lparr>n_nextSnapshotPersistence := d4\<rparr>) = hush n"
  "hush (n\<lparr>n_pendingSnapshot := d5\<rparr>) = hush n"
  by (simp_all add: hush_def)

lemma hush_pending:
  "hush n \<Longrightarrow> list_all mute (phs_after p) \<Longrightarrow> hush (n\<lparr>n_pendingHardState := (n_pendingHardState n)(i \<mapsto> p)\<rparr>)"
  "hush n \<Longrightarrow> list_all mute (pc_after q) \<Longrightarrow> hush (n\<lparr>n_pendingCommit := (n_pendingCommit n)(i \<mapsto> q)\<rparr>)"
  "hush n \<Longrightarrow> hush (n\<lparr>n_pendingHardState := (n_pendingHardState n)(i := None)\<rparr>)"
  "hush n \<Longrightarrow> hush (n\<lparr>n_pendingCommit := (n_pendingCommit n)(i := None)\<rparr>)"
  by (auto simp: hush_def)

section \<open>The helpers\<close>

lemma persistHardState_mute: "hush n \<Longrightarrow> list_all mute after \<Longrightarrow> hush (fst (persistHardState n after)) \<and> list_all mute (snd (persistHardState n after))"
  by (simp add: persistHardState_def Let_def hush_def)

lemma persistCommit_mute: "hush n \<Longrightarrow> list_all mute after \<Longrightarrow> hush (fst (persistCommit n after)) \<and> list_all mute (snd (persistCommit n after))"
  by (simp add: persistCommit_def Let_def hush_def)

lemma persistLog_mute [simp]: "hush (fst (persistLog n es p)) = hush n" "list_all mute (snd (persistLog n es p))"
  by (simp_all add: persistLog_def Let_def)

lemma persistSnapshot_mute [simp]: "hush (fst (persistSnapshot n q b)) = hush n" "list_all mute (snd (persistSnapshot n q b))"
  by (simp_all add: persistSnapshot_def Let_def)

lemma becomeFollower_hush [simp]: "hush (becomeFollower n t l) = hush n"
  by (simp add: becomeFollower_def)

lemma acceptLeader_hush [simp]: "hush (acceptLeader n t l) = hush n"
  by (simp add: acceptLeader_def Let_def)

lemma persistIf_mute: "hush (fst p) \<Longrightarrow> list_all mute (snd p) \<Longrightarrow> hush (fst (persistIf b p)) \<and> list_all mute (snd (persistIf b p))"
  by (cases p) (simp add: persistIf_def persistHardState_mute)

lemma responses_mute [simp]:
  "list_all mute (voteResponse n to g)" "list_all mute (appendEntriesResponse n to i s m c k r)" "list_all mute (snapshotResponse n q b o' d)"
  by (simp_all add: voteResponse_def appendEntriesResponse_def snapshotResponse_def)

lemma completeReads_mute [simp]: "list_all mute (snd (completeReads n))"
proof -
  have "list_all mute (snd (foldl completeRead p ids))" if "list_all mute (snd p)" for p ids
    using that
  proof (induction ids arbitrary: p)
    case (Cons i ids)
    have "list_all mute (snd (completeRead p i))" using Cons.prems
      by (cases p) (auto simp: completeRead_def split: option.splits)
    then show ?case using Cons.IH by simp
  qed simp
  then show ?thesis by (simp add: completeReads_def)
qed

lemma acknowledgeRead_mute [simp]: "list_all mute (snd (acknowledgeRead n m))"
  by (simp add: acknowledgeRead_def Let_def split: option.split)

lemma sendAppendEntriesTo_mute: "sendAppendEntriesTo n p i = Some (n', acts) \<Longrightarrow> list_all mute acts"
  by (auto simp: sendAppendEntriesTo_def Let_def split: if_splits bind_splits)

lemma sendAppendEntriesAll_mute: "sendAppendEntriesAll n i ps = Some (n', acts) \<Longrightarrow> list_all mute acts"
proof (induction ps arbitrary: n acts)
  case (Cons p ps)
  then show ?case using sendAppendEntriesTo_mute by (fastforce simp: Let_def split: bind_splits)
qed simp

lemma send_mute: "keeps_mute n (sendAppendEntriesTo n p i)" "keeps_mute n (sendAppendEntries n i)"
  using sendAppendEntriesTo_mute sendAppendEntriesAll_mute
  by (auto simp: sendAppendEntries_def intro!: keeps_mute_core sendAppendEntriesTo_core sendAppendEntriesAll_core)

lemma applyNext_mute: "keeps_mute n (applyNext n)"
  by (auto simp: applyNext_def Let_def intro!: keeps_mute_bind_other)

lemma applyLoop_mute: "keeps_mute n (applyLoop k n)"
proof (induction k arbitrary: n)
  case (Suc k)
  show ?case unfolding applyLoop.simps
    using keeps_mute_trans [OF Suc.IH]
    by (auto simp: case_prod_beta intro!: keeps_mute_bindI applyNext_mute)
qed simp

lemma completeReads_hush [simp]: "hush (fst (completeReads n)) = hush n"
  by (rule hush_core) simp

lemma acknowledgeRead_hush [simp]: "hush (fst (acknowledgeRead n m)) = hush n"
  by (rule hush_core) simp

lemma applyThrough_mute: "keeps_mute n (applyThrough n i)"
  unfolding applyThrough_def
  by (auto simp: Let_def case_prod_beta intro!: keeps_mute_bindI applyLoop_mute)

lemma advanceFollowerCommit_mute: "list_all mute after \<Longrightarrow> keeps_mute n (advanceFollowerCommit n c after)"
  using persistCommit_mute [of "n\<lparr>n_commitIndex := min c (n_lastLogIndex n)\<rparr>" after]
  by (auto simp: advanceFollowerCommit_def Let_def intro!: keeps_mute_bindI applyThrough_mute)

lemma log_helpers_hush:
  "appendEntries n es = Some n' \<Longrightarrow> hush n' = hush n" "truncateLog n i = Some n' \<Longrightarrow> hush n' = hush n"
  "compactLog n i t = Some n' \<Longrightarrow> hush n' = hush n"
  by (auto simp: appendEntries_def truncateLog_def compactLog_def Let_def split: if_splits bind_splits)

section \<open>The handlers\<close>

lemma startElection_mute: "hush n \<Longrightarrow> hush (fst (startElection n)) \<and> list_all mute (snd (startElection n))"
  unfolding startElection_def Let_def by (rule persistHardState_mute) (simp_all add: list_all_iff)

lemma startPreVote_mute: "keeps_mute n (Some (startPreVote n))"
  using startElection_mute [of "n\<lparr>n_recentLeaderContact := False, n_leaderID := [], n_role := PreCandidate, n_preVotes := {n_id n}\<rparr>"]
  by (auto simp: startPreVote_def Let_def case_prod_beta list_all_iff)

lemma votes_mute:
  "keeps_mute n (Some (handlePreVoteRequest n q))" "keeps_mute n (Some (handlePreVoteResponse n r))"
  "keeps_mute n (Some (handleVoteRequest n vq))"
proof -
  show "keeps_mute n (Some (handlePreVoteRequest n q))" by (simp add: handlePreVoteRequest_def)
  show "keeps_mute n (Some (handlePreVoteResponse n r))"
    using startElection_mute [of "n\<lparr>n_preVotes := insert (pvr_From r) (n_preVotes n)\<rparr>"]
      persistHardState_mute [of "becomeFollower n (pvr_CurrentTerm r) []" "[]"]
    by (simp add: handlePreVoteResponse_def Let_def)
  show "keeps_mute n (Some (handleVoteRequest n vq))"
    by (auto simp: handleVoteRequest_def Let_def persistHardState_mute)
qed

lemma handleVoteResponse_mute: "keeps_mute n (handleVoteResponse n r)"
  by (auto simp: handleVoteResponse_def Let_def case_prod_beta becomeLeader_def persistHardState_mute
        log_helpers_hush intro!: keeps_mute_bind_other)

lemma rejectAppend_mute: "keeps_mute n (rejectAppend n q i)"
  by (auto simp: rejectAppend_def case_prod_beta intro!: keeps_mute_bind_other)

lemma acceptAppend_mute: "keeps_mute n (acceptAppend n q es t)"
proof (cases "es = []")
  case True
  then show ?thesis
    by (auto simp: acceptAppend_def case_prod_beta intro!: keeps_mute_bindI advanceFollowerCommit_mute)
next
  case False
  then show ?thesis
    by (auto simp: acceptAppend_def Let_def case_prod_beta log_helpers_hush intro!: keeps_mute_bind_other)
qed

lemma persistIf_keeps: "keeps_mute n r \<Longrightarrow> keeps_mute n (map_option (persistIf b) r)"
  by (cases r) (simp_all add: persistIf_mute)

lemma handleAppendEntries_mute: "keeps_mute n (handleAppendEntries n q)"
proof -
  let ?n = "acceptLeader n (ae_Term q) (ae_From q)"
  have lift: "keeps_mute ?n r \<Longrightarrow> keeps_mute n r" for r by (erule keeps_mute_trans) simp
  show ?thesis unfolding handleAppendEntries_def Let_def
    by (auto simp: case_prod_beta intro!: keeps_mute_bind_other persistIf_keeps lift [OF rejectAppend_mute] lift [OF acceptAppend_mute])
qed

lemma advanceLeaderCommit_hush: "advanceLeaderCommit n = Some (n', b) \<Longrightarrow> hush n' = hush n"
  by (auto simp: advanceLeaderCommit_def split: bind_splits option.splits)

lemma handleAppendEntriesResponse_mute: "keeps_mute n (handleAppendEntriesResponse n r)"
proof -
  have rest: "keeps_mute n (Option.bind (if b then Option.bind (sendAppendEntries m 0) (\<lambda>(n, sends). Some (persistCommit n sends))
            else if c then sendAppendEntriesTo m p i else Some (m, []))
          (\<lambda>(n, actions). case acknowledgeRead n r of (n, reads) \<Rightarrow> Some (n, actions @ reads)))"
    if "hush m = hush n" for b c m p i
    using that keeps_mute_trans [OF send_mute(1) [of m p i], of n] keeps_mute_trans [OF send_mute(2) [of m 0], of n]
    by (auto simp: case_prod_beta persistCommit_mute simp del: Option.bind_assoc intro!: keeps_mute_bindI)
  have "hush m = hush n" if "recordProgress n r = Some k" "advanceLeaderCommit k = Some (m, b)" for k m b
    using advanceLeaderCommit_hush [OF that(2)] hush_core [OF recordProgress_core [OF that(1)]] by simp
  then show ?thesis unfolding handleAppendEntriesResponse_def Let_def
    by (auto simp: persistHardState_mute simp del: Option.bind_assoc
        intro!: keeps_mute_bind_other [of "recordProgress n r"] keeps_mute_bind_other [of "advanceLeaderCommit _"] rest)
qed

lemma handleInstallSnapshot_mute: "keeps_mute n (handleInstallSnapshot n q)"
  by (auto simp: handleInstallSnapshot_def Let_def case_prod_beta persistIf_mute intro!: keeps_mute_bind_other)

lemma snapshotPersisted_mute: "keeps_mute n (Some (snapshotPersisted n i))"
  by (simp add: snapshotPersisted_def Let_def split: option.split)

lemma handleInstallSnapshotResponse_mute: "keeps_mute n (handleInstallSnapshotResponse n r)"
  by (auto simp: handleInstallSnapshotResponse_def Let_def persistHardState_mute intro: keeps_mute_trans [OF send_mute(1)])

lemma persisted_mute:
  "keeps_mute n (Some (hardStatePersisted n i))" "keeps_mute n (logEntriesPersisted n i)" "keeps_mute n (commitIndexPersisted n i)"
proof -
  show "keeps_mute n (Some (hardStatePersisted n i))"
    by (simp add: hardStatePersisted_def hush_def Let_def split: option.split)
  show "keeps_mute n (logEntriesPersisted n i)"
    by (auto simp: logEntriesPersisted_def Let_def split: option.split logPersistencePurpose.split
        intro: keeps_mute_trans [OF send_mute(2)] keeps_mute_trans [OF advanceFollowerCommit_mute])
  show "keeps_mute n (commitIndexPersisted n i)"
  proof (cases "n_pendingCommit n i")
    case (Some p)
    have "keeps_mute n (applyThrough (n\<lparr>n_pendingCommit := (n_pendingCommit n)(i := None),
          n_durableCommitIndex := c\<rparr>) k)" for c k
      by (rule keeps_mute_trans [OF applyThrough_mute]) (simp add: hush_pending)
    moreover have "hush n \<Longrightarrow> list_all mute (pc_after p)" using Some by (auto simp: hush_def)
    ultimately show ?thesis using Some
      by (auto simp: commitIndexPersisted_def Let_def intro!: keeps_mute_bindI)
  qed (simp add: commitIndexPersisted_def)
qed

text \<open>The number of answers to proposals among some actions.\<close>

definition replies :: "Action list \<Rightarrow> nat" where
  "replies acts = length (filter (\<lambda>a. \<not> mute a) acts)"

lemma replies_simps [simp]:
  "replies [] = 0" "replies (a # acts) = (if mute a then 0 else 1) + replies acts"
  "replies (xs @ ys) = replies xs + replies ys"
  by (simp_all add: replies_def)

lemma list_all_mute: "list_all mute acts \<longleftrightarrow> replies acts = 0"
  by (induction acts) simp_all

fun proposes :: "Event \<Rightarrow> bool" where
  "proposes (EvProposeSession p) = True"
| "proposes (EvProposeSet p) = True"
| "proposes (EvProposeDelete p) = True"
| "proposes ev = False"

lemma proposal_replies:
  assumes "proposes ev" "Step n ev = Some (n', acts)" "hush n"
  shows "hush n' \<and> replies acts \<le> 1"
proof -
  have "hush n' \<and> replies acts \<le> 1" if "proposeEntry n i e = Some (n', acts)" for i e
    using that assms(3) persistLog_mute(2) [unfolded list_all_mute]
    by (auto simp: proposeEntry_def Let_def case_prod_beta log_helpers_hush split: bind_splits)
  then show ?thesis using assms
    by (cases ev) (auto simp: proposeSession_def proposeSet_def proposeDelete_def split: if_splits)
qed

lemma timers_mute:
  "keeps_mute n (heartbeatRound n)" "keeps_mute n (Some (checkQuorum n))" "keeps_mute n (confirmRead n i)"
  "keeps_mute n (map_option (\<lambda>n. (n, [])) (compactLog n k t))" "keeps_mute n (Some (handleAppendEntriesFailed n to i, []))"
proof -
  have "keeps_mute n (sendAppendEntries (n\<lparr>n_appendInFlight := m\<rparr>) 0)" for m
    by (rule keeps_mute_trans [OF send_mute(2)]) simp
  then show "keeps_mute n (heartbeatRound n)"
    by (auto simp: heartbeatRound_def intro!: keeps_mute_bindI)
  show "keeps_mute n (Some (checkQuorum n))" by (simp add: checkQuorum_def)
  show "keeps_mute n (confirmRead n i)"
    by (auto simp: confirmRead_def intro: keeps_mute_trans [OF send_mute(2)])
  show "keeps_mute n (map_option (\<lambda>n. (n, [])) (compactLog n k t))"
    by (cases "compactLog n k t") (auto dest: log_helpers_hush(3))
  show "keeps_mute n (Some (handleAppendEntriesFailed n to i, []))"
    by (simp add: hush_core [OF handleAppendEntriesFailed_core])
qed

lemma Step_mute: "\<not> proposes ev \<Longrightarrow> keeps_mute n (Step n ev)"
  by (cases ev) (simp_all del: keeps_mute_simps add: startPreVote_mute votes_mute handleVoteResponse_mute
      handleAppendEntries_mute handleAppendEntriesResponse_mute handleInstallSnapshot_mute snapshotPersisted_mute
      handleInstallSnapshotResponse_mute persisted_mute applyThrough_mute timers_mute)

theorem Step_replies:
  assumes "Step n ev = Some (n', acts)" "hush n"
  shows "hush n' \<and> replies acts \<le> (if proposes ev then 1 else 0)"
  using assms proposal_replies [of ev n n' acts] Step_mute [of ev n] by (auto simp: list_all_mute)

end
