(* ===== verification/Node_Answers.thy ===== *)
theory Node_Answers
  imports Node_Loop Raft_Answers Node_Cluster "HOL-Library.Multiset"
begin

text \<open>
  The loop answers a client at most once: every channel that the loop has answered or keeps waiting was
  handed to it with an input, as often as that.
\<close>

section \<open>Who waits\<close>

definition gathered :: "('v \<Rightarrow> 'a multiset) \<Rightarrow> ('k, 'v) fmap \<Rightarrow> 'a multiset" where
  "gathered f m = (\<Sum>i \<in> fset (fmdom m). f (the (fmlookup m i)))"

lemma gathered_empty [simp]: "gathered f fmempty = {#}"
  by (simp add: gathered_def)

lemma gathered_drop: "gathered f m = (case fmlookup m i of None \<Rightarrow> {#} | Some x \<Rightarrow> f x) + gathered f (fmdrop i m)"
proof (cases "fmlookup m i")
  case None
  then have "fmdrop i m = m" by (simp add: fmap_ext fmdom_notI)
  then show ?thesis using None by simp
next
  case (Some x)
  then have "i \<in> fset (fmdom m)" by (simp add: fmdomI)
  moreover have "gathered f (fmdrop i m) = (\<Sum>j \<in> fset (fmdom m) - {i}. f (the (fmlookup m j)))"
    unfolding gathered_def by (rule sum.cong) auto
  ultimately show ?thesis using Some by (simp add: gathered_def sum.remove [where x = i])
qed

lemma gathered_upd: "gathered f (fmupd i x m) = f x + gathered f (fmdrop i m)"
proof -
  have "fmdrop i (fmupd i x m) = fmdrop i m" by (rule fmap_ext) simp
  then show ?thesis using gathered_drop [of f "fmupd i x m" i] by simp
qed

lemma sum_mset_mono: "(\<And>i. i \<in> A \<Longrightarrow> g i \<subseteq># h i) \<Longrightarrow> (\<Sum>i\<in>A. g i) \<subseteq># (\<Sum>i\<in>A. h i :: 'a multiset)"
  by (induction A rule: infinite_finite_induct) (simp_all add: subset_mset.add_mono)

lemma gathered_shrinks:
  assumes "\<And>i y. fmlookup m' i = Some y \<Longrightarrow> \<exists>x. fmlookup m i = Some x \<and> f y \<subseteq># f x"
  shows "gathered f m' \<subseteq># gathered f m"
proof -
  have dom: "fset (fmdom m') \<subseteq> fset (fmdom m)" using assms by (fastforce simp: fmdomI elim!: fmdomE)
  have "gathered f m' \<subseteq># (\<Sum>i \<in> fset (fmdom m'). f (the (fmlookup m i)))"
    unfolding gathered_def using assms by (intro sum_mset_mono) (fastforce elim!: fmdomE)
  also have "\<dots> \<subseteq># gathered f m"
    unfolding gathered_def by (simp add: sum.subset_diff [OF dom])
  finally show ?thesis .
qed

abbreviation proposers :: "(u64, pendingProposal list) fmap \<Rightarrow> nat option multiset" where
  "proposers \<equiv> gathered (\<lambda>ps. image_mset pp_result (mset ps))"

abbreviation readers :: "(ReadID, waitingRead) fmap \<Rightarrow> nat option multiset" where
  "readers \<equiv> gathered (\<lambda>r. {#Some (wr_result r)#})"

text \<open>The channels that were answered, and those that wait for an answer.\<close>

definition clients :: "loopState \<Rightarrow> nat option multiset" where
  "clients s = mset (map (Some \<circ> fst) (lp_answers s)) + proposers (lp_pending s) + readers (lp_pendingReads s)
     + mset (map Some (lp_snapshotWaiters s))"

lemma clients_frame [simp]:
  "clients (s\<lparr>lp_runtime := a1\<rparr>) = clients s" "clients (s\<lparr>lp_sessions := a2\<rparr>) = clients s" "clients (s\<lparr>lp_transport := a3\<rparr>) = clients s"
  "clients (s\<lparr>lp_dir := a4\<rparr>) = clients s" "clients (s\<lparr>lp_writing := a5\<rparr>) = clients s" "clients (s\<lparr>lp_snapshotDone := a6\<rparr>) = clients s"
  "clients (s\<lparr>lp_snapshotRunning := a7\<rparr>) = clients s" "clients (s\<lparr>lp_snapshotAutomatic := a8\<rparr>) = clients s"
  "clients (s\<lparr>lp_lastSnapshotIndex := a9\<rparr>) = clients s" "clients (s\<lparr>lp_incoming := b1\<rparr>) = clients s"
  "clients (s\<lparr>lp_readySnapshot := b2\<rparr>) = clients s" "clients (s\<lparr>lp_inFlightMutations := b3\<rparr>) = clients s"
  "clients (s\<lparr>lp_electionTimer := b4\<rparr>) = clients s" "clients (s\<lparr>lp_heartbeatTimer := b5\<rparr>) = clients s"
  "clients (s\<lparr>lp_quorumTimer := b6\<rparr>) = clients s" "clients (s\<lparr>lp_published := b7\<rparr>) = clients s" "clients (s\<lparr>lp_metrics := b8\<rparr>) = clients s"
  by (simp_all add: clients_def)

lemma addPending_clients [simp]: "clients (addPending i p s) = add_mset (pp_result p) (clients s)"
  using gathered_drop [of "\<lambda>ps. image_mset pp_result (mset ps)" "lp_pending s" i]
  by (simp add: clients_def addPending_def gathered_upd split: option.splits)

lemma dropCancelled_clients: "dropCancelled env s = Inr s' \<Longrightarrow> clients s' \<subseteq># clients s \<and> lp_runtime s' = lp_runtime s"
  by (auto simp: dropCancelled_def clients_def Let_def mset_filter image_mset_subseteq_mono multiset_filter_subset
      split: if_splits intro!: subset_mset.add_mono gathered_shrinks)

lemma send_on_clients: "send_on c a s = Inr s' \<Longrightarrow> clients s' = add_mset c (clients s) \<and> lp_runtime s' = lp_runtime s \<and> lp_pending s' = lp_pending s
    \<and> lp_pendingReads s' = lp_pendingReads s"
  by (auto simp: send_on_def clients_def split: option.splits)

lemma send_all_clients:
  "send_all ps a s = Inr s' \<Longrightarrow> clients s' = image_mset pp_result (mset ps) + clients s \<and> lp_runtime s' = lp_runtime s
    \<and> lp_pending s' = lp_pending s \<and> lp_pendingReads s' = lp_pendingReads s"
  by (induction ps arbitrary: s) (fastforce split: sum.splits dest: send_on_clients)+

lemma forget_index: "clients (s\<lparr>lp_pending := fmdrop i (lp_pending s)\<rparr>) + image_mset pp_result (mset (case fmlookup (lp_pending s) i of None \<Rightarrow> [] | Some ps \<Rightarrow> ps)) = clients s"
  using gathered_drop [of "\<lambda>ps. image_mset pp_result (mset ps)" "lp_pending s" i]
  by (simp add: clients_def split: option.splits)

lemma observe_core [simp]: "rt_core (observe b es r) = rt_core r"
  by (simp add: observe_def)

lemma noteApplied_frame [simp]:
  "clients (noteApplied e s) = clients s" "rt_core (lp_runtime (noteApplied e s)) = rt_core (lp_runtime s)"
  by (simp_all add: noteApplied_def Let_def)

lemma answerProposals_clients:
  assumes "answerProposals i result s = Inr s'"
  shows "clients s' = clients s \<and> lp_runtime s' = lp_runtime s"
proof (cases "fmlookup (lp_pending s) i")
  case (Some ps)
  then obtain s2 where s2: "send_all ps (ProposalAnswer result) s = Inr s2" "s' = s2\<lparr>lp_pending := fmdrop i (lp_pending s2)\<rparr>"
    using assms by (auto simp: answerProposals_def split: sum.splits)
  show ?thesis using send_all_clients [OF s2(1)] forget_index [where s = s2 and i = i] s2(2) Some by (simp add: union_commute)
qed (use assms in \<open>simp add: answerProposals_def\<close>)

lemma applyCommitted_clients:
  "applyCommitted e s = Inr s' \<Longrightarrow> clients s' = clients s \<and> rt_core (lp_runtime s') = rt_core (lp_runtime s)"
  by (auto simp: applyCommitted_def dest: answerProposals_clients split: option.splits)

lemma answerRead_clients [simp]: "clients (answerRead i f s) = clients s" "lp_runtime (answerRead i f s) = lp_runtime s"
  using gathered_drop [of "\<lambda>r. {#Some (wr_result r)#}" "lp_pendingReads s" i]
  by (simp_all add: clients_def answerRead_def split: option.splits)

section \<open>What the core hands back\<close>

lemma completion_proposes [simp]: "\<not> proposes (completion a)"
  by (cases a) simp_all

lemma Run_replies: "Run n evs = Some (n', acts) \<Longrightarrow> hush n \<Longrightarrow> hush n' \<and> replies acts \<le> length (filter proposes evs)"
proof (induction evs arbitrary: n acts)
  case (Cons ev evs)
  obtain m a b where "Step n ev = Some (m, a)" "Run m evs = Some (n', b)" "acts = a @ b" using Cons.prems(1) unfolding Run_Cons_iff by blast
  then show ?case using Step_replies [of n ev m a] Cons.IH [of m b] Cons.prems(2) by (simp split: if_splits)
qed simp

lemma replies_filter: "replies (filter p acts) \<le> replies acts"
  by (induction acts) simp_all

lemma loop_step_replies:
  assumes "loop_step ev s = Inr (acts, s')" "hush (rt_core (lp_runtime s))"
  shows "clients s' = clients s \<and> hush (rt_core (lp_runtime s')) \<and> replies acts \<le> (if proposes ev then 1 else 0)"
proof -
  obtain r' where r': "runtime_step ev (lp_runtime s) = Some (Inr acts, r')" "s' = s\<lparr>lp_runtime := r'\<rparr>"
    using assms(1) by (auto simp: loop_step_def split: option.splits prod.splits sum.splits if_splits)
  obtain requests all where "Run (rt_core (lp_runtime s)) (ev # map completion requests) = Some (rt_core r', all)"
    "acts = filter (\<lambda>a. \<not> storing a) all"
    using runtime_step_runs [OF r'(1)] by blast
  then show ?thesis using Run_replies [of _ "ev # map completion requests"] assms(2) r'(2) replies_filter [of "\<lambda>a. \<not> storing a" all]
    by (fastforce simp del: Run.simps simp: o_def)
qed

section \<open>The loop\<close>

lemma sendMessage_clients:
  assumes "sendMessage env a s = Inr s'" "hush (rt_core (lp_runtime s))"
  shows "clients s' = clients s \<and> hush (rt_core (lp_runtime s'))"
proof -
  have "\<exists>t k s1. s1 = s\<lparr>lp_metrics := k, lp_transport := t\<rparr> \<and> (s' = s1 \<or> (\<exists>to i. loop_step (AppendEntriesFailed to i) s1 = Inr ([], s')))"
    using assms(1) unfolding sendMessage_def Let_def by (auto split: prod.splits option.splits if_splits sum.splits list.splits)
  then show ?thesis using assms(2) loop_step_replies by fastforce
qed

text \<open>The share of the client whose input is handled: one answer, or one place among those who wait.\<close>

definition share :: "turn_of \<Rightarrow> nat option multiset" where
  "share t = {#to_results t#}"

lemma performAction_clients:
  assumes "performAction env t a s = Inr s'" "hush (rt_core (lp_runtime s))"
  shows "hush (rt_core (lp_runtime s')) \<and> clients s' \<subseteq># (if mute a then {#} else share t) + clients s"
proof (cases "sends a")
  case True
  then have "mute a" by (cases a) simp_all
  then show ?thesis using True sendMessage_clients [of env a s s'] assms by (simp add: performAction_def)
next
  case False
  show ?thesis
  proof (cases a)
    case (ProposalRejected i l)
    then show ?thesis using assms by (auto simp: performAction_def share_def dest!: send_on_clients split: if_splits)
  next
    case (ApplyEntry e)
    then show ?thesis using assms by (simp add: performAction_def applyCommitted_clients)
  qed (use assms False in \<open>auto simp: performAction_def share_def Let_def addPending_def [THEN arg_cong [where f = lp_runtime]]
      split: option.splits if_splits sum.splits prod.splits\<close>)
qed

lemma performActions_clients:
  assumes "performActions env t acts s = Inr s'" "hush (rt_core (lp_runtime s))" "replies acts \<le> k" "k \<le> 1"
  shows "hush (rt_core (lp_runtime s')) \<and> clients s' \<subseteq># (if k = 0 then {#} else share t) + clients s"
  using assms
proof (induction acts arbitrary: s k)
  case (Cons a acts)
  obtain s1 where s1: "performAction env t a s = Inr s1" "performActions env t acts s1 = Inr s'" using Cons.prems(1) by (auto split: sum.splits)
  note a = performAction_clients [OF s1(1) Cons.prems(2)]
  show ?case
  proof (cases "mute a")
    case True
    then show ?thesis using a Cons.IH [OF s1(2), of k] Cons.prems by (auto intro: subset_mset.order_trans [OF _ subset_mset.add_left_mono])
  next
    case False
    then have "k = 1" "replies acts = 0" using Cons.prems(3,4) by simp_all
    then show ?thesis using a False Cons.IH [OF s1(2), of 0] by (auto intro: subset_mset.order_trans)
  qed
qed simp

lemma mset_concat_distinct: "distinct xs \<Longrightarrow> mset (concat (map g xs)) = (\<Sum>i\<in>set xs. mset (g i))"
  by (induction xs) simp_all

lemma image_mset_sum: "image_mset f (\<Sum>i\<in>A. g i) = (\<Sum>i\<in>A. image_mset f (g i))"
  by (induction A rule: infinite_finite_induct) simp_all

lemma sorted_fset_distinct [simp]: "distinct (sorted_list_of_fset A)"
  by (simp add: sorted_list_of_fset.rep_eq)

lemma gathered_list:
  "proposers m = image_mset pp_result (mset (concat (map (\<lambda>i. the (fmlookup m i)) (sorted_list_of_fset (fmdom m)))))"
  "readers n = mset (map (\<lambda>i. Some (wr_result (the (fmlookup n i)))) (sorted_list_of_fset (fmdom n)))"
proof -
  show "proposers m = image_mset pp_result (mset (concat (map (\<lambda>i. the (fmlookup m i)) (sorted_list_of_fset (fmdom m)))))"
    by (simp add: mset_concat_distinct image_mset_sum gathered_def)
  have "mset (map g xs) = (\<Sum>i\<in>set xs. {#g i#})" if "distinct xs" for g :: "ReadID \<Rightarrow> nat option" and xs
    using that by (induction xs) simp_all
  then show "readers n = mset (map (\<lambda>i. Some (wr_result (the (fmlookup n i)))) (sorted_list_of_fset (fmdom n)))"
    by (simp add: gathered_def)
qed

lemma stepDown_clients:
  assumes "stepDown l s = Inr s'"
  shows "clients s' = clients s \<and> lp_runtime s' = lp_runtime s"
proof -
  define ps where "ps = concat (map (\<lambda>i. the (fmlookup (lp_pending s) i)) (sorted_list_of_fset (fmdom (lp_pending s))))"
  define rs where "rs = map (\<lambda>i. the (fmlookup (lp_pendingReads s) i)) (sorted_list_of_fset (fmdom (lp_pendingReads s)))"
  obtain s1 where s1: "send_all ps (ProposalAnswer (rejectedProposal l)) s = Inr s1"
    "s' = s1\<lparr>lp_pending := fmempty, lp_inFlightMutations := fmempty, lp_pendingReads := fmempty,
         lp_answers := lp_answers s1 @ map (\<lambda>r. (wr_result r, ReadAnswer (rejectedRead l))) rs\<rparr>"
    using assms by (auto simp: stepDown_def Let_def ps_def rs_def split: sum.splits)
  have "proposers (lp_pending s) = image_mset pp_result (mset ps)" "readers (lp_pendingReads s) = mset (map (\<lambda>r. Some (wr_result r)) rs)"
    by (simp_all only: gathered_list ps_def rs_def map_map o_def)
  moreover have "clients s1 = image_mset pp_result (mset ps) + clients s" "lp_runtime s1 = lp_runtime s" "lp_pending s1 = lp_pending s"
    "lp_pendingReads s1 = lp_pendingReads s"
    using send_all_clients [OF s1(1)] by simp_all
  ultimately show ?thesis using s1(2) by (simp add: clients_def o_def)
qed

lemma startSnapshot_clients:
  "startSnapshot cfg w b s = Inr s' \<Longrightarrow> clients s' = (case w of None \<Rightarrow> {#} | Some c \<Rightarrow> {#Some c#}) + clients s \<and> lp_runtime s' = lp_runtime s"
  by (auto simp: startSnapshot_def Let_def clients_def split: option.splits if_splits)

lemma settleTurn_clients:
  assumes "settleTurn cfg b s = Inr s'"
  shows "clients s' = clients s \<and> rt_core (lp_runtime s') = rt_core (lp_runtime s)"
proof -
  obtain st where st: "node_State (rt_core (lp_runtime s)) = Some st" using assms by (auto simp: settleTurn_def split: option.splits)
  obtain s1 where s1: "(if b \<and> s_Role st \<noteq> Leader then stepDown (s_LeaderID st) s else Inr s) = Inr s1"
    using assms st by (auto simp: settleTurn_def split: sum.splits)
  then have "clients s1 = clients s \<and> lp_runtime s1 = lp_runtime s" by (auto dest: stepDown_clients split: if_splits)
  then show ?thesis using assms st s1
    by (auto simp: settleTurn_def Let_def dest!: startSnapshot_clients split: if_splits prod.splits)
qed

lemma receiveSnapshot_clients:
  "receiveSnapshot env cfg q s = (x, s') \<Longrightarrow> clients s' = clients s \<and> lp_runtime s' = lp_runtime s"
  by (auto simp: receiveSnapshot_def Let_def split: option.splits if_splits sum.splits prod.splits)

text \<open>The channels of an input.\<close>

fun channels :: "loop_input \<Rightarrow> nat option multiset" where
  "channels (EventsInput i) = (case ri_snapshotResult i of Some w \<Rightarrow> {#Some w#} | None \<Rightarrow> {#ri_result i, ri_readResult i#})"
| "channels x = {#}"

lemma subset_add_left: "(A :: 'a multiset) \<subseteq># B \<Longrightarrow> A \<subseteq># C + B"
  by (metis mset_subset_eq_add_right subset_mset.order_trans)

lemma stageSnapshot_clients:
  assumes "stageSnapshot env cfg ev s = Inr (ev', s')"
  shows "clients s' = clients s \<and> lp_runtime s' = lp_runtime s \<and> proposes ev' = proposes ev \<and> (\<forall>i. ev' = ConfirmRead i \<longrightarrow> ev = ConfirmRead i)"
proof (cases "\<exists>q. ev = EvInstallSnapshot q")
  case True
  then show ?thesis using assms receiveSnapshot_clients by (auto simp: stageSnapshot_def split: prod.splits sum.splits)
next
  case False
  then have "ev' = ev \<and> s' = s" using assms by (cases ev) (simp_all add: stageSnapshot_def)
  then show ?thesis by simp
qed

lemma registerRead_clients:
  "clients (registerRead t rr k ev s) \<subseteq># (if rr = None then {#} else {#rr#}) + clients s \<and> lp_runtime (registerRead t rr k ev s) = lp_runtime s"
proof (cases "\<exists>i c. ev = ConfirmRead i \<and> rr = Some c")
  case True
  then obtain i c where i: "ev = ConfirmRead i" "rr = Some c" by blast
  show ?thesis using gathered_drop [of "\<lambda>r. {#Some (wr_result r)#}" "lp_pendingReads s" i]
    by (simp add: i registerRead_def clients_def gathered_upd)
next
  case False
  then have "registerRead t rr k ev s = s" by (cases ev; cases rr) (simp_all add: registerRead_def)
  then show ?thesis by simp
qed

lemma runEvent_clients:
  assumes "runEvent env cfg t ev s = Inr s'" "hush (rt_core (lp_runtime s))"
  shows "hush (rt_core (lp_runtime s')) \<and> clients s' \<subseteq># (if proposes ev then share t else {#}) + clients s"
proof -
  obtain acts s1 s2 b where s: "loop_step ev s = Inr (acts, s1)" "performActions env t acts s1 = Inr s2" "settleTurn cfg b s2 = Inr s'"
    using assms(1) by (auto simp: runEvent_def split: option.splits sum.splits prod.splits)
  note c = loop_step_replies [OF s(1) assms(2)]
  show ?thesis
    using performActions_clients [OF s(2), of 0] performActions_clients [OF s(2), of 1] c settleTurn_clients [OF s(3)]
    by (cases "proposes ev") simp_all
qed

lemma runMutation_clients:
  assumes "runMutation env cfg t i k ev s = Inr s'" "hush (rt_core (lp_runtime s))" "proposes ev"
  shows "hush (rt_core (lp_runtime s')) \<and> clients s' \<subseteq># share t + clients s"
proof -
  have o: "hush (rt_core (lp_runtime s1)) \<and> clients s1 \<subseteq># share t + clients s" if "runEvent env cfg t ev (s\<lparr>lp_runtime := observe b es (lp_runtime s)\<rparr>) = Inr s1" for b es s1
    using runEvent_clients [OF that] assms(2,3) by simp
  show ?thesis using assms(1,2)
    by (auto simp: runMutation_def share_def o addPending_def [THEN arg_cong [where f = lp_runtime]]
        dest: send_on_clients o split: option.splits if_splits prod.splits)
qed

lemma handleEvent_clients:
  assumes "handleEvent env cfg t rr k ev s = Inr s'" "hush (rt_core (lp_runtime s))" "to_mutation t = proposedMutation ev"
  shows "hush (rt_core (lp_runtime s')) \<and> clients s' \<subseteq># (if proposes ev then share t else {#}) + (if rr = None then {#} else {#rr#}) + clients s"
proof -
  obtain ev1 s1 where s1: "stageSnapshot env cfg ev s = Inr (ev1, s1)" using assms(1) unfolding handleEvent_def by (auto split: sum.splits)
  define s2 where "s2 = registerRead t rr k ev1 s1"
  have c: "clients s1 = clients s" "lp_runtime s1 = lp_runtime s" "proposes ev1 = proposes ev" using stageSnapshot_clients [OF s1] by simp_all
  have c2: "clients s2 \<subseteq># (if rr = None then {#} else {#rr#}) + clients s" "hush (rt_core (lp_runtime s2))"
    using registerRead_clients [of t rr k ev1 s1] c assms(2) by (simp_all add: s2_def)
  have p: "proposedMutation ev = Some x \<Longrightarrow> proposes ev" for x by (cases ev) (simp_all add: proposedMutation_def)
  have "hush (rt_core (lp_runtime s')) \<and> clients s' \<subseteq># (if proposes ev then share t else {#}) + clients s2"
  proof (cases "proposedMutation ev")
    case None
    then have "runEvent env cfg t ev1 s2 = Inr s'" using assms(1,3) s1 by (simp add: handleEvent_def s2_def)
    then show ?thesis using runEvent_clients [OF _ c2(2)] c(3) by metis
  next
    case (Some x)
    then have "runMutation env cfg t (fst x) (snd x) ev1 s2 = Inr s'" using assms(1,3) s1 by (simp add: handleEvent_def s2_def case_prod_beta)
    then show ?thesis using runMutation_clients [OF _ c2(2)] c(3) p [OF Some] by metis
  qed
  then show ?thesis using c2(1) by (metis (no_types, lifting) subset_mset.add_left_mono subset_mset.order_trans union_assoc)
qed

lemma finishSnapshot_clients [simp]: "clients (finishSnapshot c s) = clients s" "lp_runtime (finishSnapshot c s) = lp_runtime s"
  by (simp_all add: finishSnapshot_def clients_def o_def)

lemma completeSnapshot_clients:
  assumes "completeSnapshot c s = Inr s'" "hush (rt_core (lp_runtime s))"
  shows "hush (rt_core (lp_runtime s')) \<and> clients s' = clients s"
  using assms
  by (auto simp: completeSnapshot_def publish_def Let_def dest!: loop_step_replies split: option.splits if_splits sum.splits prod.splits)

lemma unwind_Inr [simp]: "unwind env r = Inr s \<longleftrightarrow> r = Inr s"
  by (auto simp: unwind_def split: sum.splits loop_end.splits)

lemma iteration_clients:
  assumes "iteration env cfg x s = Inr s'" "hush (rt_core (lp_runtime s))"
  shows "hush (rt_core (lp_runtime s')) \<and> clients s' \<subseteq># channels x + clients s"
proof -
  obtain s1 where s1: "dropCancelled env s = Inr s1" using assms(1) by (auto simp: iteration_def split: sum.splits)
  have d: "clients s1 \<subseteq># clients s" "hush (rt_core (lp_runtime s1))" using dropCancelled_clients [OF s1] assms(2) by simp_all
  have "hush (rt_core (lp_runtime s')) \<and> clients s' \<subseteq># channels x + clients s1"
  proof (cases x)
    case (EventsInput i)
    show ?thesis
    proof (cases "ri_snapshotResult i")
      case None
      then show ?thesis using assms(1) s1 EventsInput d(2)
        by (auto simp: iteration_def share_def dest!: handleEvent_clients intro: subset_mset.order_trans split: if_splits)
    qed (use assms(1) s1 EventsInput d(2) in \<open>auto simp: iteration_def dest!: startSnapshot_clients\<close>)
  qed (use assms(1) s1 d(2) completeSnapshot_clients in
      \<open>fastforce simp: iteration_def proposedMutation_def dest!: handleEvent_clients split: option.splits\<close>)+
  then show ?thesis using d(1) by (meson subset_mset.add_left_mono subset_mset.order_trans)
qed

lemma writeSnapshot_clients [simp]: "clients (writeSnapshot env s) = clients s" "rt_core (lp_runtime (writeSnapshot env s)) = rt_core (lp_runtime s)"
  by (simp_all add: writeSnapshot_def split: option.split prod.split)

text \<open>The channels that came in with the inputs of a run.\<close>

fun given :: "happening list \<Rightarrow> nat option multiset" where
  "given [] = {#}"
| "given (Iterate env x # hs) = channels x + given hs"
| "given (Writes env # hs) = given hs"

lemma run_loop_clients:
  "run_loop cfg hs s = Inr s' \<Longrightarrow> hush (rt_core (lp_runtime s)) \<Longrightarrow> clients s' \<subseteq># given hs + clients s"
proof (induction cfg hs s rule: run_loop.induct)
  case (2 cfg env x hs s)
  obtain s1 where s1: "iteration env cfg x s = Inr s1" "run_loop cfg hs s1 = Inr s'" using 2(2) by (auto split: sum.splits)
  have "clients s' \<subseteq># given hs + clients s1" "clients s1 \<subseteq># channels x + clients s"
    using 2(1) [OF s1] iteration_clients [OF s1(1) 2(3)] by simp_all
  then have "clients s' \<subseteq># given hs + (channels x + clients s)" by (meson subset_mset.add_left_mono subset_mset.order_trans)
  then show ?case by (simp add: ac_simps)
qed simp_all

section \<open>The loop that returns\<close>

text \<open>The state that a loop leaves behind when it stops or returns an error.\<close>

fun left_behind :: "loop_end \<Rightarrow> loopState option" where
  "left_behind (Stopped s) = Some s"
| "left_behind (Returned e s) = Some s"
| "left_behind stop = None"

text \<open>An operation that can only panic or block leaves nothing behind.\<close>

lemma leave_nothing:
  "send_on c a s = Inl stop \<Longrightarrow> left_behind stop = None"
  "dropCancelled env s = Inl stop \<Longrightarrow> left_behind stop = None"
  "publish s = Inl stop \<Longrightarrow> left_behind stop = None"
  "startSnapshot cfg w b s = Inl stop \<Longrightarrow> left_behind stop = None"
  by (auto simp: send_on_def dropCancelled_def publish_def startSnapshot_def Let_def split: option.splits if_splits)

lemma send_all_nothing: "send_all ps a s = Inl stop \<Longrightarrow> left_behind stop = None"
  by (induction ps arbitrary: s) (auto dest: leave_nothing(1) split: sum.splits)

lemma answering_leaves_nothing:
  "applyCommitted e s = Inl stop \<Longrightarrow> left_behind stop = None"
  "stepDown l s = Inl stop \<Longrightarrow> left_behind stop = None"
  by (auto simp: applyCommitted_def answerProposals_def stepDown_def Let_def dest: send_all_nothing split: option.splits sum.splits)

lemma settleTurn_nothing: "settleTurn cfg b s = Inl stop \<Longrightarrow> left_behind stop = None"
  by (auto simp: settleTurn_def Let_def dest: answering_leaves_nothing(2) leave_nothing(4) split: option.splits sum.splits if_splits prod.splits)

lemma loop_step_left:
  "loop_step ev s = Inl stop \<Longrightarrow> left_behind stop = Some s' \<Longrightarrow> clients s' = clients s"
  "loop_step ev s = Inr (acts, s') \<Longrightarrow> clients s' = clients s"
  by (auto simp: loop_step_def split: option.splits prod.splits sum.splits if_splits)

lemma sendMessage_left: "sendMessage env a s = Inl stop \<Longrightarrow> left_behind stop = Some s' \<Longrightarrow> clients s' = clients s"
  unfolding sendMessage_def Let_def
  by (auto dest: loop_step_left split: prod.splits option.splits if_splits sum.splits list.splits)

lemma performAction_left:
  assumes "performAction env t a s = Inl stop" "left_behind stop = Some s'"
  shows "clients s' = clients s"
proof (cases "sends a")
  case True
  then show ?thesis using assms sendMessage_left by (simp add: performAction_def)
next
  case False
  then show ?thesis using assms leave_nothing(1) answering_leaves_nothing(1)
    by (cases a) (fastforce simp: performAction_def Let_def split: option.splits if_splits sum.splits prod.splits)+
qed

lemma performActions_left:
  assumes "performActions env t acts s = Inl stop" "left_behind stop = Some s'" "hush (rt_core (lp_runtime s))" "replies acts \<le> k" "k \<le> 1"
  shows "clients s' \<subseteq># (if k = 0 then {#} else share t) + clients s"
  using assms
proof (induction acts arbitrary: s k)
  case (Cons a acts)
  show ?case
  proof (cases "performAction env t a s")
    case (Inl stop')
    then have "clients s' = clients s" using Cons.prems(1,2) performAction_left by auto
    then show ?thesis by simp
  next
    case (Inr s1)
    note a = performAction_clients [OF Inr Cons.prems(3)]
    have rest: "performActions env t acts s1 = Inl stop" using Cons.prems(1) Inr by simp
    show ?thesis
    proof (cases "mute a")
      case True
      then show ?thesis using a Cons.IH [OF rest Cons.prems(2), of k] Cons.prems by (auto intro: subset_mset.order_trans [OF _ subset_mset.add_left_mono])
    next
      case False
      then have "k = 1" "replies acts = 0" using Cons.prems(4,5) by simp_all
      then show ?thesis using a False Cons.IH [OF rest Cons.prems(2), of 0] by (auto intro: subset_mset.order_trans)
    qed
  qed
qed simp

lemma runEvent_left:
  assumes "runEvent env cfg t ev s = Inl stop" "left_behind stop = Some s'" "hush (rt_core (lp_runtime s))"
  shows "clients s' \<subseteq># (if proposes ev then share t else {#}) + clients s"
proof (cases "loop_step ev s")
  case (Inl stop')
  then have "clients s' = clients s" using assms loop_step_left(1) by (auto simp: runEvent_def split: option.splits)
  then show ?thesis by simp
next
  case (Inr p)
  obtain acts s1 where p: "loop_step ev s = Inr (acts, s1)" using Inr by (cases p) simp
  note c = loop_step_replies [OF p assms(3)]
  have "performActions env t acts s1 = Inl stop"
    using assms(1,2) p settleTurn_nothing by (fastforce simp: runEvent_def split: option.splits sum.splits)
  note performActions_left [OF this assms(2)]
  from this [of 0] this [of 1] show ?thesis using c by (cases "proposes ev") simp_all
qed

lemma runMutation_left:
  assumes "runMutation env cfg t i k ev s = Inl stop" "left_behind stop = Some s'" "hush (rt_core (lp_runtime s))" "proposes ev"
  shows "clients s' \<subseteq># share t + clients s"
proof -
  have "\<exists>b es. runEvent env cfg t ev (s\<lparr>lp_runtime := observe b es (lp_runtime s)\<rparr>) = Inl stop"
    using assms(1,2) leave_nothing(1) unfolding runMutation_def by (fastforce split: option.splits if_splits prod.splits)
  then obtain b es where "runEvent env cfg t ev (s\<lparr>lp_runtime := observe b es (lp_runtime s)\<rparr>) = Inl stop" by blast
  from runEvent_left [OF this assms(2)] show ?thesis using assms(3,4) by simp
qed

lemma stageSnapshot_left: "stageSnapshot env cfg ev s = Inl stop \<Longrightarrow> left_behind stop = Some s' \<Longrightarrow> clients s' = clients s"
  by (cases ev) (auto simp: stageSnapshot_def dest: receiveSnapshot_clients split: prod.splits sum.splits)

lemma handleEvent_left:
  assumes "handleEvent env cfg t rr k ev s = Inl stop" "left_behind stop = Some s'" "hush (rt_core (lp_runtime s))" "to_mutation t = proposedMutation ev"
  shows "clients s' \<subseteq># (if proposes ev then share t else {#}) + (if rr = None then {#} else {#rr#}) + clients s"
proof (cases "stageSnapshot env cfg ev s")
  case (Inl stop')
  then have "clients s' = clients s" using assms(1,2) stageSnapshot_left by (auto simp: handleEvent_def)
  then show ?thesis by simp
next
  case (Inr x)
  obtain ev1 s1 where s1: "stageSnapshot env cfg ev s = Inr (ev1, s1)" using Inr by (cases x) simp
  define s2 where "s2 = registerRead t rr k ev1 s1"
  have c: "clients s1 = clients s" "lp_runtime s1 = lp_runtime s" "proposes ev1 = proposes ev" using stageSnapshot_clients [OF s1] by simp_all
  have c2: "clients s2 \<subseteq># (if rr = None then {#} else {#rr#}) + clients s" "hush (rt_core (lp_runtime s2))"
    using registerRead_clients [of t rr k ev1 s1] c assms(3) by (simp_all add: s2_def)
  have p: "proposedMutation ev = Some x \<Longrightarrow> proposes ev" for x by (cases ev) (simp_all add: proposedMutation_def)
  have "clients s' \<subseteq># (if proposes ev then share t else {#}) + clients s2"
  proof (cases "proposedMutation ev")
    case None
    then have "runEvent env cfg t ev1 s2 = Inl stop" using assms(1,4) s1 by (simp add: handleEvent_def s2_def)
    then show ?thesis using runEvent_left [OF _ assms(2) c2(2)] c(3) by metis
  next
    case (Some x)
    then have "runMutation env cfg t (fst x) (snd x) ev1 s2 = Inl stop" using assms(1,4) s1 by (simp add: handleEvent_def s2_def case_prod_beta)
    then show ?thesis using runMutation_left [OF _ assms(2) c2(2)] c(3) p [OF Some] by metis
  qed
  then show ?thesis using c2(1) by (metis (no_types, lifting) subset_mset.add_left_mono subset_mset.order_trans union_assoc)
qed

lemma completeSnapshot_left:
  "completeSnapshot c s = Inl stop \<Longrightarrow> left_behind stop = Some s' \<Longrightarrow> clients s' = clients s"
  by (auto simp: completeSnapshot_def Let_def dest: loop_step_left leave_nothing(3) split: option.splits if_splits sum.splits prod.splits)

lemma shutdown_clients [simp]: "clients (shutdown env s) = clients s"
  by (simp add: shutdown_def Let_def split: option.split)

lemma unwind_left:
  "unwind env r = Inl stop \<Longrightarrow> left_behind stop = Some s' \<Longrightarrow> \<exists>stop0 s0. r = Inl stop0 \<and> left_behind stop0 = Some s0 \<and> clients s' = clients s0"
  by (cases r; cases stop) (auto simp: unwind_def split: loop_end.splits)

lemma iteration_left:
  assumes "iteration env cfg x s = Inl stop" "left_behind stop = Some s'" "hush (rt_core (lp_runtime s))"
  shows "clients s' \<subseteq># channels x + clients s"
proof -
  obtain stop0 s0 where r: "(case dropCancelled env s of Inl stop \<Rightarrow> Inl stop | Inr s1 \<Rightarrow>
      let none = \<lparr>to_results = None, to_context = None, to_mutation = None\<rparr> in
      (case x of
         CtxDone \<Rightarrow> Inl (Stopped (shutdown env s1))
       | SnapshotDone \<Rightarrow> (case lp_snapshotDone s1 of None \<Rightarrow> Inr s1 | Some finished \<Rightarrow> completeSnapshot finished s1)
       | EventsInput i \<Rightarrow>
           (case ri_snapshotResult i of
              Some w \<Rightarrow> startSnapshot cfg (Some w) False s1
            | None \<Rightarrow> handleEvent env cfg \<lparr>to_results = ri_result i, to_context = ri_requestContext i,
                to_mutation = proposedMutation (ri_event i)\<rparr> (ri_readResult i) (ri_key i) (ri_event i) s1)
       | ElectionC \<Rightarrow> handleEvent env cfg none None [] ElectionTimeout s1
       | HeartbeatC \<Rightarrow> handleEvent env cfg none None [] HeartbeatTimeout s1
       | QuorumC \<Rightarrow> handleEvent env cfg none None [] CheckQuorumTimeout s1)) = Inl stop0"
    and left: "left_behind stop0 = Some s0" "clients s' = clients s0"
    using unwind_left [OF assms(1) [unfolded iteration_def] assms(2)] by blast
  obtain s1 where s1: "dropCancelled env s = Inr s1" using r left(1) leave_nothing(2) [of env s] by (cases "dropCancelled env s") auto
  have d: "clients s1 \<subseteq># clients s" "hush (rt_core (lp_runtime s1))" using dropCancelled_clients [OF s1] assms(3) by simp_all
  note h = handleEvent_left [OF _ left(1) d(2)]
  have "clients s0 \<subseteq># channels x + clients s1"
  proof (cases x)
    case (EventsInput i)
    show ?thesis
    proof (cases "ri_snapshotResult i")
      case None
      then show ?thesis using r s1 EventsInput
        by (auto simp: share_def dest!: h intro: subset_mset.order_trans split: if_splits)
    qed (use r s1 EventsInput left leave_nothing(4) in fastforce)
  next
    case CtxDone
    then show ?thesis using r s1 left(1) by auto
  next
    case SnapshotDone
    then show ?thesis using r s1 left(1) completeSnapshot_left by (fastforce split: option.splits)
  qed (use r s1 in \<open>fastforce simp: proposedMutation_def dest!: h\<close>)+
  then show ?thesis using d(1) left(2) by (metis subset_mset.add_left_mono subset_mset.order_trans)
qed

text \<open>The states that a run leads to: the last one, whether the loop goes on or has returned.\<close>

definition leads_to :: "loop_end + loopState \<Rightarrow> loopState \<Rightarrow> bool" where
  "leads_to r s \<longleftrightarrow> (case r of Inr s' \<Rightarrow> s' = s | Inl stop \<Rightarrow> left_behind stop = Some s)"

lemma run_loop_left:
  "run_loop cfg hs s = Inl stop \<Longrightarrow> left_behind stop = Some s' \<Longrightarrow> hush (rt_core (lp_runtime s)) \<Longrightarrow> clients s' \<subseteq># given hs + clients s"
proof (induction cfg hs s rule: run_loop.induct)
  case (2 cfg env x hs s)
  show ?case
  proof (cases "iteration env cfg x s")
    case (Inl stop')
    then have "clients s' \<subseteq># channels x + clients s" using 2(2-4) iteration_left by auto
    from subset_add_left [OF this, of "given hs"] show ?thesis by (simp add: ac_simps)
  next
    case (Inr s1)
    then have s1: "iteration env cfg x s = Inr s1" "run_loop cfg hs s1 = Inl stop" using 2(2) by simp_all
    have "clients s' \<subseteq># given hs + clients s1" "clients s1 \<subseteq># channels x + clients s"
      using 2(1) [OF s1] 2(3) iteration_clients [OF s1(1) 2(4)] by simp_all
    then have "clients s' \<subseteq># given hs + (channels x + clients s)" by (meson subset_mset.add_left_mono subset_mset.order_trans)
    then show ?thesis by (simp add: ac_simps)
  qed
qed simp_all

lemma leads_to_clients:
  "leads_to (run_loop cfg hs s) s' \<Longrightarrow> hush (rt_core (lp_runtime s)) \<Longrightarrow> clients s' \<subseteq># given hs + clients s"
  using run_loop_clients run_loop_left by (auto simp: leads_to_def split: sum.splits)

text \<open>Whoever waits on a channel.\<close>

definition waits :: "nat \<Rightarrow> loopState \<Rightarrow> bool" where
  "waits c s \<longleftrightarrow> (\<exists>i ps. fmlookup (lp_pending s) i = Some ps \<and> Some c \<in> pp_result ` set ps)
     \<or> (\<exists>i r. fmlookup (lp_pendingReads s) i = Some r \<and> wr_result r = c) \<or> c \<in> set (lp_snapshotWaiters s)"

definition answered :: "nat \<Rightarrow> loopState \<Rightarrow> loop_answer list" where
  "answered c s = map snd (filter (\<lambda>a. fst a = c) (lp_answers s))"

lemma gathered_member: "fmlookup m i = Some x \<Longrightarrow> c \<in># f x \<Longrightarrow> c \<in># gathered f m"
  using gathered_drop [of f m i] by simp

lemma waits_in: "waits c s \<Longrightarrow> Some c \<in># proposers (lp_pending s) + readers (lp_pendingReads s) + mset (map Some (lp_snapshotWaiters s))"
  by (auto simp: waits_def intro: gathered_member [where f = "\<lambda>ps. image_mset pp_result (mset ps)"]
      gathered_member [where f = "\<lambda>r. {#Some (wr_result r)#}"])

lemma count_answers: "count (mset (map (Some \<circ> fst) as)) (Some c) = length (filter (\<lambda>a. fst a = c) as)"
  by (induction as) simp_all

lemma count_clients: "length (answered c s) + (if waits c s then 1 else 0) \<le> count (clients s) (Some c)"
proof -
  have "(if waits c s then 1 else 0) \<le> count (proposers (lp_pending s) + readers (lp_pendingReads s) + mset (map Some (lp_snapshotWaiters s))) (Some c)"
    using waits_in [of c s] by (simp del: count_union union_iff)
  then show ?thesis using count_answers [of "lp_answers s" c] by (simp add: clients_def answered_def del: mset_map)
qed

lemma started_hush:
  assumes "openRaftRuntime cfg peers dir disk = (Inr r0, st)" "startRaft cfg r0 = Some (Inr sm, r)"
  shows "hush (rt_core r)"
proof -
  have "hush (rt_core r0)" using assms(1)
    by (auto simp: openRaftRuntime_def hush_def NewNodeFromRecoveredState_def Let_def split: sum.splits option.splits prod.splits)
  moreover obtain acts where "runtime_step RecoverCommitted r0 = Some (Inr acts, r)"
    using assms(2) by (auto simp: startRaft_def split: sum.splits option.splits prod.splits)
  ultimately show ?thesis using runtime_step_runs Run_replies by blast
qed

lemma newLoop_clients: "newLoop cfg dir draw r sm = Inr s \<Longrightarrow> clients s = {#} \<and> lp_runtime s = r"
  by (auto simp: newLoop_def clients_def split: option.splits)

section \<open>Properties\<close>

text \<open>
  C8: a client is answered at most once. In every run of a Node's loop, whatever its disk holds, whatever
  events, timeouts, cancellations and failures it meets, and whether the loop goes on, has stopped or has
  returned an error, a client whose channel came in with one input gets at most one answer, and none while
  it is still waiting.
\<close>

theorem answered_at_most_once:
  assumes "openRaftRuntime cfg peers dir disk = (Inr r0, st)" "startRaft cfg r0 = Some (Inr sm, r)"
    and "newLoop cfg dir draw r sm = Inr s0" "leads_to (run_loop cfg happenings s0) s"
    and "count (given happenings) (Some c) \<le> 1"
  shows "length (answered c s) \<le> 1 \<and> (waits c s \<longrightarrow> answered c s = [])"
proof -
  have "clients s \<subseteq># given happenings"
    using leads_to_clients [OF assms(4)] newLoop_clients [OF assms(3)] started_hush [OF assms(1,2)] by simp
  then have "count (clients s) (Some c) \<le> 1" using assms(5) by (meson le_trans mset_subset_eq_count)
  then have "length (answered c s) + (if waits c s then 1 else 0) \<le> 1" using count_clients le_trans by blast
  then show ?thesis by (cases "waits c s") simp_all
qed

text \<open>A Node that has just started gets a proposal and rejects it, since it is not the Leader.\<close>

definition sample_loop_env :: loop_env where
  "sample_loop_env = \<lparr>le_cancelled = (\<lambda>c. False), le_peers = sample_env, le_save = ([], None, 0, False), le_draw = 0\<rparr>"

definition sample_proposal :: raftInput where
  "sample_proposal = \<lparr>ri_event = EvProposeSession \<lparr>ps_ProposalID = 1, ps_Type = EntryOpenSession, ps_SessionID = zeroSessionID\<rparr>,
     ri_result = Some 7, ri_requestContext = Some 0, ri_readResult = None, ri_key = [], ri_snapshotResult = None\<rparr>"

lemma fresh_core:
  "n_role (core_of sample_config [''n2''] (image.make 0 [] 0 [] 0)) = Follower" "n_leaderID (core_of sample_config [''n2''] (image.make 0 [] 0 [] 0)) = []"
  "\<exists>st. node_State (core_of sample_config [''n2''] (image.make 0 [] 0 [] 0)) = Some st \<and> s_Role st = Follower \<and> s_LastApplied st = 0"
  by (simp_all add: core_of_def NewNodeFromRecoveredState_def trimRecovered_def image.make_def node_State_def termAt_def Let_def)

lemma sample_rejection:
  assumes "rt_core r = core_of sample_config [''n2''] (image.make 0 [] 0 [] 0)"
  shows "\<exists>s0 s. newLoop sample_config fmempty 0 r sm = Inr s0
    \<and> run_loop sample_config [Iterate sample_loop_env (EventsInput sample_proposal)] s0 = Inr s
    \<and> answered 7 s = [ProposalAnswer (rejectedProposal [])]"
proof -
  obtain st where st: "node_State (rt_core r) = Some st" "s_Role st = Follower" "s_LastApplied st = 0" using fresh_core(3) assms by auto
  have step: "runtime_step (ri_event sample_proposal) r = Some (Inr [ProposalRejected 1 []], r)"
    using fresh_core assms by (simp add: runtime_step_def sample_proposal_def proposeSession_def drain.simps persistAction_def)
  show ?thesis
    using st step
    by (simp add: newLoop_def iteration_def unwind_def dropCancelled_def handleEvent_def stageSnapshot_def registerRead_def runEvent_def loop_step_def
        performAction_def send_on_def settleTurn_def answered_def sample_proposal_def proposedMutation_def Let_def split: prod.split)
qed

theorem answered_at_most_once_witness:
  "\<exists>r0 st sm r s0 s. openRaftRuntime sample_config [''n2''] fmempty empty_disk = (Inr r0, st) \<and> startRaft sample_config r0 = Some (Inr sm, r)
     \<and> newLoop sample_config fmempty 0 r sm = Inr s0
     \<and> run_loop sample_config [Iterate sample_loop_env (EventsInput sample_proposal)] s0 = Inr s
     \<and> length (answered 7 s) = 1 \<and> \<not> waits 7 s"
proof -
  have d: "dk_files empty_disk = fmempty" "dk_plan empty_disk = []" by (simp_all add: empty_disk_def)
  obtain r sm where r: "boots sample_config [''n2''] empty_disk r sm" "rt_core r = core_of sample_config [''n2''] (image.make 0 [] 0 [] 0)"
    using fresh_boots(1) [OF d sample_opens] by blast
  obtain r0 st where b: "openRaftRuntime sample_config [''n2''] fmempty empty_disk = (Inr r0, st)" "startRaft sample_config r0 = Some (Inr sm, r)"
    using r(1) unfolding boots_def by blast
  obtain s0 s where s: "newLoop sample_config fmempty 0 r sm = Inr s0"
    "run_loop sample_config [Iterate sample_loop_env (EventsInput sample_proposal)] s0 = Inr s" "answered 7 s = [ProposalAnswer (rejectedProposal [])]"
    using sample_rejection [OF r(2)] by blast
  have "leads_to (run_loop sample_config [Iterate sample_loop_env (EventsInput sample_proposal)] s0) s"
    by (simp add: leads_to_def s(2) del: run_loop.simps)
  then have "length (answered 7 s) \<le> 1 \<and> (waits 7 s \<longrightarrow> answered 7 s = [])"
    by (rule answered_at_most_once [OF b s(1)]) (simp add: sample_proposal_def)
  then show ?thesis using b s by (intro exI conjI) auto
qed

end
