(* ===== verification/Sim_Election.thy ===== *)
theory Sim_Election
  imports Node_Cluster
begin

text \<open>
  The deterministic simulation of three Nodes (\<open>src/internal/simulation/election.go\<close>): the cores run
  without disks and clocks, every event is handled at once, and after every event the simulation checks
  that no Term has two Leaders and that every Node has applied what its core reports.

  The clock is a parameter: it gives the duration for the k-th call. A queue that never empties makes
  \<open>process\<close> run forever, which is the value \<open>None\<close>; a panic is an error of its own.
\<close>

section \<open>Timing\<close>

definition threeNodeIDs :: "NodeID list" where
  "threeNodeIDs = [''node-1'', ''node-2'', ''node-3'']"

text \<open>Durations are nanoseconds.\<close>

record Timing =
  tm_HeartbeatInterval :: int
  tm_ElectionTimeoutMin :: int
  tm_ElectionTimeoutMax :: int
  tm_CheckQuorumWindow :: int

definition DefaultTiming :: Timing where
  "DefaultTiming = \<lparr>tm_HeartbeatInterval = 100 * 10 ^ 6, tm_ElectionTimeoutMin = 500 * 10 ^ 6,
     tm_ElectionTimeoutMax = 10 ^ 9, tm_CheckQuorumWindow = 10 ^ 9\<rparr>"

datatype timing_problem = HeartbeatNotPositive | ElectionBelowHeartbeat | MaximumBelowMinimum | QuorumBelowElection

definition timing_Validate :: "Timing \<Rightarrow> timing_problem list" where
  "timing_Validate t =
    (if tm_HeartbeatInterval t \<le> 0 then [HeartbeatNotPositive] else [])
    @ (if tm_ElectionTimeoutMin t \<le> tm_HeartbeatInterval t then [ElectionBelowHeartbeat] else [])
    @ (if tm_ElectionTimeoutMax t < tm_ElectionTimeoutMin t then [MaximumBelowMinimum] else [])
    @ (if tm_CheckQuorumWindow t < tm_ElectionTimeoutMin t then [QuorumBelowElection] else [])"

text \<open>The k-th call of \<open>ElectionTimeout\<close> with the minimum and the maximum.\<close>

type_synonym clock = "nat \<Rightarrow> int \<Rightarrow> int \<Rightarrow> int"

text \<open>\<open>Int63n(n)\<close> of the k-th call is the k-th number of the source, reduced below \<open>n\<close>.\<close>

definition SeededClock_ElectionTimeout :: "(nat \<Rightarrow> nat) \<Rightarrow> clock" where
  "SeededClock_ElectionTimeout source k minimum maximum =
    (let span = maximum - minimum in
     if span = 0 then minimum else minimum + int (source k) mod (span + 1))"

section \<open>The cluster\<close>

record sim_Step =
  ss_Node :: NodeID
  ss_Event :: Event
  ss_Actions :: "Action list"

record ScheduledElection =
  se_Node :: NodeID
  se_After :: int

record sim_Cluster =
  sc_nodes :: "NodeID \<rightharpoonup> Node"
  sc_connected :: "NodeID \<rightharpoonup> (NodeID \<rightharpoonup> bool)"
  sc_clock :: clock
  sc_timing :: Timing
  sc_electionTimeouts :: "NodeID \<rightharpoonup> int"
  sc_heartbeatTimeouts :: "NodeID \<rightharpoonup> int"
  sc_quorumTimeouts :: "NodeID \<rightharpoonup> int"
  sc_applied :: "NodeID \<rightharpoonup> LogEntry list"
  sc_scheduledElection :: "ScheduledElection list"
  sc_trace :: "sim_Step list"

record scheduledEvent =
  sev_node :: NodeID
  sev_event :: Event

datatype sim_error =
  InvalidTiming "timing_problem list" | NoClock | UnknownNode NodeID | AppliedOutOfOrder NodeID u64 nat
| MultipleLeaders u64 "NodeID list" | AppliedBeyondCommit NodeID u64 u64 | RecordedApplied NodeID nat u64
| LeaderTerms nat | SimPanic

definition resetElectionTimer :: "NodeID \<Rightarrow> sim_Cluster \<Rightarrow> sim_Cluster" where
  "resetElectionTimer i c =
    (let delay = sc_clock c (length (sc_scheduledElection c)) (tm_ElectionTimeoutMin (sc_timing c)) (tm_ElectionTimeoutMax (sc_timing c)) in
     c\<lparr>sc_electionTimeouts := (sc_electionTimeouts c)(i \<mapsto> delay),
       sc_scheduledElection := sc_scheduledElection c @ [\<lparr>se_Node = i, se_After = delay\<rparr>]\<rparr>)"

definition otherNodes :: "NodeID \<Rightarrow> NodeID list" where
  "otherNodes i = filter (\<lambda>peer. peer \<noteq> i) threeNodeIDs"

definition addNode :: "NodeID \<Rightarrow> sim_Cluster \<Rightarrow> sim_Cluster" where
  "addNode i c =
    resetElectionTimer i
      (c\<lparr>sc_connected := (sc_connected c)(i \<mapsto> (\<lambda>peer. if peer \<in> set (otherNodes i) then Some True else None)),
         sc_nodes := (sc_nodes c)(i \<mapsto> NewNode i (otherNodes i))\<rparr>)"

definition NewCluster :: "Timing \<Rightarrow> clock option \<Rightarrow> sim_error + sim_Cluster" where
  "NewCluster timing clock =
    (if timing_Validate timing \<noteq> [] then Inl (InvalidTiming (timing_Validate timing))
     else
       (case clock of
          None \<Rightarrow> Inl NoClock
        | Some cl \<Rightarrow>
            Inr (fold addNode threeNodeIDs
              \<lparr>sc_nodes = Map.empty, sc_connected = Map.empty, sc_clock = cl, sc_timing = timing,
               sc_electionTimeouts = Map.empty, sc_heartbeatTimeouts = Map.empty, sc_quorumTimeouts = Map.empty,
               sc_applied = Map.empty, sc_scheduledElection = [], sc_trace = []\<rparr>)))"

text \<open>Delivery only within the groups; an entry of a missing inner map cannot be assigned.\<close>

definition connect :: "(NodeID \<times> NodeID) \<Rightarrow> (NodeID \<rightharpoonup> (NodeID \<rightharpoonup> bool)) \<Rightarrow> (NodeID \<rightharpoonup> (NodeID \<rightharpoonup> bool)) mayPanic" where
  "connect edge m = (case edge of (from, to) \<Rightarrow>
     if from = to then Some m
     else (case m from of None \<Rightarrow> None | Some row \<Rightarrow> Some (m(from \<mapsto> row(to \<mapsto> True)))))"

fun connectAll :: "(NodeID \<times> NodeID) list \<Rightarrow> (NodeID \<rightharpoonup> (NodeID \<rightharpoonup> bool)) \<Rightarrow> (NodeID \<rightharpoonup> (NodeID \<rightharpoonup> bool)) mayPanic" where
  "connectAll [] m = Some m"
| "connectAll (edge # edges) m = (case connect edge m of None \<Rightarrow> None | Some m' \<Rightarrow> connectAll edges m')"

definition sim_Partition :: "NodeID list list \<Rightarrow> sim_Cluster \<Rightarrow> sim_Cluster mayPanic" where
  "sim_Partition groups c =
    map_option (\<lambda>m. c\<lparr>sc_connected := m\<rparr>)
      (connectAll (concat (map (\<lambda>g. List.product g g) groups))
         (\<lambda>from. map_option (\<lambda>row to. map_option (\<lambda>_. False) (row to)) (sc_connected c from)))"

definition Heal :: "sim_Cluster \<Rightarrow> sim_Cluster mayPanic" where
  "Heal c = sim_Partition [threeNodeIDs] c"

definition State_of :: "NodeID \<Rightarrow> sim_Cluster \<Rightarrow> NodeState mayPanic" where
  "State_of i c = Option.bind (sc_nodes c i) node_State"

definition HeartbeatTimeout_of :: "NodeID \<Rightarrow> sim_Cluster \<Rightarrow> int" where
  "HeartbeatTimeout_of i c = lookup_default 0 (sc_heartbeatTimeouts c) i"

definition CheckQuorumTimeout_of :: "NodeID \<Rightarrow> sim_Cluster \<Rightarrow> int" where
  "CheckQuorumTimeout_of i c = lookup_default 0 (sc_quorumTimeouts c) i"

definition AppliedEntries :: "NodeID \<Rightarrow> sim_Cluster \<Rightarrow> LogEntry list" where
  "AppliedEntries i c = lookup_default [] (sc_applied c) i"

section \<open>The checks\<close>

text \<open>
  The Leaders of every Term. The source goes through its maps in any order and sorts the Leaders of a
  Term; here the Nodes are visited in the order of their names.
\<close>

fun statesOf :: "NodeID list \<Rightarrow> (NodeID \<rightharpoonup> Node) \<Rightarrow> (NodeID \<times> NodeState) list mayPanic" where
  "statesOf [] nodes = Some []"
| "statesOf (i # is) nodes =
    (case nodes i of
       None \<Rightarrow> statesOf is nodes
     | Some n \<Rightarrow> do { st \<leftarrow> node_State n; rest \<leftarrow> statesOf is nodes; Some ((i, st) # rest) })"

definition leadersOf :: "(NodeID \<times> NodeState) list \<Rightarrow> u64 \<Rightarrow> NodeID list" where
  "leadersOf states t = map (s_ID \<circ> snd) (filter (\<lambda>(i, st). s_Role st = Leader \<and> s_Term st = t) states)"

definition leadersByTerm :: "(NodeID \<times> NodeState) list \<Rightarrow> (u64 \<times> NodeID list) list" where
  "leadersByTerm states =
    map (\<lambda>t. (t, leadersOf states t)) (remdups (map (s_Term \<circ> snd) (filter (\<lambda>(i, st). s_Role st = Leader) states)))"

definition checkState :: "(NodeID \<rightharpoonup> LogEntry list) \<Rightarrow> NodeID \<times> NodeState \<Rightarrow> sim_error option" where
  "checkState appliedEntries p = (case p of (i, st) \<Rightarrow>
     let k = length (lookup_default [] appliedEntries i) in
     if s_LastApplied st > s_CommitIndex st then Some (AppliedBeyondCommit i (s_LastApplied st) (s_CommitIndex st))
     else if k \<noteq> s_LastApplied st then Some (RecordedApplied i k (s_LastApplied st)) else None)"

fun firstError :: "('a \<Rightarrow> 'e option) \<Rightarrow> 'a list \<Rightarrow> 'e option" where
  "firstError test [] = None"
| "firstError test (x # xs) = (case test x of Some e \<Rightarrow> Some e | None \<Rightarrow> firstError test xs)"

definition assertRaftInvariants :: "(NodeID \<rightharpoonup> Node) \<Rightarrow> (NodeID \<rightharpoonup> LogEntry list) \<Rightarrow> sim_error option" where
  "assertRaftInvariants nodes appliedEntries =
    (case statesOf threeNodeIDs nodes of
       None \<Rightarrow> Some SimPanic
     | Some states \<Rightarrow>
         (case firstError (\<lambda>(t, ids). if length ids > 1 then Some (MultipleLeaders t ids) else None) (leadersByTerm states) of
            Some e \<Rightarrow> Some e
          | None \<Rightarrow> firstError (checkState appliedEntries) states))"

section \<open>Processing\<close>

definition sim_connected :: "NodeID \<Rightarrow> NodeID \<Rightarrow> sim_Cluster \<Rightarrow> bool" where
  "sim_connected from to c \<longleftrightarrow> (case sc_connected c from of None \<Rightarrow> False | Some row \<Rightarrow> row to = Some True)"

definition deliver :: "NodeID \<Rightarrow> NodeID \<Rightarrow> Event \<Rightarrow> sim_Cluster \<Rightarrow> scheduledEvent list" where
  "deliver from to event c = (if sim_connected from to c then [\<lparr>sev_node = to, sev_event = event\<rparr>] else [])"

text \<open>One action of a Node: what it adds to the queue, and the cluster after it.\<close>

definition takeAction :: "NodeID \<Rightarrow> Action \<Rightarrow> sim_Cluster \<Rightarrow> sim_error + scheduledEvent list \<times> sim_Cluster" where
  "takeAction i action c =
    (let local = (\<lambda>event. Inr ([\<lparr>sev_node = i, sev_event = event\<rparr>], c)) in
     case action of
       PersistHardState p t v \<Rightarrow> local (HardStatePersisted p)
     | PersistLogEntries p t es \<Rightarrow> local (LogEntriesPersisted p)
     | PersistCommitIndex p k \<Rightarrow> local (CommitIndexPersisted p)
     | SendPreVoteRequest to r \<Rightarrow> Inr (deliver i to (EvPreVoteRequest r) c, c)
     | SendPreVoteResponse to r \<Rightarrow> Inr (deliver i to (EvPreVoteResponse r) c, c)
     | SendVoteRequest to r \<Rightarrow> Inr (deliver i to (EvVoteRequest r) c, c)
     | SendVoteResponse to r \<Rightarrow> Inr (deliver i to (EvVoteResponse r) c, c)
     | SendAppendEntries to r \<Rightarrow>
         if sim_connected i to c then Inr (deliver i to (EvAppendEntries r) c, c)
         else local (AppendEntriesFailed to (ae_RequestID r))
     | SendAppendEntriesResponse to r \<Rightarrow> Inr (deliver i to (EvAppendEntriesResponse r) c, c)
     | ResetElectionTimer \<Rightarrow> Inr ([], resetElectionTimer i c)
     | ResetHeartbeatTimer \<Rightarrow>
         Inr ([], c\<lparr>sc_heartbeatTimeouts := (sc_heartbeatTimeouts c)(i \<mapsto> tm_HeartbeatInterval (sc_timing c))\<rparr>)
     | ResetCheckQuorumTimer \<Rightarrow>
         Inr ([], c\<lparr>sc_quorumTimeouts := (sc_quorumTimeouts c)(i \<mapsto> tm_CheckQuorumWindow (sc_timing c))\<rparr>)
     | ApplyEntry entry \<Rightarrow>
         let sofar = lookup_default [] (sc_applied c) i in
         if le_Index entry \<noteq> length sofar + 1 then Inl (AppliedOutOfOrder i (le_Index entry) (length sofar))
         else Inr ([], c\<lparr>sc_applied := (sc_applied c)(i \<mapsto> sofar @ [entry])\<rparr>)
     | _ \<Rightarrow> Inr ([], c))"

fun takeActions :: "NodeID \<Rightarrow> Action list \<Rightarrow> sim_Cluster \<Rightarrow> sim_error + scheduledEvent list \<times> sim_Cluster" where
  "takeActions i [] c = Inr ([], c)"
| "takeActions i (a # as) c =
    (case takeAction i a c of
       Inl e \<Rightarrow> Inl e
     | Inr (q, c) \<Rightarrow> (case takeActions i as c of Inl e \<Rightarrow> Inl e | Inr (q', c) \<Rightarrow> Inr (q @ q', c)))"

text \<open>One turn of the loop: the event at the head of the queue.\<close>

definition processOne :: "scheduledEvent \<Rightarrow> sim_Cluster \<Rightarrow> sim_error + scheduledEvent list \<times> sim_Cluster" where
  "processOne ev c =
    (let i = sev_node ev in
     case sc_nodes c i of
       None \<Rightarrow> Inl (UnknownNode i)
     | Some n \<Rightarrow>
         (case Step n (sev_event ev) of
            None \<Rightarrow> Inl SimPanic
          | Some (n', actions) \<Rightarrow>
              (case takeActions i actions
                   (c\<lparr>sc_nodes := (sc_nodes c)(i \<mapsto> n'),
                      sc_trace := sc_trace c @ [\<lparr>ss_Node = i, ss_Event = sev_event ev, ss_Actions = actions\<rparr>]\<rparr>) of
                 Inl e \<Rightarrow> Inl e
               | Inr (new, c') \<Rightarrow>
                   (case assertRaftInvariants (sc_nodes c') (sc_applied c') of
                      Some e \<Rightarrow> Inl e
                    | None \<Rightarrow> Inr (new, c')))))"

partial_function (option) process :: "scheduledEvent list \<Rightarrow> sim_Cluster \<Rightarrow> (sim_error + sim_Cluster) option" where
  "process queue c =
    (case queue of
       [] \<Rightarrow> Some (Inr c)
     | ev # rest \<Rightarrow> (case processOne ev c of Inl e \<Rightarrow> Some (Inl e) | Inr (new, c') \<Rightarrow> process (rest @ new) c'))"

definition fire :: "NodeID \<Rightarrow> Event \<Rightarrow> sim_Cluster \<Rightarrow> (sim_error + sim_Cluster) option" where
  "fire i event c = process [\<lparr>sev_node = i, sev_event = event\<rparr>] c"

definition FireElectionTimeout :: "NodeID \<Rightarrow> sim_Cluster \<Rightarrow> (sim_error + sim_Cluster) option" where
  "FireElectionTimeout i = fire i ElectionTimeout"

definition FireHeartbeatTimeout :: "NodeID \<Rightarrow> sim_Cluster \<Rightarrow> (sim_error + sim_Cluster) option" where
  "FireHeartbeatTimeout i = fire i HeartbeatTimeout"

definition FireCheckQuorumTimeout :: "NodeID \<Rightarrow> sim_Cluster \<Rightarrow> (sim_error + sim_Cluster) option" where
  "FireCheckQuorumTimeout i = fire i CheckQuorumTimeout"

definition sim_ProposeSession :: "NodeID \<Rightarrow> ProposeSession \<Rightarrow> sim_Cluster \<Rightarrow> (sim_error + sim_Cluster) option" where
  "sim_ProposeSession i proposal = fire i (EvProposeSession proposal)"

definition sim_ProposeSet :: "NodeID \<Rightarrow> ProposeSet \<Rightarrow> sim_Cluster \<Rightarrow> (sim_error + sim_Cluster) option" where
  "sim_ProposeSet i proposal = fire i (EvProposeSet proposal)"

text \<open>The Node with the shortest timeout; among equals the one with the least name.\<close>

definition shorter :: "(NodeID \<rightharpoonup> int) \<Rightarrow> NodeID \<Rightarrow> NodeID \<times> int \<Rightarrow> NodeID \<times> int" where
  "shorter timeouts i best = (case best of (selected, shortest) \<Rightarrow>
     let delay = lookup_default 0 timeouts i in
     if selected = [] \<or> delay < shortest \<or> (delay = shortest \<and> i < selected) then (i, delay) else best)"

definition FireNextElectionTimeout :: "sim_Cluster \<Rightarrow> (sim_error + sim_Cluster) option" where
  "FireNextElectionTimeout c = FireElectionTimeout (fst (fold (shorter (sc_electionTimeouts c)) threeNodeIDs ([], 0))) c"

record ElectionResult =
  er_Leader :: NodeID
  er_Term :: u64
  er_Trace :: "sim_Step list"

definition RunElection :: "(int \<Rightarrow> nat \<Rightarrow> nat) \<Rightarrow> int \<Rightarrow> (sim_error + ElectionResult) option" where
  "RunElection source seed =
    (case NewCluster DefaultTiming (Some (SeededClock_ElectionTimeout (source seed))) of
       Inl e \<Rightarrow> Some (Inl e)
     | Inr c \<Rightarrow>
         (case FireNextElectionTimeout c of
            None \<Rightarrow> None
          | Some (Inl e) \<Rightarrow> Some (Inl e)
          | Some (Inr c) \<Rightarrow>
              (case statesOf threeNodeIDs (sc_nodes c) of
                 None \<Rightarrow> Some (Inl SimPanic)
               | Some states \<Rightarrow>
                   (case leadersByTerm states of
                      [(t, ids)] \<Rightarrow> Some (Inr \<lparr>er_Leader = hd ids, er_Term = t, er_Trace = sc_trace c\<rparr>)
                    | leaders \<Rightarrow> Some (Inl (LeaderTerms (length leaders)))))))"

section \<open>A run without partitions\<close>

text \<open>
  The part of the cluster that decides an election while all Nodes are connected: the three cores and
  what each has applied. \<open>advance\<close> handles up to a number of events and refuses whatever the simulation
  would report.
\<close>

record trio =
  t1 :: "Node \<times> LogEntry list"
  t2 :: "Node \<times> LogEntry list"
  t3 :: "Node \<times> LogEntry list"

definition pick :: "NodeID \<Rightarrow> trio \<Rightarrow> Node \<times> LogEntry list" where
  "pick i T = (if i = ''node-1'' then t1 T else if i = ''node-2'' then t2 T else t3 T)"

definition put :: "NodeID \<Rightarrow> Node \<times> LogEntry list \<Rightarrow> trio \<Rightarrow> trio" where
  "put i x T = (if i = ''node-1'' then T\<lparr>t1 := x\<rparr> else if i = ''node-2'' then T\<lparr>t2 := x\<rparr> else T\<lparr>t3 := x\<rparr>)"

definition nodes_of :: "trio \<Rightarrow> NodeID \<rightharpoonup> Node" where
  "nodes_of T = [''node-1'' \<mapsto> fst (t1 T), ''node-2'' \<mapsto> fst (t2 T), ''node-3'' \<mapsto> fst (t3 T)]"

definition applied_of :: "trio \<Rightarrow> NodeID \<rightharpoonup> LogEntry list" where
  "applied_of T = [''node-1'' \<mapsto> snd (t1 T), ''node-2'' \<mapsto> snd (t2 T), ''node-3'' \<mapsto> snd (t3 T)]"

text \<open>The events that an action leads to; \<open>None\<close> for a message to somebody else than the other two Nodes.\<close>

definition to_other :: "NodeID \<Rightarrow> NodeID \<Rightarrow> Event \<Rightarrow> scheduledEvent list option" where
  "to_other i to event = (if to \<in> set (otherNodes i) then Some [\<lparr>sev_node = to, sev_event = event\<rparr>] else None)"

fun posts :: "NodeID \<Rightarrow> Action \<Rightarrow> scheduledEvent list option" where
  "posts i (PersistHardState p t v) = Some [\<lparr>sev_node = i, sev_event = HardStatePersisted p\<rparr>]"
| "posts i (PersistLogEntries p t es) = Some [\<lparr>sev_node = i, sev_event = LogEntriesPersisted p\<rparr>]"
| "posts i (PersistCommitIndex p k) = Some [\<lparr>sev_node = i, sev_event = CommitIndexPersisted p\<rparr>]"
| "posts i (SendPreVoteRequest to r) = to_other i to (EvPreVoteRequest r)"
| "posts i (SendPreVoteResponse to r) = to_other i to (EvPreVoteResponse r)"
| "posts i (SendVoteRequest to r) = to_other i to (EvVoteRequest r)"
| "posts i (SendVoteResponse to r) = to_other i to (EvVoteResponse r)"
| "posts i (SendAppendEntries to r) = to_other i to (EvAppendEntries r)"
| "posts i (SendAppendEntriesResponse to r) = to_other i to (EvAppendEntriesResponse r)"
| "posts i a = Some []"

fun outcomes :: "NodeID \<Rightarrow> Action list \<Rightarrow> LogEntry list \<Rightarrow> (scheduledEvent list \<times> LogEntry list) option" where
  "outcomes i [] es = Some ([], es)"
| "outcomes i (a # as) es =
    (case a of
       ApplyEntry e \<Rightarrow> if le_Index e = length es + 1 then outcomes i as (es @ [e]) else None
     | _ \<Rightarrow> (case posts i a of None \<Rightarrow> None | Some q \<Rightarrow> map_option (\<lambda>(q', es). (q @ q', es)) (outcomes i as es)))"

text \<open>What the checks ask of one Node, and of a Node that may be a Leader beside the others.\<close>

definition fine :: "Node \<times> LogEntry list \<Rightarrow> bool" where
  "fine x \<longleftrightarrow> (case x of (n, es) \<Rightarrow> node_State n \<noteq> None \<and> n_lastApplied n \<le> n_commitIndex n \<and> length es = n_lastApplied n)"

definition sole :: "NodeID \<Rightarrow> Node \<Rightarrow> trio \<Rightarrow> bool" where
  "sole i n T \<longleftrightarrow> n_role n = Leader \<longrightarrow> (\<forall>j \<in> set (otherNodes i). n_role (fst (pick j T)) \<noteq> Leader)"

fun advance :: "nat \<Rightarrow> scheduledEvent list \<Rightarrow> trio \<Rightarrow> trio option" where
  "advance k [] T = Some T"
| "advance 0 (ev # q) T = None"
| "advance (Suc k) (ev # q) T =
    (let i = sev_node ev; (n, es) = pick i T in
     case Step n (sev_event ev) of
       None \<Rightarrow> None
     | Some (n', acts) \<Rightarrow>
         (case outcomes i acts es of
            None \<Rightarrow> None
          | Some (new, es') \<Rightarrow>
              let T' = put i (n', es') T in
              if i \<in> set threeNodeIDs \<and> fine (n', es') \<and> sole i n' T then advance k (q @ new) T' else None))"

lemma advance_numeral [simp]:
  "advance (numeral k) (ev # q) T =
    (let i = sev_node ev; (n, es) = pick i T in
     case Step n (sev_event ev) of
       None \<Rightarrow> None
     | Some (n', acts) \<Rightarrow>
         (case outcomes i acts es of
            None \<Rightarrow> None
          | Some (new, es') \<Rightarrow>
              let T' = put i (n', es') T in
              if i \<in> set threeNodeIDs \<and> fine (n', es') \<and> sole i n' T then advance (pred_numeral k) (q @ new) T' else None))"
  by (simp add: numeral_eq_Suc)

text \<open>A connected cluster that a trio describes.\<close>

definition joined :: "sim_Cluster \<Rightarrow> bool" where
  "joined c \<longleftrightarrow> (\<forall>i \<in> set threeNodeIDs. \<forall>j \<in> set (otherNodes i). sim_connected i j c)"

definition depicts :: "sim_Cluster \<Rightarrow> trio \<Rightarrow> bool" where
  "depicts c T \<longleftrightarrow> sc_nodes c = nodes_of T \<and> joined c
     \<and> (\<forall>i \<in> set threeNodeIDs. lookup_default [] (sc_applied c) i = snd (pick i T) \<and> fine (pick i T) \<and> sole i (fst (pick i T)) T)"

lemma takeAction_posts:
  assumes "posts i a = Some q" "\<forall>e. a \<noteq> ApplyEntry e" "joined c" "i \<in> set threeNodeIDs"
  shows "\<exists>c'. takeAction i a c = Inr (q, c') \<and> sc_nodes c' = sc_nodes c \<and> sc_connected c' = sc_connected c \<and> sc_applied c' = sc_applied c"
  using assms
  by (cases a) (auto simp: takeAction_def Let_def to_other_def deliver_def joined_def resetElectionTimer_def split: if_splits)

lemma joined_cong: "sc_connected c' = sc_connected c \<Longrightarrow> joined c' = joined c"
  by (simp add: joined_def sim_connected_def)

lemma takeActions_outcomes:
  assumes "outcomes i acts es = Some (q, es')" "joined c" "i \<in> set threeNodeIDs" "lookup_default [] (sc_applied c) i = es"
  shows "\<exists>c'. takeActions i acts c = Inr (q, c') \<and> sc_nodes c' = sc_nodes c \<and> sc_connected c' = sc_connected c
    \<and> (\<forall>j. lookup_default [] (sc_applied c') j = (if j = i then es' else lookup_default [] (sc_applied c) j))"
  using assms
proof (induction acts arbitrary: es q c)
  case (Cons a acts)
  show ?case
  proof (cases "\<exists>e. a = ApplyEntry e")
    case True
    then obtain e where a: "a = ApplyEntry e" by blast
    let ?c = "c\<lparr>sc_applied := (sc_applied c)(i \<mapsto> es @ [e])\<rparr>"
    have o: "le_Index e = length es + 1" "outcomes i acts (es @ [e]) = Some (q, es')" using Cons.prems(1) a by (auto split: if_splits)
    have "takeAction i a c = Inr ([], ?c)" using a o(1) Cons.prems(4) by (simp add: takeAction_def Let_def)
    moreover obtain c' where "takeActions i acts ?c = Inr (q, c') \<and> sc_nodes c' = sc_nodes ?c \<and> sc_connected c' = sc_connected ?c
      \<and> (\<forall>j. lookup_default [] (sc_applied c') j = (if j = i then es' else lookup_default [] (sc_applied ?c) j))"
      using Cons.IH [OF o(2), of ?c] Cons.prems(2,3) by (auto simp: joined_cong [of ?c c] lookup_default_def)
    ultimately show ?thesis by (intro exI [of _ c']) (auto simp: lookup_default_def)
  next
    case False
    then obtain q1 q2 where q: "posts i a = Some q1" "outcomes i acts es = Some (q2, es')" "q = q1 @ q2"
      using Cons.prems(1) by (cases a) (auto split: option.splits)
    obtain c1 where c1: "takeAction i a c = Inr (q1, c1)" "sc_nodes c1 = sc_nodes c" "sc_connected c1 = sc_connected c" "sc_applied c1 = sc_applied c"
      using takeAction_posts [OF q(1) _ Cons.prems(2,3)] False by auto
    obtain c' where "takeActions i acts c1 = Inr (q2, c') \<and> sc_nodes c' = sc_nodes c1 \<and> sc_connected c' = sc_connected c1
      \<and> (\<forall>j. lookup_default [] (sc_applied c') j = (if j = i then es' else lookup_default [] (sc_applied c1) j))"
      using Cons.IH [OF q(2), of c1] Cons.prems(2-4) c1 joined_cong [of c1 c] by auto
    then show ?thesis using c1 q(3) by (intro exI [of _ c']) simp
  qed
qed auto

lemma node_State_fields:
  "node_State n = Some st \<Longrightarrow> s_Role st = n_role n \<and> s_LastApplied st = n_lastApplied n \<and> s_CommitIndex st = n_commitIndex n"
  by (auto simp: node_State_def split: bind_splits if_splits)

lemma fine_passes:
  assumes "\<And>i. i \<in> set threeNodeIDs \<Longrightarrow> lookup_default [] es i = snd (pick i T) \<and> fine (pick i T) \<and> sole i (fst (pick i T)) T"
  shows "assertRaftInvariants (nodes_of T) es = None"
proof -
  have state: "\<exists>st. node_State (fst (pick i T)) = Some st \<and> s_Role st = n_role (fst (pick i T)) \<and> checkState es (i, st) = None"
    if i: "i \<in> set threeNodeIDs" for i
  proof -
    obtain st where "node_State (fst (pick i T)) = Some st" using assms [OF i] by (auto simp: fine_def split: prod.splits)
    then show ?thesis using assms [OF i] node_State_fields [of "fst (pick i T)" st]
      by (intro exI [of _ st]) (auto simp: fine_def checkState_def split: prod.splits)
  qed
  obtain a where a: "node_State (fst (t1 T)) = Some a" "s_Role a = n_role (fst (t1 T))" "checkState es (''node-1'', a) = None"
    using state [of "''node-1''"] by (auto simp: threeNodeIDs_def pick_def)
  obtain b where b: "node_State (fst (t2 T)) = Some b" "s_Role b = n_role (fst (t2 T))" "checkState es (''node-2'', b) = None"
    using state [of "''node-2''"] by (auto simp: threeNodeIDs_def pick_def)
  obtain d where d: "node_State (fst (t3 T)) = Some d" "s_Role d = n_role (fst (t3 T))" "checkState es (''node-3'', d) = None"
    using state [of "''node-3''"] by (auto simp: threeNodeIDs_def pick_def)
  have "sole ''node-1'' (fst (t1 T)) T" "sole ''node-2'' (fst (t2 T)) T"
    using assms [of "''node-1''"] assms [of "''node-2''"] by (simp_all add: threeNodeIDs_def pick_def)
  then have lone: "s_Role a = Leader \<Longrightarrow> s_Role b \<noteq> Leader \<and> s_Role d \<noteq> Leader" "s_Role b = Leader \<Longrightarrow> s_Role d \<noteq> Leader"
    using a(2) b(2) d(2) by (auto simp: sole_def otherNodes_def threeNodeIDs_def pick_def)
  have "statesOf threeNodeIDs (nodes_of T) = Some [(''node-1'', a), (''node-2'', b), (''node-3'', d)]"
    using a(1) b(1) d(1) by (simp add: threeNodeIDs_def nodes_of_def)
  then show ?thesis using lone a(3) b(3) d(3)
    by (cases "s_Role a = Leader"; cases "s_Role b = Leader"; cases "s_Role d = Leader")
       (simp_all add: assertRaftInvariants_def leadersByTerm_def leadersOf_def)
qed

lemma pick_put [simp]:
  "i \<in> set threeNodeIDs \<Longrightarrow> j \<in> set threeNodeIDs \<Longrightarrow> pick j (put i x T) = (if j = i then x else pick j T)"
  "i \<in> set threeNodeIDs \<Longrightarrow> nodes_of T i = Some (fst (pick i T))"
  "i \<in> set threeNodeIDs \<Longrightarrow> lookup_default [] (applied_of T) i = snd (pick i T)"
  "i \<in> set threeNodeIDs \<Longrightarrow> nodes_of (put i x T) = (nodes_of T)(i \<mapsto> fst x)"
  by (auto simp: threeNodeIDs_def pick_def put_def nodes_of_def applied_of_def lookup_default_def)

lemma put_depicts:
  assumes "i \<in> set threeNodeIDs" "j \<in> set threeNodeIDs" "fine x" "sole i (fst x) T"
    and "\<And>k. k \<in> set threeNodeIDs \<Longrightarrow> fine (pick k T) \<and> sole k (fst (pick k T)) T"
  shows "fine (pick j (put i x T)) \<and> sole j (fst (pick j (put i x T))) (put i x T)"
proof -
  have other: "k \<in> set (otherNodes m) \<longleftrightarrow> k \<in> set threeNodeIDs \<and> k \<noteq> m" for k m by (auto simp: otherNodes_def)
  show ?thesis
  proof (cases "j = i")
    case True
    then show ?thesis using assms(1,3,4) by (simp add: sole_def other)
  next
    case False
    have "n_role (fst (pick k (put i x T))) \<noteq> Leader" if "n_role (fst (pick j T)) = Leader" "k \<in> set (otherNodes j)" for k
    proof (cases "k = i")
      case True
      then show ?thesis using assms(1,2,4) that(1) False by (auto simp: sole_def other)
    next
      case False
      then show ?thesis using assms(1) assms(5) [OF assms(2)] that by (simp add: sole_def other)
    qed
    then show ?thesis using assms(1,2) assms(5) [OF assms(2)] False by (simp add: sole_def)
  qed
qed

lemma process_advances:
  "advance k q T = Some T' \<Longrightarrow> depicts c T \<Longrightarrow> \<exists>c'. process q c = Some (Inr c') \<and> depicts c' T'"
proof (induction k arbitrary: q T c)
  case (Suc k)
  show ?case
  proof (cases q)
    case (Cons ev rest)
    let ?i = "sev_node ev"
    obtain n es where p: "pick ?i T = (n, es)" by (cases "pick ?i T")
    obtain n' acts new es' where s: "Step n (sev_event ev) = Some (n', acts)" "outcomes ?i acts es = Some (new, es')" "?i \<in> set threeNodeIDs"
      "fine (n', es')" "sole ?i n' T" "advance k (rest @ new) (put ?i (n', es') T) = Some T'"
      using Suc.prems(1) p Cons by (auto simp: Let_def split: option.splits if_splits)
    define c1 where "c1 = c\<lparr>sc_nodes := (sc_nodes c)(?i \<mapsto> n'), sc_trace := sc_trace c @ [\<lparr>ss_Node = ?i, ss_Event = sev_event ev, ss_Actions = acts\<rparr>]\<rparr>"
    have d: "sc_nodes c = nodes_of T" "joined c"
      "\<And>j. j \<in> set threeNodeIDs \<Longrightarrow> lookup_default [] (sc_applied c) j = snd (pick j T) \<and> fine (pick j T) \<and> sole j (fst (pick j T)) T"
      using Suc.prems(2) by (simp_all add: depicts_def)
    have j: "joined c1" using d(2) joined_cong [of c1 c] by (simp add: c1_def)
    obtain c2 where c2: "takeActions ?i acts c1 = Inr (new, c2)" "sc_nodes c2 = sc_nodes c1" "sc_connected c2 = sc_connected c1"
      "\<And>j. lookup_default [] (sc_applied c2) j = (if j = ?i then es' else lookup_default [] (sc_applied c) j)"
      using takeActions_outcomes [OF s(2) j s(3)] d(3) [OF s(3)] p by (auto simp: c1_def)
    have ok: "lookup_default [] (sc_applied c2) j = snd (pick j (put ?i (n', es') T)) \<and> fine (pick j (put ?i (n', es') T))
        \<and> sole j (fst (pick j (put ?i (n', es') T))) (put ?i (n', es') T)" if "j \<in> set threeNodeIDs" for j
      using put_depicts [OF s(3) that, of "(n', es')" T] s(3-5) d(3) that c2(4) [of j] by simp
    have nodes: "sc_nodes c2 = nodes_of (put ?i (n', es') T)" using c2(2) d(1) s(3) by (simp add: c1_def)
    have "processOne ev c = Inr (new, c2)"
      using d(1) s(1,3) p c2(1) fine_passes [OF ok] nodes by (simp add: processOne_def Let_def c1_def)
    moreover have "depicts c2 (put ?i (n', es') T)" using ok nodes j joined_cong [OF c2(3)] by (simp add: depicts_def)
    ultimately show ?thesis using Suc.IH [OF s(6)] Cons by (simp add: process.simps [of "ev # rest"])
  qed (use Suc.prems in \<open>simp add: process.simps\<close>)
next
  case 0
  then show ?case by (cases q) (simp_all add: process.simps)
qed

lemmas election_eval = pick_def put_def threeNodeIDs_def otherNodes_def NewNode_def NewNodeWithHardState_def NewNodeWithLog_def to_other_def
  fine_def sole_def leadersByTerm_def leadersOf_def node_State_def nodes_of_def

definition fresh :: trio where
  "fresh = \<lparr>t1 = (NewNode ''node-1'' [''node-2'', ''node-3''], []), t2 = (NewNode ''node-2'' [''node-1'', ''node-3''], []),
     t3 = (NewNode ''node-3'' [''node-1'', ''node-2''], [])\<rparr>"

text \<open>The election that the timeout of a Node starts; 90 events are more than it takes.\<close>

definition elects :: "NodeID \<Rightarrow> bool" where
  "elects i \<longleftrightarrow> (\<exists>T. advance 90 [\<lparr>sev_node = i, sev_event = ElectionTimeout\<rparr>] fresh = Some T
     \<and> Option.bind (statesOf threeNodeIDs (nodes_of T)) (\<lambda>states. Some (leadersByTerm states)) = Some [(1, [i])])"

lemma elects_1: "elects ''node-1''"
  by (simp add: elects_def fresh_def election_eval play_eval)

lemma elects_2: "elects ''node-2''"
  by (simp add: elects_def fresh_def election_eval play_eval)

lemma elects_3: "elects ''node-3''"
  by (simp add: elects_def fresh_def election_eval play_eval)

text \<open>The cluster that \<open>NewCluster\<close> builds.\<close>

lemma new_cluster:
  obtains c where "NewCluster DefaultTiming (Some cl) = Inr c" "depicts c fresh"
    "\<And>i. sc_electionTimeouts c i =
      [''node-1'' \<mapsto> cl 0 (500 * 10 ^ 6) (10 ^ 9), ''node-2'' \<mapsto> cl 1 (500 * 10 ^ 6) (10 ^ 9), ''node-3'' \<mapsto> cl 2 (500 * 10 ^ 6) (10 ^ 9)] i"
proof -
  have fine: "fine (NewNode i ps, [])" "n_role (NewNode i ps) = Follower" for i ps
    by (simp_all add: fine_def NewNode_def NewNodeWithHardState_def NewNodeWithLog_def NewNodeFromRecoveredState_def trimRecovered_def node_State_def Let_def)
  have three: "otherNodes ''node-1'' = [''node-2'', ''node-3'']" "otherNodes ''node-2'' = [''node-1'', ''node-3'']" "otherNodes ''node-3'' = [''node-1'', ''node-2'']"
    by (simp_all add: otherNodes_def threeNodeIDs_def)
  show thesis
    by (rule that) (auto simp: NewCluster_def timing_Validate_def DefaultTiming_def addNode_def resetElectionTimer_def Let_def depicts_def joined_def
        sim_connected_def three threeNodeIDs_def fresh_def nodes_of_def pick_def sole_def fine lookup_default_def numeral_2_eq_2)
qed

lemma selected:
  fixes f :: "NodeID \<rightharpoonup> int"
  defines "sel \<equiv> fst (fold (shorter f) threeNodeIDs ([], 0))"
  shows "sel \<in> set threeNodeIDs" "i \<in> set threeNodeIDs \<Longrightarrow> lookup_default 0 f sel \<le> lookup_default 0 f i"
  unfolding sel_def by (auto simp: threeNodeIDs_def shorter_def Let_def)

text \<open>The first timeout of the k-th Node.\<close>

definition firstTimeout :: "(nat \<Rightarrow> nat) \<Rightarrow> nat \<Rightarrow> int" where
  "firstTimeout source k = SeededClock_ElectionTimeout source k (500 * 10 ^ 6) (10 ^ 9)"

section \<open>Properties\<close>

text \<open>
  C39: a simulated election succeeds for every seed. Whatever numbers the random source gives,
  \<open>RunElection\<close> comes to an end, reports no violated invariant, and its result is Term 1 with the Node whose
  first timeout is the shortest as the Leader.
\<close>

theorem RunElection_elects_shortest:
  "\<exists>result k. RunElection source seed = Some (Inr result) \<and> er_Term result = 1 \<and> k < 3 \<and> er_Leader result = threeNodeIDs ! k
     \<and> firstTimeout (source seed) k = Min {firstTimeout (source seed) 0, firstTimeout (source seed) 1, firstTimeout (source seed) 2}"
proof -
  let ?cl = "SeededClock_ElectionTimeout (source seed)"
  obtain c where c: "NewCluster DefaultTiming (Some ?cl) = Inr c" "depicts c fresh"
    and timeouts: "\<And>i. sc_electionTimeouts c i = [''node-1'' \<mapsto> ?cl 0 (500 * 10 ^ 6) (10 ^ 9), ''node-2'' \<mapsto> ?cl 1 (500 * 10 ^ 6) (10 ^ 9),
      ''node-3'' \<mapsto> ?cl 2 (500 * 10 ^ 6) (10 ^ 9)] i"
    by (rule new_cluster [of ?cl]) blast
  define sel where "sel = fst (fold (shorter (sc_electionTimeouts c)) threeNodeIDs ([], 0))"
  have sel: "sel \<in> set threeNodeIDs" "\<And>i. i \<in> set threeNodeIDs \<Longrightarrow> lookup_default 0 (sc_electionTimeouts c) sel \<le> lookup_default 0 (sc_electionTimeouts c) i"
    using selected unfolding sel_def by blast+
  then have "elects sel" using elects_1 elects_2 elects_3 by (auto simp: threeNodeIDs_def)
  then obtain T states where T: "advance 90 [\<lparr>sev_node = sel, sev_event = ElectionTimeout\<rparr>] fresh = Some T"
    "statesOf threeNodeIDs (nodes_of T) = Some states" "leadersByTerm states = [(1, [sel])]"
    unfolding elects_def by (auto split: bind_splits)
  obtain c' where c': "process [\<lparr>sev_node = sel, sev_event = ElectionTimeout\<rparr>] c = Some (Inr c')" "depicts c' T"
    using process_advances [OF T(1) c(2)] by blast
  have "RunElection source seed = Some (Inr \<lparr>er_Leader = sel, er_Term = 1, er_Trace = sc_trace c'\<rparr>)"
    using c(1) c' T(2,3) by (simp add: RunElection_def FireNextElectionTimeout_def FireElectionTimeout_def fire_def sel_def [symmetric] depicts_def)
  moreover have count: "length threeNodeIDs = 3" by (simp add: threeNodeIDs_def)
  moreover obtain k where k: "k < 3" "sel = threeNodeIDs ! k" using sel(1) count by (metis in_set_conv_nth)
  moreover have first: "lookup_default 0 (sc_electionTimeouts c) (threeNodeIDs ! j) = firstTimeout (source seed) j" if "j < 3" for j
    using that by (auto simp: timeouts firstTimeout_def lookup_default_def threeNodeIDs_def less_Suc_eq numeral_3_eq_3 numeral_2_eq_2)
  have least: "firstTimeout (source seed) k \<le> firstTimeout (source seed) j" if "j < 3" for j
    using sel(2) [of "threeNodeIDs ! j"] first k that count by simp
  have "firstTimeout (source seed) k = Min {firstTimeout (source seed) 0, firstTimeout (source seed) 1, firstTimeout (source seed) 2}"
    by (rule Min_eqI [symmetric]) (use least k(1) in \<open>auto simp: less_Suc_eq numeral_3_eq_3 numeral_2_eq_2\<close>)
  ultimately show ?thesis by auto
qed

end
