(* ===== verification/Sim_Random.thy ===== *)
theory Sim_Random
  imports Sim_Election Session_Machine
begin

text \<open>
  The randomised fault simulation (\<open>src/internal/simulation/randomized.go\<close>): three cores over a queue of
  timers, messages, completions and client commands, with delays, duplicates, drops, partitions, crashes
  and restarts. After every step it compares the Nodes with each other, with their durable state and with
  a reference model of the key-value store.

  The random source is a parameter that gives the k-th number; \<open>Intn\<close> reduces it below its bound. The
  details of trace events are texts for people and are left out. The source visits its maps in any order;
  here the Nodes are visited in the order of their names and indexes in ascending order, which decides
  only which of several violations is reported. \<open>reflect.DeepEqual\<close> on entries and models is equality.
  A panic is the value \<open>None\<close>.
\<close>

section \<open>Data\<close>

record RandomConfig =
  rcf_Seed :: int
  rcf_Steps :: int

record FaultCoverage =
  fc_MessageDelay :: bool
  fc_MessageDrop :: bool
  fc_MessageDuplicate :: bool
  fc_MessageReorder :: bool
  fc_Asymmetric :: bool
  fc_Crash :: bool
  fc_Restart :: bool
  fc_PersistenceDelay :: bool

record TraceEvent =
  te_Sequence :: nat
  te_Kind :: string
  te_Node :: NodeID

datatype queuedKind = queuedTimer | queuedMessage | queuedPersistence | queuedClient

record queuedEvent =
  qe_kind :: queuedKind
  qe_from :: NodeID
  qe_to :: NodeID
  qe_event :: Event
  qe_persistence :: "Action option"
  qe_availableAt :: nat

record durableNode =
  dn_hard :: HardState
  dn_log :: "LogEntry list"
  dn_commit :: u64

record modelSession =
  ms_closed :: bool
  ms_lastSequence :: u64
  ms_deleteResult :: bool

record modelState =
  md_applied :: u64
  md_values :: "string \<rightharpoonup> bytes"
  md_sessions :: "SessionID \<rightharpoonup> modelSession"

datatype random_error =
  OrderedApplication NodeID u64 u64 | OnceOnlyApplication NodeID u64 | ConflictingApplied u64
| ElectionSafety u64 NodeID NodeID | MonotonicProgress NodeID | AppliedMismatch NodeID u64 u64 u64
| LeaderCompleteness NodeID u64 | PrefixAgreement NodeID NodeID u64 | UnequalState u64 NodeID NodeID
| Durability u64 nat | StepsNotPositive | OutOfEvents | NoLeaderElected | NoProgress | PartitionLeaks NodeID NodeID

record randomCluster =
  rc_source :: "nat \<Rightarrow> nat"
  rc_drawn :: nat
  rc_nodes :: "NodeID \<rightharpoonup> Node"
  rc_alive :: "NodeID \<Rightarrow> bool"
  rc_connected :: "NodeID \<rightharpoonup> (NodeID \<rightharpoonup> bool)"
  rc_durable :: "NodeID \<rightharpoonup> durableNode"
  rc_models :: "NodeID \<rightharpoonup> modelState"
  rc_queue :: "queuedEvent list"
  rc_trace :: "TraceEvent list"
  rc_faults :: FaultCoverage
  rc_leaders :: "(u64, NodeID) fmap"
  rc_committed :: "(u64, LogEntry) fmap"
  rc_lastState :: "NodeID \<rightharpoonup> NodeState"
  rc_incarnation :: "NodeID \<Rightarrow> u64"
  rc_appliedSeen :: "NodeID \<Rightarrow> u64 \<Rightarrow> u64"
  rc_invariantErr :: "random_error option"
  rc_step :: nat

record RandomResult =
  rr_Seed :: int
  rr_Steps :: int
  rr_Faults :: FaultCoverage
  rr_Trace :: "TraceEvent list"
  rr_Failure :: "random_error option"

section \<open>The reference model\<close>

definition newModelState :: modelState where
  "newModelState = \<lparr>md_applied = 0, md_values = Map.empty, md_sessions = Map.empty\<rparr>"

definition model_mutate :: "modelState \<Rightarrow> LogEntry \<Rightarrow> modelState" where
  "model_mutate m entry =
    (case md_sessions m (le_SessionID entry) of
       None \<Rightarrow> m
     | Some session \<Rightarrow>
         if ms_closed session \<or> le_Sequence entry \<noteq> add64 (ms_lastSequence session) 1 then m
         else
           let (vals, deleted) =
             (if le_Type entry = EntrySet then ((md_values m)(le_Key entry \<mapsto> le_Value entry), False)
              else ((md_values m)(le_Key entry := None), md_values m (le_Key entry) \<noteq> None))
           in m\<lparr>md_values := vals,
                md_sessions := (md_sessions m)
                  (le_SessionID entry \<mapsto> session\<lparr>ms_deleteResult := deleted, ms_lastSequence := le_Sequence entry\<rparr>)\<rparr>)"

definition model_apply :: "modelState \<Rightarrow> LogEntry \<Rightarrow> modelState" where
  "model_apply m entry =
    (case le_Type entry of
       EntryOpenSession \<Rightarrow>
         (case md_sessions m (le_SessionID entry) of
            Some _ \<Rightarrow> m
          | None \<Rightarrow> m\<lparr>md_sessions := (md_sessions m)
              (le_SessionID entry \<mapsto> \<lparr>ms_closed = False, ms_lastSequence = 0, ms_deleteResult = False\<rparr>)\<rparr>)
     | EntryCloseSession \<Rightarrow>
         (case md_sessions m (le_SessionID entry) of
            None \<Rightarrow> m
          | Some session \<Rightarrow>
              if ms_closed session then m
              else m\<lparr>md_sessions := (md_sessions m)(le_SessionID entry \<mapsto> session\<lparr>ms_closed := True\<rparr>)\<rparr>)
     | EntrySet \<Rightarrow> model_mutate m entry
     | EntryDelete \<Rightarrow> model_mutate m entry
     | _ \<Rightarrow> m)"

definition equalModel :: "modelState \<Rightarrow> modelState \<Rightarrow> bool" where
  "equalModel left right \<longleftrightarrow> md_applied left = md_applied right \<and> md_values left = md_values right \<and> md_sessions left = md_sessions right"

section \<open>The queue\<close>

definition record_event :: "string \<Rightarrow> NodeID \<Rightarrow> randomCluster \<Rightarrow> randomCluster" where
  "record_event kind i c = c\<lparr>rc_trace := rc_trace c @ [\<lparr>te_Sequence = length (rc_trace c) + 1, te_Kind = kind, te_Node = i\<rparr>]\<rparr>"

definition enqueue :: "queuedEvent \<Rightarrow> randomCluster \<Rightarrow> randomCluster" where
  "enqueue item c = c\<lparr>rc_queue := rc_queue c @ [item]\<rparr>"

definition enqueueMessage :: "NodeID \<Rightarrow> NodeID \<Rightarrow> Event \<Rightarrow> randomCluster \<Rightarrow> randomCluster" where
  "enqueueMessage from to event = enqueue
     \<lparr>qe_kind = queuedMessage, qe_from = from, qe_to = to, qe_event = event, qe_persistence = None, qe_availableAt = 0\<rparr>"

text \<open>\<open>reflect.TypeOf\<close> of two timer events.\<close>

definition same_timer :: "Event \<Rightarrow> Event \<Rightarrow> bool" where
  "same_timer a b \<longleftrightarrow> a = b \<and> a \<in> {ElectionTimeout, HeartbeatTimeout, CheckQuorumTimeout}"

definition enqueueTimer :: "NodeID \<Rightarrow> Event \<Rightarrow> randomCluster \<Rightarrow> randomCluster" where
  "enqueueTimer to event c = enqueue
     \<lparr>qe_kind = queuedTimer, qe_from = [], qe_to = to, qe_event = event, qe_persistence = None, qe_availableAt = 0\<rparr>
     (c\<lparr>rc_queue := filter (\<lambda>p. \<not> (qe_kind p = queuedTimer \<and> qe_to p = to \<and> same_timer (qe_event p) event)) (rc_queue c)\<rparr>)"

definition enqueueClient :: "NodeID \<Rightarrow> Event \<Rightarrow> randomCluster \<Rightarrow> randomCluster" where
  "enqueueClient to event = enqueue
     \<lparr>qe_kind = queuedClient, qe_from = [], qe_to = to, qe_event = event, qe_persistence = None, qe_availableAt = 0\<rparr>"

definition removeAt :: "nat \<Rightarrow> 'a list \<Rightarrow> 'a list" where
  "removeAt i xs = take i xs @ drop (i + 1) xs"

definition remove_event :: "nat \<Rightarrow> randomCluster \<Rightarrow> randomCluster" where
  "remove_event i c = c\<lparr>rc_queue := removeAt i (rc_queue c)\<rparr>"

definition kind_indices :: "queuedKind \<Rightarrow> randomCluster \<Rightarrow> nat list" where
  "kind_indices kind c = filter (\<lambda>i. qe_kind (rc_queue c ! i) = kind) [0..<length (rc_queue c)]"

text \<open>\<open>first\<close>: the position of the first event of a kind.\<close>

definition first_of :: "queuedKind \<Rightarrow> randomCluster \<Rightarrow> nat option" where
  "first_of kind c = (case kind_indices kind c of [] \<Rightarrow> None | i # _ \<Rightarrow> Some i)"

definition firstPersistence :: "queuedEvent list \<Rightarrow> NodeID \<Rightarrow> nat option" where
  "firstPersistence q i =
    (case filter (\<lambda>k. qe_kind (q ! k) = queuedPersistence \<and> qe_to (q ! k) = i) [0..<length q] of [] \<Rightarrow> None | k # _ \<Rightarrow> Some k)"

definition eligible :: "randomCluster \<Rightarrow> nat list" where
  "eligible c =
    filter (\<lambda>k. let item = rc_queue c ! k in
        \<not> qe_availableAt item > rc_step c
        \<and> (case firstPersistence (rc_queue c) (qe_to item) of None \<Rightarrow> True | Some p \<Rightarrow> p = k))
      [0..<length (rc_queue c)]"

definition healthyEvent :: "nat list \<Rightarrow> randomCluster \<Rightarrow> nat" where
  "healthyEvent candidates c =
    (case concat (map (\<lambda>kind. filter (\<lambda>k. qe_kind (rc_queue c ! k) = kind) candidates)
        [queuedPersistence, queuedMessage, queuedClient, queuedTimer]) of
       k # _ \<Rightarrow> k
     | [] \<Rightarrow> hd candidates)"

definition Intn :: "nat \<Rightarrow> randomCluster \<Rightarrow> nat \<times> randomCluster" where
  "Intn n c = (rc_source c (rc_drawn c) mod n, c\<lparr>rc_drawn := rc_drawn c + 1\<rparr>)"

definition kindName :: "queuedKind \<Rightarrow> string" where
  "kindName kind = (case kind of queuedTimer \<Rightarrow> ''timer'' | queuedMessage \<Rightarrow> ''message'' | queuedClient \<Rightarrow> ''client'' | _ \<Rightarrow> ''event'')"

section \<open>Durable state\<close>

text \<open>The entries before the first one at or after an index, found by \<open>sort.Search\<close>.\<close>

definition cutAt :: "u64 \<Rightarrow> LogEntry list \<Rightarrow> LogEntry list" where
  "cutAt index es = take (sort_search (length es) (\<lambda>i. le_Index (es ! i) \<ge> index)) es"

definition storeEntry :: "LogEntry \<Rightarrow> LogEntry list \<Rightarrow> LogEntry list" where
  "storeEntry entry es =
    (if es \<noteq> [] \<and> le_Index (last es) \<ge> le_Index entry then cutAt (le_Index entry) es else es) @ [entry]"

definition durable_after :: "Action \<Rightarrow> durableNode \<Rightarrow> durableNode" where
  "durable_after action d =
    (case action of
       PersistHardState i t v \<Rightarrow> d\<lparr>dn_hard := \<lparr>hs_Term = t, hs_VotedFor = v\<rparr>\<rparr>
     | PersistLogEntries i truncateFrom entries \<Rightarrow>
         d\<lparr>dn_log := fold storeEntry entries (if truncateFrom > 0 then cutAt truncateFrom (dn_log d) else dn_log d)\<rparr>
     | PersistCommitIndex i commit \<Rightarrow> d\<lparr>dn_commit := commit\<rparr>
     | _ \<Rightarrow> d)"

definition completePersistence :: "queuedEvent \<Rightarrow> randomCluster \<Rightarrow> randomCluster mayPanic" where
  "completePersistence item c =
    (case qe_persistence item of
       None \<Rightarrow> Some c
     | Some action \<Rightarrow>
         map_option (\<lambda>d. c\<lparr>rc_durable := (rc_durable c)(qe_to item \<mapsto> durable_after action d)\<rparr>) (rc_durable c (qe_to item)))"

section \<open>Actions\<close>

definition sim_apply :: "NodeID \<Rightarrow> LogEntry \<Rightarrow> randomCluster \<Rightarrow> randomCluster mayPanic" where
  "sim_apply i entry c = do {
     model \<leftarrow> rc_models c i;
     let index = le_Index entry;
     let fails = (\<lambda>e c. Some (c\<lparr>rc_invariantErr := Some e\<rparr>));
     if index \<noteq> add64 (md_applied model) 1 then fails (OrderedApplication i index (md_applied model)) c
     else if rc_appliedSeen c i index = rc_incarnation c i then fails (OnceOnlyApplication i index) c
     else do {
       let c = c\<lparr>rc_appliedSeen := (rc_appliedSeen c)(i := (rc_appliedSeen c i)(index := rc_incarnation c i)),
                 rc_models := (rc_models c)(i \<mapsto> model_apply (model\<lparr>md_applied := index\<rparr>) entry)\<rparr>;
       (case fmlookup (rc_committed c) index of
          Some existing \<Rightarrow>
            if existing \<noteq> entry then fails (ConflictingApplied index) c
            else Some (c\<lparr>rc_committed := fmupd index entry (rc_committed c)\<rparr>)
        | None \<Rightarrow> Some (c\<lparr>rc_committed := fmupd index entry (rc_committed c)\<rparr>))
     }
   }"

definition persistenceCompletion :: "Action \<Rightarrow> Event mayPanic" where
  "persistenceCompletion action =
    (case action of
       PersistHardState i t v \<Rightarrow> Some (HardStatePersisted i)
     | PersistLogEntries i t es \<Rightarrow> Some (LogEntriesPersisted i)
     | PersistCommitIndex i k \<Rightarrow> Some (CommitIndexPersisted i)
     | _ \<Rightarrow> None)"

definition enqueuePersistence :: "NodeID \<Rightarrow> Action \<Rightarrow> randomCluster \<Rightarrow> randomCluster mayPanic" where
  "enqueuePersistence i action c =
    map_option (\<lambda>event. enqueue
      \<lparr>qe_kind = queuedPersistence, qe_from = [], qe_to = i, qe_event = event, qe_persistence = Some action, qe_availableAt = 0\<rparr> c)
      (persistenceCompletion action)"

definition consumeAction :: "NodeID \<Rightarrow> Action \<Rightarrow> randomCluster \<Rightarrow> randomCluster mayPanic" where
  "consumeAction i action c =
    (case action of
       PersistHardState p t v \<Rightarrow> enqueuePersistence i action c
     | PersistLogEntries p t es \<Rightarrow> enqueuePersistence i action c
     | PersistCommitIndex p k \<Rightarrow> enqueuePersistence i action c
     | SendPreVoteRequest to r \<Rightarrow> Some (enqueueMessage i to (EvPreVoteRequest r) c)
     | SendPreVoteResponse to r \<Rightarrow> Some (enqueueMessage i to (EvPreVoteResponse r) c)
     | SendVoteRequest to r \<Rightarrow> Some (enqueueMessage i to (EvVoteRequest r) c)
     | SendVoteResponse to r \<Rightarrow> Some (enqueueMessage i to (EvVoteResponse r) c)
     | SendAppendEntries to r \<Rightarrow> Some (enqueueMessage i to (EvAppendEntries r) c)
     | SendAppendEntriesResponse to r \<Rightarrow> Some (enqueueMessage i to (EvAppendEntriesResponse r) c)
     | ResetElectionTimer \<Rightarrow> Some (enqueueTimer i ElectionTimeout c)
     | ResetHeartbeatTimer \<Rightarrow> Some (enqueueTimer i HeartbeatTimeout c)
     | ResetCheckQuorumTimer \<Rightarrow> Some (enqueueTimer i CheckQuorumTimeout c)
     | ApplyEntry entry \<Rightarrow> sim_apply i entry c
     | BecameLeader t \<Rightarrow>
         Some (case fmlookup (rc_leaders c) t of
                 Some prior \<Rightarrow> if prior \<noteq> [] \<and> prior \<noteq> i then c else c\<lparr>rc_leaders := fmupd t i (rc_leaders c)\<rparr>
               | None \<Rightarrow> c\<lparr>rc_leaders := fmupd t i (rc_leaders c)\<rparr>)
     | _ \<Rightarrow> Some c)"

fun consumeActions :: "NodeID \<Rightarrow> Action list \<Rightarrow> randomCluster \<Rightarrow> randomCluster mayPanic" where
  "consumeActions i [] c = Some c"
| "consumeActions i (a # as) c = do { c \<leftarrow> consumeAction i a c; consumeActions i as c }"

section \<open>One step\<close>

definition deliverable :: "queuedEvent \<Rightarrow> randomCluster \<Rightarrow> bool" where
  "deliverable item c \<longleftrightarrow> (case rc_connected c (qe_from item) of None \<Rightarrow> False | Some row \<Rightarrow> row (qe_to item) = Some True)"

text \<open>The selected event reaches its Node.\<close>

definition runItem :: "queuedEvent \<Rightarrow> randomCluster \<Rightarrow> randomCluster mayPanic" where
  "runItem item c =
    (if \<not> rc_alive c (qe_to item) then Some (record_event ''discard'' (qe_to item) c)
     else if qe_kind item = queuedMessage \<and> \<not> deliverable item c
     then Some (record_event ''message-drop'' (qe_to item) (c\<lparr>rc_faults := (rc_faults c)\<lparr>fc_MessageDrop := True\<rparr>\<rparr>))
     else do {
       c \<leftarrow> (if qe_kind item = queuedPersistence
             then map_option (record_event ''persistence'' (qe_to item)) (completePersistence item c)
             else Some (record_event (kindName (qe_kind item)) (qe_to item) c));
       n \<leftarrow> rc_nodes c (qe_to item);
       (n, actions) \<leftarrow> Step n (qe_event item);
       consumeActions (qe_to item) actions (c\<lparr>rc_nodes := (rc_nodes c)(qe_to item \<mapsto> n)\<rparr>)
     })"

definition runOne :: "bool \<Rightarrow> randomCluster \<Rightarrow> (bool \<times> randomCluster) mayPanic" where
  "runOne randomChoice c =
    (let candidates = eligible c in
     if candidates = [] then Some (rc_queue c \<noteq> [], c\<lparr>rc_step := rc_step c + 1\<rparr>)
     else
       let (selected, c) = (if randomChoice then (let (k, c) = Intn (length candidates) c in (candidates ! k, c))
                            else (healthyEvent candidates c, c));
           item = rc_queue c ! selected;
           c = (remove_event selected c)\<lparr>rc_step := rc_step c + 1\<rparr>
       in map_option (Pair True) (runItem item c))"

section \<open>The checks\<close>

definition holdsEntry :: "LogEntry list \<Rightarrow> u64 \<times> LogEntry \<Rightarrow> bool" where
  "holdsEntry es p = (case p of (index, entry) \<Rightarrow> index \<le> length es \<and> es ! (index - 1) = entry)"

definition committedEntries :: "randomCluster \<Rightarrow> (u64 \<times> LogEntry) list" where
  "committedEntries c = map (\<lambda>k. (k, the (fmlookup (rc_committed c) k))) (sorted_list_of_fset (fmdom (rc_committed c)))"

definition durableLog :: "randomCluster \<Rightarrow> NodeID \<Rightarrow> LogEntry list" where
  "durableLog c i = (case rc_durable c i of None \<Rightarrow> [] | Some d \<Rightarrow> dn_log d)"

text \<open>The living Nodes with their states.\<close>

fun livingStates :: "NodeID list \<Rightarrow> randomCluster \<Rightarrow> (NodeID \<times> NodeState) list mayPanic" where
  "livingStates [] c = Some []"
| "livingStates (i # is) c =
    (if \<not> rc_alive c i then livingStates is c
     else do { n \<leftarrow> rc_nodes c i; st \<leftarrow> node_State n; rest \<leftarrow> livingStates is c; Some ((i, st) # rest) })"

definition checkElection :: "(NodeID \<times> NodeState) list \<Rightarrow> u64 \<times> NodeID \<Rightarrow> random_error option" where
  "checkElection states p = (case p of (t, first) \<Rightarrow>
     firstError (\<lambda>(i, st). if s_Role st = Leader \<and> s_Term st = t \<and> i \<noteq> first then Some (ElectionSafety t first i) else None) states)"

definition checkNode :: "randomCluster \<Rightarrow> NodeID \<times> NodeState \<Rightarrow> random_error option" where
  "checkNode c p = (case p of (i, st) \<Rightarrow>
     let k = (case rc_models c i of None \<Rightarrow> 0 | Some m \<Rightarrow> md_applied m) in
     if (case rc_lastState c i of None \<Rightarrow> False
         | Some previous \<Rightarrow> s_Term st < s_Term previous \<or> s_CommitIndex st < s_CommitIndex previous \<or> s_LastApplied st < s_LastApplied previous)
     then Some (MonotonicProgress i)
     else if s_LastApplied st > s_CommitIndex st \<or> s_LastApplied st \<noteq> k then Some (AppliedMismatch i (s_LastApplied st) (s_CommitIndex st) k)
     else if s_Role st = Leader
     then firstError (\<lambda>e. if holdsEntry (durableLog c i) e then None else Some (LeaderCompleteness i (fst e))) (committedEntries c)
     else None)"

definition checkPair :: "randomCluster \<Rightarrow> NodeID \<times> NodeID \<Rightarrow> random_error option mayPanic" where
  "checkPair c p = (case p of (left, right) \<Rightarrow> do {
     dl \<leftarrow> rc_durable c left; dr \<leftarrow> rc_durable c right; ml \<leftarrow> rc_models c left; mr \<leftarrow> rc_models c right;
     case firstError (\<lambda>k. if k \<le> length (dn_log dl) \<and> k \<le> length (dn_log dr) \<and> dn_log dl ! (k - 1) = dn_log dr ! (k - 1)
            then None else Some (PrefixAgreement left right k)) [1..<min (dn_commit dl) (dn_commit dr) + 1] of
       Some e \<Rightarrow> Some (Some e)
     | None \<Rightarrow> Some (if md_applied ml = md_applied mr \<and> \<not> equalModel ml mr then Some (UnequalState (md_applied ml) left right) else None)
   })"

fun checkPairs :: "randomCluster \<Rightarrow> (NodeID \<times> NodeID) list \<Rightarrow> random_error option mayPanic" where
  "checkPairs c [] = Some None"
| "checkPairs c (p # ps) = (case checkPair c p of None \<Rightarrow> None | Some (Some e) \<Rightarrow> Some (Some e) | Some None \<Rightarrow> checkPairs c ps)"

definition threePairs :: "(NodeID \<times> NodeID) list" where
  "threePairs = [(threeNodeIDs ! 0, threeNodeIDs ! 1), (threeNodeIDs ! 0, threeNodeIDs ! 2), (threeNodeIDs ! 1, threeNodeIDs ! 2)]"

definition checkDurable :: "randomCluster \<Rightarrow> u64 \<times> LogEntry \<Rightarrow> random_error option" where
  "checkDurable c e =
    (let copies = length (filter (\<lambda>i. holdsEntry (durableLog c i) e) threeNodeIDs) in
     if copies < 2 then Some (Durability (fst e) copies) else None)"

definition assertInvariants :: "randomCluster \<Rightarrow> (random_error option \<times> randomCluster) mayPanic" where
  "assertInvariants c =
    (case rc_invariantErr c of
       Some e \<Rightarrow> Some (Some e, c)
     | None \<Rightarrow> do {
         states \<leftarrow> livingStates threeNodeIDs c;
         let leaders = map (\<lambda>t. (t, the (fmlookup (rc_leaders c) t))) (sorted_list_of_fset (fmdom (rc_leaders c)));
         (case firstError (checkElection states) leaders of
            Some e \<Rightarrow> Some (Some e, c)
          | None \<Rightarrow>
              (case firstError (checkNode c) states of
                 Some e \<Rightarrow> Some (Some e, c)
               | None \<Rightarrow> do {
                   let c = c\<lparr>rc_lastState := rc_lastState c ++ map_of states\<rparr>;
                   disagreement \<leftarrow> checkPairs c threePairs;
                   Some (case disagreement of Some e \<Rightarrow> Some e | None \<Rightarrow> firstError (checkDurable c) (committedEntries c), c)
                 }))
       })"

section \<open>Crashes\<close>

definition crash :: "NodeID \<Rightarrow> randomCluster \<Rightarrow> randomCluster" where
  "crash i c =
    record_event ''crash'' i
      (c\<lparr>rc_alive := (rc_alive c)(i := False),
         rc_queue := filter (\<lambda>item. \<not> (qe_to item = i \<and> qe_kind item \<noteq> queuedMessage)) (rc_queue c),
         rc_faults := (rc_faults c)\<lparr>fc_Crash := True\<rparr>\<rparr>)"

definition restart :: "NodeID \<Rightarrow> randomCluster \<Rightarrow> randomCluster mayPanic" where
  "restart i c = do {
     d \<leftarrow> rc_durable c i;
     let n = NewNodeFromRecoveredState i (otherNodes i)
       \<lparr>rs_HardState = dn_hard d, rs_Log = dn_log d, rs_CommitIndex = dn_commit d, rs_SnapshotIndex = 0, rs_SnapshotTerm = 0\<rparr>;
     (n, actions) \<leftarrow> Step n RecoverCommitted;
     c \<leftarrow> consumeActions i actions
       (c\<lparr>rc_nodes := (rc_nodes c)(i \<mapsto> n), rc_alive := (rc_alive c)(i := True),
          rc_incarnation := (rc_incarnation c)(i := add64 (rc_incarnation c i) 1),
          rc_models := (rc_models c)(i \<mapsto> newModelState), rc_lastState := (rc_lastState c)(i := None)\<rparr>);
     let c = enqueueTimer i ElectionTimeout c;
     Some (record_event ''restart'' i (c\<lparr>rc_faults := (rc_faults c)\<lparr>fc_Restart := True\<rparr>\<rparr>))
   }"

section \<open>Schedules\<close>

fun sim_leader_among :: "NodeID list \<Rightarrow> randomCluster \<Rightarrow> NodeID mayPanic" where
  "sim_leader_among [] c = Some []"
| "sim_leader_among (i # is) c =
    (if \<not> rc_alive c i then sim_leader_among is c
     else do { n \<leftarrow> rc_nodes c i; st \<leftarrow> node_State n; if s_Role st = Leader then Some i else sim_leader_among is c })"

definition sim_leader :: "randomCluster \<Rightarrow> NodeID mayPanic" where
  "sim_leader c = sim_leader_among threeNodeIDs c"

text \<open>How a part of the schedule ends: with an error, or with the cluster.\<close>

type_synonym ended = "(random_error \<times> randomCluster) + randomCluster"

definition checked :: "randomCluster \<Rightarrow> ended mayPanic" where
  "checked c = map_option (\<lambda>(err, c). case err of Some e \<Rightarrow> Inl (e, c) | None \<Rightarrow> Inr c) (assertInvariants c)"

primrec drainLoop :: "nat \<Rightarrow> (randomCluster \<Rightarrow> bool) \<Rightarrow> randomCluster \<Rightarrow> ended mayPanic" where
  "drainLoop 0 isDone c = Some (Inl (NoProgress, c))"
| "drainLoop (Suc k) isDone c =
    (if isDone c then Some (Inr c)
     else
       (case runOne False c of
          None \<Rightarrow> None
        | Some (False, c) \<Rightarrow> Some (Inl (OutOfEvents, c))
        | Some (True, c) \<Rightarrow> (case checked c of None \<Rightarrow> None | Some (Inl e) \<Rightarrow> Some (Inl e) | Some (Inr c) \<Rightarrow> drainLoop k isDone c)))"

definition drainUntil :: "(randomCluster \<Rightarrow> bool) \<Rightarrow> randomCluster \<Rightarrow> ended mayPanic" where
  "drainUntil = drainLoop 5000"

definition seedSession :: SessionID where
  "seedSession = CHR 0x01 # replicate 15 (CHR 0x00)"

definition seedOpen :: Event where
  "seedOpen = EvProposeSession \<lparr>ps_ProposalID = 1, ps_Type = EntryOpenSession, ps_SessionID = seedSession\<rparr>"

definition seedSet :: "ProposalID \<Rightarrow> u64 \<Rightarrow> string \<Rightarrow> bytes \<Rightarrow> Event" where
  "seedSet p n k v = EvProposeSet \<lparr>pset_ProposalID = p, pset_SessionID = seedSession, pset_Sequence = n, pset_Key = k, pset_Value = v\<rparr>"

definition seeded :: "NodeID \<Rightarrow> randomCluster \<Rightarrow> bool" where
  "seeded leader c \<longleftrightarrow> (case rc_models c leader of None \<Rightarrow> False | Some m \<Rightarrow> md_values m ''seed'' = Some ''acknowledged'')"

definition opened :: "NodeID \<Rightarrow> randomCluster \<Rightarrow> bool" where
  "opened leader c \<longleftrightarrow> (case rc_models c leader of None \<Rightarrow> False | Some m \<Rightarrow> md_sessions m seedSession \<noteq> None)"

definition establish :: "NodeID \<Rightarrow> randomCluster \<Rightarrow> ended mayPanic" where
  "establish leader c =
    (case drainUntil (opened leader) (enqueueClient leader seedOpen c) of
       Some (Inr c) \<Rightarrow> drainUntil (seeded leader) (enqueueClient leader (seedSet 2 1 ''seed'' ''acknowledged'') c)
     | ended \<Rightarrow> ended)"

primrec bootstrapLoop :: "nat \<Rightarrow> randomCluster \<Rightarrow> ended mayPanic" where
  "bootstrapLoop 0 c = Some (Inl (NoLeaderElected, c))"
| "bootstrapLoop (Suc k) c = do {
     leader \<leftarrow> sim_leader c;
     ready \<leftarrow> (if leader = [] then Some False else do { n \<leftarrow> rc_nodes c leader; st \<leftarrow> node_State n; Some (s_ReadReady st) });
     if ready then establish leader c
     else
       (case runOne False c of
          None \<Rightarrow> None
        | Some (False, c) \<Rightarrow> Some (Inl (OutOfEvents, c))
        | Some (True, c) \<Rightarrow> (case checked c of None \<Rightarrow> None | Some (Inl e) \<Rightarrow> Some (Inl e) | Some (Inr c) \<Rightarrow> bootstrapLoop k c))
   }"

definition bootstrap :: "randomCluster \<Rightarrow> ended mayPanic" where
  "bootstrap c = (let (k, c) = Intn (length threeNodeIDs) c in bootstrapLoop 5000 (enqueueTimer (threeNodeIDs ! k) ElectionTimeout c))"

primrec untilKindLoop :: "nat \<Rightarrow> queuedKind \<Rightarrow> randomCluster \<Rightarrow> ended mayPanic" where
  "untilKindLoop 0 kind c = Some (Inr c)"
| "untilKindLoop (Suc k) kind c =
    (if kind_indices kind c \<noteq> [] then Some (Inr c)
     else
       (case runOne False c of
          None \<Rightarrow> None
        | Some (False, c) \<Rightarrow> Some (Inr c)
        | Some (True, c) \<Rightarrow> (case checked c of None \<Rightarrow> None | Some (Inl e) \<Rightarrow> Some (Inl e) | Some (Inr c) \<Rightarrow> untilKindLoop k kind c)))"

definition runUntilKind :: "queuedKind \<Rightarrow> randomCluster \<Rightarrow> ended mayPanic" where
  "runUntilKind = untilKindLoop 100"

primrec partitionLoop :: "nat \<Rightarrow> NodeID \<Rightarrow> NodeID \<Rightarrow> randomCluster \<Rightarrow> ended mayPanic" where
  "partitionLoop 0 from to c = Some (Inl (PartitionLeaks from to, c))"
| "partitionLoop (Suc k) from to c =
    (let before = length (rc_trace c) in
     case runOne False c of
       None \<Rightarrow> None
     | Some (False, c) \<Rightarrow> Some (Inl (PartitionLeaks from to, c))
     | Some (True, c) \<Rightarrow>
         (case checked c of
            None \<Rightarrow> None
          | Some (Inl e) \<Rightarrow> Some (Inl e)
          | Some (Inr c) \<Rightarrow>
              if list_ex (\<lambda>e. te_Kind e = ''message-drop'' \<and> te_Node e = to) (drop before (rc_trace c)) then Some (Inr c)
              else partitionLoop k from to c))"

definition deliverThroughPartition :: "NodeID \<Rightarrow> NodeID \<Rightarrow> randomCluster \<Rightarrow> ended mayPanic" where
  "deliverThroughPartition = partitionLoop 100"

text \<open>The parts of \<open>injectFaultFrontier\<close>: a late write, then delayed, repeated, swapped and lost messages.\<close>

definition delayAt :: "nat \<Rightarrow> randomCluster \<Rightarrow> randomCluster" where
  "delayAt k c = c\<lparr>rc_queue := (rc_queue c)[k := (rc_queue c ! k)\<lparr>qe_availableAt := rc_step c + 4\<rparr>]\<rparr>"

definition delayPersistence :: "randomCluster \<Rightarrow> randomCluster" where
  "delayPersistence c =
    (case first_of queuedPersistence c of
       None \<Rightarrow> c
     | Some k \<Rightarrow> record_event ''persistence-delay'' (qe_to (rc_queue c ! k))
         ((delayAt k c)\<lparr>rc_faults := (rc_faults c)\<lparr>fc_PersistenceDelay := True\<rparr>\<rparr>))"

definition delayMessage :: "randomCluster \<Rightarrow> randomCluster" where
  "delayMessage c =
    (case kind_indices queuedMessage c of
       [] \<Rightarrow> c
     | k # _ \<Rightarrow>
         let item = rc_queue c ! k;
             c = record_event ''message-delay'' (qe_to item)
                   ((delayAt k c)\<lparr>rc_faults := (rc_faults c)\<lparr>fc_MessageDelay := True\<rparr>\<rparr>);
             c = enqueue item c
         in record_event ''message-duplicate'' (qe_to item) (c\<lparr>rc_faults := (rc_faults c)\<lparr>fc_MessageDuplicate := True\<rparr>\<rparr>))"

definition reorderMessages :: "randomCluster \<Rightarrow> randomCluster" where
  "reorderMessages c =
    (case kind_indices queuedMessage c of
       i # j # _ \<Rightarrow>
         record_event ''message-reorder'' []
           (c\<lparr>rc_queue := (rc_queue c)[i := rc_queue c ! j, j := rc_queue c ! i],
              rc_faults := (rc_faults c)\<lparr>fc_MessageReorder := True\<rparr>\<rparr>)
     | _ \<Rightarrow> c)"

definition dropMessage :: "randomCluster \<Rightarrow> randomCluster" where
  "dropMessage c =
    (case kind_indices queuedMessage c of
       [] \<Rightarrow> c
     | k # _ \<Rightarrow> record_event ''message-drop'' (qe_to (rc_queue c ! k))
         ((remove_event k c)\<lparr>rc_faults := (rc_faults c)\<lparr>fc_MessageDrop := True\<rparr>\<rparr>))"

text \<open>\<open>c.connected[from][to] = up\<close>, which panics when there is no row for \<open>from\<close>.\<close>

definition setLink :: "NodeID \<Rightarrow> NodeID \<Rightarrow> bool \<Rightarrow> randomCluster \<Rightarrow> randomCluster mayPanic" where
  "setLink from to up c =
    map_option (\<lambda>row. c\<lparr>rc_connected := (rc_connected c)(from \<mapsto> row(to \<mapsto> up))\<rparr>) (rc_connected c from)"

definition andThen :: "ended mayPanic \<Rightarrow> (randomCluster \<Rightarrow> ended mayPanic) \<Rightarrow> ended mayPanic" where
  "andThen r f = (case r of Some (Inr c) \<Rightarrow> f c | _ \<Rightarrow> r)"

definition crashAndRestart :: "randomCluster \<Rightarrow> ended mayPanic" where
  "crashAndRestart c =
    (let (k, c) = Intn (length threeNodeIDs) c; victim = threeNodeIDs ! k in
     andThen (checked (crash victim c)) (\<lambda>c. Option.bind (restart victim c) checked))"

definition partitionPhase :: "NodeID \<Rightarrow> randomCluster \<Rightarrow> ended mayPanic" where
  "partitionPhase from c = do {
     let to = hd (otherNodes from);
     c \<leftarrow> setLink from to False c;
     let c = record_event ''partition'' from (c\<lparr>rc_faults := (rc_faults c)\<lparr>fc_Asymmetric := True\<rparr>\<rparr>);
     andThen (checked c) (\<lambda>c.
       andThen (deliverThroughPartition from to (enqueueTimer from HeartbeatTimeout c)) (\<lambda>c.
         andThen (crashAndRestart c) (\<lambda>c. do {
           c \<leftarrow> setLink from to True c;
           checked (record_event ''heal'' from c)
         })))
   }"

definition injectFaultFrontier :: "randomCluster \<Rightarrow> ended mayPanic" where
  "injectFaultFrontier c = do {
     leader \<leftarrow> sim_leader c;
     andThen (runUntilKind queuedPersistence (enqueueClient leader (seedSet 3 2 ''fault'' ''value'') c)) (\<lambda>c. do {
       let c = delayPersistence c;
       leader \<leftarrow> (if leader = [] then sim_leader c else Some leader);
       andThen (runUntilKind queuedMessage (enqueueTimer leader HeartbeatTimeout c)) (\<lambda>c.
         partitionPhase leader (dropMessage (reorderMessages (delayMessage c))))
     })
   }"

definition enqueueRandomWork :: "randomCluster \<Rightarrow> randomCluster mayPanic" where
  "enqueueRandomWork c = do {
     c \<leftarrow> (if rc_step c mod 17 = 0
           then do { leader \<leftarrow> sim_leader c; Some (if leader \<noteq> [] then enqueueTimer leader HeartbeatTimeout c else c) }
           else Some c);
     Some (if rc_step c mod 29 = 0
           then (let (k, c) = Intn (length threeNodeIDs) c in enqueueTimer (threeNodeIDs ! k) ElectionTimeout c)
           else c)
   }"

text \<open>The main loop: every turn raises the step counter, so it ends.\<close>

lemma consumeActions_step: "consumeActions i acts c = Some c' \<Longrightarrow> rc_step c' = rc_step c"
proof (induction acts arbitrary: c)
  case (Cons a acts)
  have "consumeAction i a c = Some c1 \<Longrightarrow> rc_step c1 = rc_step c" for c1
    by (auto simp: consumeAction_def enqueuePersistence_def enqueueMessage_def enqueueTimer_def enqueue_def sim_apply_def Let_def
        split: Action.splits option.splits if_splits bind_splits)
  then show ?case using Cons by (fastforce split: bind_splits)
qed simp

lemma runItem_step: "runItem item c = Some c' \<Longrightarrow> rc_step c' = rc_step c"
  by (auto simp: runItem_def record_event_def completePersistence_def dest!: consumeActions_step split: if_splits bind_splits option.splits)

lemma runOne_step: "runOne b c = Some (x, c') \<Longrightarrow> rc_step c' = rc_step c + 1"
  by (auto simp: runOne_def Let_def Intn_def remove_event_def dest!: runItem_step split: if_splits)

lemma enqueueRandomWork_step: "enqueueRandomWork c = Some c' \<Longrightarrow> rc_step c' = rc_step c"
  by (auto simp: enqueueRandomWork_def Let_def Intn_def enqueueTimer_def enqueue_def split: if_splits bind_splits)

lemma checked_step: "checked c = Some (Inr c') \<Longrightarrow> rc_step c' = rc_step c"
  by (auto simp: checked_def assertInvariants_def Let_def split: option.splits bind_splits)

function randomLoop :: "int \<Rightarrow> randomCluster \<Rightarrow> ended mayPanic" where
  "randomLoop steps c =
    (if \<not> int (rc_step c) < steps then Some (Inr c)
     else
       (case enqueueRandomWork c of
          None \<Rightarrow> None
        | Some c1 \<Rightarrow>
            (case runOne True c1 of
               None \<Rightarrow> None
             | Some (False, c2) \<Rightarrow>
                 randomLoop steps (enqueueTimer (threeNodeIDs ! fst (Intn (length threeNodeIDs) c2)) ElectionTimeout
                   (snd (Intn (length threeNodeIDs) c2)))
             | Some (True, c2) \<Rightarrow>
                 (case checked c2 of
                    None \<Rightarrow> None
                  | Some (Inl e) \<Rightarrow> Some (Inl e)
                  | Some (Inr c3) \<Rightarrow> randomLoop steps c3))))"
  by pat_completeness auto

termination
  by (relation "measure (\<lambda>(steps, c). nat (steps - int (rc_step c)))")
     (auto dest!: runOne_step enqueueRandomWork_step checked_step simp: Intn_def enqueueTimer_def enqueue_def)

definition forThree :: "(NodeID \<Rightarrow> 'a) \<Rightarrow> NodeID \<rightharpoonup> 'a" where
  "forThree f i = (if i \<in> set threeNodeIDs then Some (f i) else None)"

definition newRandomCluster :: "(int \<Rightarrow> nat \<Rightarrow> nat) \<Rightarrow> int \<Rightarrow> randomCluster" where
  "newRandomCluster source seed =
    \<lparr>rc_source = source seed, rc_drawn = 0, rc_nodes = forThree (\<lambda>i. NewNode i (otherNodes i)),
      rc_alive = (\<lambda>i. i \<in> set threeNodeIDs),
      rc_connected = forThree (\<lambda>i peer. if peer \<in> set (otherNodes i) then Some True else None),
      rc_durable = forThree (\<lambda>i. \<lparr>dn_hard = \<lparr>hs_Term = 0, hs_VotedFor = []\<rparr>, dn_log = [], dn_commit = 0\<rparr>),
      rc_models = forThree (\<lambda>i. newModelState), rc_queue = [], rc_trace = [],
      rc_faults = \<lparr>fc_MessageDelay = False, fc_MessageDrop = False, fc_MessageDuplicate = False, fc_MessageReorder = False,
        fc_Asymmetric = False, fc_Crash = False, fc_Restart = False, fc_PersistenceDelay = False\<rparr>,
      rc_leaders = fmempty, rc_committed = fmempty, rc_lastState = Map.empty,
      rc_incarnation = (\<lambda>i. if i \<in> set threeNodeIDs then 1 else 0), rc_appliedSeen = (\<lambda>i k. 0),
      rc_invariantErr = None, rc_step = 0\<rparr>"

definition random_result :: "RandomConfig \<Rightarrow> ended \<Rightarrow> RandomResult" where
  "random_result config r =
    (let (failure, c) = (case r of Inl (e, c) \<Rightarrow> (Some e, c) | Inr c \<Rightarrow> (None, c)) in
     \<lparr>rr_Seed = rcf_Seed config, rr_Steps = rcf_Steps config, rr_Faults = rc_faults c, rr_Trace = rc_trace c, rr_Failure = failure\<rparr>)"

definition RunRandomized :: "(int \<Rightarrow> nat \<Rightarrow> nat) \<Rightarrow> RandomConfig \<Rightarrow> (random_error + RandomResult) mayPanic" where
  "RunRandomized source config =
    (if rcf_Steps config < 1 then Some (Inl StepsNotPositive)
     else
       map_option (\<lambda>r. Inr (random_result config r))
         (andThen (bootstrap (newRandomCluster source (rcf_Seed config))) (\<lambda>c.
           andThen (injectFaultFrontier c) (randomLoop (rcf_Steps config)))))"

section \<open>The reference model and the session machine\<close>

text \<open>The reference model that a session machine stands for.\<close>

definition session_view :: "sessionRecord \<Rightarrow> modelSession" where
  "session_view r = \<lparr>ms_closed = (sr_state r = sessionPermanentlyClosed), ms_lastSequence = sr_lastSequence r,
     ms_deleteResult = sr_lastDeleteExisted r\<rparr>"

definition model_of :: "sessionMachine \<Rightarrow> modelState" where
  "model_of sm = \<lparr>md_applied = 0, md_values = fmlookup (sm_values sm),
     md_sessions = (\<lambda>i. map_option session_view (fmlookup (sm_sessions sm) i))\<rparr>"

definition numbered :: "LogEntry \<Rightarrow> bool" where
  "numbered e \<longleftrightarrow> le_Type e = EntrySet \<or> le_Type e = EntryDelete \<longrightarrow> le_Sequence e \<noteq> 0"

abbreviation opens :: "LogEntry \<Rightarrow> bool" where
  "opens e \<equiv> le_Type e = EntryOpenSession"

lemma mutation_agrees:
  assumes "numbered e" "le_Type e = EntrySet \<or> le_Type e = EntryDelete" "apply_entry sm e = Some (r, sm')" "sequences_bounded sm"
  shows "model_mutate (model_of sm) e = model_of sm' \<and> sm_active sm' = sm_active sm \<and> sm_limit sm' = sm_limit sm"
proof (cases "fmlookup (sm_sessions sm) (le_SessionID e)")
  case None
  then have "sm' = sm" using assms(2,3) by (auto simp: apply_entry_def apply_set_def apply_delete_def evaluateMutation_def Let_def)
  then show ?thesis using None by (simp add: model_mutate_def model_of_def)
next
  case (Some rec)
  have go: "snd (evaluateMutation sm (le_SessionID e) (le_Sequence e)) \<longleftrightarrow>
      sr_state rec \<noteq> sessionPermanentlyClosed \<and> le_Sequence e = add64 (sr_lastSequence rec) 1"
  proof -
    have "sr_lastSequence rec < W64" using assms(4) Some by (auto simp: sequences_bounded_def last_sequence_def dest: spec [of _ "le_SessionID e"])
    moreover from this have "0 < add64 (sr_lastSequence rec) 1 \<Longrightarrow> sr_lastSequence rec < add64 (sr_lastSequence rec) 1"
      by (metis Suc_eq_plus1 Suc_lessI add64_def lessI mod_less mod_self neq0_conv)
    ultimately show ?thesis using assms(1,2) Some by (cases "sr_state rec") (auto simp: evaluateMutation_iff numbered_def)
  qed
  show ?thesis
  proof (cases "snd (evaluateMutation sm (le_SessionID e) (le_Sequence e))")
    case True
    then have s: "sr_state rec \<noteq> sessionPermanentlyClosed" "le_Sequence e = add64 (sr_lastSequence rec) 1" using go by simp_all
    then show ?thesis using assms(2,3) Some True
      by (auto simp: apply_entry_def apply_set_def apply_delete_def case_prod_beta model_mutate_def model_of_def session_view_def Let_def fun_eq_iff)
  next
    case False
    then have "sm' = sm" using assms(2,3) by (auto simp: apply_entry_def apply_set_def apply_delete_def case_prod_beta Let_def)
    then show ?thesis using False go Some by (auto simp: model_mutate_def model_of_def session_view_def)
  qed
qed

lemma entry_agrees:
  assumes "numbered e" "apply_entry sm e = Some (r, sm')" "sequences_bounded sm" "opens e \<longrightarrow> sm_active sm < sm_limit sm"
  shows "model_apply (model_of sm) e = model_of sm' \<and> sm_active sm' \<le> sm_active sm + (if opens e then 1 else 0) \<and> sm_limit sm' = sm_limit sm"
proof (cases "le_Type e = EntrySet \<or> le_Type e = EntryDelete")
  case True
  then show ?thesis using mutation_agrees [OF assms(1) True assms(2,3)] by (auto simp: model_apply_def)
next
  case False
  then show ?thesis using assms(2,4)
    by (cases "le_Type e") (auto simp: apply_entry_def apply_openSession_def apply_closeSession_def model_apply_def model_of_def
        session_view_def zeroRecord_def Let_def fun_eq_iff split: option.splits if_splits)
qed

lemma run_agrees:
  "list_all numbered es \<Longrightarrow> apply_all sm es = Some sm' \<Longrightarrow> sm_active sm + int (length (filter opens es)) \<le> sm_limit sm
    \<Longrightarrow> sequences_bounded sm \<Longrightarrow> foldl model_apply (model_of sm) es = model_of sm'"
proof (induction es arbitrary: sm)
  case (Cons e es)
  obtain r sm1 where s: "apply_entry sm e = Some (r, sm1)" "apply_all sm1 es = Some sm'" using Cons.prems(2) by (auto split: option.splits)
  have a: "model_apply (model_of sm) e = model_of sm1 \<and> sm_active sm1 \<le> sm_active sm + (if opens e then 1 else 0) \<and> sm_limit sm1 = sm_limit sm"
    using entry_agrees [OF _ s(1) Cons.prems(4)] Cons.prems(1,3) by (cases "opens e") simp_all
  then have "foldl model_apply (model_of sm1) es = model_of sm'" using Cons.IH [OF _ s(2)] Cons.prems(1,3) apply_entry_last_sequence(3) [OF Cons.prems(4) s(1)] by (auto split: if_splits)
  then show ?case using a by simp
qed simp

section \<open>Properties\<close>

text \<open>
  C38: the reference model of the fault simulation is the replicated state machine. Applying any log of
  supported entries whose mutations are numbered from 1 on, and which does not open more Client Sessions
  than the limit allows, the model holds exactly the values, open and closed sessions, sequences and
  cached results of delete that the session machine of a Node holds.
\<close>

theorem reference_model_agrees:
  assumes "apply_all (newSessionMachine limit) entries = Some sm" "list_all numbered entries"
    and "int (length (filter opens entries)) \<le> limit"
  shows "foldl model_apply newModelState entries = model_of sm"
proof -
  have "newModelState = model_of (newSessionMachine limit)" by (simp add: newModelState_def model_of_def newSessionMachine_def fun_eq_iff)
  then show ?thesis using run_agrees [OF assms(2,1)] assms(3) sequences_bounded_new [of limit] by (simp add: newSessionMachine_def)
qed

definition sample_log :: "LogEntry list" where
  "sample_log = map (\<lambda>(t, n, v). \<lparr>le_Index = n + 1, le_Term = 1, le_Type = t, le_SessionID = ''s'', le_Sequence = n, le_Key = ''k'', le_Value = v\<rparr>)
     [(EntryOpenSession, 0, []), (EntrySet, 1, ''v''), (EntrySet, 1, ''w''), (EntryDelete, 2, [])]"

theorem reference_model_agrees_witness:
  "\<exists>sm. apply_all (newSessionMachine 1) sample_log = Some sm \<and> foldl model_apply newModelState sample_log = model_of sm
     \<and> md_values (model_of sm) ''k'' = None \<and> md_sessions (model_of sm) ''s'' = Some \<lparr>ms_closed = False, ms_lastSequence = 2, ms_deleteResult = True\<rparr>"
proof -
  have eval: "\<exists>sm. apply_all (newSessionMachine 1) sample_log = Some sm \<and> md_values (model_of sm) ''k'' = None
      \<and> md_sessions (model_of sm) ''s'' = Some \<lparr>ms_closed = False, ms_lastSequence = 2, ms_deleteResult = True\<rparr>"
    by (simp add: sample_log_def apply_entry_def apply_openSession_def apply_set_def apply_delete_def evaluateMutation_def newSessionMachine_def
        zeroRecord_def zeroResult_def model_of_def session_view_def Let_def add64_def W64_def)
  then obtain sm where sm: "apply_all (newSessionMachine 1) sample_log = Some sm" "md_values (model_of sm) ''k'' = None"
    "md_sessions (model_of sm) ''s'' = Some \<lparr>ms_closed = False, ms_lastSequence = 2, ms_deleteResult = True\<rparr>" by blast
  have "foldl model_apply newModelState sample_log = model_of sm"
    by (rule reference_model_agrees [OF sm(1)]) (simp_all add: sample_log_def numbered_def)
  then show ?thesis using sm by blast
qed

end
