(* ===== verification/Spec2Isabelle.thy ===== *)
theory Spec2Isabelle
  imports Session_Machine Raft_Votes Raft_Log Wal_Crash Client Peer Snapshot_Store Divergence Node_Answers Sim_Random
begin

text \<open>
  QuorumKV is a replicated key-value store for a Cluster of three Nodes. A Client Session numbers its
  mutations; the Leader puts them into a Raft log; every Node writes the log to a write-ahead log,
  applies the committed entries to its session machine, and saves Snapshots from which its log can be
  cut. This development models the Nodes as shallow HOL functions, one per function of the Go sources
  under \<open>src/\<close>, and proves what makes them correct.

  \<^bold>\<open>How the parts interact.\<close> The RPC handlers of a Node validate a request and queue an event for
  the owner loop (\<open>runRaft\<close>). The loop hands each event to the runtime (\<open>raftRuntime.step\<close>), which calls
  the deterministic core (\<open>Step\<close>) and performs the persistence requests of the core on the write-ahead
  log and the Snapshot directory, feeding each completion back to the core until none is left. The other
  actions return to the loop: messages for the peer transport, timers, entries for the session machine,
  and answers to waiting clients. After a crash the runtime opens the newest Snapshot that the log
  admits, replays the log and applies the committed entries again. The client library follows Leader
  hints from Node to Node. The simulations drive the same core without disks and clocks.

  \<^bold>\<open>Conventions.\<close> A Go \<open>byte\<close> is a \<open>char\<close>, and \<open>string\<close> and \<open>[]byte\<close> are lists of them. A \<open>uint64\<close> is a
  natural number whose additions and subtractions wrap around at \<open>W64\<close>. A struct is a record whose field
  names carry a short prefix, an interface with a type switch is a datatype, a map is a finite map or a
  function into \<open>option\<close>. A panic is \<open>None\<close>, an error is a value on the left of a sum. The outcome of a
  \<open>select\<close>, of an I/O call, of a context, a clock or a random source is an argument. Slices are values:
  the cloning in the sources is the identity here.

  \<^bold>\<open>Foundations.\<close> \<open>Prelude\<close> has the types, the wrap-around arithmetic and the lemmas on lists, maps and
  majorities. \<open>Bytes\<close> has the big-endian integers of \<open>encoding/binary\<close> and the CRC-32 of \<open>hash/crc32\<close>,
  \<open>Base64\<close> and \<open>Json\<close> the parts of the standard library that the file formats use, with their round trips.

  \<^bold>\<open>Raft core\<close> (\<open>internal/raft/raft.go\<close>). \<open>Raft_Types\<close> has the events, actions and entries, \<open>Raft_Node\<close> the
  state of a \<open>Node\<close>, its helpers and every event handler. The other theories are analyses of \<open>Step\<close>:
  \<^item> \<open>Raft_Wf\<close>: the invariant \<open>node_wf\<close> on indexes, and what the helpers do to it.
  \<^item> \<open>Raft_Frame\<close>: the core of a node, and that the helpers that only send leave it alone.
  \<^item> \<open>Raft_Votes\<close>: the effect of each event on Term, vote and Hard State; a promised vote is durable.
  \<^item> \<open>Raft_Log\<close>: no event in range panics; committed entries are kept; the state machine is driven in
    order, no index twice, unless a Snapshot behind the durable commit index is installed
    (\<open>stale_snapshot\<close> says what happens then); the rule by which a Leader commits; what an accepted
    replication request does; the limits of a batch.
  \<^item> \<open>Raft_Rest\<close>: the requests of an idle node complete in order and leave it idle.
  \<^item> \<open>Raft_Answers\<close>: a step answers at most the proposal that it was given.
  \<^item> \<open>Elections\<close>: the locale \<open>cluster\<close>, whose laws say that members run the core and that the network does
    not make messages up, and that under these laws a Term has at most one Leader.

  \<^bold>\<open>State machine and Snapshots.\<close> \<open>Session_Machine\<close> (\<open>internal/node/session.go\<close>, \<open>internal/node/snapshot.go\<close>) has
  the sessions, the deduplication and the key-value map: a mutation takes effect at most once, a retry gets
  the first result, a closed session is final, and a Snapshot followed by the rest of the log gives the same machine.
  \<open>Snapshot_State\<close>, \<open>Snapshot_File\<close> and \<open>Snapshot_Store\<close> (\<open>internal/snapshot/snapshot.go\<close>) have the checks on a
  Snapshot, its file format, and the directory: saving is atomic whichever call fails, the newest
  admissible file is found, and the streaming validation agrees with the decoder.

  \<^bold>\<open>Write-ahead log\<close> (\<open>internal/wal/wal.go\<close>). \<open>Wal\<close> has the frames, the operations and recovery on a disk
  whose calls may fail at any point. \<open>Wal_Records\<close> gives the round trips of the payloads, through the
  locale \<open>codec\<close> that is interpreted for the counters, the Hard State, the entries and the checkpoint, and
  that a damaged record is detected. \<open>Wal_Recovery\<close> and \<open>Wal_Writes\<close> describe what opening reads and what
  each operation leaves on the disk. \<open>Wal_Crash\<close> relates the operations to an abstract store: acknowledged
  operations survive a crash, an interrupted one leaves a prefix of its records, a refused one changes
  nothing. Compaction is modelled; the crash theorems are about logs that have not been compacted.

  \<^bold>\<open>Node.\<close>
  \<^item> \<open>Node_Config\<close> (\<open>internal/config/config.go\<close>): the settings and exactly what \<open>Validate\<close> accepts.
  \<^item> \<open>Node_Api\<close> (\<open>set.go\<close>, \<open>delete.go\<close>, \<open>get.go\<close>, \<open>session.go\<close>, \<open>validation.go\<close>, \<open>GetStatus\<close> of \<open>node.go\<close>):
    the RPC handlers, when a write is acknowledged, and that a Node that does not lead queues nothing.
  \<^item> \<open>Peer\<close> (\<open>peer.go\<close>): messages arrive as sent, a connection needs agreement on the Cluster, and the
    shared Snapshot files are closed once and never under a reader.
  \<^item> \<open>Node_Runtime\<close> (\<open>raft_runtime.go\<close>, \<open>mutation_boundary.go\<close>): opening a Node and the loop of \<open>step\<close>.
  \<^item> \<open>Node_History\<close>: the histories of one Node from an empty disk through events, failing calls, crashes
    and restarts, with the votes, the committed entries and the session machine in all of them; \<open>step\<close>
    returns for every event in range.
  \<^item> \<open>Node_Cluster\<close>: Nodes with their disks and a network that loses, delays, repeats and reorders; the
    interpretation of \<open>cluster\<close> on them gives one Leader per Term.
  \<^item> \<open>Node_Loop\<close> and \<open>Node_Answers\<close> (\<open>runtime_loop.go\<close>): the whole owner loop, and that it answers a client
    at most once, up to and including the iteration in which it stops or returns an error.
  \<^item> \<open>Divergence\<close>: a network of its own, in which a message is handled at most once and only if it was sent,
    without crashes; and an execution of three Nodes on it that commit different entries at the same index.

  \<^bold>\<open>Client and simulations.\<close> \<open>Client\<close> (\<open>client/client.go\<close>) has the connection cache and \<open>withLeader\<close>, with its
  bounds on calls and pauses and that it reaches the Leader of a settled Cluster. \<open>Sim_Election\<close>
  (\<open>internal/simulation/election.go\<close>) shows that every run elects the Node with the shortest timeout.
  \<open>Sim_Random\<close> (\<open>internal/simulation/randomized.go\<close>) has the scheduler and all its checks, and that its
  reference model gives the values of the session machine.

  \<^bold>\<open>Bounds and fuel.\<close> The loops of \<open>step\<close> and of the election simulation that may run forever are partial
  functions, where \<open>None\<close> is a run that does not end; \<open>step_completes\<close> and \<open>RunElection_elects_shortest\<close>
  prove that theirs return. The random simulation recurses on the steps that its configuration leaves.
  The scripts of \<open>Divergence\<close> run a Node for at most 20 rounds per event and \<open>Sim_Election\<close> evaluates with a
  fuel of 90 events; both are enough because the evaluation ends with an empty queue. The numbers of
  attempts and the limits on sizes are those of the source. Theorems that add to indexes, Terms or
  sequence numbers assume that these are below \<open>W64\<close>. The histories of \<open>Node_History\<close> and \<open>Node_Cluster\<close>
  cover a Node up to its first Snapshot.

  \<^bold>\<open>What modelling showed.\<close> A Follower that gets a replication request without a new entry acknowledges and
  commits up to its own last index, also when the request covers only a part of its log. Together with
  late rejections this lets two Nodes apply different entries (\<open>committed_entries_diverge\<close>), so the
  development has no theorem that all Nodes apply the same log. A Snapshot that a Leader sends to a
  Follower which has already committed more takes the state machine of that Follower back, and it applies
  the same entries again (\<open>stale_snapshot\<close> in \<open>Raft_Log\<close>). A crash that leaves a segment file
  without its whole header makes recovery fail; the crash theorems name this case.

  \<^bold>\<open>Not modelled.\<close>
  \<^item> \<open>Load\<close> in \<open>config.go\<close>: the YAML decoder is a third-party package.
  \<^item> \<open>Run\<close> and the rest of \<open>node.go\<close>: listeners, gRPC servers, goroutines and signals, which are process wiring.
  \<^item> \<open>metrics.go\<close>: counters printed over HTTP; those that the runtime and the loop raise are fields of their state.
  \<^item> \<open>cli.go\<close> and the programs under \<open>cmd/\<close>: flags, printing and exit codes around the client and the Node.
  \<^item> The commands of \<open>client.go\<close> besides \<open>withLeader\<close>: they fill requests and copy responses.
  \<^item> \<open>CreateSnapshot\<close> in \<open>internal/node/snapshot.go\<close>: it hands a waiter to the owner loop, whose handling is modelled.
  \<^item> The code under \<open>gen/\<close>: generated from \<open>node.proto\<close>, whose messages are records here.
  \<^item> Directory locks, file permissions, the texts of errors and trace events, and the writing of the trace file.
  \<^item> The durability of the Snapshot directory: an installed file is visible at once, so the order of the
    sync and the rename in \<open>Save\<close> cannot be told apart. The validation of a file reads its payload as a
    whole rather than as a stream.
  \<^item> Nil maps and slices in a Snapshot state, which \<open>encoding/json\<close> writes as null; the program writes
    only non-nil ones.
\<close>

end
